(* ===== verification/Prelude.thy ===== *)
theory Prelude
  imports Main "HOL-Library.Word" "HOL-Library.Signed_Division"
begin

text \<open>
  Shared vocabulary of the development: the outcome of a fallible Rust computation, the
  checked machine arithmetic of a crate built with \<open>overflow-checks = true\<close> (see
  \<open>[profile.release]\<close> in Cargo.toml: an overflow is a panic, never a wrap-around), the
  truncating division of Rust, and the generic lemmas and lemma collections that the
  component theories use.

  Integers that take part in arithmetic (\<open>i64\<close>, \<open>u64\<close>, \<open>u128\<close>, \<open>i128\<close> amounts, lots,
  timestamps) are HOL integers whose range is enforced where the code enforces it, by the
  checked operations below; an \<open>as\<close> cast writes its modulus out. The bit patterns of the
  order keys (\<open>u128\<close> keys and \<open>u64\<close> price data) are words.
\<close>

section \<open>Outcomes\<close>

text \<open>The variants of \<open>OpenBookError\<close> in error.rs, in the order of the source.\<close>

datatype openbook_error =
    SomeError
  | InvalidInputNameLength
  | InvalidInputMarketExpired
  | InvalidInputMarketFees
  | InvalidInputLots
  | InvalidInputLotsSize
  | InvalidInputOrdersAmounts
  | InvalidInputCancelSize
  | InvalidInputPriceLots
  | InvalidInputPegLimit
  | InvalidInputOrderType
  | InvalidInputOrderId
  | InvalidInputHeapSlots
  | InvalidOracleTypes
  | InvalidSecondOracle
  | NoCloseMarketAdmin
  | InvalidCloseMarketAdmin
  | InvalidOpenOrdersAdmin
  | InvalidConsumeEventsAdmin
  | InvalidMarketVault
  | IndexerActiveOO
  | OraclePegInvalidOracleState
  | UnknownOracleType
  | OracleConfidence
  | OracleStale
  | OrderIdNotFound
  | EventHeapContainsElements
  | InvalidOrderPostIOC
  | InvalidOrderPostMarket
  | WouldSelfTrade
  | MarketHasExpired
  | InvalidPriceLots
  | InvalidOraclePrice
  | MarketHasNotExpired
  | NoOwnerOrDelegate
  | NoOwner
  | OpenOrdersFull
  | BookContainsElements
  | OpenOrdersOrderNotFound
  | InvalidPostAmount
  | DisabledOraclePeg
  | NonEmptyMarket
  | NonEmptyOpenOrdersPosition
  | WouldExecutePartially

text \<open>
  How a computation stops without a value: an error of the program, an error raised by
  the Anchor framework (a violated \<open>require\<close> without a code of its own, an account
  constraint, an account that cannot be loaded), an error of an invoked program (token and
  system transfers), a panic (failed \<open>assert\<close>, \<open>unwrap\<close> of \<open>None\<close>, index out of
  bounds, arithmetic overflow), or a loop of the model that used up its fuel.
\<close>

datatype anchor_error =
    RequireGteViolated
  | RequireKeysEqViolated
  | RequireKeysNeqViolated
  | ConstraintHasOne
  | ConstraintRaw
  | ConstraintTokenMint
  | ConstraintSeeds
  | AccountLoadError
  | AccountBorrowFailed
  | AccountOwnedByWrongProgram
  | AccountDiscriminatorNotFound
  | AccountDiscriminatorMismatch

datatype abort =
    Err openbook_error
  | AnchorErr anchor_error
  | CpiErr
  | Panic
  | OutOfFuel

type_synonym 'a res = "abort + 'a"

abbreviation Ok :: "'a \<Rightarrow> 'a res" where
  "Ok x \<equiv> Inr x"

definition bnd :: "'a res \<Rightarrow> ('a \<Rightarrow> 'b res) \<Rightarrow> 'b res" where
  "bnd m f = (case m of Inl e \<Rightarrow> Inl e | Inr x \<Rightarrow> f x)"

definition require :: "bool \<Rightarrow> openbook_error \<Rightarrow> unit res" where
  "require b e = (if b then Ok () else Inl (Err e))"

definition require_anchor :: "bool \<Rightarrow> anchor_error \<Rightarrow> unit res" where
  "require_anchor b e = (if b then Ok () else Inl (AnchorErr e))"

definition assert_that :: "bool \<Rightarrow> unit res" where
  "assert_that b = (if b then Ok () else Inl Panic)"

definition unwrap :: "'a option \<Rightarrow> 'a res" where
  "unwrap m = (case m of None \<Rightarrow> Inl Panic | Some x \<Rightarrow> Ok x)"

definition ok_or :: "'a option \<Rightarrow> openbook_error \<Rightarrow> 'a res" where
  "ok_or m e = (case m of None \<Rightarrow> Inl (Err e) | Some x \<Rightarrow> Ok x)"

named_theorems res_simps "inversion of outcomes"
named_theorems chk_simps "checked arithmetic inside its range"

lemma bnd_Inl [simp]: "bnd (Inl e) f = Inl e"
  by (simp add: bnd_def)

lemma bnd_Inr [simp]: "bnd (Inr x) f = f x"
  by (simp add: bnd_def)

lemma bnd_eq_Inr [res_simps]: "bnd m f = Inr y \<longleftrightarrow> (\<exists>x. m = Inr x \<and> f x = Inr y)"
  by (cases m) auto

lemma bnd_eq_Inl [res_simps]:
  "bnd m f = Inl e \<longleftrightarrow> m = Inl e \<or> (\<exists>x. m = Inr x \<and> f x = Inl e)"
  by (cases m) auto

lemma bnd_assoc: "bnd (bnd m f) g = bnd m (\<lambda>x. bnd (f x) g)"
  by (cases m) auto

lemma bnd_cong [fundef_cong]:
  "m = m' \<Longrightarrow> (\<And>x. m' = Inr x \<Longrightarrow> f x = f' x) \<Longrightarrow> bnd m f = bnd m' f'"
  by (cases m') auto

lemma require_eq_Inr [res_simps]: "require b e = Inr u \<longleftrightarrow> b"
  by (simp add: require_def)

lemma require_eq_Inl [res_simps]: "require b e = Inl a \<longleftrightarrow> \<not> b \<and> a = Err e"
  by (auto simp: require_def)

lemma require_True [simp]: "require True e = Ok ()"
  by (simp add: require_def)

lemma require_False [simp]: "require False e = Inl (Err e)"
  by (simp add: require_def)

lemma require_anchor_eq_Inr [res_simps]: "require_anchor b e = Inr u \<longleftrightarrow> b"
  by (simp add: require_anchor_def)

lemma require_anchor_eq_Inl [res_simps]:
  "require_anchor b e = Inl a \<longleftrightarrow> \<not> b \<and> a = AnchorErr e"
  by (auto simp: require_anchor_def)

lemma require_anchor_True [simp]: "require_anchor True e = Ok ()"
  by (simp add: require_anchor_def)

lemma require_anchor_False [simp]: "require_anchor False e = Inl (AnchorErr e)"
  by (simp add: require_anchor_def)

lemma assert_that_eq_Inr [res_simps]: "assert_that b = Inr u \<longleftrightarrow> b"
  by (simp add: assert_that_def)

lemma assert_that_eq_Inl [res_simps]: "assert_that b = Inl a \<longleftrightarrow> \<not> b \<and> a = Panic"
  by (auto simp: assert_that_def)

lemma assert_that_True [simp]: "assert_that True = Ok ()"
  by (simp add: assert_that_def)

lemma assert_that_False [simp]: "assert_that False = Inl Panic"
  by (simp add: assert_that_def)

lemma unwrap_simps [simp]: "unwrap None = Inl Panic" "unwrap (Some x) = Ok x"
  by (simp_all add: unwrap_def)

lemma unwrap_eq_Inr [res_simps]: "unwrap m = Inr x \<longleftrightarrow> m = Some x"
  by (cases m) auto

lemma ok_or_simps [simp]: "ok_or None e = Inl (Err e)" "ok_or (Some x) e = Ok x"
  by (simp_all add: ok_or_def)

lemma ok_or_eq_Inr [res_simps]: "ok_or m e = Inr x \<longleftrightarrow> m = Some x"
  by (cases m) auto

section \<open>Machine integers\<close>

type_synonym i64 = int
type_synonym u64 = int
type_synonym i128 = int
type_synonym u128 = int
type_synonym key128 = "128 word"
type_synonym price_word = "64 word"
type_synonym pubkey = "256 word"

definition I64_MAX :: int where "I64_MAX = 9223372036854775807"
definition I64_MIN :: int where "I64_MIN = - 9223372036854775808"
definition U64_MAX :: int where "U64_MAX = 18446744073709551615"
definition U8_MAX :: int where "U8_MAX = 255"
definition U16_MAX :: int where "U16_MAX = 65535"
definition U32_MAX :: int where "U32_MAX = 4294967295"
definition U128_MAX :: int where "U128_MAX = 340282366920938463463374607431768211455"
definition I128_MAX :: int where "I128_MAX = 170141183460469231731687303715884105727"

lemmas int_limits = I64_MAX_def I64_MIN_def U64_MAX_def U8_MAX_def U16_MAX_def U32_MAX_def
  U128_MAX_def I128_MAX_def

definition is_i64 :: "int \<Rightarrow> bool" where "is_i64 x \<longleftrightarrow> I64_MIN \<le> x \<and> x \<le> I64_MAX"
definition is_u64 :: "int \<Rightarrow> bool" where "is_u64 x \<longleftrightarrow> 0 \<le> x \<and> x \<le> U64_MAX"
definition is_u128 :: "int \<Rightarrow> bool" where "is_u128 x \<longleftrightarrow> 0 \<le> x \<and> x \<le> U128_MAX"
definition is_i128 :: "int \<Rightarrow> bool" where
  "is_i128 x \<longleftrightarrow> - I128_MAX - 1 \<le> x \<and> x \<le> I128_MAX"
definition is_u8 :: "int \<Rightarrow> bool" where "is_u8 x \<longleftrightarrow> 0 \<le> x \<and> x \<le> U8_MAX"
definition is_i8 :: "int \<Rightarrow> bool" where "is_i8 x \<longleftrightarrow> - 128 \<le> x \<and> x \<le> 127"
definition is_u16 :: "int \<Rightarrow> bool" where "is_u16 x \<longleftrightarrow> 0 \<le> x \<and> x \<le> U16_MAX"
definition is_u32 :: "int \<Rightarrow> bool" where "is_u32 x \<longleftrightarrow> 0 \<le> x \<and> x \<le> U32_MAX"

lemmas int_ranges = is_i64_def is_u64_def is_u128_def is_i128_def is_u8_def is_i8_def is_u16_def is_u32_def

text \<open>A result that does not fit its type is a panic.\<close>

definition chk :: "(int \<Rightarrow> bool) \<Rightarrow> int \<Rightarrow> int res" where
  "chk ty x = (if ty x then Ok x else Inl Panic)"

abbreviation chk_i64 :: "int \<Rightarrow> i64 res" where "chk_i64 \<equiv> chk is_i64"
abbreviation chk_u64 :: "int \<Rightarrow> u64 res" where "chk_u64 \<equiv> chk is_u64"
abbreviation chk_u128 :: "int \<Rightarrow> u128 res" where "chk_u128 \<equiv> chk is_u128"
abbreviation chk_i128 :: "int \<Rightarrow> i128 res" where "chk_i128 \<equiv> chk is_i128"
abbreviation chk_i8 :: "int \<Rightarrow> int res" where "chk_i8 \<equiv> chk is_i8"
abbreviation chk_u8 :: "int \<Rightarrow> int res" where "chk_u8 \<equiv> chk is_u8"
abbreviation chk_u32 :: "int \<Rightarrow> int res" where "chk_u32 \<equiv> chk is_u32"

lemma chk_ok [simp, chk_simps]: "ty x \<Longrightarrow> chk ty x = Ok x"
  by (simp add: chk_def)

lemma chk_bad [simp]: "\<not> ty x \<Longrightarrow> chk ty x = Inl Panic"
  by (simp add: chk_def)

lemma chk_eq_Inr [res_simps]: "chk ty x = Inr y \<longleftrightarrow> ty x \<and> y = x"
  by (auto simp: chk_def)

lemma chk_eq_Inl [res_simps]: "chk ty x = Inl a \<longleftrightarrow> \<not> ty x \<and> a = Panic"
  by (auto simp: chk_def)

text \<open>Casts keep the low bits: \<open>x as u64\<close> is \<open>x mod 2^64\<close>, \<open>x as i64\<close> its signed reading.\<close>

definition as_u64 :: "int \<Rightarrow> u64" where
  "as_u64 x = x mod (U64_MAX + 1)"

definition as_i64 :: "int \<Rightarrow> i64" where
  "as_i64 x = (let r = x mod (U64_MAX + 1) in if r \<le> I64_MAX then r else r - (U64_MAX + 1))"

definition as_i8 :: "int \<Rightarrow> int" where
  "as_i8 x = (x + 128) mod 256 - 128"

definition sat_u64 :: "int \<Rightarrow> u64" where
  "sat_u64 x = max 0 (min U64_MAX x)"

lemma as_u64_id [simp]: "0 \<le> x \<Longrightarrow> x \<le> U64_MAX \<Longrightarrow> as_u64 x = x"
  by (simp add: as_u64_def int_limits)

lemma is_u64_as_u64 [simp]: "is_u64 (as_u64 x)"
  by (simp add: as_u64_def is_u64_def int_limits)

lemma as_i64_id: "0 \<le> x \<Longrightarrow> x \<le> I64_MAX \<Longrightarrow> as_i64 x = x"
  by (simp add: as_i64_def int_limits)

text \<open>Rust division truncates towards zero; a zero divisor is a panic.\<close>

definition div_chk :: "(int \<Rightarrow> bool) \<Rightarrow> int \<Rightarrow> int \<Rightarrow> int res" where
  "div_chk ty a b = (if b = 0 then Inl Panic else chk ty (a sdiv b))"

lemma sdiv_nonneg: "0 \<le> a \<Longrightarrow> 0 < b \<Longrightarrow> (a::int) sdiv b = a div b"
  by (cases "a = 0") (simp_all add: signed_divide_int_def sgn_if)

lemma div_chk_pos [simp]:
  "0 \<le> a \<Longrightarrow> 0 < b \<Longrightarrow> div_chk ty a b = chk ty (a div b)"
  by (simp add: div_chk_def sdiv_nonneg)

definition sat_i64 :: "int \<Rightarrow> i64" where
  "sat_i64 x = max I64_MIN (min I64_MAX x)"

section \<open>Lists\<close>

text \<open>An indexed read and write of a fixed-size array; out of bounds is a panic.\<close>

definition arr_get :: "'a list \<Rightarrow> nat \<Rightarrow> 'a res" where
  "arr_get xs i = (if i < length xs then Ok (xs ! i) else Inl Panic)"

definition arr_set :: "'a list \<Rightarrow> nat \<Rightarrow> 'a \<Rightarrow> 'a list res" where
  "arr_set xs i x = (if i < length xs then Ok (xs[i := x]) else Inl Panic)"

lemma arr_get_ok [simp]: "i < length xs \<Longrightarrow> arr_get xs i = Ok (xs ! i)"
  by (simp add: arr_get_def)

lemma arr_set_ok [simp]: "i < length xs \<Longrightarrow> arr_set xs i x = Ok (xs[i := x])"
  by (simp add: arr_set_def)

lemma arr_get_eq_Inr [res_simps]: "arr_get xs i = Inr y \<longleftrightarrow> i < length xs \<and> y = xs ! i"
  by (auto simp: arr_get_def)

lemma arr_set_eq_Inr [res_simps]: "arr_set xs i x = Inr ys \<longleftrightarrow> i < length xs \<and> ys = xs[i := x]"
  by (auto simp: arr_set_def)

end
