(* ===== verification/Order_Types.thy ===== *)
theory Order_Types
  imports Prelude
begin

text \<open>
  The enumerations of state/orderbook/order_type.rs and the order-tree selector of
  bookside.rs: sides, price comparisons from a side's point of view, order types and the
  combined side-and-tree tag. A \<open>repr(u8)\<close> tag byte is its enumeration value.
\<close>

unbundle bit_operations_syntax

datatype side = Bid | Ask

fun invert_side :: "side \<Rightarrow> side" where
  "invert_side Bid = Ask"
| "invert_side Ask = Bid"

fun is_price_data_better :: "side \<Rightarrow> price_word \<Rightarrow> price_word \<Rightarrow> bool" where
  "is_price_data_better Bid lhs rhs = (lhs > rhs)"
| "is_price_data_better Ask lhs rhs = (lhs < rhs)"

fun is_price_better :: "side \<Rightarrow> i64 \<Rightarrow> i64 \<Rightarrow> bool" where
  "is_price_better Bid lhs rhs = (lhs > rhs)"
| "is_price_better Ask lhs rhs = (lhs < rhs)"

fun is_price_within_limit :: "side \<Rightarrow> i64 \<Rightarrow> i64 \<Rightarrow> bool" where
  "is_price_within_limit Bid price limit = (price \<le> limit)"
| "is_price_within_limit Ask price limit = (price \<ge> limit)"

datatype place_order_type =
    PlaceLimit | PlaceImmediateOrCancel | PlacePostOnly | PlaceMarket | PlacePostOnlySlide
  | PlaceFillOrKill

datatype post_order_type = PostLimit | PostOnly | PostOnlySlide

fun to_post_order_type :: "place_order_type \<Rightarrow> post_order_type res" where
  "to_post_order_type PlaceMarket = Inl (Err InvalidOrderPostMarket)"
| "to_post_order_type PlaceImmediateOrCancel = Inl (Err InvalidOrderPostIOC)"
| "to_post_order_type PlaceFillOrKill = Inl (Err InvalidOrderPostIOC)"
| "to_post_order_type PlaceLimit = Ok PostLimit"
| "to_post_order_type PlacePostOnly = Ok PostOnly"
| "to_post_order_type PlacePostOnlySlide = Ok PostOnlySlide"

datatype self_trade_behavior = DecrementTake | CancelProvide | AbortTransaction

datatype book_tree = Fixed | OraclePegged

datatype side_and_tree = BidFixed | AskFixed | BidOraclePegged | AskOraclePegged

fun side_and_tree_new :: "side \<Rightarrow> book_tree \<Rightarrow> side_and_tree" where
  "side_and_tree_new Bid Fixed = BidFixed"
| "side_and_tree_new Ask Fixed = AskFixed"
| "side_and_tree_new Bid OraclePegged = BidOraclePegged"
| "side_and_tree_new Ask OraclePegged = AskOraclePegged"

fun sat_side :: "side_and_tree \<Rightarrow> side" where
  "sat_side BidFixed = Bid"
| "sat_side BidOraclePegged = Bid"
| "sat_side AskFixed = Ask"
| "sat_side AskOraclePegged = Ask"

fun sat_order_tree :: "side_and_tree \<Rightarrow> book_tree" where
  "sat_order_tree BidFixed = Fixed"
| "sat_order_tree AskFixed = Fixed"
| "sat_order_tree BidOraclePegged = OraclePegged"
| "sat_order_tree AskOraclePegged = OraclePegged"

lemma invert_invert [simp]: "invert_side (invert_side s) = s"
  by (cases s) auto

lemma invert_side_neq [simp]: "invert_side s \<noteq> s" "s \<noteq> invert_side s"
  by (cases s; simp)+

lemma sat_side_new [simp]: "sat_side (side_and_tree_new s t) = s"
  by (cases s; cases t) auto

lemma sat_tree_new [simp]: "sat_order_tree (side_and_tree_new s t) = t"
  by (cases s; cases t) auto

lemma sat_new_surj: "side_and_tree_new (sat_side x) (sat_order_tree x) = x"
  by (cases x) auto

lemma better_within_limit:
  "is_price_within_limit s p l \<longleftrightarrow> \<not> is_price_better s p l"
  by (cases s) auto

end
