(* ===== verification/Bits.thy ===== *)
theory Bits
  imports Prelude
begin

text \<open>
  Bit-level facts about 128-bit order keys: agreement of two keys on their highest bits,
  \<open>leading_zeros\<close> of an exclusive or as a test for it, and the order of keys that first
  differ at a given bit. Nothing here is specific to the order book.
\<close>

unbundle bit_operations_syntax

text \<open>\<open>u128::leading_zeros\<close>.\<close>

definition leading_zeros :: "key128 \<Rightarrow> nat" where
  "leading_zeros w = length (takeWhile (\<lambda>i. \<not> bit w i) (rev [0..<128]))"

text \<open>Two keys agree on their top \<open>n\<close> bits.\<close>

definition agree :: "nat \<Rightarrow> key128 \<Rightarrow> key128 \<Rightarrow> bool" where
  "agree n a b \<longleftrightarrow> (\<forall>j. j < 128 \<longrightarrow> 128 \<le> j + n \<longrightarrow> bit a j = bit b j)"

lemma agreeD: "agree n a b \<Longrightarrow> j < 128 \<Longrightarrow> 128 \<le> j + n \<Longrightarrow> bit a j = bit b j"
  by (simp add: agree_def)

lemma agree_refl [simp]: "agree n a a"
  by (simp add: agree_def)

lemma agree_sym: "agree n a b \<Longrightarrow> agree n b a"
  by (simp add: agree_def)

lemma agree_trans: "agree n a b \<Longrightarrow> agree n b c \<Longrightarrow> agree n a c"
  by (simp add: agree_def)

lemma agree_mono: "agree n a b \<Longrightarrow> m \<le> n \<Longrightarrow> agree m a b"
  by (auto simp: agree_def)

lemma agree_128: "agree 128 a b \<longleftrightarrow> a = b"
  by (auto simp: agree_def intro!: bit_word_eqI)

lemma leading_zeros_le: "leading_zeros w \<le> 128"
  unfolding leading_zeros_def
  by (metis diff_zero length_rev length_takeWhile_le length_upt)

lemma nth_rev_upt: "i < 128 \<Longrightarrow> rev [0..<128] ! i = 127 - i"
  by (simp add: rev_nth del: upt_Suc)

lemma leading_zeros_ge:
  "n \<le> 128 \<Longrightarrow> n \<le> leading_zeros w \<longleftrightarrow> (\<forall>i<n. \<not> bit w (127 - i))"
proof
  assume n: "n \<le> 128" and le: "n \<le> leading_zeros w"
  show "\<forall>i<n. \<not> bit w (127 - i)"
  proof (intro allI impI)
    fix i assume "i < n"
    with le have "i < length (takeWhile (\<lambda>i. \<not> bit w i) (rev [0..<128]))"
      by (simp add: leading_zeros_def)
    moreover from this have "takeWhile (\<lambda>i. \<not> bit w i) (rev [0..<128]) ! i = 127 - i"
      using \<open>i < n\<close> n by (simp add: takeWhile_nth nth_rev_upt del: upt_Suc)
    ultimately have "127 - i \<in> set (takeWhile (\<lambda>i. \<not> bit w i) (rev [0..<128]))"
      by (metis nth_mem)
    then show "\<not> bit w (127 - i)"
      by (rule set_takeWhileD [THEN conjunct2])
  qed
next
  assume n: "n \<le> 128" and all: "\<forall>i<n. \<not> bit w (127 - i)"
  have "n \<le> length (takeWhile (\<lambda>i. \<not> bit w i) (rev [0..<128]))"
    by (rule length_takeWhile_less_P_nth)
      (use n all in \<open>simp_all add: nth_rev_upt del: upt_Suc\<close>)
  then show "n \<le> leading_zeros w" by (simp add: leading_zeros_def)
qed

lemma leading_zeros_agree: "n \<le> 128 \<Longrightarrow> n \<le> leading_zeros (a XOR b) \<longleftrightarrow> agree n a b"
proof -
  assume n: "n \<le> 128"
  have "(\<forall>i<n. \<not> bit (a XOR b) (127 - i)) \<longleftrightarrow> agree n a b"
  proof
    assume all: "\<forall>i<n. \<not> bit (a XOR b) (127 - i)"
    show "agree n a b"
      unfolding agree_def
    proof (intro allI impI)
      fix j :: nat assume j: "j < 128" "128 \<le> j + n"
      then have "127 - j < n" "127 - (127 - j) = j" by auto
      with all have "\<not> bit (a XOR b) j" by metis
      with j show "bit a j = bit b j" by (simp add: bit_xor_iff)
    qed
  next
    assume "agree n a b"
    then show "\<forall>i<n. \<not> bit (a XOR b) (127 - i)"
      using n by (auto simp: agree_def bit_xor_iff)
  qed
  with leading_zeros_ge [OF n] show ?thesis by simp
qed

text \<open>At the first bit after the shared prefix the keys differ.\<close>

lemma leading_zeros_differ:
  assumes "a \<noteq> b"
  shows "leading_zeros (a XOR b) < 128"
    and "bit a (127 - leading_zeros (a XOR b)) \<noteq> bit b (127 - leading_zeros (a XOR b))"
proof -
  let ?n = "leading_zeros (a XOR b)"
  show lt: "?n < 128"
  proof (rule ccontr)
    assume "\<not> ?n < 128"
    then have "agree 128 a b" using leading_zeros_agree [of 128 a b] by simp
    with assms show False by (simp add: agree_128)
  qed
  have ag: "agree ?n a b" using lt leading_zeros_agree [of ?n a b] by simp
  have "\<not> agree (Suc ?n) a b" using lt leading_zeros_agree [of "Suc ?n" a b] by simp
  then obtain j where j: "j < 128" "128 \<le> j + Suc ?n" "bit a j \<noteq> bit b j"
    by (auto simp: agree_def)
  have "j = 127 - ?n"
  proof (rule ccontr)
    assume "j \<noteq> 127 - ?n"
    with j lt have "128 \<le> j + ?n" by linarith
    with ag j show False by (auto dest: agreeD)
  qed
  with j show "bit a (127 - ?n) \<noteq> bit b (127 - ?n)" by simp
qed

text \<open>The mask test \<open>(mask & key) != 0\<close> with a single-bit mask reads that bit.\<close>

lemma mask_bit: "n < 128 \<Longrightarrow> (push_bit n (1 :: key128) AND k \<noteq> 0) = bit k n"
  by (simp add: bit_iff_and_push_bit_not_eq_0 and.commute)

lemma mask_bit': "n < 128 \<Longrightarrow> (k AND push_bit n (1 :: key128) \<noteq> 0) = bit k n"
  by (subst and.commute) (rule mask_bit)

lemma and_exp_bit [simp]: "n < 128 \<Longrightarrow> ((k :: key128) AND 2 ^ n = 0) = (\<not> bit k n)"
  using mask_bit' [of n k] by (cases "bit k n") simp_all

lemma exp_and_bit [simp]: "n < 128 \<Longrightarrow> (2 ^ n AND (k :: key128) = 0) = (\<not> bit k n)"
  by (subst and.commute) simp

text \<open>Keys that share a prefix are ordered by the bit after it.\<close>

lemma uint_div_bit:
  assumes "n < 128"
  shows "uint (w :: key128) div 2 ^ n = 2 * (uint w div 2 ^ Suc n) + of_bool (bit w n)"
proof -
  have "uint w div 2 ^ n = 2 * (uint w div 2 ^ n div 2) + uint w div 2 ^ n mod 2" by simp
  also have "uint w div 2 ^ n div 2 = uint w div 2 ^ Suc n"
    by (simp add: zdiv_zmult2_eq [symmetric] mult.commute)
  also have "uint w div 2 ^ n mod 2 = of_bool (bit w n)"
    using assms by (simp add: bit_iff_odd mod_2_eq_odd bit_uint_iff flip: bit_iff_odd)
  finally show ?thesis .
qed

lemma uint_div_agree:
  assumes "agree p a b" and "p \<le> 128"
  shows "uint a div 2 ^ (128 - p) = uint b div 2 ^ (128 - p)"
proof -
  have "drop_bit (128 - p) a = drop_bit (128 - p) b"
  proof (rule bit_word_eqI)
    fix n :: nat
    assume "n < LENGTH(128)"
    show "bit (drop_bit (128 - p) a) n = bit (drop_bit (128 - p) b) n"
    proof (cases "128 - p + n < 128")
      case True
      with assms show ?thesis by (simp add: bit_drop_bit_eq agree_def)
    next
      case False
      then show ?thesis by (auto simp: bit_drop_bit_eq dest: bit_imp_le_length)
    qed
  qed
  then have "uint (drop_bit (128 - p) a) = uint (drop_bit (128 - p) b)" by simp
  then show ?thesis
    unfolding unsigned_drop_bit_eq by (simp add: drop_bit_eq_div bintr_uint)
qed

lemma bit_split_less:
  assumes p: "p \<le> 127" and ag: "agree p a b"
    and a0: "\<not> bit a (127 - p)" and b1: "bit b (127 - p)"
  shows "a < b"
proof (rule ccontr)
  assume "\<not> a < b"
  then have "uint b div 2 ^ (127 - p) \<le> uint a div 2 ^ (127 - p)"
    by (intro zdiv_mono1) (simp_all add: not_less word_le_def)
  moreover have "Suc (127 - p) = 128 - p" using p by simp
  ultimately show False
    using uint_div_bit [of "127 - p" a] uint_div_bit [of "127 - p" b]
      uint_div_agree [OF ag] a0 b1 p by simp
qed

end
