(* ===== verification/Nodes.thy ===== *)
theory Nodes
  imports Order_Types Bits
begin

text \<open>
  state/orderbook/nodes.rs: order keys and price data, and the nodes of the order trees.
  An \<open>AnyNode\<close> is a tagged 88-byte block that \<open>case()\<close> reinterprets by its tag; here it is
  a datatype with one constructor per tag. A zeroed block and a block with a byte outside
  the tag's range both read as \<open>None\<close> in \<open>case()\<close>: they are \<open>Uninitialized\<close>. Padding and
  reserved bytes carry no state and are left out. The arrays of length two that the code
  indexes by \<open>crit_bit as usize\<close> are pairs, read by \<open>sel2\<close> and written by \<open>upd2\<close>.
\<close>

unbundle bit_operations_syntax

section \<open>Keys and price data\<close>

definition new_node_key :: "side \<Rightarrow> price_word \<Rightarrow> 64 word \<Rightarrow> key128" where
  "new_node_key side price_data seq_num =
     (let seq_num = (if side = Bid then NOT seq_num else seq_num);
          upper = push_bit 64 (ucast price_data :: key128)
      in upper OR ucast seq_num)"

definition oracle_pegged_price_data :: "i64 \<Rightarrow> price_word" where
  "oracle_pegged_price_data price_offset_lots =
     (word_of_int price_offset_lots :: price_word) + (0xFFFFFFFFFFFFFFFF div 2 + 1)"

definition oracle_pegged_price_offset :: "price_word \<Rightarrow> i64" where
  "oracle_pegged_price_offset price_data = sint (price_data - (0xFFFFFFFFFFFFFFFF div 2 + 1))"

definition fixed_price_data :: "i64 \<Rightarrow> price_word res" where
  "fixed_price_data price_lots =
     bnd (require_anchor (price_lots \<ge> 1) RequireGteViolated) (\<lambda>_.
     Ok (word_of_int price_lots))"

definition fixed_price_lots :: "price_word \<Rightarrow> i64 res" where
  "fixed_price_lots price_data =
     bnd (assert_that (price_data \<le> word_of_int I64_MAX)) (\<lambda>_. Ok (sint price_data))"

definition MID :: price_word where "MID = 0x8000000000000000"

lemma half_word: "(0xFFFFFFFFFFFFFFFF div 2 + 1 :: price_word) = MID"
  by (simp add: MID_def)

lemma uint_pegged:
  assumes "is_i64 x"
  shows "uint (oracle_pegged_price_data x) = x + 2 ^ 63"
proof -
  have "uint (oracle_pegged_price_data x) = (x + 2 ^ 63) mod 2 ^ 64"
    unfolding oracle_pegged_price_data_def half_word MID_def
    by (simp add: uint_word_ariths uint_word_of_int mod_simps)
  with assms show ?thesis by (simp add: is_i64_def int_limits)
qed

lemma pegged_offset_data: "is_i64 x \<Longrightarrow> oracle_pegged_price_offset (oracle_pegged_price_data x) = x"
  unfolding oracle_pegged_price_offset_def oracle_pegged_price_data_def
  by (simp add: is_i64_def int_limits int_word_sint)

lemma pegged_data_offset: "oracle_pegged_price_data (oracle_pegged_price_offset w) = w"
  unfolding oracle_pegged_price_offset_def oracle_pegged_price_data_def by simp

lemma is_i64_sint: "is_i64 (sint (w :: 64 word))"
  using sint_range_size [of w] by (simp add: is_i64_def int_limits word_size)

lemma is_i64_offset: "is_i64 (oracle_pegged_price_offset w)"
  by (simp add: oracle_pegged_price_offset_def is_i64_sint)

lemma pegged_data_less:
  "is_i64 x \<Longrightarrow> is_i64 y \<Longrightarrow>
   oracle_pegged_price_data x < oracle_pegged_price_data y \<longleftrightarrow> x < y"
  by (simp add: word_less_def uint_pegged)

lemma fixed_price_lots_data:
  assumes "is_i64 p" and "1 \<le> p"
  shows "bnd (fixed_price_data p) fixed_price_lots = Ok p"
proof -
  have "sint (word_of_int p :: 64 word) = p"
    using assms by (simp add: is_i64_def int_limits int_word_sint)
  moreover have "(word_of_int p :: 64 word) \<le> word_of_int I64_MAX"
    using assms by (simp add: word_le_def uint_word_of_int is_i64_def int_limits)
  ultimately show ?thesis
    using assms by (simp add: fixed_price_data_def fixed_price_lots_def)
qed

section \<open>The order of keys\<close>

definition key_price :: "key128 \<Rightarrow> price_word" where
  "key_price k = ucast (drop_bit 64 k)"

definition key_seq :: "key128 \<Rightarrow> 64 word" where
  "key_seq k = ucast k"

lemma bit_new_node_key:
  "bit (new_node_key s p n) i \<longleftrightarrow>
   i < 128 \<and> (if i < 64 then bit (if s = Bid then NOT n else n) i else bit p (i - 64))"
  by (auto simp: new_node_key_def Let_def bit_or_iff bit_push_bit_iff bit_ucast_iff
    dest: bit_imp_le_length)

lemma key_price_new [simp]: "key_price (new_node_key s p n) = p"
  by (rule bit_word_eqI) (simp add: key_price_def bit_ucast_iff bit_drop_bit_eq bit_new_node_key)

lemma key_seq_new: "key_seq (new_node_key s p n) = (if s = Bid then NOT n else n)"
  by (rule bit_word_eqI) (simp add: key_seq_def bit_ucast_iff bit_new_node_key)

lemma uint_key: "uint k = uint (key_price k) * 2 ^ 64 + uint (key_seq k)"
proof -
  have "uint k < 340282366920938463463374607431768211456" using uint_lt2p [of k] by simp
  then have "uint k div 18446744073709551616 < 18446744073709551616" by linarith
  then have "uint k div 2 ^ 64 < 2 ^ 64" by simp
  then have "uint (key_price k) = uint k div 2 ^ 64"
    unfolding key_price_def unsigned_ucast_eq unsigned_drop_bit_eq
    by (simp add: drop_bit_eq_div take_bit_eq_mod bintr_uint pos_imp_zdiv_nonneg_iff)
  moreover have "uint (key_seq k) = uint k mod 2 ^ 64"
    by (simp add: key_seq_def unsigned_ucast_eq take_bit_eq_mod)
  ultimately show ?thesis by simp
qed

lemma key_eqI: "key_price a = key_price b \<Longrightarrow> key_seq a = key_seq b \<Longrightarrow> a = b"
  using uint_key [of a] uint_key [of b] by (metis word_uint_eqI)

lemma digit_less_iff:
  assumes "0 \<le> x" "x < N" "0 \<le> y" "y < (N::int)"
  shows "p * N + x < q * N + y \<longleftrightarrow> p < q \<or> p = q \<and> x < y"
proof -
  have step: "a * N + u < b * N + v" if "a < b" "u < N" "0 \<le> v" for a b u v
  proof -
    from that assms have "(a + 1) * N \<le> b * N" by (intro mult_right_mono) auto
    with that show ?thesis by (simp add: algebra_simps)
  qed
  consider "p < q" | "p = q" | "q < p" by linarith
  then show ?thesis
    using step [of p q x y] step [of q p y x] assms by cases auto
qed

lemma key_less_iff:
  "a < b \<longleftrightarrow> key_price a < key_price b \<or> key_price a = key_price b \<and> key_seq a < key_seq b"
proof -
  have s: "uint (key_seq a) < 2 ^ 64" "uint (key_seq b) < 2 ^ 64"
    using uint_lt2p [of "key_seq a"] uint_lt2p [of "key_seq b"] by simp_all
  have n: "0 \<le> uint (key_seq a)" "0 \<le> uint (key_seq b)" by simp_all
  have eq: "key_price a = key_price b \<longleftrightarrow> uint (key_price a) = uint (key_price b)"
    by (auto intro: word_uint_eqI)
  show ?thesis
    unfolding word_less_def eq uint_key [of a] uint_key [of b]
    by (rule digit_less_iff) (use s n in auto)
qed

lemma not_less_not: "NOT (a :: 64 word) < NOT b \<longleftrightarrow> b < a"
proof -
  have "NOT x = - 1 - x" for x :: "64 word" by (simp add: not_eq_complement)
  moreover have "uint (- 1 - x) = 2 ^ 64 - 1 - uint x" for x :: "64 word"
  proof -
    have "uint (- 1 - x) = uint (- 1 :: 64 word) - uint x"
      by (rule uint_sub_lem [THEN iffD1])
        (use uint_lt2p [of x] in \<open>simp add: unsigned_minus_1_eq_mask mask_eq_exp_minus_1\<close>)
    then show ?thesis by (simp add: unsigned_minus_1_eq_mask mask_eq_exp_minus_1)
  qed
  ultimately show ?thesis by (simp add: word_less_def)
qed

text \<open>
  Price-time priority: on the bid side a higher price comes first (has the larger key), on
  the ask side a lower one (the smaller key), and at one price the earlier order.
\<close>

lemma new_node_key_less:
  "new_node_key s p m < new_node_key s q n \<longleftrightarrow>
   p < q \<or> p = q \<and> (if s = Bid then n < m else m < n)"
  by (simp add: key_less_iff key_seq_new not_less_not)

lemma new_node_key_inj:
  "new_node_key s p m = new_node_key s q n \<longleftrightarrow> p = q \<and> m = n"
proof
  assume eq: "new_node_key s p m = new_node_key s q n"
  then have "key_price (new_node_key s p m) = key_price (new_node_key s q n)"
    and "key_seq (new_node_key s p m) = key_seq (new_node_key s q n)" by simp_all
  then show "p = q \<and> m = n" by (auto simp: key_seq_new split: if_splits)
qed simp

section \<open>Nodes of the order trees\<close>

definition sel2 :: "bool \<Rightarrow> 'a \<times> 'a \<Rightarrow> 'a" where
  "sel2 b p = (if b then snd p else fst p)"

definition upd2 :: "bool \<Rightarrow> 'a \<Rightarrow> 'a \<times> 'a \<Rightarrow> 'a \<times> 'a" where
  "upd2 b x p = (if b then (fst p, x) else (x, snd p))"

lemma sel2_simps [simp]: "sel2 False (a, b) = a" "sel2 True (a, b) = b"
  by (simp_all add: sel2_def)

lemma sel2_upd2 [simp]: "sel2 b (upd2 c x p) = (if b = c then x else sel2 b p)"
  by (auto simp: sel2_def upd2_def)

lemma pair_by_sel2: "(sel2 False p, sel2 True p) = p"
  by (simp add: sel2_def)

type_synonym handle = nat

record inner_node =
  prefix_len :: nat
  inner_key :: key128
  children :: "handle \<times> handle"
  child_earliest_expiry :: "u64 \<times> u64"

record leaf_node =
  owner_slot :: nat
  time_in_force :: int
  leaf_key :: key128
  leaf_owner :: pubkey
  quantity :: i64
  timestamp :: u64
  peg_limit :: i64
  client_order_id :: u64

definition inner_new :: "nat \<Rightarrow> key128 \<Rightarrow> inner_node" where
  "inner_new prefix key =
     \<lparr>prefix_len = prefix, inner_key = key, children = (0, 0),
      child_earliest_expiry = (U64_MAX, U64_MAX)\<rparr>"

definition leaf_new ::
  "nat \<Rightarrow> key128 \<Rightarrow> pubkey \<Rightarrow> i64 \<Rightarrow> u64 \<Rightarrow> int \<Rightarrow> i64 \<Rightarrow> u64 \<Rightarrow> leaf_node" where
  "leaf_new slot key owner qty ts tif peg cid =
     \<lparr>owner_slot = slot, time_in_force = tif, leaf_key = key, leaf_owner = owner,
      quantity = qty, timestamp = ts, peg_limit = peg, client_order_id = cid\<rparr>"

text \<open>The child that may hold the search key, and which one it was; \<open>127 - prefix_len\<close> is
  \<open>u32\<close> arithmetic and panics for a longer prefix.\<close>

definition walk_down :: "inner_node \<Rightarrow> key128 \<Rightarrow> (handle \<times> bool) res" where
  "walk_down inner search_key =
     bnd (chk_u32 (127 - int (prefix_len inner))) (\<lambda>_.
     let crit_bit_mask = push_bit (127 - prefix_len inner) (1 :: key128);
         crit_bit = (search_key AND crit_bit_mask) \<noteq> 0
     in Ok (sel2 crit_bit (children inner), crit_bit))"

definition inner_earliest_expiry :: "inner_node \<Rightarrow> u64" where
  "inner_earliest_expiry inner =
     min (sel2 False (child_earliest_expiry inner)) (sel2 True (child_earliest_expiry inner))"

definition price_data :: "leaf_node \<Rightarrow> price_word" where
  "price_data leaf = ucast (drop_bit 64 (leaf_key leaf))"

definition leaf_expiry :: "leaf_node \<Rightarrow> u64 res" where
  "leaf_expiry leaf =
     (if time_in_force leaf = 0 then Ok U64_MAX
      else chk_u64 (timestamp leaf + time_in_force leaf))"

definition is_expired :: "leaf_node \<Rightarrow> u64 \<Rightarrow> bool res" where
  "is_expired leaf now_ts =
     (if time_in_force leaf > 0
      then bnd (chk_u64 (timestamp leaf + time_in_force leaf)) (\<lambda>e. Ok (now_ts \<ge> e))
      else Ok False)"

text \<open>
  \<open>FreeNode h\<close> and \<open>LastFreeNode h\<close> carry the \<open>next\<close> field of the \<open>FreeNode\<close> struct; the
  two tags are told apart by \<open>OrderTreeNodes::insert\<close>.
\<close>

datatype any_node =
    Uninitialized
  | InnerNode inner_node
  | LeafNode leaf_node
  | FreeNode handle
  | LastFreeNode handle

datatype node_ref = InnerRef inner_node | LeafRef leaf_node

fun node_case :: "any_node \<Rightarrow> node_ref option" where
  "node_case (InnerNode i) = Some (InnerRef i)"
| "node_case (LeafNode l) = Some (LeafRef l)"
| "node_case Uninitialized = None"
| "node_case (FreeNode n) = None"
| "node_case (LastFreeNode n) = None"

definition any_key :: "any_node \<Rightarrow> key128 option" where
  "any_key n = (case node_case n of
     None \<Rightarrow> None
   | Some (InnerRef i) \<Rightarrow> Some (inner_key i)
   | Some (LeafRef l) \<Rightarrow> Some (leaf_key l))"

definition any_children :: "any_node \<Rightarrow> (handle \<times> handle) option res" where
  "any_children n = bnd (unwrap (node_case n)) (\<lambda>r. case r of
     InnerRef i \<Rightarrow> Ok (Some (children i))
   | LeafRef l \<Rightarrow> Ok None)"

definition as_leaf :: "any_node \<Rightarrow> leaf_node option" where
  "as_leaf n = (case node_case n of Some (LeafRef l) \<Rightarrow> Some l | _ \<Rightarrow> None)"

definition as_inner :: "any_node \<Rightarrow> inner_node option" where
  "as_inner n = (case node_case n of Some (InnerRef i) \<Rightarrow> Some i | _ \<Rightarrow> None)"

definition any_earliest_expiry :: "any_node \<Rightarrow> u64 res" where
  "any_earliest_expiry n = bnd (unwrap (node_case n)) (\<lambda>r. case r of
     InnerRef i \<Rightarrow> Ok (inner_earliest_expiry i)
   | LeafRef l \<Rightarrow> leaf_expiry l)"

lemmas node_read_defs = any_key_def any_children_def as_leaf_def as_inner_def
  any_earliest_expiry_def

lemma walk_down_ok:
  "prefix_len i \<le> 127 \<Longrightarrow>
   walk_down i k = Ok (sel2 (bit k (127 - prefix_len i)) (children i),
     bit k (127 - prefix_len i))"
  by (simp add: walk_down_def is_u32_def int_limits Let_def)

text \<open>A leaf whose expiry fits \<open>u64\<close>; every leaf placed with a clock before the year
  292 billion does.\<close>

definition leaf_ok :: "leaf_node \<Rightarrow> bool" where
  "leaf_ok l \<longleftrightarrow> 0 \<le> timestamp l \<and> 0 \<le> time_in_force l \<and>
     timestamp l + time_in_force l \<le> U64_MAX"

definition exp_of :: "leaf_node \<Rightarrow> u64" where
  "exp_of l = (if time_in_force l = 0 then U64_MAX else timestamp l + time_in_force l)"

lemma leaf_expiry_ok [simp]: "leaf_ok l \<Longrightarrow> leaf_expiry l = Ok (exp_of l)"
  by (auto simp: leaf_expiry_def exp_of_def leaf_ok_def is_u64_def)

lemma is_expired_ok [simp]:
  "leaf_ok l \<Longrightarrow> is_expired l now = Ok (time_in_force l > 0 \<and> exp_of l \<le> now)"
  by (auto simp: is_expired_def exp_of_def leaf_ok_def is_u64_def)

lemma price_data_key: "price_data l = key_price (leaf_key l)"
  by (simp add: price_data_def key_price_def)

end
