(* ===== verification/Order_Tree.thy ===== *)
theory Order_Tree
  imports Nodes
begin

text \<open>
  state/orderbook/ordertree.rs: the operations of \<open>OrderTreeNodes\<close>, a crit-bit tree kept in
  an array of nodes with a free list, shared by the two trees (fixed and oracle pegged) of a
  book side. Each operation is the code's, with the tree passed in and returned; loops that
  walk down the array take fuel, and \<open>tree_fuel\<close> is one more than the number of nodes
  (Order_Tree_Correct shows that it is enough for every well-formed tree). A \<open>Vec\<close> that
  grows by \<open>push\<close> is a list with the last element first, so \<open>stack.iter().rev()\<close> is the list.
\<close>

datatype order_tree_type = Bids | Asks

fun tree_type_side :: "order_tree_type \<Rightarrow> side" where
  "tree_type_side Bids = Bid"
| "tree_type_side Asks = Ask"

record order_tree_root =
  maybe_node :: handle
  leaf_count :: int

definition root_node :: "order_tree_root \<Rightarrow> handle option" where
  "root_node root = (if leaf_count root = 0 then None else Some (maybe_node root))"

record order_tree =
  order_tree_type :: order_tree_type
  bump_index :: nat
  free_list_len :: nat
  free_list_head :: handle
  nodes :: "any_node list"

definition MAX_ORDERTREE_NODES :: nat where "MAX_ORDERTREE_NODES = 1024"

section \<open>Single nodes\<close>

definition get_node :: "order_tree \<Rightarrow> handle \<Rightarrow> any_node option res" where
  "get_node t h = bnd (arr_get (nodes t) h) (\<lambda>n.
     Ok (case n of InnerNode i \<Rightarrow> Some n | LeafNode l \<Rightarrow> Some n | _ \<Rightarrow> None))"

definition put_node :: "order_tree \<Rightarrow> handle \<Rightarrow> any_node \<Rightarrow> order_tree res" where
  \<comment> \<open>\<open>*self.node_mut(h).unwrap() = x\<close>\<close>
  "put_node t h x = bnd (get_node t h) (\<lambda>n. bnd (unwrap n) (\<lambda>_.
     Ok (t\<lparr>nodes := (nodes t)[h := x]\<rparr>)))"

definition ref_at :: "order_tree \<Rightarrow> handle \<Rightarrow> node_ref res" where
  \<comment> \<open>\<open>self.node(h).unwrap().case().unwrap()\<close>\<close>
  "ref_at t h = bnd (get_node t h) (\<lambda>n. bnd (unwrap n) (\<lambda>a. unwrap (node_case a)))"

definition remove_node :: "order_tree \<Rightarrow> handle \<Rightarrow> (any_node option \<times> order_tree) res" where
  "remove_node t key = bnd (get_node t key) (\<lambda>n. case n of
     None \<Rightarrow> Ok (None, t)
   | Some val \<Rightarrow>
       bnd (chk_u32 (int (free_list_len t) + 1)) (\<lambda>_.
       Ok (Some val, t\<lparr>
         nodes := (nodes t)[key := (if free_list_len t = 0
           then LastFreeNode (free_list_head t) else FreeNode (free_list_head t))],
         free_list_len := free_list_len t + 1,
         free_list_head := key\<rparr>)))"

definition insert_node :: "order_tree \<Rightarrow> any_node \<Rightarrow> (handle \<times> order_tree) res" where
  "insert_node t val =
     bnd (assert_that (node_case val \<noteq> None)) (\<lambda>_.
     if free_list_len t = 0 then
       bnd (require (bump_index t < length (nodes t) \<and> int (bump_index t) < U32_MAX) SomeError)
         (\<lambda>_. Ok (bump_index t,
            t\<lparr>nodes := (nodes t)[bump_index t := val], bump_index := bump_index t + 1\<rparr>))
     else
       (let key = free_list_head t in
        bnd (arr_get (nodes t) key) (\<lambda>node.
        bnd (case node of
               FreeNode next \<Rightarrow> bnd (assert_that (free_list_len t > 1)) (\<lambda>_. Ok next)
             | LastFreeNode next \<Rightarrow> bnd (assert_that (free_list_len t = 1)) (\<lambda>_. Ok next)
             | _ \<Rightarrow> Inl Panic) (\<lambda>next.
        Ok (key, t\<lparr>
          free_list_head := next,
          free_list_len := free_list_len t - 1,
          nodes := (nodes t)[key := val]\<rparr>)))))"

definition is_full :: "order_tree \<Rightarrow> bool" where
  "is_full t \<longleftrightarrow> free_list_len t \<le> 1 \<and> bump_index t \<ge> length (nodes t) - 1"

definition tree_fuel :: "order_tree \<Rightarrow> nat" where
  "tree_fuel t = Suc (length (nodes t))"

section \<open>Searching\<close>

fun leaf_min_max_loop ::
  "nat \<Rightarrow> order_tree \<Rightarrow> bool \<Rightarrow> handle \<Rightarrow> (handle \<times> leaf_node) option res" where
  "leaf_min_max_loop 0 t i node_handle = Inl OutOfFuel"
| "leaf_min_max_loop (Suc fuel) t i node_handle =
     bnd (get_node t node_handle) (\<lambda>n. case n of
       None \<Rightarrow> Ok None
     | Some contents \<Rightarrow> (case node_case contents of
         None \<Rightarrow> Ok None
       | Some (InnerRef inner) \<Rightarrow> leaf_min_max_loop fuel t i (sel2 i (children inner))
       | Some (LeafRef leaf) \<Rightarrow> Ok (Some (node_handle, leaf))))"

definition leaf_min_max ::
  "order_tree \<Rightarrow> bool \<Rightarrow> order_tree_root \<Rightarrow> (handle \<times> leaf_node) option res" where
  "leaf_min_max t find_max root = (case root_node root of
     None \<Rightarrow> Ok None
   | Some h \<Rightarrow> leaf_min_max_loop (tree_fuel t) t find_max h)"

definition min_leaf :: "order_tree \<Rightarrow> order_tree_root \<Rightarrow> (handle \<times> leaf_node) option res" where
  "min_leaf t root = leaf_min_max t False root"

definition max_leaf :: "order_tree \<Rightarrow> order_tree_root \<Rightarrow> (handle \<times> leaf_node) option res" where
  "max_leaf t root = leaf_min_max t True root"

definition find_worst :: "order_tree \<Rightarrow> order_tree_root \<Rightarrow> (handle \<times> leaf_node) option res" where
  "find_worst t root = (case order_tree_type t of
     Bids \<Rightarrow> min_leaf t root
   | Asks \<Rightarrow> max_leaf t root)"

fun find_earliest_expiry_loop :: "nat \<Rightarrow> order_tree \<Rightarrow> handle \<Rightarrow> (handle \<times> u64) option res" where
  "find_earliest_expiry_loop 0 t current = Inl OutOfFuel"
| "find_earliest_expiry_loop (Suc fuel) t current =
     bnd (get_node t current) (\<lambda>n. bnd (unwrap n) (\<lambda>contents.
     case node_case contents of
       None \<Rightarrow> Inl Panic
     | Some (InnerRef inner) \<Rightarrow>
         (let e = child_earliest_expiry inner in
          find_earliest_expiry_loop fuel t (sel2 (sel2 False e > sel2 True e) (children inner)))
     | Some (LeafRef leaf) \<Rightarrow>
         bnd (any_earliest_expiry contents) (\<lambda>e. Ok (Some (current, e)))))"

definition find_earliest_expiry ::
  "order_tree \<Rightarrow> order_tree_root \<Rightarrow> (handle \<times> u64) option res" where
  "find_earliest_expiry t root = (case root_node root of
     None \<Rightarrow> Ok None
   | Some h \<Rightarrow> find_earliest_expiry_loop (tree_fuel t) t h)"

section \<open>Expiry of the parents\<close>

type_synonym path_stack = "(handle \<times> bool) list"

fun update_parent_earliest_expiry ::
  "order_tree \<Rightarrow> path_stack \<Rightarrow> u64 \<Rightarrow> u64 \<Rightarrow> order_tree res" where
  "update_parent_earliest_expiry t [] outdated_expiry new_expiry = Ok t"
| "update_parent_earliest_expiry t ((parent_h, crit_bit) # stack) outdated_expiry new_expiry =
     bnd (get_node t parent_h) (\<lambda>n. bnd (unwrap n) (\<lambda>a. bnd (unwrap (as_inner a)) (\<lambda>parent.
     if sel2 crit_bit (child_earliest_expiry parent) \<noteq> outdated_expiry then Ok t
     else
       (let outdated' = inner_earliest_expiry parent;
            parent' = parent\<lparr>child_earliest_expiry :=
              upd2 crit_bit new_expiry (child_earliest_expiry parent)\<rparr>;
            new' = inner_earliest_expiry parent'
        in update_parent_earliest_expiry
             (t\<lparr>nodes := (nodes t)[parent_h := InnerNode parent']\<rparr>) stack outdated' new'))))"

section \<open>Removal\<close>

fun remove_walk ::
  "nat \<Rightarrow> order_tree \<Rightarrow> key128 \<Rightarrow> handle \<Rightarrow> handle \<Rightarrow> bool \<Rightarrow> path_stack \<Rightarrow>
   (handle \<times> handle \<times> bool \<times> path_stack) option res" where
  "remove_walk 0 t search_key parent_h child_h crit_bit stack = Inl OutOfFuel"
| "remove_walk (Suc fuel) t search_key parent_h child_h crit_bit stack =
     bnd (ref_at t child_h) (\<lambda>r. case r of
       InnerRef inner \<Rightarrow> bnd (walk_down inner search_key) (\<lambda>(new_child_h, new_crit_bit).
         remove_walk fuel t search_key child_h new_child_h new_crit_bit
           ((child_h, new_crit_bit) # stack))
     | LeafRef leaf \<Rightarrow>
         if leaf_key leaf \<noteq> search_key then Ok None
         else Ok (Some (parent_h, child_h, crit_bit, stack)))"

definition cast_leaf :: "any_node \<Rightarrow> leaf_node res" where
  \<comment> \<open>\<open>cast(..)\<close> of a node that was just read as a leaf\<close>
  "cast_leaf n = unwrap (as_leaf n)"

definition remove_found ::
  "order_tree \<Rightarrow> order_tree_root \<Rightarrow> handle \<Rightarrow> handle \<Rightarrow> bool \<Rightarrow> path_stack \<Rightarrow>
   (leaf_node \<times> order_tree_root \<times> order_tree) res" where
  "remove_found t root parent_h child_h crit_bit stack =
     bnd (get_node t parent_h) (\<lambda>n. bnd (unwrap n) (\<lambda>parent.
     bnd (any_children parent) (\<lambda>cs. bnd (unwrap cs) (\<lambda>cs.
     let other_child_h = sel2 (\<not> crit_bit) cs in
     bnd (remove_node t other_child_h) (\<lambda>(o1, t1). bnd (unwrap o1) (\<lambda>other_contents.
     bnd (any_earliest_expiry other_contents) (\<lambda>new_expiry.
     bnd (put_node t1 parent_h other_contents) (\<lambda>t2.
     bnd (chk_u32 (leaf_count root - 1)) (\<lambda>cnt.
     bnd (remove_node t2 child_h) (\<lambda>(o2, t3). bnd (unwrap o2) (\<lambda>removed.
     bnd (cast_leaf removed) (\<lambda>removed_leaf.
     bnd (leaf_expiry removed_leaf) (\<lambda>outdated_expiry.
     bnd (update_parent_earliest_expiry t3 (tl stack) outdated_expiry new_expiry) (\<lambda>t4.
     Ok (removed_leaf, root\<lparr>leaf_count := cnt\<rparr>, t4)))))))))))))))"

definition remove_by_key ::
  "order_tree \<Rightarrow> order_tree_root \<Rightarrow> key128 \<Rightarrow>
   (leaf_node option \<times> order_tree_root \<times> order_tree) res" where
  "remove_by_key t root search_key = (case root_node root of
     None \<Rightarrow> Ok (None, root, t)
   | Some parent_h \<Rightarrow> bnd (ref_at t parent_h) (\<lambda>r. case r of
       LeafRef leaf \<Rightarrow>
         if leaf_key leaf = search_key then
           bnd (assert_that (leaf_count root = 1)) (\<lambda>_.
           bnd (remove_node t parent_h) (\<lambda>(o1, t1). bnd (unwrap o1) (\<lambda>_.
           Ok (Some leaf, root\<lparr>maybe_node := 0, leaf_count := 0\<rparr>, t1))))
         else Ok (None, root, t)
     | InnerRef inner \<Rightarrow> bnd (walk_down inner search_key) (\<lambda>(child_h, crit_bit).
         bnd (remove_walk (tree_fuel t) t search_key parent_h child_h crit_bit
                [(parent_h, crit_bit)]) (\<lambda>w. case w of
           None \<Rightarrow> Ok (None, root, t)
         | Some (parent_h, child_h, crit_bit, stack) \<Rightarrow>
             bnd (remove_found t root parent_h child_h crit_bit stack) (\<lambda>(leaf, root', t').
             Ok (Some leaf, root', t'))))))"

definition remove_worst ::
  "order_tree \<Rightarrow> order_tree_root \<Rightarrow> (leaf_node option \<times> order_tree_root \<times> order_tree) res" where
  "remove_worst t root = bnd (find_worst t root) (\<lambda>w. case w of
     None \<Rightarrow> Ok (None, root, t)
   | Some (h, leaf) \<Rightarrow> remove_by_key t root (leaf_key leaf))"

definition remove_one_expired ::
  "order_tree \<Rightarrow> order_tree_root \<Rightarrow> u64 \<Rightarrow>
   (leaf_node option \<times> order_tree_root \<times> order_tree) res" where
  "remove_one_expired t root now_ts = bnd (find_earliest_expiry t root) (\<lambda>f. case f of
     None \<Rightarrow> Ok (None, root, t)
   | Some (handle, expires_at) \<Rightarrow>
       if expires_at < now_ts then
         bnd (get_node t handle) (\<lambda>n. case n of
           None \<Rightarrow> Ok (None, root, t)
         | Some a \<Rightarrow> (case any_key a of
             None \<Rightarrow> Ok (None, root, t)
           | Some k \<Rightarrow> remove_by_key t root k))
       else Ok (None, root, t))"

section \<open>Insertion\<close>

definition insert_split ::
  "order_tree \<Rightarrow> order_tree_root \<Rightarrow> leaf_node \<Rightarrow> handle \<Rightarrow> any_node \<Rightarrow> nat \<Rightarrow> path_stack \<Rightarrow>
   (handle \<times> leaf_node option \<times> order_tree_root \<times> order_tree) res" where
  \<comment> \<open>replace the parent by an inner node with the new leaf and the old parent as children\<close>
  "insert_split t root new_leaf parent_handle parent_contents shared_prefix_len stack =
     bnd (chk_u32 (127 - int shared_prefix_len)) (\<lambda>_.
     let crit_bit_mask = push_bit (127 - shared_prefix_len) (1 :: key128);
         new_leaf_crit_bit = and crit_bit_mask (leaf_key new_leaf) \<noteq> 0;
         old_parent_crit_bit = (\<not> new_leaf_crit_bit) in
     bnd (insert_node t (LeafNode new_leaf)) (\<lambda>(new_leaf_handle, t1).
     case insert_node t1 parent_contents of
       Inl e \<Rightarrow>
         bnd (remove_node t1 new_leaf_handle) (\<lambda>(o1, t2). bnd (unwrap o1) (\<lambda>_. Inl e))
     | Inr (moved_parent_handle, t2) \<Rightarrow>
         bnd (leaf_expiry new_leaf) (\<lambda>new_leaf_expiry.
         bnd (any_earliest_expiry parent_contents) (\<lambda>old_parent_expiry.
         let new_parent = (inner_new shared_prefix_len (leaf_key new_leaf))\<lparr>
               children := upd2 old_parent_crit_bit moved_parent_handle
                 (upd2 new_leaf_crit_bit new_leaf_handle (0, 0)),
               child_earliest_expiry := upd2 old_parent_crit_bit old_parent_expiry
                 (upd2 new_leaf_crit_bit new_leaf_expiry (U64_MAX, U64_MAX))\<rparr> in
         bnd (put_node t2 parent_handle (InnerNode new_parent)) (\<lambda>t3.
         bnd (if new_leaf_expiry < old_parent_expiry
              then update_parent_earliest_expiry t3 stack old_parent_expiry new_leaf_expiry
              else Ok t3) (\<lambda>t4.
         bnd (chk_u32 (leaf_count root + 1)) (\<lambda>cnt.
         Ok (new_leaf_handle, None, root\<lparr>leaf_count := cnt\<rparr>, t4))))))))"

fun insert_leaf_loop ::
  "nat \<Rightarrow> order_tree \<Rightarrow> order_tree_root \<Rightarrow> leaf_node \<Rightarrow> handle \<Rightarrow> path_stack \<Rightarrow>
   (handle \<times> leaf_node option \<times> order_tree_root \<times> order_tree) res" where
  "insert_leaf_loop 0 t root new_leaf parent_handle stack = Inl OutOfFuel"
| "insert_leaf_loop (Suc fuel) t root new_leaf parent_handle stack =
     bnd (get_node t parent_handle) (\<lambda>n. bnd (unwrap n) (\<lambda>parent_contents.
     bnd (unwrap (any_key parent_contents)) (\<lambda>parent_key.
     let shared_prefix_len = leading_zeros (xor parent_key (leaf_key new_leaf)) in
     case node_case parent_contents of
       None \<Rightarrow> Inl Panic
     | Some (LeafRef old_parent_as_leaf) \<Rightarrow>
         if parent_key = leaf_key new_leaf then
           bnd (put_node t parent_handle (LeafNode new_leaf)) (\<lambda>t1.
           bnd (leaf_expiry old_parent_as_leaf) (\<lambda>outdated.
           bnd (leaf_expiry new_leaf) (\<lambda>new.
           bnd (update_parent_earliest_expiry t1 stack outdated new) (\<lambda>t2.
           Ok (parent_handle, Some old_parent_as_leaf, root, t2)))))
         else insert_split t root new_leaf parent_handle parent_contents shared_prefix_len stack
     | Some (InnerRef inner) \<Rightarrow>
         if shared_prefix_len \<ge> prefix_len inner then
           bnd (walk_down inner (leaf_key new_leaf)) (\<lambda>(child, crit_bit).
           insert_leaf_loop fuel t root new_leaf child ((parent_handle, crit_bit) # stack))
         else insert_split t root new_leaf parent_handle parent_contents shared_prefix_len
           stack)))"

definition insert_leaf ::
  "order_tree \<Rightarrow> order_tree_root \<Rightarrow> leaf_node \<Rightarrow>
   (handle \<times> leaf_node option \<times> order_tree_root \<times> order_tree) res" where
  "insert_leaf t root new_leaf = (case root_node root of
     None \<Rightarrow>
       bnd (insert_node t (LeafNode new_leaf)) (\<lambda>(handle, t1).
       Ok (handle, None, root\<lparr>maybe_node := handle, leaf_count := 1\<rparr>, t1))
   | Some h \<Rightarrow> insert_leaf_loop (tree_fuel t) t root new_leaf h [])"

end
