(* ===== verification/Crit_Tree.thy ===== *)
theory Crit_Tree
  imports Nodes "HOL-Library.Multiset"
begin

text \<open>
  The abstract crit-bit tree behind an order tree: a datatype of leaves and inner nodes,
  each with the array slot it occupies, and its path contexts (zippers). A context lists the
  inner nodes from the focus up to the root, each with the side taken and the other subtree,
  as the \<open>stack\<close> of the code does. The invariants are split: \<open>wf_keys\<close> is the prefix
  structure (what \<open>verify_order_tree_invariant\<close> of the source's tests checks),
  \<open>wf_exp\<close> the expiry summaries (\<open>verify_order_tree_expiry\<close>). The lemmas say how plugging a
  changed subtree into its context changes the leaves and keeps the invariants.
\<close>

datatype ctree =
    CLeaf (root_handle: handle) leaf_node
  | CNode (root_handle: handle) inner_node ctree ctree

fun leaves :: "ctree \<Rightarrow> (handle \<times> leaf_node) list" where
  "leaves (CLeaf h l) = [(h, l)]"
| "leaves (CNode h i a b) = leaves a @ leaves b"

fun handles :: "ctree \<Rightarrow> handle list" where
  "handles (CLeaf h l) = [h]"
| "handles (CNode h i a b) = h # handles a @ handles b"

fun contents :: "ctree \<Rightarrow> any_node" where
  "contents (CLeaf h l) = LeafNode l"
| "contents (CNode h i a b) = InnerNode i"

text \<open>The same tree at another slot.\<close>

fun move_to :: "handle \<Rightarrow> ctree \<Rightarrow> ctree" where
  "move_to h (CLeaf h' l) = CLeaf h l"
| "move_to h (CNode h' i a b) = CNode h i a b"

fun child_handles :: "ctree \<Rightarrow> handle list" where
  "child_handles (CLeaf h l) = []"
| "child_handles (CNode h i a b) = handles a @ handles b"

fun min_exp :: "ctree \<Rightarrow> u64" where
  "min_exp (CLeaf h l) = exp_of l"
| "min_exp (CNode h i a b) = min (min_exp a) (min_exp b)"

definition keys_of :: "ctree \<Rightarrow> key128 set" where
  "keys_of t = (leaf_key \<circ> snd) ` set (leaves t)"

text \<open>A key that belongs below inner node \<open>i\<close> on the side \<open>d\<close>.\<close>

definition fits :: "inner_node \<Rightarrow> bool \<Rightarrow> key128 \<Rightarrow> bool" where
  "fits i d k \<longleftrightarrow> agree (prefix_len i) (inner_key i) k \<and> bit k (127 - prefix_len i) = d"

fun wf_keys :: "ctree \<Rightarrow> bool" where
  "wf_keys (CLeaf h l) = True"
| "wf_keys (CNode h i a b) =
     (prefix_len i \<le> 127 \<and> (\<forall>k \<in> keys_of a. fits i False k) \<and>
      (\<forall>k \<in> keys_of b. fits i True k) \<and> wf_keys a \<and> wf_keys b)"

fun wf_exp :: "ctree \<Rightarrow> bool" where
  "wf_exp (CLeaf h l) = leaf_ok l"
| "wf_exp (CNode h i a b) =
     (child_earliest_expiry i = (min_exp a, min_exp b) \<and> wf_exp a \<and> wf_exp b)"

fun linked :: "ctree \<Rightarrow> bool" where
  "linked (CLeaf h l) = True"
| "linked (CNode h i a b) =
     (children i = (root_handle a, root_handle b) \<and> linked a \<and> linked b)"

section \<open>Basic facts\<close>

lemma keys_of_simps [simp]:
  "keys_of (CLeaf h l) = {leaf_key l}"
  "keys_of (CNode h i a b) = keys_of a \<union> keys_of b"
  by (auto simp: keys_of_def)

lemma leaves_not_Nil [simp]: "leaves t \<noteq> []"
  by (induction t) auto

lemma move_to_simps [simp]:
  "root_handle (move_to h t) = h"
  "contents (move_to h t) = contents t"
  "child_handles (move_to h t) = child_handles t"
  "min_exp (move_to h t) = min_exp t"
  "keys_of (move_to h t) = keys_of t"
  "wf_keys (move_to h t) = wf_keys t"
  "wf_exp (move_to h t) = wf_exp t"
  "linked (move_to h t) = linked t"
  "map snd (leaves (move_to h t)) = map snd (leaves t)"
  by (cases t; simp)+

lemma handles_conv: "handles t = root_handle t # child_handles t"
  by (cases t) auto

lemma root_in_handles [simp]: "root_handle t \<in> set (handles t)"
  by (simp add: handles_conv)

lemma leaf_handles: "fst ` set (leaves t) \<subseteq> set (handles t)"
  by (induction t) auto

lemma length_leaves: "Suc (length (handles t)) = 2 * length (leaves t)"
  by (induction t) auto

lemma map_snd_leaves_Nil [simp]: "map snd (leaves t) \<noteq> []"
  by simp

lemma keys_of_leaf_keys: "keys_of t = leaf_key ` set (map snd (leaves t))"
  by (auto simp: keys_of_def)

lemma contents_earliest_expiry [simp]:
  "wf_exp t \<Longrightarrow> any_earliest_expiry (contents t) = Ok (min_exp t)"
  by (cases t) (auto simp: any_earliest_expiry_def inner_earliest_expiry_def)

lemma min_exp_le: "(h, l) \<in> set (leaves t) \<Longrightarrow> min_exp t \<le> exp_of l"
  by (induction t) auto

lemma min_exp_attained: "\<exists>(h, l) \<in> set (leaves t). exp_of l = min_exp t"
  by (induction t) (auto simp: min_def)

lemma wf_exp_leaf_ok: "wf_exp t \<Longrightarrow> (h, l) \<in> set (leaves t) \<Longrightarrow> leaf_ok l"
  by (induction t) auto

text \<open>The leaves of a well-formed tree are in strictly ascending key order.\<close>

lemma fits_less:
  "prefix_len i \<le> 127 \<Longrightarrow> fits i False a \<Longrightarrow> fits i True b \<Longrightarrow> a < b"
  unfolding fits_def by (rule bit_split_less [where p = "prefix_len i"])
    (auto intro: agree_trans agree_sym)

lemma leaves_sorted:
  "wf_keys t \<Longrightarrow> sorted_wrt (<) (map (leaf_key \<circ> snd) (leaves t))"
proof (induction t)
  case (CNode h i a b)
  then have "k < k'" if "k \<in> keys_of a" "k' \<in> keys_of b" for k k'
    using that by (auto intro: fits_less [of i])
  with CNode show ?case by (auto simp: sorted_wrt_append keys_of_def image_def)
qed simp

lemma leaves_distinct_keys: "wf_keys t \<Longrightarrow> distinct (map (leaf_key \<circ> snd) (leaves t))"
  using leaves_sorted strict_sorted_iff by blast

section \<open>Contexts\<close>

datatype frame = Frame (fr_handle: handle) (fr_inner: inner_node) (fr_dir: bool) (fr_sib: ctree)

type_synonym ctxt = "frame list"

fun graft :: "frame \<Rightarrow> ctree \<Rightarrow> ctree" where
  "graft (Frame h i d s) t = (if d then CNode h i s t else CNode h i t s)"

fun plug :: "ctxt \<Rightarrow> ctree \<Rightarrow> ctree" where
  "plug [] t = t"
| "plug (f # c) t = plug c (graft f t)"

definition stack_of :: "ctxt \<Rightarrow> (handle \<times> bool) list" where
  "stack_of c = map (\<lambda>f. (fr_handle f, fr_dir f)) c"

fun ctxt_handles :: "ctxt \<Rightarrow> handle list" where
  "ctxt_handles [] = []"
| "ctxt_handles (f # c) = fr_handle f # handles (fr_sib f) @ ctxt_handles c"

fun left_leaves :: "ctxt \<Rightarrow> (handle \<times> leaf_node) list" where
  "left_leaves [] = []"
| "left_leaves (f # c) = left_leaves c @ (if fr_dir f then leaves (fr_sib f) else [])"

fun right_leaves :: "ctxt \<Rightarrow> (handle \<times> leaf_node) list" where
  "right_leaves [] = []"
| "right_leaves (f # c) = (if fr_dir f then [] else leaves (fr_sib f)) @ right_leaves c"

fun admits :: "ctxt \<Rightarrow> key128 \<Rightarrow> bool" where
  "admits [] k = True"
| "admits (f # c) k = (fits (fr_inner f) (fr_dir f) k \<and> admits c k)"

fun wf_ctxt :: "ctxt \<Rightarrow> bool" where
  "wf_ctxt [] = True"
| "wf_ctxt (f # c) =
     (prefix_len (fr_inner f) \<le> 127 \<and> wf_keys (fr_sib f) \<and>
      (\<forall>k \<in> keys_of (fr_sib f). fits (fr_inner f) (\<not> fr_dir f) k \<and> admits c k) \<and> wf_ctxt c)"

fun exp_ctxt :: "ctxt \<Rightarrow> u64 \<Rightarrow> bool" where
  "exp_ctxt [] m = True"
| "exp_ctxt (f # c) m =
     (sel2 (fr_dir f) (child_earliest_expiry (fr_inner f)) = m \<and>
      sel2 (\<not> fr_dir f) (child_earliest_expiry (fr_inner f)) = min_exp (fr_sib f) \<and>
      wf_exp (fr_sib f) \<and> exp_ctxt c (min m (min_exp (fr_sib f))))"

fun linked_ctxt :: "ctxt \<Rightarrow> handle \<Rightarrow> bool" where
  "linked_ctxt [] h = True"
| "linked_ctxt (f # c) h =
     (sel2 (fr_dir f) (children (fr_inner f)) = h \<and>
      sel2 (\<not> fr_dir f) (children (fr_inner f)) = root_handle (fr_sib f) \<and>
      linked (fr_sib f) \<and> linked_ctxt c (fr_handle f))"

definition ctxt_root :: "ctxt \<Rightarrow> handle \<Rightarrow> handle" where
  "ctxt_root c h = (if c = [] then h else fr_handle (last c))"

lemma root_graft [simp]: "root_handle (graft f t) = fr_handle f"
  by (cases f) auto

lemma root_plug: "root_handle (plug c t) = ctxt_root c (root_handle t)"
  by (induction c arbitrary: t) (auto simp: ctxt_root_def)

lemma leaves_plug: "leaves (plug c t) = left_leaves c @ leaves t @ right_leaves c"
proof (induction c arbitrary: t)
  case (Cons f c)
  then show ?case by (cases f) auto
qed simp

lemma mset_handles_plug: "mset (handles (plug c t)) = mset (ctxt_handles c) + mset (handles t)"
proof (induction c arbitrary: t)
  case (Cons f c)
  then show ?case by (cases f) auto
qed simp

lemma set_handles_plug: "set (handles (plug c t)) = set (ctxt_handles c) \<union> set (handles t)"
  using mset_handles_plug by (metis set_mset_mset set_mset_union)

lemma distinct_mset_eq: "mset xs = mset ys \<Longrightarrow> distinct xs = distinct ys"
  by (rule mset_eq_imp_distinct_iff)

lemma distinct_handles_plug:
  "distinct (handles (plug c t)) \<longleftrightarrow>
   distinct (ctxt_handles c) \<and> distinct (handles t) \<and>
   set (ctxt_handles c) \<inter> set (handles t) = {}"
proof -
  have "distinct (handles (plug c t)) = distinct (ctxt_handles c @ handles t)"
    by (rule distinct_mset_eq) (simp add: mset_handles_plug)
  then show ?thesis by auto
qed

lemma keys_of_graft [simp]: "keys_of (graft f t) = keys_of (fr_sib f) \<union> keys_of t"
  by (cases f) auto

lemma wf_keys_plug:
  "wf_keys (plug c t) \<longleftrightarrow> wf_ctxt c \<and> wf_keys t \<and> (\<forall>k \<in> keys_of t. admits c k)"
proof (induction c arbitrary: t)
  case (Cons f c)
  show ?case
    by (cases f) (auto simp: Cons.IH)
qed simp

lemma min_exp_graft [simp]: "min_exp (graft f t) = min (min_exp t) (min_exp (fr_sib f))"
  by (cases f) auto

lemma wf_exp_plug: "wf_exp (plug c t) \<longleftrightarrow> wf_exp t \<and> exp_ctxt c (min_exp t)"
proof (induction c arbitrary: t)
  case (Cons f c)
  obtain h i d s where f: "f = Frame h i d s" by (cases f)
  show ?case
    by (cases "child_earliest_expiry i"; cases d) (auto simp: Cons.IH f min.commute)
qed simp

lemma linked_plug: "linked (plug c t) \<longleftrightarrow> linked t \<and> linked_ctxt c (root_handle t)"
proof (induction c arbitrary: t)
  case (Cons f c)
  obtain h i d s where f: "f = Frame h i d s" by (cases f)
  show ?case
    by (cases "children i"; cases d) (auto simp: Cons.IH f)
qed simp

lemma stack_of_simps [simp]:
  "stack_of [] = []"
  "stack_of (f # c) = (fr_handle f, fr_dir f) # stack_of c"
  by (simp_all add: stack_of_def)

text \<open>The expiry update of the code, on contexts.\<close>

fun fix_expiry :: "ctxt \<Rightarrow> u64 \<Rightarrow> u64 \<Rightarrow> ctxt" where
  "fix_expiry [] old new = []"
| "fix_expiry (Frame h i d s # c) old new =
     (if sel2 d (child_earliest_expiry i) \<noteq> old then Frame h i d s # c
      else
        (let i' = i\<lparr>child_earliest_expiry := upd2 d new (child_earliest_expiry i)\<rparr>
         in Frame h i' d s #
            fix_expiry c (inner_earliest_expiry i) (inner_earliest_expiry i')))"

lemma fix_expiry_struct [simp]:
  "stack_of (fix_expiry c old new) = stack_of c"
  "ctxt_handles (fix_expiry c old new) = ctxt_handles c"
  "left_leaves (fix_expiry c old new) = left_leaves c"
  "right_leaves (fix_expiry c old new) = right_leaves c"
  "ctxt_root (fix_expiry c old new) h = ctxt_root c h"
  "linked_ctxt (fix_expiry c old new) h = linked_ctxt c h"
proof -
  show "stack_of (fix_expiry c old new) = stack_of c"
    by (induction c old new rule: fix_expiry.induct) (auto simp: Let_def)
  show "ctxt_handles (fix_expiry c old new) = ctxt_handles c"
    by (induction c old new rule: fix_expiry.induct) (auto simp: Let_def)
  show "left_leaves (fix_expiry c old new) = left_leaves c"
    by (induction c old new rule: fix_expiry.induct) (auto simp: Let_def)
  show "right_leaves (fix_expiry c old new) = right_leaves c"
    by (induction c old new rule: fix_expiry.induct) (auto simp: Let_def)
  show "linked_ctxt (fix_expiry c old new) h = linked_ctxt c h"
    by (induction c old new arbitrary: h rule: fix_expiry.induct) (auto simp: Let_def)
  show "ctxt_root (fix_expiry c old new) h = ctxt_root c h"
  proof -
    have m: "map fr_handle (fix_expiry c old new) = map fr_handle c"
      by (induction c old new rule: fix_expiry.induct) (auto simp: Let_def)
    then have "fix_expiry c old new = [] \<longleftrightarrow> c = []"
      by (metis map_is_Nil_conv)
    with m show ?thesis
      by (simp add: ctxt_root_def) (metis last_map)
  qed
qed

lemma fits_expiry [simp]: "fits (i\<lparr>child_earliest_expiry := e\<rparr>) d k = fits i d k"
  by (simp add: fits_def)

lemma admits_fix [simp]: "admits (fix_expiry c old new) k = admits c k"
  by (induction c old new rule: fix_expiry.induct) (auto simp: Let_def)

lemma wf_ctxt_fix [simp]: "wf_ctxt (fix_expiry c old new) = wf_ctxt c"
  by (induction c old new rule: fix_expiry.induct) (auto simp: Let_def)

lemma exp_ctxt_fix: "exp_ctxt c m \<Longrightarrow> exp_ctxt (fix_expiry c m new) new"
proof (induction c m new rule: fix_expiry.induct)
  case (2 h i d s c old new)
  obtain x y where e: "child_earliest_expiry i = (x, y)" by (cases "child_earliest_expiry i")
  from 2 e show ?case
    by (cases d) (auto simp: Let_def inner_earliest_expiry_def upd2_def min.commute)
qed simp

lemma fix_expiry_other:
  "exp_ctxt c m \<Longrightarrow> m \<noteq> old \<Longrightarrow> fix_expiry c old new = c"
  by (cases c; cases "hd c") auto

end
