(* ===== verification/Order_Tree_Arena.thy ===== *)
theory Order_Tree_Arena
  imports Order_Tree Crit_Tree
begin

text \<open>
  How an abstract tree sits in the node array of \<open>OrderTreeNodes\<close>, and what single-node
  operations do to it. \<open>stored\<close> says that every node of a tree is in its slot; \<open>arena\<close> is
  the allocator's invariant: the free list is the chain that starts at \<open>free_list_head\<close>, its
  last node carries the tag \<open>LastFreeNode\<close>, and below \<open>bump_index\<close> every slot is either on the
  free list or in use.
\<close>

fun stored :: "any_node list \<Rightarrow> ctree \<Rightarrow> bool" where
  "stored ns (CLeaf h l) = (h < length ns \<and> ns ! h = LeafNode l)"
| "stored ns (CNode h i a b) =
     (h < length ns \<and> ns ! h = InnerNode i \<and> stored ns a \<and> stored ns b)"

fun stored_ctxt :: "any_node list \<Rightarrow> ctxt \<Rightarrow> bool" where
  "stored_ctxt ns [] = True"
| "stored_ctxt ns (f # c) =
     (fr_handle f < length ns \<and> ns ! fr_handle f = InnerNode (fr_inner f) \<and>
      stored ns (fr_sib f) \<and> stored_ctxt ns c)"

fun free_chain :: "any_node list \<Rightarrow> handle \<Rightarrow> handle list \<Rightarrow> bool" where
  "free_chain ns h [] = True"
| "free_chain ns h (x # xs) =
     (h = x \<and> x < length ns \<and>
      (if xs = [] then \<exists>n. ns ! x = LastFreeNode n
       else \<exists>n. ns ! x = FreeNode n \<and> free_chain ns n xs))"

definition arena :: "order_tree \<Rightarrow> handle list \<Rightarrow> handle set \<Rightarrow> bool" where
  "arena t fl U \<longleftrightarrow>
     free_chain (nodes t) (free_list_head t) fl \<and> length fl = free_list_len t \<and> distinct fl \<and>
     set fl \<inter> U = {} \<and> set fl \<union> U = {..<bump_index t} \<and>
     bump_index t \<le> length (nodes t) \<and> int (length (nodes t)) < U32_MAX"



lemma stored_cong:
  "(\<And>h. h \<in> set (handles t) \<Longrightarrow> ns' ! h = ns ! h) \<Longrightarrow> length ns' = length ns \<Longrightarrow>
   stored ns t \<Longrightarrow> stored ns' t"
  by (induction t) auto

lemma stored_ctxt_cong:
  "(\<And>h. h \<in> set (ctxt_handles c) \<Longrightarrow> ns' ! h = ns ! h) \<Longrightarrow> length ns' = length ns \<Longrightarrow>
   stored_ctxt ns c \<Longrightarrow> stored_ctxt ns' c"
  by (induction c) (auto intro: stored_cong)

lemma stored_less: "stored ns t \<Longrightarrow> h \<in> set (handles t) \<Longrightarrow> h < length ns"
  by (induction t) auto

lemma stored_contents:
  "stored ns t \<Longrightarrow> root_handle t < length ns \<and> ns ! root_handle t = contents t"
  by (cases t) auto

lemma stored_plug: "stored ns (plug c t) \<longleftrightarrow> stored_ctxt ns c \<and> stored ns t"
proof (induction c arbitrary: t)
  case (Cons f c)
  then show ?case by (cases f) auto
qed simp

lemma stored_children:
  "stored ns t \<Longrightarrow> (\<And>x. x \<in> set (child_handles t) \<Longrightarrow> ns' ! x = ns ! x) \<Longrightarrow>
   length ns' = length ns \<Longrightarrow> h < length ns \<Longrightarrow> ns' ! h = contents t \<Longrightarrow>
   stored ns' (move_to h t)"
  by (cases t) (auto intro: stored_cong)

lemma node_case_contents [simp]: "node_case (contents t) \<noteq> None"
  by (cases t) auto

lemma get_node_stored [simp]:
  "stored (nodes T) t \<Longrightarrow> get_node T (root_handle t) = Ok (Some (contents t))"
  by (cases t) (auto simp: get_node_def)

lemma get_node_inner [simp]:
  "h < length (nodes T) \<Longrightarrow> nodes T ! h = InnerNode i \<Longrightarrow> get_node T h = Ok (Some (InnerNode i))"
  by (simp add: get_node_def)

lemma get_node_leaf [simp]:
  "h < length (nodes T) \<Longrightarrow> nodes T ! h = LeafNode l \<Longrightarrow> get_node T h = Ok (Some (LeafNode l))"
  by (simp add: get_node_def)

lemma put_node_ok:
  "h < length (nodes T) \<Longrightarrow> nodes T ! h = contents t \<Longrightarrow>
   put_node T h x = Ok (T\<lparr>nodes := (nodes T)[h := x]\<rparr>)"
  by (cases t) (auto simp: put_node_def get_node_def)

lemma ref_at_stored:
  "stored (nodes T) t \<Longrightarrow> ref_at T (root_handle t) =
     Ok (case t of CLeaf h l \<Rightarrow> LeafRef l | CNode h i a b \<Rightarrow> InnerRef i)"
  by (cases t) (auto simp: ref_at_def)

section \<open>The allocator\<close>

lemma free_chain_cong:
  "(\<And>h. h \<in> set fl \<Longrightarrow> ns' ! h = ns ! h) \<Longrightarrow> length ns' = length ns \<Longrightarrow>
   free_chain ns h fl \<Longrightarrow> free_chain ns' h fl"
  by (induction fl arbitrary: h) (auto split: if_splits)

lemma free_chain_ConsI:
  "free_chain ns n fl \<Longrightarrow> fl \<noteq> [] \<Longrightarrow> h < length ns \<Longrightarrow> ns ! h = FreeNode n \<Longrightarrow>
   free_chain ns h (h # fl)"
  by simp

lemma arena_cong:
  assumes "arena T fl U" and "length ns' = length (nodes T)"
    and "\<And>h. h \<in> set fl \<Longrightarrow> ns' ! h = nodes T ! h"
  shows "arena (T\<lparr>nodes := ns'\<rparr>) fl U"
  using assms unfolding arena_def by (auto intro: free_chain_cong)

lemma arena_used_less: "arena T fl U \<Longrightarrow> h \<in> U \<Longrightarrow> h < length (nodes T)"
  unfolding arena_def by (metis UnCI lessThan_iff less_le_trans)

lemma arena_card:
  assumes "arena T fl U"
  shows "finite U" and "card U + free_list_len T = bump_index T"
proof -
  have "set fl \<union> U = {..<bump_index T}" using assms by (simp add: arena_def)
  then have fin: "finite (set fl \<union> U)" by (metis finite_lessThan)
  then show finU: "finite U" by simp
  have "set fl \<inter> U = {}" using assms by (simp add: arena_def)
  then have "card (set fl \<union> U) = card (set fl) + card U"
    by (intro card_Un_disjoint finU) simp_all
  then show "card U + free_list_len T = bump_index T"
    using assms by (auto simp: arena_def distinct_card)
qed

text \<open>\<open>remove\<close> pushes a used slot on the free list.\<close>

lemma remove_node_ok:
  assumes ar: "arena T fl U" and h: "h \<in> U" and n: "nodes T ! h = contents t"
  obtains T' where "remove_node T h = Ok (Some (contents t), T')"
    and "arena T' (h # fl) (U - {h})"
    and "length (nodes T') = length (nodes T)"
    and "\<And>x. x \<noteq> h \<Longrightarrow> nodes T' ! x = nodes T ! x"
    and "order_tree_type T' = order_tree_type T"
    and "bump_index T' = bump_index T"
proof -
  let ?new = "if free_list_len T = 0 then LastFreeNode (free_list_head T)
    else FreeNode (free_list_head T)"
  let ?T' = "T\<lparr>nodes := (nodes T)[h := ?new], free_list_len := free_list_len T + 1,
    free_list_head := h\<rparr>"
  have less: "h < length (nodes T)" by (rule arena_used_less [OF ar h])
  have get: "get_node T h = Ok (Some (contents t))"
    using less n by (cases t) auto
  have "free_list_len T \<le> bump_index T" using arena_card(2) [OF ar] by linarith
  then have len: "is_u32 (int (free_list_len T) + 1)"
    using ar by (auto simp: arena_def is_u32_def int_limits)
  have notin: "h \<notin> set fl" using ar h by (auto simp: arena_def)
  have chain: "free_chain ((nodes T)[h := ?new]) (free_list_head T) fl"
  proof (rule free_chain_cong)
    show "free_chain (nodes T) (free_list_head T) fl" using ar by (simp add: arena_def)
    show "(nodes T)[h := ?new] ! x = nodes T ! x" if "x \<in> set fl" for x
      using that notin by (metis nth_list_update_neq)
  qed simp
  have nil: "fl = [] \<longleftrightarrow> free_list_len T = 0" using ar by (auto simp: arena_def)
  have new: "free_chain ((nodes T)[h := ?new]) h (h # fl)"
  proof (cases "fl = []")
    case True
    then have "free_list_len T = 0" using nil by simp
    with True less show ?thesis by simp
  next
    case False
    then have "free_list_len T \<noteq> 0" using nil by simp
    with less have nh: "(nodes T)[h := ?new] ! h = FreeNode (free_list_head T)" by simp
    show ?thesis by (rule free_chain_ConsI [OF chain False _ nh]) (simp add: less)
  qed
  have "set (h # fl) \<union> (U - {h}) = set fl \<union> U" using h by auto
  also have "\<dots> = {..<bump_index T}" using ar by (simp add: arena_def)
  finally have un: "set (h # fl) \<union> (U - {h}) = {..<bump_index T}" .
  have "free_chain (nodes ?T') (free_list_head ?T') (h # fl)"
    using new by (simp del: free_chain.simps)
  moreover have "set (h # fl) \<inter> (U - {h}) = {}" using ar by (auto simp: arena_def)
  moreover have "length fl = free_list_len T" "distinct fl" "bump_index T \<le> length (nodes T)"
    "int (length (nodes T)) < U32_MAX" using ar by (simp_all add: arena_def)
  ultimately have "arena ?T' (h # fl) (U - {h})"
    unfolding arena_def using notin un by (simp del: free_chain.simps)
  then show ?thesis
    using that [of ?T'] get len by (simp add: remove_node_def)
qed

text \<open>\<open>insert\<close> takes the head of the free list, or the next fresh slot.\<close>

lemma insert_node_ok:
  assumes ar: "arena T fl U" and room: "card U < length (nodes T)" and v: "node_case v \<noteq> None"
  obtains h T' fl' where "insert_node T v = Ok (h, T')"
    and "h \<notin> U" and "arena T' fl' (insert h U)"
    and "length (nodes T') = length (nodes T)" and "h < length (nodes T)"
    and "nodes T' ! h = v"
    and "\<And>x. x \<noteq> h \<Longrightarrow> nodes T' ! x = nodes T ! x"
    and "order_tree_type T' = order_tree_type T"
proof (cases fl)
  case Nil
  then have len0: "free_list_len T = 0" and U: "U = {..<bump_index T}"
    using ar by (auto simp: arena_def)
  have bump: "bump_index T < length (nodes T)" using room U by simp
  let ?T' = "T\<lparr>nodes := (nodes T)[bump_index T := v], bump_index := bump_index T + 1\<rparr>"
  have "insert_node T v = Ok (bump_index T, ?T')"
    using len0 bump v ar by (auto simp: insert_node_def arena_def require_def)
  moreover have "arena ?T' [] (insert (bump_index T) U)"
    using ar Nil bump U by (auto simp: arena_def)
  ultimately show ?thesis
    using that [of "bump_index T" ?T' "[]"] bump U by simp
next
  case (Cons x xs)
  let ?h = "free_list_head T"
  have x: "x = ?h" "x < length (nodes T)" and len: "free_list_len T = Suc (length xs)"
    and xU: "x \<notin> U" "x \<notin> set xs" and dist: "distinct xs"
    using ar Cons by (auto simp: arena_def)
  obtain nx where nx: "nodes T ! x = (if xs = [] then LastFreeNode nx else FreeNode nx)"
    and chain: "free_chain (nodes T) nx xs"
    using ar Cons by (auto simp: arena_def split: if_splits)
  let ?T' = "T\<lparr>free_list_head := nx, free_list_len := free_list_len T - 1,
    nodes := (nodes T)[x := v]\<rparr>"
  have "insert_node T v = Ok (x, ?T')"
    using nx len x v by (auto simp: insert_node_def Let_def split: if_splits)
  moreover have "arena ?T' xs (insert x U)"
  proof -
    have "free_chain ((nodes T)[x := v]) nx xs"
      by (rule free_chain_cong [OF _ _ chain]) (use xU in \<open>auto intro!: nth_list_update_neq\<close>)
    moreover have "set xs \<union> insert x U = {..<bump_index T}"
      using ar Cons by (auto simp: arena_def)
    ultimately show ?thesis
      using ar Cons len xU dist by (auto simp: arena_def)
  qed
  ultimately show ?thesis
    using that [of x ?T' xs] x xU by simp
qed

lemma insert_node_full:
  assumes ar: "arena T fl U" and full: "card U = length (nodes T)" and v: "node_case v \<noteq> None"
  shows "insert_node T v = Inl (Err SomeError)"
proof -
  have "free_list_len T = 0" "bump_index T = length (nodes T)"
    using arena_card(2) [OF ar] full ar by (auto simp: arena_def)
  then show ?thesis using v by (auto simp: insert_node_def require_def)
qed

section \<open>Updating the expiry of the ancestors\<close>

lemma update_parent_ok:
  assumes "stored_ctxt (nodes T) c" and "distinct (ctxt_handles c)"
  shows "\<exists>ns'. update_parent_earliest_expiry T (stack_of c) old new = Ok (T\<lparr>nodes := ns'\<rparr>) \<and>
    length ns' = length (nodes T) \<and>
    (\<forall>h. h \<notin> set (map fr_handle c) \<longrightarrow> ns' ! h = nodes T ! h) \<and>
    stored_ctxt ns' (fix_expiry c old new)"
  using assms
proof (induction c old new arbitrary: T rule: fix_expiry.induct)
  case (1 old new)
  then show ?case by (auto intro: exI [of _ "nodes T"])
next
  case (2 h i d s c old new)
  show ?case
  proof (cases "sel2 d (child_earliest_expiry i) = old")
    case False
    with 2 show ?thesis
      by (auto simp: as_inner_def Let_def intro!: exI [of _ "nodes T"])
  next
    case True
    let ?i = "i\<lparr>child_earliest_expiry := upd2 d new (child_earliest_expiry i)\<rparr>"
    let ?T = "T\<lparr>nodes := (nodes T)[h := InnerNode ?i]\<rparr>"
    have h: "h < length (nodes T)" "h \<notin> set (ctxt_handles c)" "h \<notin> set (handles s)"
      using 2 by auto
    have "stored_ctxt (nodes ?T) c"
      by (rule stored_ctxt_cong [where ns = "nodes T"]) (use 2 h in \<open>auto simp: nth_list_update\<close>)
    with 2 True obtain ns' where ns': "update_parent_earliest_expiry ?T (stack_of c)
        (inner_earliest_expiry i) (inner_earliest_expiry ?i) = Ok (?T\<lparr>nodes := ns'\<rparr>)"
      "length ns' = length (nodes T)"
      "\<And>x. x \<notin> set (map fr_handle c) \<Longrightarrow> ns' ! x = (nodes T)[h := InnerNode ?i] ! x"
      "stored_ctxt ns' (fix_expiry c (inner_earliest_expiry i) (inner_earliest_expiry ?i))"
      using "2.IH" [OF _ refl, of ?T] by (fastforce simp: Let_def)
    have sub: "set (map fr_handle c) \<subseteq> set (ctxt_handles c)"
      by (induction c) auto
    have "ns' ! h = InnerNode ?i" using ns'(3) [of h] h sub by auto
    moreover have "stored ns' s"
    proof (rule stored_cong [where ns = "nodes T"])
      fix x assume x: "x \<in> set (handles s)"
      with "2.prems"(2) sub have "x \<notin> set (map fr_handle c)" by auto
      moreover have "x \<noteq> h" using x h by auto
      ultimately show "ns' ! x = nodes T ! x" using ns'(3) [of x] by simp
    qed (use 2 ns' in auto)
    ultimately show ?thesis
      using 2 True h ns' by (auto simp: as_inner_def Let_def intro!: exI [of _ ns'])
  qed
qed

end
