(* ===== verification/Order_Tree_Correct.thy ===== *)
theory Order_Tree_Correct
  imports Order_Tree_Arena
begin

text \<open>
  Functional correctness of the order tree: against the sorted list of its leaves,
  \<open>insert_leaf\<close> is insertion by key, \<open>remove_by_key\<close> is deletion by key, the extreme leaves
  are the ends of the list and \<open>find_earliest_expiry\<close> finds a leaf of least expiry. All
  loops end with the fuel they get, nothing panics, and whatever else lives in the same
  node array (the other tree of the book side) is left alone.
\<close>

section \<open>The invariant of one tree in a shared array\<close>

fun ot_handles :: "ctree option \<Rightarrow> handle set" where
  "ot_handles None = {}"
| "ot_handles (Some ct) = set (handles ct)"

fun ot_leaves :: "ctree option \<Rightarrow> (handle \<times> leaf_node) list" where
  "ot_leaves None = []"
| "ot_leaves (Some ct) = leaves ct"

fun tree_rep :: "any_node list \<Rightarrow> order_tree_root \<Rightarrow> ctree option \<Rightarrow> bool" where
  "tree_rep ns root None \<longleftrightarrow> leaf_count root = 0"
| "tree_rep ns root (Some ct) \<longleftrightarrow>
     leaf_count root = int (length (leaves ct)) \<and> maybe_node root = root_handle ct \<and>
     linked ct \<and> stored ns ct \<and> distinct (handles ct) \<and> wf_keys ct \<and> wf_exp ct"

text \<open>\<open>F\<close> is the set of slots used by others.\<close>

definition tree_inv ::
  "order_tree \<Rightarrow> order_tree_root \<Rightarrow> ctree option \<Rightarrow> handle list \<Rightarrow> handle set \<Rightarrow> bool" where
  "tree_inv T root ot fl F \<longleftrightarrow>
     tree_rep (nodes T) root ot \<and> arena T fl (ot_handles ot \<union> F) \<and> ot_handles ot \<inter> F = {}"

text \<open>What one operation on a tree may change: the order type and the slots of others stay.\<close>

definition frame_ok :: "order_tree \<Rightarrow> order_tree \<Rightarrow> handle set \<Rightarrow> bool" where
  "frame_ok T T' F \<longleftrightarrow> order_tree_type T' = order_tree_type T \<and>
     length (nodes T') = length (nodes T) \<and> (\<forall>h \<in> F. nodes T' ! h = nodes T ! h)"

lemma frame_ok_refl [simp]: "frame_ok T T F"
  by (simp add: frame_ok_def)

lemma frame_ok_trans: "frame_ok T T' F \<Longrightarrow> frame_ok T' T'' F \<Longrightarrow> frame_ok T T'' F"
  by (simp add: frame_ok_def)

text \<open>Another tree in the same array survives.\<close>

lemma tree_rep_frame:
  assumes "tree_rep (nodes T) root ot" and "frame_ok T T' F" and "ot_handles ot \<subseteq> F"
  shows "tree_rep (nodes T') root ot"
proof (cases ot)
  case (Some ct)
  have "stored (nodes T') ct"
    by (rule stored_cong [where ns = "nodes T"]) (use assms Some in \<open>auto simp: frame_ok_def\<close>)
  with assms Some show ?thesis by simp
qed (use assms in simp)

lemma tree_fuel_enough:
  assumes "tree_inv T root (Some ct) fl F"
  shows "length (handles ct) < tree_fuel T"
proof -
  have "set (handles ct) \<subseteq> {..<length (nodes T)}"
    using assms by (auto simp: tree_inv_def dest: stored_less)
  then have "card (set (handles ct)) \<le> length (nodes T)"
    by (metis card_lessThan card_mono finite_lessThan)
  moreover have "card (set (handles ct)) = length (handles ct)"
    using assms by (simp add: tree_inv_def distinct_card)
  ultimately show ?thesis by (simp add: tree_fuel_def)
qed

section \<open>Searching\<close>

lemma leaf_min_max_loop_ok:
  "linked t \<Longrightarrow> stored (nodes T) t \<Longrightarrow> length (handles t) < fuel \<Longrightarrow>
   leaf_min_max_loop fuel T d (root_handle t) =
     Ok (Some (if d then last (leaves t) else hd (leaves t)))"
proof (induction t arbitrary: fuel)
  case (CLeaf h l)
  then show ?case by (cases fuel) auto
next
  case (CNode h i a b)
  then show ?case by (cases fuel) auto
qed

lemma leaf_min_max_ok:
  assumes "tree_inv T root ot fl F"
  shows "leaf_min_max T d root = Ok (case ot of None \<Rightarrow> None
     | Some ct \<Rightarrow> Some (if d then last (leaves ct) else hd (leaves ct)))"
proof (cases ot)
  case None
  with assms show ?thesis by (simp add: leaf_min_max_def root_node_def tree_inv_def)
next
  case (Some ct)
  have "leaf_count root \<noteq> 0" "maybe_node root = root_handle ct"
    using assms Some by (auto simp: tree_inv_def)
  then show ?thesis
    using assms Some tree_fuel_enough [of T root ct fl F]
      leaf_min_max_loop_ok [of ct T "tree_fuel T" d]
    by (simp add: leaf_min_max_def root_node_def tree_inv_def)
qed

lemma find_earliest_expiry_loop_ok:
  "linked t \<Longrightarrow> stored (nodes T) t \<Longrightarrow> wf_exp t \<Longrightarrow> length (handles t) < fuel \<Longrightarrow>
   \<exists>h l. find_earliest_expiry_loop fuel T (root_handle t) = Ok (Some (h, exp_of l)) \<and>
     (h, l) \<in> set (leaves t) \<and> exp_of l = min_exp t"
proof (induction t arbitrary: fuel)
  case (CLeaf h l)
  then show ?case by (cases fuel) (auto simp: any_earliest_expiry_def)
next
  case (CNode h i a b)
  then obtain f where f: "fuel = Suc f" by (cases fuel) auto
  show ?case
  proof (cases "min_exp a > min_exp b")
    case True
    with CNode.IH(2) [of f] CNode.prems f show ?thesis
      by (auto simp: Let_def min_def)
  next
    case False
    with CNode.IH(1) [of f] CNode.prems f show ?thesis
      by (auto simp: Let_def min_def)
  qed
qed

lemma find_earliest_expiry_ok:
  assumes "tree_inv T root ot fl F"
  shows "case ot of
     None \<Rightarrow> find_earliest_expiry T root = Ok None
   | Some ct \<Rightarrow> \<exists>h l. find_earliest_expiry T root = Ok (Some (h, exp_of l)) \<and>
       (h, l) \<in> set (leaves ct) \<and> exp_of l = min_exp ct"
proof (cases ot)
  case None
  with assms show ?thesis by (simp add: find_earliest_expiry_def root_node_def tree_inv_def)
next
  case (Some ct)
  have "leaf_count root \<noteq> 0" "maybe_node root = root_handle ct"
    using assms Some by (auto simp: tree_inv_def)
  then show ?thesis
    using assms Some tree_fuel_enough [of T root ct fl F]
      find_earliest_expiry_loop_ok [of ct T "tree_fuel T"]
    by (simp add: find_earliest_expiry_def root_node_def tree_inv_def)
qed

lemma stored_leaf:
  "stored ns t \<Longrightarrow> (h, l) \<in> set (leaves t) \<Longrightarrow> h < length ns \<and> ns ! h = LeafNode l"
  by (induction t) auto

lemma tree_inv_count:
  assumes "tree_inv T root (Some ct) fl F"
  shows "leaf_count root = int (length (leaves ct))" and "1 \<le> leaf_count root"
    and "leaf_count root < U32_MAX"
proof -
  show c: "leaf_count root = int (length (leaves ct))" using assms by (simp add: tree_inv_def)
  have "0 < length (leaves ct)" by simp
  then show "1 \<le> leaf_count root" using c by linarith
  have "length (leaves ct) \<le> length (nodes T)"
    using tree_fuel_enough [OF assms] length_leaves [of ct] \<open>0 < length (leaves ct)\<close>
    by (simp add: tree_fuel_def)
  then show "leaf_count root < U32_MAX"
    using c assms by (simp add: tree_inv_def arena_def)
qed

section \<open>Removal\<close>

text \<open>The leaf the code's walk for a key ends at, with its context.\<close>

fun locate :: "ctxt \<Rightarrow> ctree \<Rightarrow> key128 \<Rightarrow> ctxt \<times> handle \<times> leaf_node" where
  "locate c (CLeaf h l) k = (c, h, l)"
| "locate c (CNode h i a b) k =
     (if bit k (127 - prefix_len i) then locate (Frame h i True a # c) b k
      else locate (Frame h i False b # c) a k)"

lemma plug_locate: "locate c t k = (c', h, l) \<Longrightarrow> plug c' (CLeaf h l) = plug c t"
  by (induction c t k rule: locate.induct) (auto split: if_splits)

lemma locate_ctxt: "locate c t k = (c', h, l) \<Longrightarrow> c \<noteq> [] \<Longrightarrow> c' \<noteq> []"
  by (induction c t k rule: locate.induct) (auto split: if_splits)

lemma locate_found: "wf_keys t \<Longrightarrow> k \<in> keys_of t \<Longrightarrow> locate c t k = (c', h, l) \<Longrightarrow> leaf_key l = k"
proof (induction c t k rule: locate.induct)
  case (2 c h i a b k)
  then show ?case by (auto simp: fits_def split: if_splits)
qed simp

lemma remove_walk_ok:
  assumes "linked t" and "stored (nodes T) t" and "wf_keys t" and "length (handles t) < fuel"
    and "locate (f # c) t k = (c', h, l)"
  shows "remove_walk fuel T k (fr_handle f) (root_handle t) (fr_dir f) (stack_of (f # c)) =
    Ok (if leaf_key l \<noteq> k then None
        else Some (fr_handle (hd c'), h, fr_dir (hd c'), stack_of c'))"
  using assms
proof (induction t arbitrary: fuel f c)
  case (CLeaf h' l')
  then show ?case by (cases fuel) (auto simp: ref_at_def)
next
  case (CNode h' i a b)
  then obtain fu where fu: "fuel = Suc fu" by (cases fuel) auto
  show ?case
    using CNode.prems CNode.IH(1) [of fu "Frame h' i False b" "f # c"]
      CNode.IH(2) [of fu "Frame h' i True a" "f # c"]
    by (auto simp: fu ref_at_def walk_down_ok split: if_splits)
qed

lemma exp_ctxt_replace:
  assumes "exp_ctxt c (min e m)"
  shows "exp_ctxt (fix_expiry c e m) m"
proof (cases "min e m = e")
  case True
  with assms exp_ctxt_fix [of c e m] show ?thesis by simp
next
  case False
  then have "min e m = m" by (auto simp: min_def split: if_splits)
  with assms False fix_expiry_other [of c "min e m" e m] show ?thesis by simp
qed

lemma remove_found_ok:
  assumes inv: "tree_inv T root (Some (plug (Frame hp i d s # c) (CLeaf h l))) fl F"
  obtains T' root' ct' fl' where
    "remove_found T root hp h d (stack_of (Frame hp i d s # c)) = Ok (l, root', T')"
    and "tree_inv T' root' (Some ct') fl' F" and "frame_ok T T' F"
    and "map snd (leaves ct') = map snd (left_leaves c @ leaves s @ right_leaves c)"
proof -
  let ?ct = "plug (Frame hp i d s # c) (CLeaf h l)"
  let ?U = "set (handles ?ct) \<union> F"
  let ?rs = "root_handle s"
  have ar: "arena T fl ?U" and dF: "set (handles ?ct) \<inter> F = {}"
    and lk: "linked ?ct" and st: "stored (nodes T) ?ct" and di: "distinct (handles ?ct)"
    and wk: "wf_keys ?ct" and we: "wf_exp ?ct" and mn: "maybe_node root = root_handle ?ct"
    and cnt: "leaf_count root = int (length (leaves ?ct))"
    using inv by (simp_all add: tree_inv_def)
  have H: "set (handles ?ct) = {hp, h} \<union> set (handles s) \<union> set (ctxt_handles c)"
    by (subst set_handles_plug) auto
  have dist: "hp \<noteq> h" "hp \<notin> set (handles s)" "h \<notin> set (handles s)"
      "hp \<notin> set (ctxt_handles c)" "h \<notin> set (ctxt_handles c)"
      "set (handles s) \<inter> set (ctxt_handles c) = {}" "distinct (handles s)"
      "distinct (ctxt_handles c)"
    using di by (cases d; auto simp: distinct_handles_plug)+
  have neq: "?rs \<noteq> hp" "?rs \<noteq> h" using dist by (metis root_in_handles)+
  have rs_s: "?rs \<in> set (handles s)" by (rule root_in_handles)
  then have rs_ctxt: "?rs \<notin> set (ctxt_handles c)" using dist(6) by blast
  have st': "hp < length (nodes T)" "nodes T ! hp = InnerNode i" "stored (nodes T) s"
      "stored_ctxt (nodes T) c" "h < length (nodes T)" "nodes T ! h = LeafNode l"
    using st by (simp_all add: stored_plug del: plug.simps)
  have lk': "sel2 (\<not> d) (children i) = ?rs" "linked s" "linked_ctxt c hp"
    using lk by (simp_all add: linked_plug del: plug.simps)
  have we': "leaf_ok l" "wf_exp s" "exp_ctxt c (min (exp_of l) (min_exp s))"
    using we by (simp_all add: wf_exp_plug del: plug.simps)
  have wk': "wf_ctxt c" "wf_keys s" "\<forall>k \<in> keys_of s. admits c k"
    using wk by (simp_all add: wf_keys_plug del: plug.simps)
  obtain T1 where r1: "remove_node T ?rs = Ok (Some (contents s), T1)"
    and ar1: "arena T1 (?rs # fl) (?U - {?rs})" and len1: "length (nodes T1) = length (nodes T)"
    and n1: "\<And>x. x \<noteq> ?rs \<Longrightarrow> nodes T1 ! x = nodes T ! x"
    and ty1: "order_tree_type T1 = order_tree_type T"
    by (rule remove_node_ok [OF ar, of ?rs s]) (use H st' stored_contents in auto)
  let ?T2 = "T1\<lparr>nodes := (nodes T1)[hp := contents s]\<rparr>"
  have r2: "put_node T1 hp (contents s) = Ok ?T2"
    by (rule put_node_ok [of _ _ "CNode hp i undefined undefined"])
      (use st' len1 n1 neq in auto)
  have ar2: "arena ?T2 (?rs # fl) (?U - {?rs})"
  proof (rule arena_cong [OF ar1])
    fix x assume "x \<in> set (?rs # fl)"
    moreover have "hp \<notin> set fl" using ar H by (auto simp: arena_def)
    ultimately show "(nodes T1)[hp := contents s] ! x = nodes T1 ! x"
      using neq by (metis nth_list_update_neq set_ConsD)
  qed simp
  have n2h: "nodes ?T2 ! h = contents (CLeaf h l)"
    using n1 neq dist st' by simp
  obtain T3 where r3: "remove_node ?T2 h = Ok (Some (LeafNode l), T3)"
    and ar3: "arena T3 (h # ?rs # fl) (?U - {?rs} - {h})"
    and len3: "length (nodes T3) = length (nodes ?T2)"
    and n3: "\<And>x. x \<noteq> h \<Longrightarrow> nodes T3 ! x = nodes ?T2 ! x"
    and ty3: "order_tree_type T3 = order_tree_type ?T2"
    by (rule remove_node_ok [OF ar2 _ n2h]) (use H neq in auto)
  have n3c: "nodes T3 ! x = nodes T ! x" if "x \<noteq> h" "x \<noteq> hp" "x \<noteq> ?rs" for x
    using n3 [of x] n1 [of x] that by simp
  have c3: "stored_ctxt (nodes T3) c"
  proof (rule stored_ctxt_cong [OF _ _ st'(4)])
    fix x assume "x \<in> set (ctxt_handles c)"
    then show "nodes T3 ! x = nodes T ! x"
      using dist rs_ctxt by (intro n3c) auto
  qed (simp add: len3 len1)
  let ?c' = "fix_expiry c (exp_of l) (min_exp s)"
  obtain ns4 where r4: "update_parent_earliest_expiry T3 (stack_of c) (exp_of l) (min_exp s) =
      Ok (T3\<lparr>nodes := ns4\<rparr>)"
    and len4: "length ns4 = length (nodes T3)"
    and n4: "\<And>x. x \<notin> set (map fr_handle c) \<Longrightarrow> ns4 ! x = nodes T3 ! x"
    and c4: "stored_ctxt ns4 ?c'"
    using update_parent_ok [OF c3 dist(8)] by blast
  have sub: "set (map fr_handle c) \<subseteq> set (ctxt_handles c)" by (induction c) auto
  let ?T4 = "T3\<lparr>nodes := ns4\<rparr>" and ?ct' = "plug ?c' (move_to hp s)"
  have hs: "set (handles s) = insert ?rs (set (child_handles s))" by (simp add: handles_conv [of s])
  have H': "set (handles ?ct') = insert hp (set (child_handles s)) \<union> set (ctxt_handles c)"
    by (simp add: set_handles_plug handles_conv [of "move_to hp s"] Un_commute)
  have rs_c: "?rs \<notin> set (child_handles s)" using dist(7) by (simp add: handles_conv [of s])
  have Heq: "?U - {?rs} - {h} = set (handles ?ct') \<union> F"
    using H H' hs rs_c dist neq dF by (auto simp: disjoint_iff)
  have ar4: "arena ?T4 (h # ?rs # fl) (set (handles ?ct') \<union> F)"
    unfolding Heq [symmetric]
  proof (rule arena_cong [OF ar3 len4])
    fix x assume "x \<in> set (h # ?rs # fl)"
    moreover have "set fl \<inter> set (ctxt_handles c) = {}" using ar H by (auto simp: arena_def)
    ultimately have "x \<notin> set (ctxt_handles c)" using dist rs_ctxt by auto
    then show "ns4 ! x = nodes T3 ! x" using sub by (intro n4) blast
  qed
  have s4: "stored ns4 (move_to hp s)"
  proof (rule stored_children [OF st'(3)])
    fix x assume x: "x \<in> set (child_handles s)"
    then have "x \<in> set (handles s)" by (simp add: hs)
    then have "x \<notin> set (ctxt_handles c)" "x \<noteq> h" "x \<noteq> hp" "x \<noteq> ?rs"
      using dist rs_c x by auto
    then show "ns4 ! x = nodes T ! x" using n4 [of x] n3c [of x] sub by auto
  next
    have "ns4 ! hp = nodes T3 ! hp" using dist sub by (intro n4) blast
    then show "ns4 ! hp = contents s" using n3 [of hp] dist st' len1 by simp
  qed (use len4 len3 len1 st' in auto)
  have count: "is_u32 (leaf_count root - 1)"
    using tree_inv_count [OF inv] by (simp add: is_u32_def)
  let ?root' = "root\<lparr>leaf_count := leaf_count root - 1\<rparr>"
  have "tree_rep (nodes ?T4) ?root' (Some ?ct')"
  proof -
    have "length (leaves ?ct') = length (map snd (leaves ?ct'))" by simp
    also have "\<dots> = length (leaves ?ct) - 1"
      by (simp add: leaves_plug del: length_map plug.simps)
        (simp add: leaves_plug)
    finally have "int (length (leaves ?ct')) = leaf_count root - 1"
      using cnt tree_inv_count(2) [OF inv] by simp
    moreover have "root_handle ?ct' = root_handle ?ct"
      by (simp add: root_plug del: plug.simps) (simp add: ctxt_root_def)
    moreover have "distinct (handles ?ct')"
      using dist rs_c hs by (auto simp: distinct_handles_plug handles_conv [of "move_to hp s"] handles_conv [of s])
    moreover have "wf_keys ?ct'" using wk' by (simp add: wf_keys_plug)
    moreover have "wf_exp ?ct'"
      using we' by (simp add: wf_exp_plug exp_ctxt_replace)
    moreover have "linked ?ct'" using lk' by (simp add: linked_plug)
    moreover have "stored ns4 ?ct'" using c4 s4 by (simp add: stored_plug)
    ultimately show ?thesis using mn by simp
  qed
  moreover have "set (handles ?ct') \<inter> F = {}" using H H' hs dF by auto
  ultimately have inv': "tree_inv ?T4 ?root' (Some ?ct') (h # ?rs # fl) F"
    using ar4 by (simp add: tree_inv_def)
  have "frame_ok T ?T4 F"
    unfolding frame_ok_def
  proof (intro conjI ballI)
    fix x assume "x \<in> F"
    then have "x \<notin> set (handles ?ct)" using dF by blast
    then have "x \<notin> set (ctxt_handles c)" "x \<noteq> h" "x \<noteq> hp" "x \<noteq> ?rs" using H hs by auto
    then show "nodes ?T4 ! x = nodes T ! x" using n4 [of x] n3c [of x] sub by auto
  qed (use ty1 ty3 len4 len3 len1 in simp_all)
  moreover have "map snd (leaves ?ct') = map snd (left_leaves c @ leaves s @ right_leaves c)"
    by (simp add: leaves_plug)
  moreover have "remove_found T root hp h d (stack_of (Frame hp i d s # c)) =
      Ok (l, ?root', ?T4)"
    using st' lk' r1 r2 r3 r4 we' count
    by (simp add: remove_found_def any_children_def cast_leaf_def as_leaf_def)
  ultimately show ?thesis using that [of ?root' ?T4 ?ct'] inv' by blast
qed

text \<open>The orders a tree holds, in key order.\<close>

definition ot_orders :: "ctree option \<Rightarrow> leaf_node list" where
  "ot_orders ot = map snd (ot_leaves ot)"

lemma ot_orders_simps [simp]:
  "ot_orders None = []" "ot_orders (Some ct) = map snd (leaves ct)"
  by (simp_all add: ot_orders_def)

lemma distinct_key_split:
  assumes "distinct (map f (xs @ y # zs))"
  shows "find (\<lambda>x. f x = f y) (xs @ y # zs) = Some y"
    and "filter (\<lambda>x. f x \<noteq> f y) (xs @ y # zs) = xs @ zs"
proof -
  have n: "\<forall>x \<in> set xs \<union> set zs. f x \<noteq> f y" using assms by (auto simp: image_iff)
  then show "filter (\<lambda>x. f x \<noteq> f y) (xs @ y # zs) = xs @ zs" by simp
  have "\<forall>x \<in> set xs. f x \<noteq> f y" using n by blast
  then show "find (\<lambda>x. f x = f y) (xs @ y # zs) = Some y"
    by (induction xs) auto
qed

lemma absent_key:
  assumes "k \<notin> f ` set xs"
  shows "find (\<lambda>x. f x = k) xs = None" and "filter (\<lambda>x. f x \<noteq> k) xs = xs"
  using assms by (auto simp: find_None_iff filter_id_conv)

text \<open>Removal by key deletes exactly the order with that key, and returns it.\<close>

lemma remove_by_key_ok:
  assumes inv: "tree_inv T root ot fl F"
  obtains T' root' ot' fl' where
    "remove_by_key T root k = Ok (find (\<lambda>l. leaf_key l = k) (ot_orders ot), root', T')"
    and "tree_inv T' root' ot' fl' F" and "frame_ok T T' F"
    and "ot_orders ot' = filter (\<lambda>l. leaf_key l \<noteq> k) (ot_orders ot)"
proof (cases ot)
  case None
  then have "root_node root = None" using inv by (simp add: tree_inv_def root_node_def)
  then show ?thesis using that [of root T ot fl] inv None by (simp add: remove_by_key_def)
next
  case (Some ct)
  have lk: "linked ct" and st: "stored (nodes T) ct" and di: "distinct (handles ct)"
    and wk: "wf_keys ct" and mn: "maybe_node root = root_handle ct"
    and ar: "arena T fl (set (handles ct) \<union> F)" and dF: "set (handles ct) \<inter> F = {}"
    using inv Some by (simp_all add: tree_inv_def)
  note inv' = inv [unfolded Some]
  have rn: "root_node root = Some (root_handle ct)"
    using tree_inv_count(2) [OF inv'] mn by (simp add: root_node_def)
  have dk: "distinct (map leaf_key (map snd (leaves ct)))"
    using leaves_distinct_keys [OF wk] by simp
  show ?thesis
  proof (cases ct)
    case (CLeaf h l)
    have rf: "ref_at T h = Ok (LeafRef l)" using st CLeaf by (simp add: ref_at_def)
    show ?thesis
    proof (cases "leaf_key l = k")
      case True
      obtain T1 where r: "remove_node T h = Ok (Some (LeafNode l), T1)"
        and a1: "arena T1 (h # fl) (set (handles ct) \<union> F - {h})"
        and l1: "length (nodes T1) = length (nodes T)"
        and n1: "\<And>x. x \<noteq> h \<Longrightarrow> nodes T1 ! x = nodes T ! x"
        and t1: "order_tree_type T1 = order_tree_type T"
        by (rule remove_node_ok [OF ar, of h "CLeaf h l"]) (use st CLeaf in auto)
      let ?root' = "root\<lparr>maybe_node := 0, leaf_count := 0\<rparr>"
      have hF: "h \<notin> F" using dF CLeaf by simp
      then have "set (handles ct) \<union> F - {h} = F" using CLeaf by auto
      then have "tree_inv T1 ?root' None (h # fl) F" using a1 by (simp add: tree_inv_def)
      moreover have "frame_ok T T1 F" using hF n1 l1 t1 by (metis frame_ok_def)
      moreover have "remove_by_key T root k = Ok (Some l, ?root', T1)"
        using rn rf r True CLeaf tree_inv_count(1) [OF inv']
        by (simp add: remove_by_key_def assert_that_def)
      ultimately show ?thesis using that [of ?root' T1 None "h # fl"] True Some CLeaf by simp
    next
      case False
      then show ?thesis
        using that [of root T ot fl] inv Some CLeaf rn rf by (simp add: remove_by_key_def)
    qed
  next
    case (CNode h i a b)
    let ?d = "bit k (127 - prefix_len i)"
    let ?t = "if ?d then b else a" and ?s = "if ?d then a else b"
    obtain c' h' l where loc: "locate [Frame h i ?d ?s] ?t k = (c', h', l)"
      by (metis prod_cases3)
    have loc': "locate [] ct k = (c', h', l)" using loc CNode by (auto split: if_splits)
    have pl: "plug c' (CLeaf h' l) = ct" using plug_locate [OF loc'] by simp
    obtain hp i' d' s' c where c': "c' = Frame hp i' d' s' # c"
      using locate_ctxt [OF loc] by (metis frame.exhaust list.exhaust not_Cons_self2)
    have fu: "length (handles ?t) < tree_fuel T"
      using tree_fuel_enough [OF inv'] CNode by auto
    have walk: "remove_walk (tree_fuel T) T k h (root_handle ?t) ?d [(h, ?d)] =
        Ok (if leaf_key l \<noteq> k then None else Some (hp, h', d', stack_of c'))"
      using remove_walk_ok [OF _ _ _ fu loc] lk st wk CNode c' by auto
    have rf: "ref_at T h = Ok (InnerRef i)" using st CNode by (simp add: ref_at_def)
    have wd: "walk_down i k = Ok (root_handle ?t, ?d)"
      using wk lk CNode by (auto simp: walk_down_ok)
    show ?thesis
    proof (cases "leaf_key l = k")
      case False
      then have "k \<notin> leaf_key ` set (map snd (leaves ct))"
        using locate_found [OF wk _ loc'] keys_of_leaf_keys [of ct] by blast
      note absent = absent_key [OF this]
      have "remove_by_key T root k = Ok (None, root, T)"
        using rn rf wd walk False CNode by (simp add: remove_by_key_def)
      then show ?thesis using that [of root T ot fl] inv absent Some by simp
    next
      case True
      have "tree_inv T root (Some (plug (Frame hp i' d' s' # c) (CLeaf h' l))) fl F"
        using inv' pl c' by simp
      then obtain T' root' ct' fl' where
        f: "remove_found T root hp h' d' (stack_of (Frame hp i' d' s' # c)) = Ok (l, root', T')"
        and i': "tree_inv T' root' (Some ct') fl' F" and fr: "frame_ok T T' F"
        and lv: "map snd (leaves ct') = map snd (left_leaves c @ leaves s' @ right_leaves c)"
        by (rule remove_found_ok)
      have "remove_by_key T root k = Ok (Some l, root', T')"
        using rn rf wd walk f True CNode c' by (simp add: remove_by_key_def)
      moreover have "map snd (leaves ct) =
          map snd (left_leaves c') @ l # map snd (right_leaves c')"
        by (simp add: pl [symmetric] leaves_plug)
      moreover have "map snd (leaves ct') = map snd (left_leaves c') @ map snd (right_leaves c')"
        by (simp add: lv c')
      ultimately show ?thesis
        using that [of root' T' "Some ct'" fl'] i' fr Some True dk
          distinct_key_split [of leaf_key "map snd (left_leaves c')" l "map snd (right_leaves c')"]
        by simp
    qed
  qed
qed

end
