(* ===== verification/Order_Tree_Insert.thy ===== *)
theory Order_Tree_Insert
  imports Order_Tree_Correct
begin

text \<open>
  Insertion into the order tree. The code walks down while the new key shares the whole
  prefix of the inner nodes, then either replaces an equal leaf or splits the path at the
  first differing bit. Against the sorted list of orders both are \<open>insert_order\<close>.
\<close>

section \<open>The place of a new key\<close>

fun shares_prefix :: "ctree \<Rightarrow> key128 \<Rightarrow> bool" where
  "shares_prefix (CLeaf h l) k = (leaf_key l = k)"
| "shares_prefix (CNode h i a b) k = agree (prefix_len i) (inner_key i) k"

fun descend :: "ctxt \<Rightarrow> ctree \<Rightarrow> key128 \<Rightarrow> ctxt \<times> ctree" where
  "descend c (CLeaf h l) k = (c, CLeaf h l)"
| "descend c (CNode h i a b) k =
     (if agree (prefix_len i) (inner_key i) k then
        (if bit k (127 - prefix_len i) then descend (Frame h i True a # c) b k
         else descend (Frame h i False b # c) a k)
      else (c, CNode h i a b))"

lemma descend_plug: "descend c t k = (c', t') \<Longrightarrow> plug c' t' = plug c t"
  by (induction c t k rule: descend.induct) (auto split: if_splits)

lemma descend_admits: "descend c t k = (c', t') \<Longrightarrow> admits c k \<Longrightarrow> admits c' k"
  by (induction c t k rule: descend.induct) (auto simp: fits_def split: if_splits)

lemma descend_end:
  "descend c t k = (c', t') \<Longrightarrow> (\<exists>h l. t' = CLeaf h l) \<or> \<not> shares_prefix t' k"
  by (induction c t k rule: descend.induct) (auto split: if_splits)

fun node_key :: "ctree \<Rightarrow> key128" where
  "node_key (CLeaf h l) = leaf_key l"
| "node_key (CNode h i a b) = inner_key i"

lemma any_key_contents [simp]: "any_key (contents t) = Some (node_key t)"
  by (cases t) (auto simp: any_key_def)

text \<open>The first bit at which a new key leaves the keys of a subtree.\<close>

definition split_len :: "ctree \<Rightarrow> key128 \<Rightarrow> nat" where
  "split_len t k = leading_zeros (xor (node_key t) k)"

lemma split_len_bits:
  assumes "wf_keys t" and "\<not> shares_prefix t k"
  shows "split_len t k \<le> 127"
    and "\<And>k'. k' \<in> keys_of t \<Longrightarrow> agree (split_len t k) k k' \<and>
      bit k' (127 - split_len t k) \<noteq> bit k (127 - split_len t k)"
proof -
  let ?p = "split_len t k"
  have ne: "node_key t \<noteq> k" using assms(2) by (cases t) auto
  then have p: "?p < 128" and nb: "bit (node_key t) (127 - ?p) \<noteq> bit k (127 - ?p)"
    using leading_zeros_differ by (auto simp: split_len_def)
  show "?p \<le> 127" using p by simp
  have ag: "agree ?p (node_key t) k"
    using p leading_zeros_agree [of ?p "node_key t" k] by (simp add: split_len_def)
  fix k' assume k': "k' \<in> keys_of t"
  show "agree ?p k k' \<and> bit k' (127 - ?p) \<noteq> bit k (127 - ?p)"
  proof (cases t)
    case (CLeaf h l)
    with k' ag nb show ?thesis by (auto intro: agree_sym)
  next
    case (CNode h i a b)
    have le: "prefix_len i \<le> 127" using assms(1) CNode by simp
    have "\<not> prefix_len i \<le> ?p"
      using assms(2) CNode leading_zeros_agree [of "prefix_len i" "inner_key i" k] le
      by (simp add: split_len_def)
    then have lt: "?p < prefix_len i" by simp
    have f: "agree (prefix_len i) (inner_key i) k'"
      using k' assms(1) CNode by (auto simp: fits_def)
    have "bit (inner_key i) (127 - ?p) = bit k' (127 - ?p)"
      by (rule agreeD [OF f]) (use lt le in auto)
    moreover have "agree ?p k k'"
      using ag f lt CNode by (metis agree_mono agree_sym agree_trans less_imp_le node_key.simps(2))
    ultimately show ?thesis using nb CNode by simp
  qed
qed

text \<open>What the code does at that place, and that its walk reaches it.\<close>

definition insert_end ::
  "order_tree \<Rightarrow> order_tree_root \<Rightarrow> leaf_node \<Rightarrow> ctree \<Rightarrow> ctxt \<Rightarrow>
   (handle \<times> leaf_node option \<times> order_tree_root \<times> order_tree) res" where
  "insert_end T root new t c =
     (if shares_prefix t (leaf_key new) then
        bnd (put_node T (root_handle t) (LeafNode new)) (\<lambda>T1.
        bnd (cast_leaf (contents t)) (\<lambda>old.
        bnd (leaf_expiry old) (\<lambda>outdated.
        bnd (leaf_expiry new) (\<lambda>e.
        bnd (update_parent_earliest_expiry T1 (stack_of c) outdated e) (\<lambda>T2.
        Ok (root_handle t, Some old, root, T2))))))
      else insert_split T root new (root_handle t) (contents t) (split_len t (leaf_key new))
        (stack_of c))"

lemma insert_leaf_loop_descend:
  assumes "linked t" and "stored (nodes T) t" and "wf_keys t" and "length (handles t) < fuel"
    and "descend c t (leaf_key new) = (c', t')"
  shows "insert_leaf_loop fuel T root new (root_handle t) (stack_of c) =
    insert_end T root new t' c'"
  using assms
proof (induction t arbitrary: fuel c)
  case (CLeaf h l)
  then show ?case
    by (cases fuel)
      (auto simp: insert_end_def any_key_def cast_leaf_def as_leaf_def split_len_def Let_def)
next
  case (CNode h i a b)
  obtain fu where fu: "fuel = Suc fu" using CNode.prems by (cases fuel) auto
  have p: "prefix_len i \<le> leading_zeros (xor (inner_key i) (leaf_key new)) \<longleftrightarrow>
      agree (prefix_len i) (inner_key i) (leaf_key new)"
    using CNode.prems by (intro leading_zeros_agree) auto
  show ?case
  proof (cases "agree (prefix_len i) (inner_key i) (leaf_key new)")
    case True
    then show ?thesis
      using CNode.prems CNode.IH(1) [of fu "Frame h i False b # c"]
        CNode.IH(2) [of fu "Frame h i True a # c"] p
      by (auto simp: fu walk_down_ok any_key_def Let_def split: if_splits)
  next
    case False
    then show ?thesis
      using CNode.prems p by (auto simp: fu any_key_def Let_def insert_end_def split_len_def)
  qed
qed

section \<open>The two ways to insert\<close>

lemma update_parent_arena:
  assumes ar: "arena T fl U" and st: "stored_ctxt (nodes T) c" and di: "distinct (ctxt_handles c)"
    and sub: "set (ctxt_handles c) \<subseteq> U"
  obtains T' where "update_parent_earliest_expiry T (stack_of c) old new = Ok T'"
    and "arena T' fl U" and "length (nodes T') = length (nodes T)"
    and "\<And>x. x \<notin> set (ctxt_handles c) \<Longrightarrow> nodes T' ! x = nodes T ! x"
    and "stored_ctxt (nodes T') (fix_expiry c old new)"
    and "order_tree_type T' = order_tree_type T"
proof -
  obtain ns where u: "update_parent_earliest_expiry T (stack_of c) old new = Ok (T\<lparr>nodes := ns\<rparr>)"
    and len: "length ns = length (nodes T)"
    and n: "\<And>x. x \<notin> set (map fr_handle c) \<Longrightarrow> ns ! x = nodes T ! x"
    and s: "stored_ctxt ns (fix_expiry c old new)"
    using update_parent_ok [OF st di] by blast
  have "set (map fr_handle c) \<subseteq> set (ctxt_handles c)" by (induction c) auto
  then have n': "ns ! x = nodes T ! x" if "x \<notin> set (ctxt_handles c)" for x
    using that n by blast
  have "set fl \<inter> U = {}" using ar by (simp add: arena_def)
  then have "arena (T\<lparr>nodes := ns\<rparr>) fl U"
    using n' sub by (intro arena_cong [OF ar len]) blast
  then show ?thesis using that [of "T\<lparr>nodes := ns\<rparr>"] u len n' s by simp
qed

lemma replace_ok:
  assumes inv: "tree_inv T root (Some (plug c (CLeaf h l))) fl F"
    and k: "leaf_key l = leaf_key new" and ok: "leaf_ok new"
  obtains T' ct' where "insert_end T root new (CLeaf h l) c = Ok (h, Some l, root, T')"
    and "tree_inv T' root (Some ct') fl F" and "frame_ok T T' F"
    and "map snd (leaves ct') = map snd (left_leaves c) @ new # map snd (right_leaves c)"
    and "(h, new) \<in> set (leaves ct')"
proof -
  let ?ct = "plug c (CLeaf h l)"
  let ?U = "set (handles ?ct) \<union> F" and ?ns = "(nodes T)[h := LeafNode new]"
  have ar: "arena T fl ?U" and dF: "set (handles ?ct) \<inter> F = {}"
    and st: "h < length (nodes T)" "nodes T ! h = LeafNode l" "stored_ctxt (nodes T) c"
    and di: "distinct (ctxt_handles c)" "h \<notin> set (ctxt_handles c)"
    and wk: "wf_ctxt c" "admits c (leaf_key l)" and lk: "linked_ctxt c h"
    and we: "leaf_ok l" "exp_ctxt c (exp_of l)"
    and root: "leaf_count root = int (length (leaves ?ct))" "maybe_node root = ctxt_root c h"
    using inv by (simp_all add: tree_inv_def stored_plug distinct_handles_plug wf_keys_plug
        linked_plug wf_exp_plug root_plug)
  have U: "set (handles ?ct) = insert h (set (ctxt_handles c))" by (simp add: set_handles_plug)
  have put: "put_node T h (LeafNode new) = Ok (T\<lparr>nodes := ?ns\<rparr>)"
    by (rule put_node_ok [of _ _ "CLeaf h l"]) (use st in auto)
  have "set fl \<inter> ?U = {}" using ar by (simp add: arena_def)
  then have ar1: "arena (T\<lparr>nodes := ?ns\<rparr>) fl ?U"
    using U by (intro arena_cong [OF ar]) (simp, metis disjoint_iff insertI1 nth_list_update_neq
        UnCI)
  have c1: "stored_ctxt ?ns c"
    by (rule stored_ctxt_cong [OF _ _ st(3)]) (use di in \<open>auto intro!: nth_list_update_neq\<close>)
  obtain T2 where up: "update_parent_earliest_expiry (T\<lparr>nodes := ?ns\<rparr>) (stack_of c)
      (exp_of l) (exp_of new) = Ok T2"
    and ar2: "arena T2 fl ?U" and len2: "length (nodes T2) = length ?ns"
    and n2: "\<And>x. x \<notin> set (ctxt_handles c) \<Longrightarrow> nodes T2 ! x = ?ns ! x"
    and c2: "stored_ctxt (nodes T2) (fix_expiry c (exp_of l) (exp_of new))"
    and ty: "order_tree_type T2 = order_tree_type T"
    by (rule update_parent_arena [OF ar1, of c]) (use c1 di U in auto)
  let ?ct' = "plug (fix_expiry c (exp_of l) (exp_of new)) (CLeaf h new)"
  have H': "set (handles ?ct') = set (handles ?ct)" by (simp add: set_handles_plug)
  have "tree_rep (nodes T2) root (Some ?ct')"
    using st c2 n2 [of h] len2 di wk k lk we ok root exp_ctxt_fix [of c]
    by (simp add: root_plug leaves_plug linked_plug stored_plug distinct_handles_plug
        wf_keys_plug wf_exp_plug)
  then have "tree_inv T2 root (Some ?ct') fl F" using ar2 H' dF by (simp add: tree_inv_def)
  moreover have "frame_ok T T2 F"
    unfolding frame_ok_def
  proof (intro conjI ballI)
    fix x assume "x \<in> F"
    then have "x \<notin> set (handles ?ct)" using dF by blast
    then show "nodes T2 ! x = nodes T ! x" using U n2 [of x] by simp
  qed (use ty len2 in auto)
  moreover have "insert_end T root new (CLeaf h l) c = Ok (h, Some l, root, T2)"
    using put up k we ok by (simp add: insert_end_def cast_leaf_def as_leaf_def)
  ultimately show ?thesis using that [of T2 ?ct'] by (simp add: leaves_plug)
qed

lemma ctxt_root_Cons [simp]: "ctxt_root (f # c) h = ctxt_root c (fr_handle f)"
  by (simp add: ctxt_root_def)

text \<open>The inner node the split puts above the old subtree and the new leaf.\<close>

definition split_node :: "ctree \<Rightarrow> leaf_node \<Rightarrow> handle \<Rightarrow> handle \<Rightarrow> inner_node" where
  "split_node t new nh mh =
     (let p = split_len t (leaf_key new); d = bit (leaf_key new) (127 - p)
      in (inner_new p (leaf_key new))
           \<lparr>children := upd2 (\<not> d) mh (upd2 d nh (0, 0)),
            child_earliest_expiry := upd2 (\<not> d) (min_exp t) (upd2 d (exp_of new) (U64_MAX, U64_MAX))\<rparr>)"

definition split_frame :: "ctree \<Rightarrow> leaf_node \<Rightarrow> handle \<Rightarrow> handle \<Rightarrow> frame" where
  "split_frame t new nh mh = Frame (root_handle t) (split_node t new nh mh)
     (bit (leaf_key new) (127 - split_len t (leaf_key new))) (move_to mh t)"

lemma split_frame_simps [simp]:
  "fr_handle (split_frame t new nh mh) = root_handle t"
  "fr_inner (split_frame t new nh mh) = split_node t new nh mh"
  "fr_dir (split_frame t new nh mh) = bit (leaf_key new) (127 - split_len t (leaf_key new))"
  "fr_sib (split_frame t new nh mh) = move_to mh t"
  by (simp_all add: split_frame_def)

lemma split_node_simps [simp]:
  "prefix_len (split_node t new nh mh) = split_len t (leaf_key new)"
  "inner_key (split_node t new nh mh) = leaf_key new"
  "sel2 (bit (leaf_key new) (127 - split_len t (leaf_key new)))
     (children (split_node t new nh mh)) = nh"
  "sel2 (\<not> bit (leaf_key new) (127 - split_len t (leaf_key new)))
     (children (split_node t new nh mh)) = mh"
  "sel2 (bit (leaf_key new) (127 - split_len t (leaf_key new)))
     (child_earliest_expiry (split_node t new nh mh)) = exp_of new"
  "sel2 (\<not> bit (leaf_key new) (127 - split_len t (leaf_key new)))
     (child_earliest_expiry (split_node t new nh mh)) = min_exp t"
  by (cases "bit (leaf_key new) (127 - split_len t (leaf_key new))";
      simp add: split_node_def inner_new_def Let_def upd2_def)+

lemma wf_keys_split:
  assumes "wf_keys t" and "\<not> shares_prefix t (leaf_key new)" and "wf_ctxt c"
    and "\<forall>k \<in> keys_of t. admits c k" and "admits c (leaf_key new)"
  shows "wf_keys (plug (split_frame t new nh mh # c) (CLeaf nh new))"
  using assms split_len_bits [OF assms(1,2)]
  by (auto simp: wf_keys_plug fits_def simp del: plug.simps)

lemma wf_exp_split:
  assumes "wf_exp t" and "exp_ctxt c (min_exp t)" and "leaf_ok new"
  shows "wf_exp (plug (split_frame t new nh mh #
    (if exp_of new < min_exp t then fix_expiry c (min_exp t) (exp_of new) else c)) (CLeaf nh new))"
  using assms exp_ctxt_fix [of c "min_exp t" "exp_of new"]
  by (auto simp: wf_exp_plug min_def simp del: plug.simps)

text \<open>Two slots are free unless the tree is full.\<close>

lemma not_full_room:
  assumes ar: "arena T fl U" and nf: "\<not> is_full T"
  shows "card U + 2 \<le> length (nodes T)"
proof -
  have "card U + free_list_len T = bump_index T" using arena_card [OF ar] by simp
  moreover have "bump_index T \<le> length (nodes T)" using ar by (simp add: arena_def)
  ultimately show ?thesis using nf by (auto simp: is_full_def)
qed

lemma insert_split_run:
  assumes "insert_node T (LeafNode new) = Ok (nh, T1)" and "insert_node T1 (contents t) = Ok (mh, T2)"
    and "put_node T2 h (InnerNode (split_node t new nh mh)) = Ok T3"
    and "(if exp_of new < min_exp t then update_parent_earliest_expiry T3 stack (min_exp t)
      (exp_of new) else Ok T3) = Ok T4"
    and "split_len t (leaf_key new) \<le> 127" and "is_u32 (leaf_count root + 1)"
    and "wf_exp t" and "leaf_ok new"
  shows "insert_split T root new h (contents t) (split_len t (leaf_key new)) stack =
    Ok (nh, None, root\<lparr>leaf_count := leaf_count root + 1\<rparr>, T4)"
proof -
  have "is_u32 (127 - int (split_len t (leaf_key new)))"
    using assms(5) by (simp add: is_u32_def int_limits)
  then show ?thesis
    using assms unfolding insert_split_def
    by (simp add: Let_def mask_bit split_node_def)
qed

lemma split_ok:
  assumes inv: "tree_inv T root (Some (plug c t)) fl F"
    and ns: "\<not> shares_prefix t (leaf_key new)" and adm: "admits c (leaf_key new)"
    and ok: "leaf_ok new" and nf: "card (set (handles (plug c t)) \<union> F) + 2 \<le> length (nodes T)"
  obtains nh T' root' ct' fl' where "insert_end T root new t c = Ok (nh, None, root', T')"
    and "tree_inv T' root' (Some ct') fl' F" and "frame_ok T T' F"
    and "wf_keys ct'" and "mset (map snd (leaves ct')) = add_mset new (mset (map snd (leaves (plug c t))))"
    and "(nh, new) \<in> set (leaves ct')"
proof -
  let ?ct = "plug c t" and ?r = "root_handle t"
  let ?U = "set (handles ?ct) \<union> F"
  have ar: "arena T fl ?U" and dF: "set (handles ?ct) \<inter> F = {}"
    and st: "stored_ctxt (nodes T) c" "stored (nodes T) t"
    and di: "distinct (ctxt_handles c)" "distinct (handles t)"
      "set (ctxt_handles c) \<inter> set (handles t) = {}"
    and wk: "wf_ctxt c" "wf_keys t" "\<forall>k \<in> keys_of t. admits c k"
    and lk: "linked_ctxt c ?r" "linked t"
    and we: "wf_exp t" "exp_ctxt c (min_exp t)"
    and root: "leaf_count root = int (length (leaves ?ct))" "maybe_node root = ctxt_root c ?r"
    using inv by (simp_all add: tree_inv_def stored_plug distinct_handles_plug wf_keys_plug
        linked_plug wf_exp_plug root_plug)
  have U: "set (handles ?ct) = set (ctxt_handles c) \<union> set (handles t)"
    by (simp add: set_handles_plug)
  have hs: "set (handles t) = insert ?r (set (child_handles t))" "?r \<notin> set (child_handles t)"
      "distinct (child_handles t)"
    using di(2) by (simp_all add: handles_conv [of t])
  have r: "?r < length (nodes T)" "nodes T ! ?r = contents t" using stored_contents [OF st(2)] by auto
  have fin: "finite ?U" and room: "card ?U + 2 \<le> length (nodes T)"
    using arena_card(1) [OF ar] nf by auto
  obtain nh T1 fl1 where i1: "insert_node T (LeafNode new) = Ok (nh, T1)" and nhU: "nh \<notin> ?U"
    and ar1: "arena T1 fl1 (insert nh ?U)" and l1: "length (nodes T1) = length (nodes T)"
    and nhl: "nh < length (nodes T)" and n1: "nodes T1 ! nh = LeafNode new"
    and n1': "\<And>x. x \<noteq> nh \<Longrightarrow> nodes T1 ! x = nodes T ! x"
    and ty1: "order_tree_type T1 = order_tree_type T"
    by (rule insert_node_ok [OF ar, of "LeafNode new"]) (use room in auto)
  obtain mh T2 fl2 where i2: "insert_node T1 (contents t) = Ok (mh, T2)"
    and mhU: "mh \<notin> insert nh ?U"
    and ar2: "arena T2 fl2 (insert mh (insert nh ?U))"
    and l2: "length (nodes T2) = length (nodes T1)"
    and mhl: "mh < length (nodes T1)" and n2: "nodes T2 ! mh = contents t"
    and n2': "\<And>x. x \<noteq> mh \<Longrightarrow> nodes T2 ! x = nodes T1 ! x"
    and ty2: "order_tree_type T2 = order_tree_type T1"
    by (rule insert_node_ok [OF ar1, of "contents t"]) (use room fin nhU l1 in auto)
  let ?V = "insert mh (insert nh ?U)"
  let ?T3 = "T2\<lparr>nodes := (nodes T2)[?r := InnerNode (split_node t new nh mh)]\<rparr>"
  have rU: "?r \<in> ?U" using U by simp
  have rn: "?r \<noteq> nh" "?r \<noteq> mh" using rU nhU mhU by auto
  have put: "put_node T2 ?r (InnerNode (split_node t new nh mh)) = Ok ?T3"
    by (rule put_node_ok [of _ _ t]) (use r l1 l2 n1' n2' rn in auto)
  have "set fl2 \<inter> ?V = {}" using ar2 by (simp add: arena_def)
  then have "?r \<notin> set fl2" using rU by blast
  then have ar3: "arena ?T3 fl2 ?V"
    by (intro arena_cong [OF ar2]) (auto intro!: nth_list_update_neq)
  have n3: "nodes ?T3 ! x = nodes T ! x" if "x \<noteq> ?r" "x \<noteq> nh" "x \<noteq> mh" for x
    using that n1' n2' by simp
  have c3: "stored_ctxt (nodes ?T3) c"
  proof (rule stored_ctxt_cong [OF _ _ st(1)])
    fix x assume x: "x \<in> set (ctxt_handles c)"
    then have "x \<in> ?U" "x \<noteq> ?r" using U di(3) by auto
    then show "nodes ?T3 ! x = nodes T ! x" using nhU mhU by (intro n3) auto
  qed (simp add: l1 l2)
  let ?b = "exp_of new < min_exp t"
  let ?c2 = "if ?b then fix_expiry c (min_exp t) (exp_of new) else c"
  have "set (ctxt_handles c) \<subseteq> ?V" using U by auto
  then obtain T4 where up: "(if ?b then update_parent_earliest_expiry ?T3 (stack_of c) (min_exp t)
      (exp_of new) else Ok ?T3) = Ok T4"
    and ar4: "arena T4 fl2 ?V" and l4: "length (nodes T4) = length (nodes ?T3)"
    and n4: "\<And>x. x \<notin> set (ctxt_handles c) \<Longrightarrow> nodes T4 ! x = nodes ?T3 ! x"
    and c4: "stored_ctxt (nodes T4) ?c2" and ty4: "order_tree_type T4 = order_tree_type ?T3"
    using update_parent_arena [OF ar3 c3 di(1), of "min_exp t" "exp_of new"] ar3 c3
    by (cases ?b) (simp_all, metis)
  let ?ct' = "plug (split_frame t new nh mh # ?c2) (CLeaf nh new)"
  let ?root' = "root\<lparr>leaf_count := leaf_count root + 1\<rparr>"
  have H': "set (handles ?ct') = insert mh (insert nh (set (handles ?ct)))"
    using U hs by (auto simp: set_handles_plug handles_conv [of "move_to mh t"] simp del: plug.simps)
  have off: "x \<notin> set (ctxt_handles c)" if "x \<in> insert nh (insert mh (set (handles t)))" for x
    using that di(3) U nhU mhU by auto
  have n4r: "nodes T4 ! ?r = InnerNode (split_node t new nh mh)"
    using n4 [of ?r] off [of ?r] r l1 l2 by simp
  have n4n: "nodes T4 ! nh = LeafNode new"
    using n4 [of nh] off [of nh] rn n1 n2' [of nh] mhU by simp
  have s4: "stored (nodes T4) (move_to mh t)"
  proof (rule stored_children [OF st(2)])
    fix x assume x: "x \<in> set (child_handles t)"
    then have xt: "x \<in> set (handles t)" "x \<noteq> ?r" using hs by auto
    then have "x \<in> ?U" using U by simp
    then have "x \<noteq> nh" "x \<noteq> mh" using nhU mhU by auto
    then show "nodes T4 ! x = nodes T ! x" using n4 [of x] off [of x] n3 [of x] xt by simp
  next
    show "nodes T4 ! mh = contents t" using n4 [of mh] off [of mh] rn n2 by simp
  qed (use l1 l2 l4 mhl in simp_all)
  have cnt: "length (leaves ?ct') = Suc (length (leaves ?ct))"
    "mset (map snd (leaves ?ct')) = add_mset new (mset (map snd (leaves ?ct)))"
  proof -
    have m: "mset (map snd (leaves (move_to mh t))) = mset (map snd (leaves t))" by simp
    then show *: "mset (map snd (leaves ?ct')) = add_mset new (mset (map snd (leaves ?ct)))"
      by (auto simp: leaves_plug simp del: plug.simps move_to_simps)
    show "length (leaves ?ct') = Suc (length (leaves ?ct))"
      using arg_cong [OF *, of size] by simp
  qed
  have wk': "wf_keys ?ct'" using wf_keys_split [OF wk(2) ns _ _, of ?c2 nh mh] wk adm by auto
  have "tree_rep (nodes T4) ?root' (Some ?ct')"
  proof -
    have "root_handle ?ct' = ctxt_root c ?r"
      by (simp add: root_plug del: plug.simps)
    moreover have "distinct (handles ?ct')"
      using di hs nhU mhU U rn
      by (auto simp: distinct_handles_plug handles_conv [of "move_to mh t"] simp del: plug.simps)
    moreover have "wf_exp ?ct'" using wf_exp_split [OF we ok] by simp
    moreover have "linked ?ct'" using lk by (auto simp: linked_plug simp del: plug.simps)
    moreover have "stored (nodes T4) ?ct'"
      using c4 s4 n4r n4n r l1 l2 l4 nhl by (simp add: stored_plug del: plug.simps)
    ultimately show ?thesis using wk' root cnt(1) by simp
  qed
  moreover have "set (handles ?ct') \<inter> F = {}" using H' dF nhU mhU by auto
  moreover have "?V = set (handles ?ct') \<union> F" using H' by auto
  ultimately have inv': "tree_inv T4 ?root' (Some ?ct') fl2 F"
    using ar4 by (simp add: tree_inv_def)
  have fr: "frame_ok T T4 F"
    unfolding frame_ok_def
  proof (intro conjI ballI)
    fix x assume x: "x \<in> F"
    then have nx: "x \<notin> set (handles ?ct)" using dF by blast
    have "?r \<in> set (handles ?ct)" using U by simp
    then have "x \<noteq> ?r" using nx by metis
    moreover have "x \<notin> set (ctxt_handles c)" using nx U by simp
    moreover have "x \<noteq> nh" "x \<noteq> mh" using x nhU mhU by (metis UnCI insertCI)+
    ultimately show "nodes T4 ! x = nodes T ! x" using n4 [of x] n3 [of x] by simp
  qed (use l1 l2 l4 ty1 ty2 ty4 in simp_all)
  have p: "split_len t (leaf_key new) \<le> 127" using split_len_bits(1) [OF wk(2) ns] .
  have u32: "is_u32 (leaf_count root + 1)"
    using tree_inv_count [OF inv] by (simp add: is_u32_def)
  have "insert_end T root new t c = Ok (nh, None, ?root', T4)"
    using ns insert_split_run [OF i1 i2 put up p u32 we(1) ok] by (simp add: insert_end_def)
  moreover have "(nh, new) \<in> set (leaves ?ct')" by (simp add: leaves_plug del: plug.simps)
  ultimately show ?thesis using that inv' fr wk' cnt(2) by blast
qed

text \<open>With fewer than two slots left the split fails, after giving a slot it took back.\<close>

lemma split_no_room:
  assumes inv: "tree_inv T root (Some (plug c t)) fl F"
    and ns: "\<not> shares_prefix t (leaf_key new)"
    and nf: "length (nodes T) < card (set (handles (plug c t)) \<union> F) + 2"
  shows "insert_end T root new t c = Inl (Err SomeError)"
proof -
  let ?U = "set (handles (plug c t)) \<union> F"
  have ar: "arena T fl ?U" and wk: "wf_keys t"
    using inv by (simp_all add: tree_inv_def wf_keys_plug)
  have p: "is_u32 (127 - int (split_len t (leaf_key new)))"
    using split_len_bits(1) [OF wk ns] by (simp add: is_u32_def int_limits)
  have le: "card ?U \<le> length (nodes T)" using arena_card(2) [OF ar] ar by (simp add: arena_def)
  show ?thesis
  proof (cases "card ?U = length (nodes T)")
    case True
    then have "insert_node T (LeafNode new) = Inl (Err SomeError)"
      by (rule insert_node_full [OF ar]) simp
    then show ?thesis using ns p by (simp add: insert_end_def insert_split_def)
  next
    case False
    then have one: "Suc (card ?U) = length (nodes T)" using nf le by simp
    obtain nh T1 fl1 where i1: "insert_node T (LeafNode new) = Ok (nh, T1)" and nhU: "nh \<notin> ?U"
      and ar1: "arena T1 fl1 (insert nh ?U)" and l1: "length (nodes T1) = length (nodes T)"
      and n1: "nodes T1 ! nh = LeafNode new"
      by (rule insert_node_ok [OF ar, of "LeafNode new"]) (use one in auto)
    have "card (insert nh ?U) = length (nodes T1)"
      using one l1 nhU arena_card(1) [OF ar] by simp
    then have i2: "insert_node T1 (contents t) = Inl (Err SomeError)"
      by (rule insert_node_full [OF ar1]) simp
    obtain T2 where "remove_node T1 nh = Ok (Some (LeafNode new), T2)"
      by (rule remove_node_ok [OF ar1, of nh "CLeaf nh new"]) (use n1 in auto)
    then show ?thesis using ns p i1 i2 by (simp add: insert_end_def insert_split_def)
  qed
qed

section \<open>Insertion as insertion into a sorted list\<close>

definition insert_order :: "leaf_node \<Rightarrow> leaf_node list \<Rightarrow> leaf_node list" where
  "insert_order new os = filter (\<lambda>l. leaf_key l < leaf_key new) os @ new #
     filter (\<lambda>l. leaf_key new < leaf_key l) os"

lemma set_insert_order:
  "set (insert_order new os) = insert new {l \<in> set os. leaf_key l \<noteq> leaf_key new}"
  by (auto simp: insert_order_def)

lemma insert_order_sorted:
  assumes "sorted_wrt (<) (map leaf_key os)"
  shows "sorted_wrt (<) (map leaf_key (insert_order new os))"
proof -
  have f: "sorted_wrt (<) (map leaf_key (filter P os))" for P
    using assms by (induction os) auto
  show ?thesis unfolding insert_order_def using f by (force simp: sorted_wrt_append)
qed

lemma sorted_keys_unique:
  assumes "sorted_wrt (<) (map leaf_key xs)" and "sorted_wrt (<) (map leaf_key ys)"
    and "set xs = set ys"
  shows "xs = ys"
  using assms
  by (intro map_sorted_distinct_set_unique [of leaf_key])
    (auto simp: strict_sorted_iff distinct_map)

lemma ot_orders_sorted:
  "tree_inv T root ot fl F \<Longrightarrow> sorted_wrt (<) (map leaf_key (ot_orders ot))"
  using leaves_sorted by (cases ot) (auto simp: tree_inv_def)

text \<open>
  On a tree that is not full, insertion succeeds; whenever it succeeds, it returns the order
  with the same key it replaced if there was one, and the tree then holds the sorted list with
  the new order in its place; the new order is at the slot returned.
\<close>

lemma insert_leaf_ok:
  assumes inv: "tree_inv T root ot fl F" and ok: "leaf_ok new"
    and nf: "\<not> is_full T \<or> insert_leaf T root new = Ok res"
  obtains h T' root' ct' fl' where
    "insert_leaf T root new =
       Ok (h, find (\<lambda>l. leaf_key l = leaf_key new) (ot_orders ot), root', T')"
    and "tree_inv T' root' (Some ct') fl' F" and "frame_ok T T' F"
    and "map snd (leaves ct') = insert_order new (ot_orders ot)"
    and "(h, new) \<in> set (leaves ct')"
proof (cases ot)
  case None
  have ar: "arena T fl F" using inv None by (simp add: tree_inv_def)
  have "card F \<noteq> length (nodes T)"
  proof
    assume "card F = length (nodes T)"
    then have "insert_node T (LeafNode new) = Inl (Err SomeError)"
      by (rule insert_node_full [OF ar]) simp
    then show False
      using nf not_full_room [OF ar] \<open>card F = length (nodes T)\<close> inv None
      by (auto simp: insert_leaf_def tree_inv_def root_node_def)
  qed
  then have room: "card F < length (nodes T)"
    using arena_card(2) [OF ar] ar by (simp add: arena_def)
  obtain h T1 fl1 where i1: "insert_node T (LeafNode new) = Ok (h, T1)" and hF: "h \<notin> F"
    and ar1: "arena T1 fl1 (insert h F)" and l1: "length (nodes T1) = length (nodes T)"
    and hl: "h < length (nodes T)" and n1: "nodes T1 ! h = LeafNode new"
    and n1': "\<And>x. x \<noteq> h \<Longrightarrow> nodes T1 ! x = nodes T ! x"
    and ty1: "order_tree_type T1 = order_tree_type T"
    by (rule insert_node_ok [OF ar, of "LeafNode new"]) (use room in auto)
  let ?root' = "root\<lparr>maybe_node := h, leaf_count := 1\<rparr>"
  have "tree_inv T1 ?root' (Some (CLeaf h new)) fl1 F"
    using ar1 l1 hl n1 hF ok by (simp add: tree_inv_def)
  moreover have "frame_ok T T1 F" using hF n1' l1 ty1 by (metis frame_ok_def)
  moreover have "insert_leaf T root new = Ok (h, None, ?root', T1)"
    using i1 inv None by (simp add: insert_leaf_def tree_inv_def root_node_def)
  ultimately show ?thesis
    using that [of h ?root' T1 "CLeaf h new"] None by (simp add: insert_order_def)
next
  case (Some ct)
  note inv' = inv [unfolded Some]
  have lk: "linked ct" and st: "stored (nodes T) ct" and wk: "wf_keys ct"
    and rn: "root_node root = Some (root_handle ct)"
    using inv' tree_inv_count(2) [OF inv'] by (simp_all add: tree_inv_def root_node_def)
  obtain c t where d: "descend [] ct (leaf_key new) = (c, t)" by (cases "descend [] ct (leaf_key new)")
  have pl: "plug c t = ct" using descend_plug [OF d] by simp
  have adm: "admits c (leaf_key new)" using descend_admits [OF d] by simp
  have run: "insert_leaf T root new = insert_end T root new t c"
    using insert_leaf_loop_descend [OF lk st wk tree_fuel_enough [OF inv'] d, of root] rn
    by (simp add: insert_leaf_def)
  have so: "sorted_wrt (<) (map leaf_key (map snd (leaves ct)))" using leaves_sorted [OF wk] by simp
  then have dk: "distinct (map leaf_key (map snd (leaves ct)))" by (simp add: strict_sorted_iff)
  let ?k = "leaf_key new"
  note goal = that
  have result: thesis if e: "insert_end T root new t c =
        Ok (h, find (\<lambda>l. leaf_key l = ?k) (map snd (leaves ct)), root', T')"
      and i: "tree_inv T' root' (Some ct') fl' F" and fr: "frame_ok T T' F"
      and se: "set (map snd (leaves ct')) = insert new {l \<in> set (map snd (leaves ct)). leaf_key l \<noteq> ?k}"
      and h: "(h, new) \<in> set (leaves ct')" for h root' T' ct' fl'
  proof -
    have "map snd (leaves ct') = insert_order new (map snd (leaves ct))"
      by (rule sorted_keys_unique)
        (use ot_orders_sorted [OF i] insert_order_sorted [OF so] se set_insert_order in auto)
    then show thesis using goal [of h root' T' ct' fl'] e i fr h run Some by simp
  qed
  show thesis
  proof (cases "shares_prefix t ?k")
    case True
    then obtain h l where t: "t = CLeaf h l" and k: "leaf_key l = ?k"
      using descend_end [OF d] by auto
    have "tree_inv T root (Some (plug c (CLeaf h l))) fl F" using inv' pl t by simp
    then obtain T' ct' where e: "insert_end T root new (CLeaf h l) c = Ok (h, Some l, root, T')"
      and i: "tree_inv T' root (Some ct') fl F" and fr: "frame_ok T T' F"
      and lv: "map snd (leaves ct') = map snd (left_leaves c) @ new # map snd (right_leaves c)"
      and h: "(h, new) \<in> set (leaves ct')"
      by (rule replace_ok [OF _ k ok])
    have "map snd (leaves ct) = map snd (left_leaves c) @ l # map snd (right_leaves c)"
      by (simp add: pl [symmetric] t leaves_plug)
    note sp = distinct_key_split [OF dk [unfolded this], folded this, unfolded k]
    have "{l \<in> set (map snd (leaves ct)). leaf_key l \<noteq> ?k} =
        set (map snd (left_leaves c) @ map snd (right_leaves c))"
      using arg_cong [OF sp(2), of set] by simp
    then show thesis by (intro result [OF _ i fr _ h]) (use e t sp(1) lv in simp_all)
  next
    case False
    have room: "card (set (handles (plug c t)) \<union> F) + 2 \<le> length (nodes T)"
    proof (rule ccontr)
      assume n: "\<not> ?thesis"
      then have "insert_end T root new t c = Inl (Err SomeError)"
        by (intro split_no_room [OF _ False]) (use inv' pl in auto)
      then show False
        using nf run n not_full_room [of T fl "set (handles (plug c t)) \<union> F"] inv' pl
        by (auto simp: tree_inv_def)
    qed
    obtain nh T' root' ct' fl' where e: "insert_end T root new t c = Ok (nh, None, root', T')"
      and i: "tree_inv T' root' (Some ct') fl' F" and fr: "frame_ok T T' F" and wk': "wf_keys ct'"
      and ms: "mset (map snd (leaves ct')) = add_mset new (mset (map snd (leaves ct)))"
      and h: "(nh, new) \<in> set (leaves ct')"
      by (rule split_ok [OF _ False adm ok room]) (use inv' pl in auto)
    have "distinct (map leaf_key (map snd (leaves ct')))"
      using leaves_distinct_keys [OF wk'] by simp
    moreover have "mset (map leaf_key (map snd (leaves ct'))) =
        mset (?k # map leaf_key (map snd (leaves ct)))"
      using arg_cong [OF ms, of "image_mset leaf_key"] by (simp add: image_mset.compositionality)
    ultimately have "distinct (?k # map leaf_key (map snd (leaves ct)))"
      using mset_eq_imp_distinct_iff by blast
    then have new: "?k \<notin> leaf_key ` set (map snd (leaves ct))" by auto
    have "{l \<in> set (map snd (leaves ct)). leaf_key l \<noteq> ?k} = set (map snd (leaves ct))"
      using arg_cong [OF absent_key(2) [OF new], of set] by simp
    moreover have "set (map snd (leaves ct')) = insert new (set (map snd (leaves ct)))"
      using arg_cong [OF ms, of set_mset] by simp
    ultimately show thesis
      by (intro result [OF _ i fr _ h]) (use e absent_key(1) [OF new] in simp_all)
  qed
qed

end
