(* ===== verification/Order_Tree_Api.thy ===== *)
theory Order_Tree_Api
  imports Order_Tree_Insert
begin

text \<open>
  The order tree as its clients see it: \<open>tree_orders\<close> reads the orders of a tree off the node
  array in key order, \<open>good_tree\<close> says that the array holds a well-formed tree (with \<open>F\<close> the
  slots other trees use). The locale \<open>order_store\<close> is the contract of a keyed store of
  orders; it is interpreted on the operations of the code's order tree.
\<close>

fun collect_orders :: "nat \<Rightarrow> any_node list \<Rightarrow> handle \<Rightarrow> leaf_node list" where
  "collect_orders 0 ns h = []"
| "collect_orders (Suc fuel) ns h = (case node_case (ns ! h) of
     None \<Rightarrow> []
   | Some (LeafRef l) \<Rightarrow> [l]
   | Some (InnerRef i) \<Rightarrow> collect_orders fuel ns (fst (children i)) @
       collect_orders fuel ns (snd (children i)))"

definition tree_orders :: "order_tree \<Rightarrow> order_tree_root \<Rightarrow> leaf_node list" where
  "tree_orders T root = (case root_node root of
     None \<Rightarrow> []
   | Some h \<Rightarrow> collect_orders (tree_fuel T) (nodes T) h)"

definition good_tree :: "order_tree \<Rightarrow> order_tree_root \<Rightarrow> handle set \<Rightarrow> bool" where
  "good_tree T root F \<longleftrightarrow> (\<exists>ot fl. tree_inv T root ot fl F)"

definition find_order :: "key128 \<Rightarrow> leaf_node list \<Rightarrow> leaf_node option" where
  "find_order k os = find (\<lambda>l. leaf_key l = k) os"

definition delete_order :: "key128 \<Rightarrow> leaf_node list \<Rightarrow> leaf_node list" where
  "delete_order k os = filter (\<lambda>l. leaf_key l \<noteq> k) os"

lemma collect_orders_ok:
  "linked t \<Longrightarrow> stored ns t \<Longrightarrow> length (handles t) < fuel \<Longrightarrow>
   collect_orders fuel ns (root_handle t) = map snd (leaves t)"
proof (induction t arbitrary: fuel)
  case (CLeaf h l)
  then show ?case by (cases fuel) auto
next
  case (CNode h i a b)
  then show ?case by (cases fuel) auto
qed

lemma tree_orders_ok: "tree_inv T root ot fl F \<Longrightarrow> tree_orders T root = ot_orders ot"
proof (cases ot)
  case None
  then show "tree_inv T root ot fl F \<Longrightarrow> ?thesis"
    by (simp add: tree_orders_def tree_inv_def root_node_def)
next
  case (Some ct)
  assume inv: "tree_inv T root ot fl F"
  note inv' = inv [unfolded Some]
  have "root_node root = Some (root_handle ct)"
    using inv' tree_inv_count(2) [OF inv'] by (simp add: tree_inv_def root_node_def)
  then show ?thesis
    using inv' Some collect_orders_ok [of ct "nodes T" "tree_fuel T"] tree_fuel_enough [OF inv']
    by (simp add: tree_orders_def tree_inv_def)
qed

lemma good_treeE:
  assumes "good_tree T root F"
  obtains ot fl where "tree_inv T root ot fl F" and "tree_orders T root = ot_orders ot"
  using assms tree_orders_ok by (auto simp: good_tree_def)

lemma good_treeI: "tree_inv T root ot fl F \<Longrightarrow> good_tree T root F"
  by (auto simp: good_tree_def)

section \<open>The operations\<close>

lemma tree_orders_sorted: "good_tree T root F \<Longrightarrow> sorted_wrt (<) (map leaf_key (tree_orders T root))"
  using ot_orders_sorted by (auto elim!: good_treeE)

lemma leaf_count_orders: "good_tree T root F \<Longrightarrow> leaf_count root = int (length (tree_orders T root))"
  by (erule good_treeE, rename_tac ot fl, case_tac ot) (auto simp: tree_inv_def)

lemma insert_leaf_spec:
  assumes "good_tree T root F" and "leaf_ok new"
    and "\<not> is_full T \<or> insert_leaf T root new = Ok res"
  obtains h root' T' where
    "insert_leaf T root new = Ok (h, find_order (leaf_key new) (tree_orders T root), root', T')"
    and "good_tree T' root' F" and "frame_ok T T' F"
    and "tree_orders T' root' = insert_order new (tree_orders T root)"
    and "h < length (nodes T')" and "nodes T' ! h = LeafNode new"
proof -
  obtain ot fl where inv: "tree_inv T root ot fl F" and os: "tree_orders T root = ot_orders ot"
    using assms(1) by (rule good_treeE)
  obtain h T' root' ct' fl' where
    e: "insert_leaf T root new =
       Ok (h, find (\<lambda>l. leaf_key l = leaf_key new) (ot_orders ot), root', T')"
    and i: "tree_inv T' root' (Some ct') fl' F" and fr: "frame_ok T T' F"
    and lv: "map snd (leaves ct') = insert_order new (ot_orders ot)"
    and h: "(h, new) \<in> set (leaves ct')"
    by (rule insert_leaf_ok [OF inv assms(2,3)])
  have "stored (nodes T') ct'" using i by (simp add: tree_inv_def)
  then have "h < length (nodes T') \<and> nodes T' ! h = LeafNode new" using stored_leaf h by blast
  then show thesis
    using that e good_treeI [OF i] fr lv tree_orders_ok [OF i] os by (simp add: find_order_def)
qed

lemma remove_by_key_spec:
  assumes "good_tree T root F"
  obtains root' T' where
    "remove_by_key T root k = Ok (find_order k (tree_orders T root), root', T')"
    and "good_tree T' root' F" and "frame_ok T T' F"
    and "tree_orders T' root' = delete_order k (tree_orders T root)"
proof -
  obtain ot fl where inv: "tree_inv T root ot fl F" and os: "tree_orders T root = ot_orders ot"
    using assms(1) by (rule good_treeE)
  obtain T' root' ot' fl' where
    e: "remove_by_key T root k = Ok (find (\<lambda>l. leaf_key l = k) (ot_orders ot), root', T')"
    and i: "tree_inv T' root' ot' fl' F" and fr: "frame_ok T T' F"
    and lv: "ot_orders ot' = filter (\<lambda>l. leaf_key l \<noteq> k) (ot_orders ot)"
    by (rule remove_by_key_ok [OF inv])
  show thesis
    using that e good_treeI [OF i] fr lv tree_orders_ok [OF i] os
    by (simp add: find_order_def delete_order_def)
qed

lemma delete_order_subset: "set (delete_order k os) \<subseteq> set os"
  by (auto simp: delete_order_def)

lemma set_delete_order: "set (delete_order k os) = {l \<in> set os. leaf_key l \<noteq> k}"
  by (auto simp: delete_order_def)

lemma find_order_mem:
  "sorted_wrt (<) (map leaf_key os) \<Longrightarrow> l \<in> set os \<Longrightarrow> find_order (leaf_key l) os = Some l"
  unfolding find_order_def
proof (induction os)
  case (Cons o os)
  then show ?case by fastforce
qed simp

lemma find_order_SomeD: "find_order k os = Some l \<Longrightarrow> l \<in> set os \<and> leaf_key l = k"
  unfolding find_order_def by (auto simp: find_Some_iff)

definition worst_order :: "order_tree_type \<Rightarrow> leaf_node list \<Rightarrow> leaf_node option" where
  "worst_order ty os = (if os = [] then None else case ty of
     Bids \<Rightarrow> Some (hd os) | Asks \<Rightarrow> Some (last os))"

lemma worst_order_mem: "worst_order ty os = Some l \<Longrightarrow> l \<in> set os"
  by (auto simp: worst_order_def split: if_splits order_tree_type.splits)

lemma find_worst_spec:
  assumes "good_tree T root F"
  shows "\<exists>w. find_worst T root = Ok w \<and>
    map_option snd w = worst_order (order_tree_type T) (tree_orders T root)"
proof -
  obtain ot fl where inv: "tree_inv T root ot fl F" and os: "tree_orders T root = ot_orders ot"
    using assms(1) by (rule good_treeE)
  show ?thesis
    using leaf_min_max_ok [OF inv] os
    by (cases "order_tree_type T"; cases ot)
      (auto simp: find_worst_def min_leaf_def max_leaf_def worst_order_def hd_map last_map
        intro: surjective_pairing)
qed

lemma remove_worst_spec:
  assumes good: "good_tree T root F"
  obtains root' T' where
    "remove_worst T root = Ok (worst_order (order_tree_type T) (tree_orders T root), root', T')"
    and "good_tree T' root' F" and "frame_ok T T' F"
    and "tree_orders T' root' = (case worst_order (order_tree_type T) (tree_orders T root) of
           None \<Rightarrow> [] | Some l \<Rightarrow> delete_order (leaf_key l) (tree_orders T root))"
proof -
  obtain w where w: "find_worst T root = Ok w"
    and m: "map_option snd w = worst_order (order_tree_type T) (tree_orders T root)"
    using find_worst_spec [OF good] by blast
  show thesis
  proof (cases w)
    case None
    then have "tree_orders T root = []"
      using m by (auto simp: worst_order_def split: if_splits order_tree_type.splits)
    then show thesis using that [of root T] w m None good by (simp add: remove_worst_def worst_order_def)
  next
    case (Some p)
    obtain h l where p: "p = (h, l)" by (cases p)
    have wl: "worst_order (order_tree_type T) (tree_orders T root) = Some l" using m Some p by simp
    have fl: "find_order (leaf_key l) (tree_orders T root) = Some l"
      by (rule find_order_mem [OF tree_orders_sorted [OF good] worst_order_mem [OF wl]])
    show thesis
      by (rule remove_by_key_spec [OF good, of "leaf_key l"], rule that)
        (use w Some p wl fl in \<open>simp_all add: remove_worst_def\<close>)
  qed
qed

lemma remove_one_expired_spec:
  assumes good: "good_tree T root F"
  obtains r root' T' where "remove_one_expired T root now_ts = Ok (r, root', T')"
    and "good_tree T' root' F" and "frame_ok T T' F"
    and "case r of
       None \<Rightarrow> root' = root \<and> T' = T \<and> (\<forall>l \<in> set (tree_orders T root). now_ts \<le> exp_of l)
     | Some l \<Rightarrow> l \<in> set (tree_orders T root) \<and> exp_of l < now_ts \<and>
         (\<forall>l' \<in> set (tree_orders T root). exp_of l \<le> exp_of l') \<and>
         tree_orders T' root' = delete_order (leaf_key l) (tree_orders T root)"
proof -
  obtain ot fl where inv: "tree_inv T root ot fl F" and os: "tree_orders T root = ot_orders ot"
    using good by (rule good_treeE)
  show thesis
  proof (cases ot)
    case None
    then show thesis
      using that [of None root T] good os find_earliest_expiry_ok [OF inv]
      by (simp add: remove_one_expired_def)
  next
    case (Some ct)
    obtain h l where e: "find_earliest_expiry T root = Ok (Some (h, exp_of l))"
      and mem: "(h, l) \<in> set (leaves ct)" and mn: "exp_of l = min_exp ct"
      using find_earliest_expiry_ok [OF inv] Some by auto
    have least: "\<forall>l' \<in> set (tree_orders T root). exp_of l \<le> exp_of l'"
      using min_exp_le [of _ _ ct] mn os Some by auto
    have lm: "l \<in> set (tree_orders T root)" using mem os Some by force
    show thesis
    proof (cases "exp_of l < now_ts")
      case False
      then have "\<forall>l' \<in> set (tree_orders T root). now_ts \<le> exp_of l'" using least by fastforce
      then show thesis using that [of None root T] good e False by (simp add: remove_one_expired_def)
    next
      case True
      have "stored (nodes T) ct" using inv Some by (simp add: tree_inv_def)
      then have g: "get_node T h = Ok (Some (LeafNode l))" using stored_leaf mem by fastforce
      have fl: "find_order (leaf_key l) (tree_orders T root) = Some l"
        by (rule find_order_mem [OF tree_orders_sorted [OF good] lm])
      show thesis
        by (rule remove_by_key_spec [OF good, of "leaf_key l"], rule that [of "Some l"])
          (use e g fl True least lm in \<open>simp_all add: remove_one_expired_def any_key_def\<close>)
    qed
  qed
qed

section \<open>The contract of a store of orders\<close>

locale order_store =
  fixes inv :: "'s \<Rightarrow> bool"
    and items :: "'s \<Rightarrow> leaf_node list"
    and full :: "'s \<Rightarrow> bool"
    and ins :: "leaf_node \<Rightarrow> 's \<Rightarrow> (leaf_node option \<times> 's) res"
    and del :: "key128 \<Rightarrow> 's \<Rightarrow> (leaf_node option \<times> 's) res"
  assumes sorted: "inv s \<Longrightarrow> sorted_wrt (<) (map leaf_key (items s))"
    and ins_law: "inv s \<Longrightarrow> leaf_ok l \<Longrightarrow> \<not> full s \<Longrightarrow>
      \<exists>s'. ins l s = Ok (find_order (leaf_key l) (items s), s') \<and> inv s' \<and>
        items s' = insert_order l (items s)"
    and del_law: "inv s \<Longrightarrow>
      \<exists>s'. del k s = Ok (find_order k (items s), s') \<and> inv s' \<and>
        items s' = delete_order k (items s)"
begin

lemma items_ext:
  "inv s \<Longrightarrow> inv s' \<Longrightarrow> set (items s) = set (items s') \<Longrightarrow> items s = items s'"
  using sorted_keys_unique sorted by blast

lemma insert_then_remove:
  assumes "inv s" and "leaf_ok l" and "\<not> full s" and "find_order (leaf_key l) (items s) = None"
  shows "\<exists>s1 s2. ins l s = Ok (None, s1) \<and> del (leaf_key l) s1 = Ok (Some l, s2) \<and>
    inv s2 \<and> items s2 = items s"
proof -
  obtain s1 where s1: "ins l s = Ok (None, s1)" "inv s1" "items s1 = insert_order l (items s)"
    using ins_law [OF assms(1-3)] assms(4) by auto
  obtain s2 where s2: "del (leaf_key l) s1 = Ok (find_order (leaf_key l) (items s1), s2)"
      "inv s2" "items s2 = delete_order (leaf_key l) (items s1)"
    using del_law [OF s1(2)] by blast
  have "find_order (leaf_key l) (items s1) = Some l"
    by (rule find_order_mem [OF sorted [OF s1(2)]]) (simp add: s1 set_insert_order)
  moreover have "\<forall>x \<in> set (items s). leaf_key x \<noteq> leaf_key l"
    using assms(4) by (auto simp: find_order_def find_None_iff)
  then have "items s2 = items s"
    by (intro items_ext s2 assms) (auto simp: s2 s1 set_delete_order set_insert_order)
  ultimately show ?thesis using s1 s2 by auto
qed

lemma remove_twice:
  assumes "inv s"
  shows "\<exists>r s1. del k s = Ok (r, s1) \<and> (\<exists>s2. del k s1 = Ok (None, s2) \<and> items s2 = items s1)"
proof -
  obtain s1 where s1: "del k s = Ok (find_order k (items s), s1)" "inv s1"
      "items s1 = delete_order k (items s)"
    using del_law [OF assms] by blast
  obtain s2 where s2: "del k s1 = Ok (find_order k (items s1), s2)" "inv s2"
      "items s2 = delete_order k (items s1)"
    using del_law [OF s1(2)] by blast
  have "find_order k (items s1) = None" "items s2 = items s1"
    unfolding s2 s1 by (auto simp: find_order_def delete_order_def find_None_iff)
  then show ?thesis using s1 s2 by auto
qed

lemma insert_keeps_others:
  assumes "inv s" and "leaf_ok l" and "\<not> full s"
  shows "\<exists>r s1. ins l s = Ok (r, s1) \<and> (\<forall>k. k \<noteq> leaf_key l \<longrightarrow>
    find_order k (items s1) = find_order k (items s))"
proof -
  obtain s1 where s1: "ins l s = Ok (find_order (leaf_key l) (items s), s1)" "inv s1"
      "items s1 = insert_order l (items s)"
    using ins_law [OF assms] by blast
  have "find_order k (items s1) = find_order k (items s)" if k: "k \<noteq> leaf_key l" for k
  proof (cases "find_order k (items s)")
    case None
    then have "\<forall>x \<in> set (items s1). leaf_key x \<noteq> k"
      using k by (auto simp: find_order_def find_None_iff s1 set_insert_order)
    then have "find_order k (items s1) = None" by (auto simp: find_order_def find_None_iff)
    then show ?thesis using None by simp
  next
    case (Some x)
    then have "x \<in> set (items s1)" "leaf_key x = k"
      using k find_order_SomeD [OF Some] by (auto simp: s1 set_insert_order)
    then show ?thesis using Some find_order_mem [OF sorted [OF s1(2)], of x] by simp
  qed
  then show ?thesis using s1 by blast
qed

end

text \<open>The order tree of the code is such a store.\<close>

definition store_insert ::
  "leaf_node \<Rightarrow> order_tree \<times> order_tree_root \<Rightarrow>
   (leaf_node option \<times> order_tree \<times> order_tree_root) res" where
  "store_insert l s = bnd (insert_leaf (fst s) (snd s) l)
     (\<lambda>(h, old, root, T). Ok (old, T, root))"

definition store_remove ::
  "key128 \<Rightarrow> order_tree \<times> order_tree_root \<Rightarrow>
   (leaf_node option \<times> order_tree \<times> order_tree_root) res" where
  "store_remove k s = bnd (remove_by_key (fst s) (snd s) k) (\<lambda>(old, root, T). Ok (old, T, root))"

interpretation tree: order_store "\<lambda>s. good_tree (fst s) (snd s) F" "\<lambda>s. tree_orders (fst s) (snd s)"
  "\<lambda>s. is_full (fst s)" store_insert store_remove for F
proof
  fix s :: "order_tree \<times> order_tree_root"
  assume g: "good_tree (fst s) (snd s) F"
  then show "sorted_wrt (<) (map leaf_key (tree_orders (fst s) (snd s)))"
    by (rule tree_orders_sorted)
  show "\<exists>s'. store_remove k s = Ok (find_order k (tree_orders (fst s) (snd s)), s') \<and>
      good_tree (fst s') (snd s') F \<and>
      tree_orders (fst s') (snd s') = delete_order k (tree_orders (fst s) (snd s))" for k
    by (rule remove_by_key_spec [OF g, of k]) (auto simp: store_remove_def)
  show "\<exists>s'. store_insert l s = Ok (find_order (leaf_key l) (tree_orders (fst s) (snd s)), s') \<and>
      good_tree (fst s') (snd s') F \<and>
      tree_orders (fst s') (snd s') = insert_order l (tree_orders (fst s) (snd s))"
    if "leaf_ok l" "\<not> is_full (fst s)" for l
    by (rule insert_leaf_spec [OF g that(1) disjI1 [OF that(2)]]) (auto simp: store_insert_def)
qed

section \<open>The empty tree\<close>

definition zeroed_tree :: "order_tree_type \<Rightarrow> nat \<Rightarrow> order_tree" where
  \<comment> \<open>a zero-initialised account with its type set; the code has \<open>n = 1024\<close> nodes\<close>
  "zeroed_tree ty n = \<lparr>order_tree_type = ty, bump_index = 0, free_list_len = 0,
     free_list_head = 0, nodes = replicate n Uninitialized\<rparr>"

definition zeroed_root :: order_tree_root where
  "zeroed_root = \<lparr>maybe_node = 0, leaf_count = 0\<rparr>"

lemma zeroed_tree_inv: "int n < U32_MAX \<Longrightarrow> tree_inv (zeroed_tree ty n) zeroed_root None [] {}"
  by (simp add: tree_inv_def zeroed_tree_def zeroed_root_def arena_def)

lemma zeroed_tree_good: "int n < U32_MAX \<Longrightarrow> good_tree (zeroed_tree ty n) zeroed_root {}"
  using zeroed_tree_inv by (blast intro: good_treeI)

end
