(* ===== verification/Order_Tree_Iter.thy ===== *)
theory Order_Tree_Iter
  imports Order_Tree_Api
begin

text \<open>
  \<open>state/orderbook/ordertree_iterator.rs\<close>: the in-order iterator of one order tree, with its
  stack of inner nodes whose far side is still to come and the leaf found ahead of time.
  \<open>it_left\<close> is the index taken first: 1 for bids (high to low), 0 for asks. The lemmas show
  that the iterator yields exactly the orders of the tree, in key order for asks and in
  reverse key order for bids, and then stops.
\<close>

type_synonym item = "handle \<times> leaf_node"

record order_tree_iter =
  it_stack :: "inner_node list"
  it_next_leaf :: "item option"
  it_left :: bool

fun find_leftmost_leaf ::
  "nat \<Rightarrow> order_tree \<Rightarrow> bool \<Rightarrow> inner_node list \<Rightarrow> handle \<Rightarrow> (item option \<times> inner_node list) res"
where
  "find_leftmost_leaf 0 t left stack current = Inl OutOfFuel"
| "find_leftmost_leaf (Suc fuel) t left stack current =
     bnd (ref_at t current) (\<lambda>r. case r of
       InnerRef inner \<Rightarrow>
         find_leftmost_leaf fuel t left (inner # stack) (sel2 left (children inner))
     | LeafRef leaf \<Rightarrow> Ok (Some (current, leaf), stack))"

definition iter_new :: "order_tree \<Rightarrow> order_tree_root \<Rightarrow> order_tree_iter res" where
  "iter_new t root =
     (let left = (order_tree_type t = Bids) in
      case root_node root of
        None \<Rightarrow> Ok \<lparr>it_stack = [], it_next_leaf = None, it_left = left\<rparr>
      | Some r \<Rightarrow> bnd (find_leftmost_leaf (tree_fuel t) t left [] r) (\<lambda>(leaf, stack).
          Ok \<lparr>it_stack = stack, it_next_leaf = leaf, it_left = left\<rparr>))"

definition iter_side :: "order_tree_iter \<Rightarrow> side" where
  "iter_side it = (if it_left it then Bid else Ask)"

definition iter_peek :: "order_tree_iter \<Rightarrow> item option" where
  "iter_peek it = it_next_leaf it"

definition iter_next :: "order_tree \<Rightarrow> order_tree_iter \<Rightarrow> (item option \<times> order_tree_iter) res" where
  "iter_next t it = (case it_next_leaf it of
     None \<Rightarrow> Ok (None, it)
   | Some current_leaf \<Rightarrow> (case it_stack it of
       [] \<Rightarrow> Ok (Some current_leaf, it\<lparr>it_next_leaf := None\<rparr>)
     | inner # stack \<Rightarrow>
         bnd (find_leftmost_leaf (tree_fuel t) t (it_left it) stack
                (sel2 (\<not> it_left it) (children inner))) (\<lambda>(leaf, stack').
         Ok (Some current_leaf, it\<lparr>it_next_leaf := leaf, it_stack := stack'\<rparr>))))"

text \<open>Running an iterator to its end, as \<open>count\<close> and \<open>for\<close> loops do.\<close>

fun iter_collect :: "nat \<Rightarrow> order_tree \<Rightarrow> order_tree_iter \<Rightarrow> item list res" where
  "iter_collect 0 t it = Inl OutOfFuel"
| "iter_collect (Suc fuel) t it = bnd (iter_next t it) (\<lambda>(x, it'). case x of
     None \<Rightarrow> Ok []
   | Some i \<Rightarrow> bnd (iter_collect fuel t it') (\<lambda>is. Ok (i # is)))"

section \<open>What is still to come\<close>

definition walk :: "bool \<Rightarrow> ctree \<Rightarrow> item list" where
  "walk left t = (if left then rev (leaves t) else leaves t)"

lemma walk_simps [simp]:
  "walk left (CLeaf h l) = [(h, l)]"
  "walk True (CNode h i a b) = walk True b @ walk True a"
  "walk False (CNode h i a b) = walk False a @ walk False b"
  by (simp_all add: walk_def)

text \<open>The far subtrees of the inner nodes on the stack, and that they are in the array.\<close>

fun pending :: "order_tree \<Rightarrow> bool \<Rightarrow> inner_node list \<Rightarrow> ctree list \<Rightarrow> bool" where
  "pending T left [] ts \<longleftrightarrow> ts = []"
| "pending T left (i # st) ts \<longleftrightarrow> (\<exists>t ts'. ts = t # ts' \<and>
     sel2 (\<not> left) (children i) = root_handle t \<and> linked t \<and> stored (nodes T) t \<and>
     length (handles t) < tree_fuel T \<and> pending T left st ts')"

definition iter_rest :: "order_tree \<Rightarrow> order_tree_iter \<Rightarrow> item list \<Rightarrow> bool" where
  "iter_rest T it xs \<longleftrightarrow> (case it_next_leaf it of
     None \<Rightarrow> xs = [] \<and> it_stack it = []
   | Some x \<Rightarrow> \<exists>ts. pending T (it_left it) (it_stack it) ts \<and>
       xs = x # concat (map (walk (it_left it)) ts))"

lemma find_leftmost_leaf_ok:
  assumes "linked t" and "stored (nodes T) t" and "length (handles t) < fuel"
    and "length (handles t) < tree_fuel T" and "pending T left st ts"
  shows "\<exists>x st' ts'. find_leftmost_leaf fuel T left st (root_handle t) = Ok (Some x, st') \<and>
    pending T left st' ts' \<and>
    walk left t @ concat (map (walk left) ts) = x # concat (map (walk left) ts')"
  using assms
proof (induction t arbitrary: fuel st ts)
  case (CLeaf h l)
  then obtain fu where fu: "fuel = Suc fu" by (cases fuel) auto
  have "find_leftmost_leaf fuel T left st h = Ok (Some (h, l), st)"
    using CLeaf.prems by (simp add: fu ref_at_def)
  then show ?case using CLeaf.prems by auto
next
  case (CNode h i a b)
  then obtain fu where fu: "fuel = Suc fu" by (cases fuel) auto
  have r: "ref_at T h = Ok (InnerRef i)" using CNode.prems by (simp add: ref_at_def)
  show ?case
  proof (cases left)
    case True
    have "pending T left (i # st) (a # ts)" using CNode.prems True by auto
    then obtain x st' ts' where "find_leftmost_leaf fu T left (i # st) (root_handle b) =
        Ok (Some x, st')" "pending T left st' ts'"
        "walk left b @ concat (map (walk left) (a # ts)) = x # concat (map (walk left) ts')"
      using CNode.IH(2) [of fu "i # st" "a # ts"] CNode.prems fu by auto
    then show ?thesis using CNode.prems True by (auto simp: fu r)
  next
    case False
    have "pending T left (i # st) (b # ts)" using CNode.prems False by auto
    then obtain x st' ts' where "find_leftmost_leaf fu T left (i # st) (root_handle a) =
        Ok (Some x, st')" "pending T left st' ts'"
        "walk left a @ concat (map (walk left) (b # ts)) = x # concat (map (walk left) ts')"
      using CNode.IH(1) [of fu "i # st" "b # ts"] CNode.prems fu by auto
    then show ?thesis using CNode.prems False by (auto simp: fu r)
  qed
qed

lemma iter_next_ok:
  assumes "iter_rest T it xs"
  shows "\<exists>it'. iter_next T it = Ok (case xs of [] \<Rightarrow> None | x # _ \<Rightarrow> Some x, it') \<and>
    iter_rest T it' (tl xs) \<and> it_left it' = it_left it"
proof (cases "it_next_leaf it")
  case None
  then show ?thesis using assms by (simp add: iter_next_def iter_rest_def)
next
  case (Some x)
  then obtain ts where p: "pending T (it_left it) (it_stack it) ts"
    and xs: "xs = x # concat (map (walk (it_left it)) ts)"
    using assms by (auto simp: iter_rest_def)
  show ?thesis
  proof (cases "it_stack it")
    case Nil
    then show ?thesis using p xs Some by (simp add: iter_next_def iter_rest_def)
  next
    case (Cons i st)
    then obtain t ts1 where t: "ts = t # ts1" "sel2 (\<not> it_left it) (children i) = root_handle t"
        "linked t" "stored (nodes T) t" "length (handles t) < tree_fuel T"
        "pending T (it_left it) st ts1"
      using p by auto
    obtain y st' ts' where "find_leftmost_leaf (tree_fuel T) T (it_left it) st (root_handle t) =
        Ok (Some y, st')" "pending T (it_left it) st' ts'"
        "walk (it_left it) t @ concat (map (walk (it_left it)) ts1) =
         y # concat (map (walk (it_left it)) ts')"
      using find_leftmost_leaf_ok [OF t(3,4,5,5,6)] by blast
    then show ?thesis using Some Cons t xs by (auto simp: iter_next_def iter_rest_def)
  qed
qed

lemma iter_peek_ok: "iter_rest T it xs \<Longrightarrow> iter_peek it = (case xs of [] \<Rightarrow> None | x # _ \<Rightarrow> Some x)"
  by (auto simp: iter_rest_def iter_peek_def split: option.splits)

text \<open>The order in which a tree is walked: best orders first.\<close>

definition book_order :: "order_tree_type \<Rightarrow> 'a list \<Rightarrow> 'a list" where
  "book_order ty xs = (case ty of Bids \<Rightarrow> rev xs | Asks \<Rightarrow> xs)"

lemma iter_new_ok:
  assumes inv: "tree_inv T root ot fl F"
  shows "\<exists>it. iter_new T root = Ok it \<and> it_left it = (order_tree_type T = Bids) \<and>
    iter_rest T it (book_order (order_tree_type T) (ot_leaves ot))"
proof (cases ot)
  case None
  then show ?thesis using inv
    by (cases "order_tree_type T")
      (simp_all add: iter_new_def tree_inv_def root_node_def iter_rest_def book_order_def)
next
  case (Some ct)
  note inv' = inv [unfolded Some]
  let ?l = "order_tree_type T = Bids"
  have rn: "root_node root = Some (root_handle ct)"
    using inv' tree_inv_count(2) [OF inv'] by (simp add: tree_inv_def root_node_def)
  obtain x st' ts' where "find_leftmost_leaf (tree_fuel T) T ?l [] (root_handle ct) =
      Ok (Some x, st')" "pending T ?l st' ts'"
      "walk ?l ct = x # concat (map (walk ?l) ts')"
    using find_leftmost_leaf_ok [of ct T "tree_fuel T" ?l "[]" "[]"] inv'
      tree_fuel_enough [OF inv'] by (auto simp: tree_inv_def)
  then show ?thesis using rn Some
    by (cases "order_tree_type T") (auto simp: iter_new_def iter_rest_def walk_def book_order_def)
qed

lemma iter_collect_ok:
  "iter_rest T it xs \<Longrightarrow> length xs < fuel \<Longrightarrow> iter_collect fuel T it = Ok xs"
proof (induction fuel arbitrary: it xs)
  case (Suc fuel)
  obtain it' where "iter_next T it = Ok (case xs of [] \<Rightarrow> None | x # _ \<Rightarrow> Some x, it')"
      "iter_rest T it' (tl xs)"
    using iter_next_ok [OF Suc.prems(1)] by blast
  then show ?case using Suc by (cases xs) auto
qed simp

lemma iter_spec:
  assumes "good_tree T root F"
  shows "\<exists>it xs. iter_new T root = Ok it \<and> it_left it = (order_tree_type T = Bids) \<and>
    iter_rest T it xs \<and> length xs < tree_fuel T \<and>
    map snd xs = book_order (order_tree_type T) (tree_orders T root)"
proof -
  obtain ot fl where inv: "tree_inv T root ot fl F" and os: "tree_orders T root = ot_orders ot"
    using assms by (rule good_treeE)
  have "length (ot_leaves ot) < tree_fuel T"
  proof (cases ot)
    case None
    then show ?thesis by (simp add: tree_fuel_def)
  next
    case (Some ct)
    then show ?thesis using tree_fuel_enough [of T root ct fl F] inv length_leaves [of ct] by simp
  qed
  moreover have "map snd (book_order ty (ot_leaves ot)) = book_order ty (tree_orders T root)" for ty
    by (cases ty) (simp_all add: book_order_def os ot_orders_def rev_map)
  moreover have "length (book_order ty xs) = length xs" for ty and xs :: "item list"
    by (cases ty) (simp_all add: book_order_def)
  ultimately show ?thesis using iter_new_ok [OF inv] by (metis (no_types))
qed

lemma iterate_spec:
  assumes "good_tree T root F"
  shows "\<exists>xs. bnd (iter_new T root) (iter_collect (tree_fuel T) T) = Ok xs \<and>
    map snd xs = book_order (order_tree_type T) (tree_orders T root)"
  using iter_spec [OF assms] iter_collect_ok by fastforce

end
