(* ===== verification/Book_Side.thy ===== *)
theory Book_Side
  imports Order_Tree_Iter
begin

text \<open>
  \<open>state/orderbook/bookside.rs\<close> and \<open>bookside_iterator.rs\<close>: one side of the book, with its
  fixed-price and its oracle-pegged tree in one node array, and the iterator that merges the
  two. The reserved roots and padding are left out. Loops over the iterator get the fuel
  \<open>side_fuel\<close>, more than the orders both trees can hold.
\<close>

record book_side =
  roots :: "order_tree_root \<times> order_tree_root"
  side_nodes :: order_tree

definition book_root :: "book_side \<Rightarrow> book_tree \<Rightarrow> order_tree_root" where
  "book_root b component = (case component of
     Fixed \<Rightarrow> fst (roots b) | OraclePegged \<Rightarrow> snd (roots b))"

definition set_book_root :: "book_tree \<Rightarrow> order_tree_root \<Rightarrow> order_tree \<Rightarrow> book_side \<Rightarrow> book_side" where
  \<comment> \<open>the state after a call on one component: its root and the shared nodes\<close>
  "set_book_root component r t b = b\<lparr>side_nodes := t, roots := (case component of
     Fixed \<Rightarrow> (r, snd (roots b)) | OraclePegged \<Rightarrow> (fst (roots b), r))\<rparr>"

definition book_side_of :: "book_side \<Rightarrow> side" where
  "book_side_of b = tree_type_side (order_tree_type (side_nodes b))"

section \<open>Prices of orders\<close>

datatype order_state = ValidState | InvalidState | SkippedState

definition oracle_pegged_price :: "i64 \<Rightarrow> leaf_node \<Rightarrow> side \<Rightarrow> order_state \<times> i64" where
  "oracle_pegged_price oracle_price_lots node side =
     (let price_offset = oracle_pegged_price_offset (price_data node);
          price = sat_i64 (oracle_price_lots + price_offset)
      in if 1 \<le> price \<and> price < I64_MAX then
           (if peg_limit node \<noteq> -1 \<and> is_price_better side price (peg_limit node)
            then (InvalidState, price) else (ValidState, price))
         else (SkippedState, max price 1))"

definition key_for_fixed_price :: "key128 \<Rightarrow> i64 \<Rightarrow> key128 res" where
  "key_for_fixed_price key price_lots =
     bnd (assert_that (price_lots \<ge> 1)) (\<lambda>_.
     case fixed_price_data price_lots of
       Inl e \<Rightarrow> Inl Panic
     | Inr p_data \<Rightarrow>
         (let upper = push_bit 64 (ucast p_data :: key128);
              lower = (ucast (ucast key :: 64 word) :: key128)
          in Ok (or upper lower)))"

record book_item =
  item_tree :: book_tree
  item_handle :: handle
  item_node :: leaf_node
  item_price_lots :: i64
  item_state :: order_state

definition item_is_valid :: "book_item \<Rightarrow> bool" where
  "item_is_valid it \<longleftrightarrow> item_state it = ValidState"

definition fixed_to_result :: "handle \<times> leaf_node \<Rightarrow> u64 \<Rightarrow> book_item res" where
  "fixed_to_result fixed now_ts =
     (let (handle, node) = fixed in
      bnd (is_expired node now_ts) (\<lambda>expired.
      bnd (fixed_price_lots (price_data node)) (\<lambda>price.
      Ok \<lparr>item_tree = Fixed, item_handle = handle, item_node = node, item_price_lots = price,
          item_state = (if expired then InvalidState else ValidState)\<rparr>)))"

definition oracle_pegged_to_result ::
  "handle \<times> leaf_node \<times> i64 \<times> order_state \<Rightarrow> u64 \<Rightarrow> book_item res" where
  "oracle_pegged_to_result pegged now_ts =
     (let (handle, node, price_lots, state) = pegged in
      bnd (is_expired node now_ts) (\<lambda>expired.
      Ok \<lparr>item_tree = OraclePegged, item_handle = handle, item_node = node,
          item_price_lots = price_lots,
          item_state = (if expired then InvalidState else state)\<rparr>))"

definition key_is_better :: "side \<Rightarrow> key128 \<Rightarrow> key128 \<Rightarrow> bool" where
  "key_is_better side a b = (if side = Bid then a > b else a < b)"

definition rank_orders ::
  "side \<Rightarrow> item option \<Rightarrow> item option \<Rightarrow> bool \<Rightarrow> u64 \<Rightarrow> i64 option \<Rightarrow> book_item option res" where
  "rank_orders side fixed oracle_pegged return_worse now_ts oracle_price_lots =
     (let oracle_pegged = (case oracle_price_lots of
            Some oracle_price_lots \<Rightarrow> map_option (\<lambda>(handle, node).
              let (state, price_lots) = oracle_pegged_price oracle_price_lots node side
              in (handle, node, price_lots, state)) oracle_pegged
          | None \<Rightarrow> None)
      in case (fixed, oracle_pegged) of
        (Some f, Some (h, node, price, state)) \<Rightarrow>
          bnd (key_for_fixed_price (leaf_key node) price) (\<lambda>k.
          if key_is_better side (leaf_key (snd f)) k \<noteq> return_worse
          then bnd (fixed_to_result f now_ts) (\<lambda>r. Ok (Some r))
          else bnd (oracle_pegged_to_result (h, node, price, state) now_ts) (\<lambda>r. Ok (Some r)))
      | (None, Some p) \<Rightarrow> bnd (oracle_pegged_to_result p now_ts) (\<lambda>r. Ok (Some r))
      | (Some f, None) \<Rightarrow> bnd (fixed_to_result f now_ts) (\<lambda>r. Ok (Some r))
      | (None, None) \<Rightarrow> Ok None)"

section \<open>The merging iterator\<close>

record book_iter =
  fixed_iter :: order_tree_iter
  pegged_iter :: order_tree_iter
  bi_now_ts :: u64
  bi_oracle_price_lots :: "i64 option"

definition book_iter_new :: "book_side \<Rightarrow> u64 \<Rightarrow> i64 option \<Rightarrow> book_iter res" where
  "book_iter_new b now_ts oracle_price_lots =
     bnd (iter_new (side_nodes b) (book_root b Fixed)) (\<lambda>f.
     bnd (iter_new (side_nodes b) (book_root b OraclePegged)) (\<lambda>p.
     Ok \<lparr>fixed_iter = f, pegged_iter = p, bi_now_ts = now_ts,
         bi_oracle_price_lots = oracle_price_lots\<rparr>))"

definition side_fuel :: "order_tree \<Rightarrow> nat" where
  "side_fuel t = 2 * tree_fuel t + 2"

fun skip_loop ::
  "nat \<Rightarrow> order_tree \<Rightarrow> i64 \<Rightarrow> side \<Rightarrow> item option \<Rightarrow> order_tree_iter \<Rightarrow>
   (item option \<times> order_tree_iter) res" where
  "skip_loop 0 t oracle_price_lots side o_peek it = Inl OutOfFuel"
| "skip_loop (Suc fuel) t oracle_price_lots side o_peek it = (case o_peek of
     None \<Rightarrow> Ok (None, it)
   | Some (h, o_node) \<Rightarrow>
       if fst (oracle_pegged_price oracle_price_lots o_node side) \<noteq> SkippedState
       then Ok (o_peek, it)
       else bnd (iter_next t it) (\<lambda>(o_peek', it').
            skip_loop fuel t oracle_price_lots side o_peek' it'))"

definition book_iter_next ::
  "order_tree \<Rightarrow> book_iter \<Rightarrow> (book_item option \<times> book_iter) res" where
  "book_iter_next t bi =
     (let side = iter_side (fixed_iter bi) in
      bnd (case bi_oracle_price_lots bi of
             Some oracle_price_lots \<Rightarrow>
               skip_loop (side_fuel t) t oracle_price_lots side (iter_peek (pegged_iter bi))
                 (pegged_iter bi)
           | None \<Rightarrow> Ok (None, pegged_iter bi)) (\<lambda>(o_peek, p_it).
      let bi1 = bi\<lparr>pegged_iter := p_it\<rparr>; f_peek = iter_peek (fixed_iter bi) in
      bnd (rank_orders side f_peek o_peek False (bi_now_ts bi) (bi_oracle_price_lots bi)) (\<lambda>r.
      case r of
        None \<Rightarrow> Ok (None, bi1)
      | Some better \<Rightarrow> (case item_tree better of
            Fixed \<Rightarrow> bnd (iter_next t (fixed_iter bi1)) (\<lambda>(_, f).
              Ok (Some better, bi1\<lparr>fixed_iter := f\<rparr>))
          | OraclePegged \<Rightarrow> bnd (iter_next t (pegged_iter bi1)) (\<lambda>(_, p).
              Ok (Some better, bi1\<lparr>pegged_iter := p\<rparr>))))))"

text \<open>\<open>filter(is_valid)\<close>: the next valid item.\<close>

fun valid_iter_next ::
  "nat \<Rightarrow> order_tree \<Rightarrow> book_iter \<Rightarrow> (book_item option \<times> book_iter) res" where
  "valid_iter_next 0 t bi = Inl OutOfFuel"
| "valid_iter_next (Suc fuel) t bi = bnd (book_iter_next t bi) (\<lambda>(x, bi'). case x of
     None \<Rightarrow> Ok (None, bi')
   | Some it \<Rightarrow> if item_is_valid it then Ok (Some it, bi') else valid_iter_next fuel t bi')"

section \<open>Queries\<close>

definition book_is_full :: "book_side \<Rightarrow> bool" where
  "book_is_full b = is_full (side_nodes b)"

definition component_empty :: "book_side \<Rightarrow> book_tree \<Rightarrow> bool res" where
  "component_empty b component =
     bnd (iter_new (side_nodes b) (book_root b component)) (\<lambda>it.
     bnd (iter_collect (tree_fuel (side_nodes b)) (side_nodes b) it) (\<lambda>xs.
     Ok (length xs = 0)))"

definition book_is_empty :: "book_side \<Rightarrow> bool res" where
  "book_is_empty b = bnd (component_empty b Fixed) (\<lambda>e.
     if e then component_empty b OraclePegged else Ok False)"

fun quantity_loop :: "nat \<Rightarrow> order_tree \<Rightarrow> side \<Rightarrow> i64 \<Rightarrow> i64 \<Rightarrow> book_iter \<Rightarrow> i64 res" where
  "quantity_loop 0 t side limit_price_lots acc bi = Inl OutOfFuel"
| "quantity_loop (Suc fuel) t side limit_price_lots acc bi =
     bnd (valid_iter_next (side_fuel t) t bi) (\<lambda>(x, bi'). case x of
       None \<Rightarrow> Ok acc
     | Some it \<Rightarrow>
         if is_price_better side limit_price_lots (item_price_lots it) then Ok acc
         else bnd (chk_i64 (acc + quantity (item_node it))) (\<lambda>acc'.
           quantity_loop fuel t side limit_price_lots acc' bi'))"

definition quantity_at_price :: "book_side \<Rightarrow> i64 \<Rightarrow> u64 \<Rightarrow> i64 \<Rightarrow> i64 res" where
  "quantity_at_price b limit_price_lots now_ts oracle_price_lots =
     bnd (book_iter_new b now_ts (Some oracle_price_lots)) (\<lambda>bi.
     quantity_loop (side_fuel (side_nodes b)) (side_nodes b) (book_side_of b) limit_price_lots 0 bi)"

definition best_price :: "book_side \<Rightarrow> u64 \<Rightarrow> i64 option \<Rightarrow> i64 option res" where
  "best_price b now_ts oracle_price_lots =
     bnd (book_iter_new b now_ts oracle_price_lots) (\<lambda>bi.
     bnd (valid_iter_next (side_fuel (side_nodes b)) (side_nodes b) bi) (\<lambda>(x, _).
     Ok (map_option item_price_lots x)))"

fun impact_loop :: "nat \<Rightarrow> order_tree \<Rightarrow> i64 \<Rightarrow> i64 \<Rightarrow> book_iter \<Rightarrow> i64 option res" where
  "impact_loop 0 t qty acc bi = Inl OutOfFuel"
| "impact_loop (Suc fuel) t qty acc bi =
     bnd (valid_iter_next (side_fuel t) t bi) (\<lambda>(x, bi'). case x of
       None \<Rightarrow> Ok None
     | Some order \<Rightarrow> bnd (chk_i64 (acc + quantity (item_node order))) (\<lambda>acc'.
         if acc' \<ge> qty then Ok (Some (item_price_lots order))
         else impact_loop fuel t qty acc' bi'))"

definition impact_price :: "book_side \<Rightarrow> i64 \<Rightarrow> u64 \<Rightarrow> i64 \<Rightarrow> i64 option res" where
  "impact_price b qty now_ts oracle_price_lots =
     bnd (book_iter_new b now_ts (Some oracle_price_lots)) (\<lambda>bi.
     impact_loop (side_fuel (side_nodes b)) (side_nodes b) qty 0 bi)"

section \<open>Updates\<close>

definition book_insert_leaf ::
  "book_side \<Rightarrow> book_tree \<Rightarrow> leaf_node \<Rightarrow> (handle \<times> leaf_node option \<times> book_side) res" where
  "book_insert_leaf b component new_leaf =
     bnd (insert_leaf (side_nodes b) (book_root b component) new_leaf) (\<lambda>(h, old, r, t).
     Ok (h, old, set_book_root component r t b))"

definition book_remove_by_key ::
  "book_side \<Rightarrow> book_tree \<Rightarrow> key128 \<Rightarrow> (leaf_node option \<times> book_side) res" where
  "book_remove_by_key b component search_key =
     bnd (remove_by_key (side_nodes b) (book_root b component) search_key) (\<lambda>(l, r, t).
     Ok (l, set_book_root component r t b))"

definition book_remove_worst ::
  "book_side \<Rightarrow> u64 \<Rightarrow> i64 option \<Rightarrow> ((leaf_node \<times> i64) option \<times> book_side) res" where
  "book_remove_worst b now_ts oracle_price_lots =
     bnd (find_worst (side_nodes b) (fst (roots b))) (\<lambda>worst_fixed.
     bnd (find_worst (side_nodes b) (snd (roots b))) (\<lambda>worst_pegged.
     bnd (rank_orders (book_side_of b) worst_fixed worst_pegged True now_ts oracle_price_lots) (\<lambda>r.
     case r of
       None \<Rightarrow> Ok (None, b)
     | Some worse \<Rightarrow>
         bnd (book_remove_by_key b (item_tree worse) (leaf_key (item_node worse))) (\<lambda>(n, b').
         case n of
           None \<Rightarrow> Ok (None, b')
         | Some n \<Rightarrow> Ok (Some (n, item_price_lots worse), b')))))"

fun other_component :: "book_tree \<Rightarrow> book_tree" where
  "other_component Fixed = OraclePegged"
| "other_component OraclePegged = Fixed"

definition book_remove_one_expired ::
  "book_side \<Rightarrow> book_tree \<Rightarrow> u64 \<Rightarrow> (leaf_node option \<times> book_side) res" where
  "book_remove_one_expired b component now_ts =
     bnd (remove_one_expired (side_nodes b) (book_root b component) now_ts) (\<lambda>(n, r, t).
     let b1 = set_book_root component r t b in
     case n of
       Some l \<Rightarrow> Ok (Some l, b1)
     | None \<Rightarrow>
         bnd (remove_one_expired (side_nodes b1) (book_root b1 (other_component component)) now_ts)
           (\<lambda>(n', r', t'). Ok (n', set_book_root (other_component component) r' t' b1)))"

end
