(* ===== verification/Market.thy ===== *)
theory Market
  imports Nodes
begin

text \<open>
  \<open>pubkey_option.rs\<close>, \<open>util.rs\<close> and the integer part of \<open>state/market.rs\<close>: the market account,
  order ids, lot limits and fees. A zero key stands for no key. Floating-point values (the
  oracle configuration) are kept as their 64 bits; the oracle's price arithmetic
  (\<open>I80F48\<close>, \<open>f64\<close>) is not modelled here, the price in lots is an input of the operations that
  use it.
\<close>

section \<open>Optional keys\<close>

type_synonym nz_pubkey = pubkey

definition nz_is_some :: "nz_pubkey \<Rightarrow> bool" where
  "nz_is_some k \<longleftrightarrow> k \<noteq> 0"

definition nz_is_none :: "nz_pubkey \<Rightarrow> bool" where
  "nz_is_none k \<longleftrightarrow> k = 0"

definition nz_to_option :: "nz_pubkey \<Rightarrow> pubkey option" where
  "nz_to_option k = (if nz_is_some k then Some k else None)"

definition nz_of_option :: "pubkey option \<Rightarrow> nz_pubkey" where
  "nz_of_option opt = (case opt of Some k \<Rightarrow> k | None \<Rightarrow> 0)"

text \<open>Comparison of an optional key with a key, in either order.\<close>

definition nz_eq :: "nz_pubkey \<Rightarrow> pubkey \<Rightarrow> bool" where
  "nz_eq opt k \<longleftrightarrow> nz_is_some opt \<and> opt = k"

definition non_zero_key :: "pubkey option \<Rightarrow> nz_pubkey" where
  "non_zero_key acc = nz_of_option acc"

text \<open>\<open>fill_from_str\<close>: a name of at most \<open>n\<close> bytes, padded with zeros.\<close>

definition fill_from_str :: "nat \<Rightarrow> 8 word list \<Rightarrow> 8 word list res" where
  "fill_from_str n name =
     bnd (require (length name \<le> n) InvalidInputNameLength) (\<lambda>_.
     Ok (name @ replicate (n - length name) 0))"

lemma nz_eq_iff: "nz_eq opt k \<longleftrightarrow> nz_to_option opt = Some k"
  by (auto simp: nz_eq_def nz_to_option_def)

lemma nz_option_roundtrip: "opt \<noteq> Some 0 \<Longrightarrow> nz_to_option (nz_of_option opt) = opt"
  by (auto simp: nz_to_option_def nz_of_option_def nz_is_some_def split: option.splits)

section \<open>The market account\<close>

definition FEES_SCALE_FACTOR :: i128 where "FEES_SCALE_FACTOR = 1000000"
definition PENALTY_EVENT_HEAP :: u64 where "PENALTY_EVENT_HEAP = 500"

record oracle_config =
  conf_filter :: "64 word"
  max_staleness_slots :: i64

record market =
  m_bump :: nat
  base_decimals :: nat
  quote_decimals :: nat
  market_authority :: pubkey
  time_expiry :: i64
  collect_fee_admin :: pubkey
  open_orders_admin :: nz_pubkey
  consume_events_admin :: nz_pubkey
  close_market_admin :: nz_pubkey
  m_name :: "8 word list"
  m_bids :: pubkey
  m_asks :: pubkey
  m_event_heap :: pubkey
  oracle_a :: nz_pubkey
  oracle_b :: nz_pubkey
  m_oracle_config :: oracle_config
  quote_lot_size :: i64
  base_lot_size :: i64
  seq_num :: u64
  registration_time :: i64
  maker_fee :: i64
  taker_fee :: i64
  fees_accrued :: u128
  fees_to_referrers :: u128
  referrer_rebates_accrued :: u64
  fees_available :: u64
  m_maker_volume :: u128
  taker_volume_wo_oo :: u128
  base_mint :: pubkey
  quote_mint :: pubkey
  market_base_vault :: pubkey
  base_deposit_total :: u64
  market_quote_vault :: pubkey
  quote_deposit_total :: u64

definition market_is_expired :: "market \<Rightarrow> i64 \<Rightarrow> bool" where
  "market_is_expired m ts \<longleftrightarrow> time_expiry m \<noteq> 0 \<and> time_expiry m < ts"

definition market_is_empty :: "market \<Rightarrow> bool" where
  "market_is_empty m \<longleftrightarrow> base_deposit_total m = 0 \<and> quote_deposit_total m = 0 \<and>
     fees_available m = 0 \<and> referrer_rebates_accrued m = 0"

definition is_market_vault :: "market \<Rightarrow> pubkey \<Rightarrow> bool" where
  "is_market_vault m k \<longleftrightarrow> k = market_quote_vault m \<or> k = market_base_vault m"

definition get_vault_by_side :: "market \<Rightarrow> side \<Rightarrow> pubkey" where
  "get_vault_by_side m side = (case side of
     Ask \<Rightarrow> market_base_vault m | Bid \<Rightarrow> market_quote_vault m)"

definition gen_order_id :: "market \<Rightarrow> side \<Rightarrow> price_word \<Rightarrow> (key128 \<times> market) res" where
  "gen_order_id m side p_data =
     bnd (chk_u64 (seq_num m + 1)) (\<lambda>n.
     Ok (new_node_key side p_data (word_of_int n), m\<lparr>seq_num := n\<rparr>))"

definition max_base_lots :: "market \<Rightarrow> i64 res" where
  "max_base_lots m = div_chk is_i64 I64_MAX (base_lot_size m)"

definition max_quote_lots :: "market \<Rightarrow> i64 res" where
  "max_quote_lots m = div_chk is_i64 I64_MAX (quote_lot_size m)"

definition max_base_lots_from_lamports :: "market \<Rightarrow> u64 \<Rightarrow> i64 res" where
  "max_base_lots_from_lamports m lamports =
     bnd (div_chk is_u64 lamports (as_u64 (base_lot_size m))) (\<lambda>base_lots.
     bnd (max_base_lots m) (\<lambda>mx. chk_i64 (min (as_u64 mx) base_lots)))"

definition max_quote_lots_from_lamports :: "market \<Rightarrow> u64 \<Rightarrow> i64 res" where
  "max_quote_lots_from_lamports m lamports =
     bnd (div_chk is_u64 lamports (as_u64 (quote_lot_size m))) (\<lambda>quote_lots.
     bnd (max_quote_lots m) (\<lambda>mx. chk_i64 (min (as_u64 mx) quote_lots)))"

section \<open>Fees\<close>

definition subtract_taker_fees :: "market \<Rightarrow> i64 \<Rightarrow> i64 res" where
  "subtract_taker_fees m quote =
     bnd (chk_i128 (quote * FEES_SCALE_FACTOR)) (\<lambda>num.
     bnd (chk_i128 (FEES_SCALE_FACTOR + taker_fee m)) (\<lambda>den.
     bnd (div_chk is_i128 num den) chk_i64))"

definition unsigned_maker_fees_floor :: "market \<Rightarrow> u64 \<Rightarrow> u64 res" where
  "unsigned_maker_fees_floor m amount =
     bnd (chk_i64 \<bar>maker_fee m\<bar>) (\<lambda>f.
     bnd (chk_i128 (amount * f)) (\<lambda>num.
     bnd (div_chk is_i128 num FEES_SCALE_FACTOR) chk_u64))"

definition maker_fees_floor :: "market \<Rightarrow> u64 \<Rightarrow> u64 res" where
  "maker_fees_floor m amount =
     (if maker_fee m > 0 then unsigned_maker_fees_floor m amount else Ok 0)"

definition maker_rebate_floor :: "market \<Rightarrow> u64 \<Rightarrow> u64 res" where
  "maker_rebate_floor m amount =
     (if maker_fee m > 0 then Ok 0 else unsigned_maker_fees_floor m amount)"

definition ceil_fee_division :: "market \<Rightarrow> i128 \<Rightarrow> i128 res" where
  "ceil_fee_division m numerator =
     bnd (chk_i128 (numerator + (FEES_SCALE_FACTOR - 1))) (\<lambda>n.
     div_chk is_i128 n FEES_SCALE_FACTOR)"

text \<open>The two generic functions; \<open>ty\<close> is the integer type \<open>T\<close> they are used at.\<close>

definition maker_fees_ceil :: "(int \<Rightarrow> bool) \<Rightarrow> market \<Rightarrow> int \<Rightarrow> int res" where
  "maker_fees_ceil ty m amount =
     (if maker_fee m > 0 then
        bnd (chk_i64 \<bar>maker_fee m\<bar>) (\<lambda>f.
        bnd (chk_i128 (amount * f)) (\<lambda>num.
        bnd (ceil_fee_division m num) (chk ty)))
      else Ok 0)"

definition taker_fees_ceil :: "(int \<Rightarrow> bool) \<Rightarrow> market \<Rightarrow> int \<Rightarrow> int res" where
  "taker_fees_ceil ty m amount =
     bnd (chk_i128 (amount * taker_fee m)) (\<lambda>num.
     bnd (ceil_fee_division m num) (chk ty))"

section \<open>Properties of the fees\<close>

definition ceil_div :: "int \<Rightarrow> int \<Rightarrow> int" where
  "ceil_div a b = (a + (b - 1)) div b"

lemma ceil_div_bounds:
  assumes "0 < b"
  shows "a \<le> ceil_div a b * b" and "ceil_div a b * b < a + b"
proof -
  have e: "(a + (b - 1)) div b * b = a + (b - 1) - (a + (b - 1)) mod b"
    by (simp add: minus_mod_eq_div_mult)
  show "a \<le> ceil_div a b * b" "ceil_div a b * b < a + b"
    unfolding ceil_div_def e
    using pos_mod_bound [OF assms, of "a + (b - 1)"] pos_mod_sign [OF assms, of "a + (b - 1)"]
    by linarith+
qed

lemma ceil_div_least: "0 < b \<Longrightarrow> a \<le> c * b \<Longrightarrow> ceil_div a b \<le> c"
proof -
  assume b: "0 < b" and a: "a \<le> c * b"
  have "ceil_div a b * b < a + b" by (rule ceil_div_bounds(2) [OF b])
  also have "\<dots> \<le> (c + 1) * b" using a by (simp add: algebra_simps)
  finally show ?thesis using b by (simp add: mult_less_cancel_right)
qed

lemma ceil_div_nonneg: "0 < b \<Longrightarrow> 0 \<le> a \<Longrightarrow> 0 \<le> ceil_div a b"
  by (simp add: ceil_div_def pos_imp_zdiv_nonneg_iff)

definition fee_ok :: "market \<Rightarrow> bool" where
  \<comment> \<open>the fee bounds \<open>create_market\<close> checks\<close>
  "fee_ok m \<longleftrightarrow> 0 \<le> taker_fee m \<and> taker_fee m \<le> FEES_SCALE_FACTOR \<and>
     \<bar>maker_fee m\<bar> \<le> FEES_SCALE_FACTOR \<and> 0 \<le> maker_fee m + taker_fee m"

lemma mult_bound:
  assumes "0 \<le> a" "a \<le> A" "0 \<le> b" "b \<le> (B :: int)"
  shows "0 \<le> a * b" and "a * b \<le> A * B"
  using assms by (auto intro: mult_mono)

lemma scale_pos: "0 < FEES_SCALE_FACTOR"
  by (simp add: FEES_SCALE_FACTOR_def)

lemma div_scale_bounds:
  assumes "0 \<le> x" and "x \<le> U64_MAX * FEES_SCALE_FACTOR"
  shows "is_i128 x" and "is_i128 (x + (FEES_SCALE_FACTOR - 1))"
    and "is_i128 (x div FEES_SCALE_FACTOR)" and "is_u64 (x div FEES_SCALE_FACTOR)"
    and "is_i128 (ceil_div x FEES_SCALE_FACTOR)" and "is_u64 (ceil_div x FEES_SCALE_FACTOR)"
proof -
  have x: "0 \<le> x" "x \<le> 18446744073709551615000000"
    using assms by (simp_all add: int_limits FEES_SCALE_FACTOR_def)
  have f: "0 \<le> x div 1000000" "x div 1000000 \<le> 18446744073709551615" using x by arith+
  have c: "0 \<le> (x + 999999) div 1000000" "(x + 999999) div 1000000 \<le> 18446744073709551615"
    using x by arith+
  show "is_i128 x" "is_i128 (x + (FEES_SCALE_FACTOR - 1))" "is_i128 (x div FEES_SCALE_FACTOR)"
    "is_u64 (x div FEES_SCALE_FACTOR)" "is_i128 (ceil_div x FEES_SCALE_FACTOR)"
    "is_u64 (ceil_div x FEES_SCALE_FACTOR)"
    using x f c by (simp_all add: is_i128_def is_u64_def int_limits FEES_SCALE_FACTOR_def ceil_div_def)
qed

lemma ceil_fee_division_eq:
  "0 \<le> x \<Longrightarrow> x \<le> U64_MAX * FEES_SCALE_FACTOR \<Longrightarrow>
   ceil_fee_division m x = Ok (ceil_div x FEES_SCALE_FACTOR)"
  using div_scale_bounds [of x] scale_pos by (simp add: ceil_fee_division_def ceil_div_def)

lemma taker_fees_ceil_eq:
  assumes "fee_ok m" and "0 \<le> amount" and "amount \<le> U64_MAX"
  shows "taker_fees_ceil ty m amount = chk ty (ceil_div (amount * taker_fee m) FEES_SCALE_FACTOR)"
proof -
  have "0 \<le> amount * taker_fee m" "amount * taker_fee m \<le> U64_MAX * FEES_SCALE_FACTOR"
    using mult_bound [of amount U64_MAX "taker_fee m" FEES_SCALE_FACTOR] assms
    by (auto simp: fee_ok_def)
  then show ?thesis
    using div_scale_bounds(1) ceil_fee_division_eq by (simp add: taker_fees_ceil_def)
qed

lemma maker_fees_ceil_eq:
  assumes "fee_ok m" and "0 \<le> amount" and "amount \<le> U64_MAX"
  shows "maker_fees_ceil ty m amount =
    (if maker_fee m > 0 then chk ty (ceil_div (amount * maker_fee m) FEES_SCALE_FACTOR) else Ok 0)"
proof (cases "maker_fee m > 0")
  case True
  then have "0 \<le> amount * maker_fee m" "amount * maker_fee m \<le> U64_MAX * FEES_SCALE_FACTOR"
    using mult_bound [of amount U64_MAX "maker_fee m" FEES_SCALE_FACTOR] assms
    by (auto simp: fee_ok_def)
  moreover have "is_i64 (maker_fee m)"
    using True assms by (auto simp: fee_ok_def is_i64_def int_limits FEES_SCALE_FACTOR_def)
  ultimately show ?thesis
    using True div_scale_bounds(1) ceil_fee_division_eq by (simp add: maker_fees_ceil_def)
qed (simp add: maker_fees_ceil_def)

lemma unsigned_floor_eq:
  assumes "fee_ok m" and "0 \<le> amount" and "amount \<le> U64_MAX"
  shows "unsigned_maker_fees_floor m amount = Ok (amount * \<bar>maker_fee m\<bar> div FEES_SCALE_FACTOR)"
proof -
  have b: "0 \<le> amount * \<bar>maker_fee m\<bar>" "amount * \<bar>maker_fee m\<bar> \<le> U64_MAX * FEES_SCALE_FACTOR"
    using mult_bound [of amount U64_MAX "\<bar>maker_fee m\<bar>" FEES_SCALE_FACTOR] assms
    by (auto simp: fee_ok_def)
  moreover have "is_i64 \<bar>maker_fee m\<bar>"
    using assms by (auto simp: fee_ok_def is_i64_def int_limits FEES_SCALE_FACTOR_def)
  ultimately show ?thesis
    using div_scale_bounds scale_pos by (simp add: unsigned_maker_fees_floor_def)
qed

text \<open>What is left of a quote amount after the taker fee: with the fee it never exceeds the
  amount, and one more lot would.\<close>

lemma subtract_taker_fees_spec:
  assumes ok: "fee_ok m" and q: "0 \<le> quote" "quote \<le> I64_MAX"
  shows "\<exists>r. subtract_taker_fees m quote = Ok r \<and> 0 \<le> r \<and> r \<le> quote \<and>
    r + ceil_div (r * taker_fee m) FEES_SCALE_FACTOR \<le> quote \<and>
    quote < r + 1 + ceil_div ((r + 1) * taker_fee m) FEES_SCALE_FACTOR"
proof -
  let ?S = FEES_SCALE_FACTOR and ?f = "taker_fee m"
  let ?r = "quote * ?S div (?S + ?f)"
  have S: "0 < ?S" by (rule scale_pos)
  have f: "0 \<le> ?f" "?f \<le> ?S" using ok by (auto simp: fee_ok_def)
  have d: "0 < ?S + ?f" using S f by linarith
  have m: "?r * (?S + ?f) = quote * ?S - quote * ?S mod (?S + ?f)"
    by (simp add: minus_mod_eq_div_mult)
  have lo: "?r * (?S + ?f) \<le> quote * ?S" and hi: "quote * ?S < (?r + 1) * (?S + ?f)"
    using m pos_mod_sign [OF d, of "quote * ?S"] pos_mod_bound [OF d, of "quote * ?S"]
    by (simp_all add: algebra_simps)
  have r0: "0 \<le> ?r" using q S d by (simp add: pos_imp_zdiv_nonneg_iff)
  have "?r * ?S \<le> ?r * (?S + ?f)" using r0 f by (simp add: algebra_simps)
  then have rq: "?r \<le> quote" using lo S by (metis mult_le_cancel_right_pos order_trans)
  have "?r * ?f \<le> (quote - ?r) * ?S" using lo by (simp add: algebra_simps)
  then have "ceil_div (?r * ?f) ?S \<le> quote - ?r" by (rule ceil_div_least [OF S])
  moreover have "quote - (?r + 1) < ceil_div ((?r + 1) * ?f) ?S"
  proof (rule ccontr)
    assume "\<not> ?thesis"
    then have "ceil_div ((?r + 1) * ?f) ?S * ?S \<le> (quote - (?r + 1)) * ?S"
      using S by (intro mult_right_mono) auto
    then have "(?r + 1) * ?f \<le> (quote - (?r + 1)) * ?S"
      using ceil_div_bounds(1) [OF S] order_trans by blast
    then show False using hi by (simp add: algebra_simps)
  qed
  moreover have "subtract_taker_fees m quote = Ok ?r"
  proof -
    have "0 \<le> quote * ?S" "quote * ?S \<le> I64_MAX * ?S" using q S by auto
    then have "is_i128 (quote * ?S)" by (simp add: is_i128_def int_limits FEES_SCALE_FACTOR_def)
    moreover have "is_i128 (?S + ?f)" using f by (simp add: is_i128_def int_limits FEES_SCALE_FACTOR_def)
    moreover have "is_i128 ?r" "is_i64 ?r"
      using r0 rq q by (simp_all add: is_i128_def is_i64_def int_limits)
    ultimately show ?thesis
      using \<open>0 \<le> quote * ?S\<close> d by (simp add: subtract_taker_fees_def)
  qed
  ultimately show ?thesis using r0 rq by (intro exI [of _ ?r]) simp
qed

lemma ceil_div_mono: "0 < b \<Longrightarrow> a \<le> a' \<Longrightarrow> ceil_div a b \<le> ceil_div a' b"
  by (simp add: ceil_div_def zdiv_mono1)

lemma floor_ceil_div: "0 < b \<Longrightarrow> a div b \<le> ceil_div a b \<and> ceil_div a b \<le> a div b + 1"
proof
  assume b: "0 < b"
  then show "a div b \<le> ceil_div a b" by (simp add: ceil_div_def zdiv_mono1)
  have "a \<le> (a div b + 1) * b"
    using pos_mod_bound [OF b, of a] div_mult_mod_eq [of a b] unfolding distrib_right by linarith
  then show "ceil_div a b \<le> a div b + 1" by (rule ceil_div_least [OF b])
qed

lemma div_le_dividend: "0 < b \<Longrightarrow> 0 \<le> a \<Longrightarrow> a div b \<le> (a :: int)"
  using zdiv_mono2 [of a 1 b] by simp

lemma maker_floor_ceil:
  assumes "fee_ok m" and "0 \<le> amount" and "amount \<le> U64_MAX"
  shows "\<exists>f c. maker_fees_floor m amount = Ok f \<and> maker_fees_ceil is_u64 m amount = Ok c \<and>
    0 \<le> f \<and> f \<le> c \<and> c \<le> f + 1"
proof (cases "maker_fee m > 0")
  case True
  have b: "0 \<le> amount * maker_fee m" "amount * maker_fee m \<le> U64_MAX * FEES_SCALE_FACTOR"
    using mult_bound [of amount U64_MAX "maker_fee m" FEES_SCALE_FACTOR] assms True
    by (auto simp: fee_ok_def)
  show ?thesis
    using True unsigned_floor_eq [OF assms] maker_fees_ceil_eq [OF assms, of is_u64]
      div_scale_bounds(6) [OF b] floor_ceil_div [OF scale_pos, of "amount * maker_fee m"] b scale_pos
    by (simp add: maker_fees_floor_def pos_imp_zdiv_nonneg_iff)
qed (simp add: maker_fees_floor_def maker_fees_ceil_def)

text \<open>The maker's rebate is paid out of the taker's fee.\<close>

lemma rebate_le_taker_fee:
  assumes "fee_ok m" and "0 \<le> amount" and "amount \<le> U64_MAX"
  shows "\<exists>r t. maker_rebate_floor m amount = Ok r \<and> taker_fees_ceil is_u64 m amount = Ok t \<and>
    0 \<le> r \<and> r \<le> t"
proof -
  have b: "0 \<le> amount * taker_fee m" "amount * taker_fee m \<le> U64_MAX * FEES_SCALE_FACTOR"
    using mult_bound [of amount U64_MAX "taker_fee m" FEES_SCALE_FACTOR] assms
    by (auto simp: fee_ok_def)
  have t: "taker_fees_ceil is_u64 m amount = Ok (ceil_div (amount * taker_fee m) FEES_SCALE_FACTOR)"
    using taker_fees_ceil_eq [OF assms, of is_u64] div_scale_bounds(6) [OF b] by simp
  have t0: "0 \<le> ceil_div (amount * taker_fee m) FEES_SCALE_FACTOR"
    by (rule ceil_div_nonneg [OF scale_pos b(1)])
  show ?thesis
  proof (cases "maker_fee m > 0")
    case True
    then show ?thesis using t t0 by (simp add: maker_rebate_floor_def)
  next
    case False
    then have "\<bar>maker_fee m\<bar> \<le> taker_fee m" using assms(1) by (auto simp: fee_ok_def)
    then have "amount * \<bar>maker_fee m\<bar> div FEES_SCALE_FACTOR \<le>
        amount * taker_fee m div FEES_SCALE_FACTOR"
      using assms(2) scale_pos by (intro zdiv_mono1 mult_left_mono)
    also have "\<dots> \<le> ceil_div (amount * taker_fee m) FEES_SCALE_FACTOR"
      using floor_ceil_div [OF scale_pos] by blast
    finally show ?thesis
      using False t unsigned_floor_eq [OF assms] assms(2) scale_pos
      by (simp add: maker_rebate_floor_def pos_imp_zdiv_nonneg_iff mult_nonneg_nonpos)
  qed
qed

text \<open>Lots that a number of lamports can pay for.\<close>

lemma base_lots_from_lamports:
  assumes "0 < base_lot_size m" "base_lot_size m \<le> I64_MAX" and "0 \<le> n" "n \<le> U64_MAX"
  shows "\<exists>r. max_base_lots_from_lamports m n = Ok r \<and> 0 \<le> r \<and> r * base_lot_size m \<le> n"
proof -
  let ?L = "base_lot_size m"
  have L: "as_u64 ?L = ?L" using assms by (intro as_u64_id) (simp_all add: int_limits)
  have q: "0 \<le> n div ?L" "n div ?L \<le> n"
    using assms by (simp_all add: pos_imp_zdiv_nonneg_iff div_le_dividend)
  have mx: "0 \<le> I64_MAX div ?L" "I64_MAX div ?L \<le> I64_MAX"
    using assms by (simp_all add: pos_imp_zdiv_nonneg_iff div_le_dividend int_limits)
  have "max_base_lots m = Ok (I64_MAX div ?L)"
    using assms mx by (simp add: max_base_lots_def is_i64_def int_limits)
  moreover have "as_u64 (I64_MAX div ?L) = I64_MAX div ?L"
    using mx by (intro as_u64_id) (simp_all add: int_limits)
  moreover have "div_chk is_u64 n (as_u64 ?L) = Ok (n div ?L)"
    using assms q L by (simp add: is_u64_def)
  ultimately have "max_base_lots_from_lamports m n = Ok (min (I64_MAX div ?L) (n div ?L))"
    using mx q by (simp add: max_base_lots_from_lamports_def is_i64_def int_limits min_def)
  moreover have "min (I64_MAX div ?L) (n div ?L) * ?L \<le> n"
  proof -
    have "min (I64_MAX div ?L) (n div ?L) * ?L \<le> n div ?L * ?L"
      using assms by (intro mult_right_mono) auto
    also have "\<dots> \<le> n" using pos_mod_sign [of ?L n] assms by (simp add: minus_mod_eq_div_mult [symmetric])
    finally show ?thesis .
  qed
  ultimately show ?thesis using mx q by auto
qed

end
