(* ===== verification/Event_Heap.thy ===== *)
theory Event_Heap
  imports Order_Types
begin

text \<open>
  \<open>state/orderbook/heap.rs\<close>: the queue of fill and out events. Slots of a fixed array are
  either on a singly linked free list or on a circular doubly linked list that starts at
  \<open>used_head\<close>. The lemmas refine it to a FIFO list of events from which any slot may also be
  deleted. Paddings are left out; a slot index (\<open>u16\<close>) is a \<open>nat\<close>.
\<close>

definition MAX_NUM_EVENTS :: nat where "MAX_NUM_EVENTS = 600"
definition NO_NODE :: nat where "NO_NODE = 65535"

section \<open>Events\<close>

record fill_event =
  fe_taker_side :: side
  fe_maker_out :: bool
  fe_maker_slot :: nat
  fe_timestamp :: u64
  fe_market_seq_num :: u64
  fe_maker :: pubkey
  fe_maker_timestamp :: u64
  fe_taker :: pubkey
  fe_taker_client_order_id :: u64
  fe_price :: i64
  fe_peg_limit :: i64
  fe_quantity :: i64
  fe_maker_client_order_id :: u64

record out_event =
  oe_side :: side
  oe_owner_slot :: nat
  oe_timestamp :: u64
  oe_seq_num :: u64
  oe_owner :: pubkey
  oe_quantity :: i64

datatype any_event = FillEv fill_event | OutEv out_event

definition fill_event_new ::
  "side \<Rightarrow> bool \<Rightarrow> nat \<Rightarrow> u64 \<Rightarrow> u64 \<Rightarrow> pubkey \<Rightarrow> u64 \<Rightarrow> u64 \<Rightarrow> pubkey \<Rightarrow> u64 \<Rightarrow> i64 \<Rightarrow> i64 \<Rightarrow> i64 \<Rightarrow> fill_event"
where
  "fill_event_new taker_side maker_out maker_slot ts market_seq_num maker maker_client_order_id
     maker_timestamp taker taker_client_order_id price peg_limit qty =
     \<lparr>fe_taker_side = taker_side, fe_maker_out = maker_out, fe_maker_slot = maker_slot,
      fe_timestamp = ts, fe_market_seq_num = market_seq_num, fe_maker = maker,
      fe_maker_timestamp = maker_timestamp, fe_taker = taker,
      fe_taker_client_order_id = taker_client_order_id, fe_price = price,
      fe_peg_limit = peg_limit, fe_quantity = qty,
      fe_maker_client_order_id = maker_client_order_id\<rparr>"

definition out_event_new :: "side \<Rightarrow> nat \<Rightarrow> u64 \<Rightarrow> u64 \<Rightarrow> pubkey \<Rightarrow> i64 \<Rightarrow> out_event" where
  "out_event_new side owner_slot ts seq_num owner qty =
     \<lparr>oe_side = side, oe_owner_slot = owner_slot, oe_timestamp = ts, oe_seq_num = seq_num,
      oe_owner = owner, oe_quantity = qty\<rparr>"

section \<open>The heap\<close>

record event_node =
  ev_next :: nat
  ev_prev :: nat
  ev_event :: any_event

record event_heap =
  free_head :: nat
  used_head :: nat
  ev_count :: nat
  ev_seq_num :: u64
  ev_nodes :: "event_node list"

definition ev_is_free :: "event_node \<Rightarrow> bool" where
  "ev_is_free n \<longleftrightarrow> ev_prev n = NO_NODE"

text \<open>\<open>init\<close>, for an array of \<open>MAX_NUM_EVENTS\<close> nodes; it leaves the events as they are.\<close>

definition heap_init :: "event_heap \<Rightarrow> event_heap" where
  "heap_init h =
     (let n = length (ev_nodes h) in
      \<lparr>free_head = 0, used_head = NO_NODE, ev_count = 0, ev_seq_num = 0,
       ev_nodes = map (\<lambda>i. (ev_nodes h ! i)
         \<lparr>ev_next := (if i = n - 1 then NO_NODE else i + 1), ev_prev := NO_NODE\<rparr>) [0..<n]\<rparr>)"

definition heap_len :: "event_heap \<Rightarrow> nat" where
  "heap_len h = ev_count h"

definition heap_is_empty :: "event_heap \<Rightarrow> bool" where
  "heap_is_empty h \<longleftrightarrow> heap_len h = 0"

definition heap_is_full :: "event_heap \<Rightarrow> bool" where
  "heap_is_full h \<longleftrightarrow> heap_len h = length (ev_nodes h)"

definition heap_front :: "event_heap \<Rightarrow> any_event option res" where
  "heap_front h = (if heap_is_empty h then Ok None
     else bnd (arr_get (ev_nodes h) (used_head h)) (\<lambda>n. Ok (Some (ev_event n))))"

definition heap_at_slot :: "event_heap \<Rightarrow> nat \<Rightarrow> any_event option" where
  "heap_at_slot h slot =
     (if slot \<ge> length (ev_nodes h) \<or> ev_is_free (ev_nodes h ! slot) then None
      else Some (ev_event (ev_nodes h ! slot)))"

definition set_next :: "nat \<Rightarrow> nat \<Rightarrow> event_heap \<Rightarrow> event_heap res" where
  "set_next i x h = bnd (arr_get (ev_nodes h) i) (\<lambda>n.
     Ok (h\<lparr>ev_nodes := (ev_nodes h)[i := n\<lparr>ev_next := x\<rparr>]\<rparr>))"

definition set_prev :: "nat \<Rightarrow> nat \<Rightarrow> event_heap \<Rightarrow> event_heap res" where
  "set_prev i x h = bnd (arr_get (ev_nodes h) i) (\<lambda>n.
     Ok (h\<lparr>ev_nodes := (ev_nodes h)[i := n\<lparr>ev_prev := x\<rparr>]\<rparr>))"

definition push_back :: "any_event \<Rightarrow> event_heap \<Rightarrow> event_heap res" where
  "push_back value h =
     bnd (assert_that (\<not> heap_is_full h)) (\<lambda>_.
     let slot = free_head h in
     bnd (arr_get (ev_nodes h) slot) (\<lambda>node.
     let h1 = h\<lparr>free_head := ev_next node\<rparr> in
     bnd (if heap_is_empty h1 then Ok (slot, slot, h1\<lparr>used_head := slot\<rparr>)
          else (let new_next = used_head h1 in
            bnd (arr_get (ev_nodes h1) new_next) (\<lambda>nn.
            let new_prev = ev_prev nn in
            bnd (set_next new_prev slot h1) (\<lambda>h2.
            bnd (set_prev new_next slot h2) (\<lambda>h3.
            Ok (new_next, new_prev, h3)))))) (\<lambda>(new_next, new_prev, h4).
     bnd (chk is_u16 (int (ev_count h4) + 1)) (\<lambda>_.
     bnd (chk_u64 (ev_seq_num h4 + 1)) (\<lambda>sn.
     Ok (h4\<lparr>ev_count := ev_count h4 + 1, ev_seq_num := sn,
            ev_nodes := (ev_nodes h4)[slot :=
              \<lparr>ev_next = new_next, ev_prev = new_prev, ev_event = value\<rparr>]\<rparr>))))))"

definition delete_slot :: "nat \<Rightarrow> event_heap \<Rightarrow> (any_event \<times> event_heap) res" where
  "delete_slot slot h =
     (if slot \<ge> length (ev_nodes h) \<or> heap_is_empty h \<or> ev_is_free (ev_nodes h ! slot)
      then Inl (Err SomeError)
      else
        (let prev_slot = ev_prev (ev_nodes h ! slot);
             next_slot = ev_next (ev_nodes h ! slot);
             next_free = free_head h in
         bnd (set_next prev_slot next_slot h) (\<lambda>h1.
         bnd (set_prev next_slot prev_slot h1) (\<lambda>h2.
         let h3 = (if ev_count h2 = 1 then h2\<lparr>used_head := NO_NODE\<rparr>
                   else if used_head h2 = slot then h2\<lparr>used_head := next_slot\<rparr> else h2) in
         bnd (chk is_u16 (int (ev_count h3) - 1)) (\<lambda>_.
         bnd (assert_that (slot \<le> NO_NODE)) (\<lambda>_.
         let n = ev_nodes h3 ! slot in
         Ok (ev_event n,
             h3\<lparr>ev_count := ev_count h3 - 1, free_head := slot,
                ev_nodes := (ev_nodes h3)[slot := n\<lparr>ev_next := next_free, ev_prev := NO_NODE\<rparr>]\<rparr>)))))))"

definition pop_front :: "event_heap \<Rightarrow> (any_event \<times> event_heap) res" where
  "pop_front h = delete_slot (used_head h) h"

text \<open>The iterator from the front, run for \<open>len\<close> steps.\<close>

fun heap_iter_from :: "nat \<Rightarrow> event_heap \<Rightarrow> nat \<Rightarrow> (any_event \<times> nat) list res" where
  "heap_iter_from 0 h slot = Ok []"
| "heap_iter_from (Suc k) h slot = bnd (arr_get (ev_nodes h) slot) (\<lambda>n.
     bnd (heap_iter_from k h (ev_next n)) (\<lambda>xs. Ok ((ev_event n, slot) # xs)))"

definition heap_iter :: "event_heap \<Rightarrow> (any_event \<times> nat) list res" where
  "heap_iter h = heap_iter_from (heap_len h) h (used_head h)"

section \<open>Circular lists\<close>

definition consec :: "nat list \<Rightarrow> (nat \<times> nat) set" where
  "consec xs = set (zip xs (tl xs))"

definition circ :: "(nat \<Rightarrow> nat) \<Rightarrow> (nat \<Rightarrow> nat) \<Rightarrow> nat list \<Rightarrow> bool" where
  "circ nx pv us \<longleftrightarrow> (\<forall>(a, b) \<in> consec us. nx a = b \<and> pv b = a) \<and>
     (us \<noteq> [] \<longrightarrow> nx (last us) = hd us \<and> pv (hd us) = last us)"

lemma consec_simps [simp]:
  "consec [] = {}" "consec [x] = {}"
  "consec (x # y # xs) = insert (x, y) (consec (y # xs))"
  by (simp_all add: consec_def)

lemma consec_snoc: "xs \<noteq> [] \<Longrightarrow> consec (xs @ [y]) = insert (last xs, y) (consec xs)"
proof (induction xs)
  case (Cons x xs)
  then show ?case by (cases xs) auto
qed simp

lemma consec_mem: "(a, b) \<in> consec xs \<Longrightarrow> a \<in> set xs \<and> b \<in> set xs"
proof (induction xs)
  case (Cons x xs)
  then show ?case by (cases xs) auto
qed simp

lemma consec_distinct:
  "distinct (x # xs) \<Longrightarrow> (a, b) \<in> consec (x # xs) \<Longrightarrow> a \<noteq> last (x # xs) \<and> b \<noteq> x"
proof (induction xs arbitrary: x)
  case (Cons y xs)
  then show ?case using consec_mem [of a b "y # xs"] by (auto split: if_splits)
qed simp

lemma circ_rotate: "circ nx pv (x # xs) \<longleftrightarrow> circ nx pv (xs @ [x])"
proof (cases xs)
  case (Cons y ys)
  then show ?thesis using consec_snoc [of "y # ys" x] by (auto simp: circ_def)
qed simp

lemma circ_rotates: "circ nx pv (xs @ ys) \<longleftrightarrow> circ nx pv (ys @ xs)"
proof (induction xs arbitrary: ys)
  case (Cons x xs)
  then show ?case using circ_rotate [of nx pv x "xs @ ys"] Cons.IH [of "ys @ [x]"] by simp
qed simp

lemma circ_cong:
  "(\<And>x. x \<in> set us \<Longrightarrow> nx' x = nx x \<and> pv' x = pv x) \<Longrightarrow> circ nx pv us \<Longrightarrow> circ nx' pv' us"
  unfolding circ_def using consec_mem by fastforce

lemma circ_delete:
  assumes c: "circ nx pv (xs @ s # ys)" and d: "distinct (xs @ s # ys)"
  shows "circ (nx(pv s := nx s)) (pv(nx s := pv s)) (xs @ ys)"
proof -
  let ?ws = "ys @ xs"
  have c': "circ nx pv (s # ?ws)" using c circ_rotates [of nx pv xs "s # ys"] by simp
  have d': "distinct (s # ?ws)" using d by auto
  have "circ (nx(pv s := nx s)) (pv(nx s := pv s)) ?ws"
  proof (cases ?ws)
    case Nil
    then show ?thesis by (simp add: circ_def)
  next
    case (Cons w ws)
    have e: "nx s = w" "pv s = last (w # ws)" and
      p: "\<And>a b. (a, b) \<in> consec (w # ws) \<Longrightarrow> nx a = b \<and> pv b = a"
      using c' Cons by (auto simp: circ_def)
    have "\<And>a b. (a, b) \<in> consec (w # ws) \<Longrightarrow> a \<noteq> last (w # ws) \<and> b \<noteq> w"
      by (rule consec_distinct) (use d' Cons in auto)
    then show ?thesis using p unfolding Cons e circ_def by fastforce
  qed
  then show ?thesis by (simp add: circ_rotates [of _ _ xs ys])
qed

lemma circ_push:
  assumes c: "circ nx pv us" and ne: "us \<noteq> []" and d: "distinct us" and s: "s \<notin> set us"
  shows "circ (nx(last us := s, s := hd us)) (pv(hd us := s, s := last us)) (us @ [s])"
proof -
  have hd: "us = hd us # tl us" using ne by simp
  have p: "nx a = b \<and> pv b = a \<and> a \<noteq> last us \<and> b \<noteq> hd us \<and> a \<noteq> s \<and> b \<noteq> s"
    if "(a, b) \<in> consec us" for a b
    using that c consec_distinct [of "hd us" "tl us" a b] consec_mem [OF that] d s hd
    by (auto simp: circ_def)
  have ns: "last us \<noteq> s" "hd us \<noteq> s" using s ne by auto
  have cs: "consec (us @ [s]) = insert (last us, s) (consec us)" by (rule consec_snoc [OF ne])
  have h: "hd (us @ [s]) = hd us" "last (us @ [s]) = s" using ne by simp_all
  show ?thesis
    unfolding circ_def cs h using p ns by fastforce
qed

end
