(* ===== verification/Open_Orders.thy ===== *)
theory Open_Orders
  imports Market Event_Heap
begin

text \<open>
  \<open>state/open_orders_account.rs\<close>: a user's open-orders account with its position (what is
  locked in orders and what is free) and its 24 order slots, and the accounting of fills,
  placed, removed and cancelled orders. Log emission is left out; the fee that is computed for
  a log is kept, since computing it can panic.
\<close>

definition MAX_OPEN_ORDERS :: nat where "MAX_OPEN_ORDERS = 24"

record position =
  bids_base_lots :: i64
  asks_base_lots :: i64
  base_free_native :: u64
  quote_free_native :: u64
  locked_maker_fees :: u64
  referrer_rebates_available :: u64
  penalty_heap_count :: u64
  p_maker_volume :: u128
  p_taker_volume :: u128
  bids_quote_lots :: i64

definition position_default :: position where
  "position_default = \<lparr>bids_base_lots = 0, asks_base_lots = 0, base_free_native = 0,
     quote_free_native = 0, locked_maker_fees = 0, referrer_rebates_available = 0,
     penalty_heap_count = 0, p_maker_volume = 0, p_taker_volume = 0, bids_quote_lots = 0\<rparr>"

definition position_has_open_orders :: "position \<Rightarrow> bool" where
  "position_has_open_orders pa \<longleftrightarrow> asks_base_lots pa \<noteq> 0 \<or> bids_base_lots pa \<noteq> 0"

definition position_is_empty :: "position \<Rightarrow> nat \<Rightarrow> bool" where
  "position_is_empty pa version \<longleftrightarrow> bids_base_lots pa = 0 \<and> asks_base_lots pa = 0 \<and>
     base_free_native pa = 0 \<and> quote_free_native pa = 0 \<and> locked_maker_fees pa = 0 \<and>
     referrer_rebates_available pa = 0 \<and> penalty_heap_count pa = 0 \<and>
     (version = 0 \<or> bids_quote_lots pa = 0)"

record open_order =
  oo_id :: key128
  oo_client_id :: u64
  oo_locked_price :: i64
  oo_is_free :: bool
  oo_side_and_tree :: side_and_tree

definition open_order_default :: open_order where
  "open_order_default = \<lparr>oo_id = 0, oo_client_id = 0, oo_locked_price = 0, oo_is_free = True,
     oo_side_and_tree = BidFixed\<rparr>"

record open_orders_account =
  oo_owner :: pubkey
  oo_market :: pubkey
  oo_name :: "8 word list"
  oo_delegate :: nz_pubkey
  oo_account_num :: int
  oo_bump :: nat
  oo_version :: nat
  oo_position :: position
  open_orders :: "open_order list"

definition default_for_tests :: open_orders_account where
  "default_for_tests = \<lparr>oo_owner = 0, oo_market = 0, oo_name = replicate 32 0, oo_delegate = 0,
     oo_account_num = 0, oo_bump = 0, oo_version = 1, oo_position = position_default,
     open_orders = replicate MAX_OPEN_ORDERS open_order_default\<rparr>"

section \<open>Queries\<close>

definition is_owner_or_delegate :: "open_orders_account \<Rightarrow> pubkey \<Rightarrow> bool" where
  "is_owner_or_delegate oo ix_signer = (case nz_to_option (oo_delegate oo) of
     Some delegate \<Rightarrow> oo_owner oo = ix_signer \<or> delegate = ix_signer
   | None \<Rightarrow> oo_owner oo = ix_signer)"

definition is_settle_destination_allowed :: "open_orders_account \<Rightarrow> pubkey \<Rightarrow> pubkey \<Rightarrow> bool" where
  "is_settle_destination_allowed oo ix_signer account_owner =
     (if Some ix_signer = nz_to_option (oo_delegate oo) then oo_owner oo = account_owner
      else ix_signer = oo_owner oo)"

definition has_no_orders :: "open_orders_account \<Rightarrow> bool" where
  "has_no_orders oo \<longleftrightarrow> length (open_orders oo) = 0"

definition all_orders_in_use :: "open_orders_account \<Rightarrow> open_order list" where
  "all_orders_in_use oo = filter (\<lambda>o1. \<not> oo_is_free o1) (open_orders oo)"

fun position_of :: "('a \<Rightarrow> bool) \<Rightarrow> 'a list \<Rightarrow> nat option" where
  "position_of P [] = None"
| "position_of P (x # xs) = (if P x then Some 0 else map_option Suc (position_of P xs))"

definition next_order_slot :: "open_orders_account \<Rightarrow> nat res" where
  "next_order_slot oo = ok_or (position_of oo_is_free (open_orders oo)) OpenOrdersFull"

definition find_order_with_client_order_id :: "open_orders_account \<Rightarrow> u64 \<Rightarrow> open_order option" where
  "find_order_with_client_order_id oo cid = find (\<lambda>o1. oo_client_id o1 = cid) (all_orders_in_use oo)"

definition find_order_with_order_id :: "open_orders_account \<Rightarrow> key128 \<Rightarrow> open_order option" where
  "find_order_with_order_id oo order_id = find (\<lambda>o1. oo_id o1 = order_id) (all_orders_in_use oo)"

section \<open>Accounting\<close>

definition remove_order :: "nat \<Rightarrow> i64 \<Rightarrow> i64 \<Rightarrow> open_orders_account \<Rightarrow> open_orders_account res" where
  "remove_order slot base_quantity locked_price oo =
     bnd (arr_get (open_orders oo) slot) (\<lambda>o1.
     bnd (assert_that (\<not> oo_is_free o1)) (\<lambda>_.
     let pa = oo_position oo in
     bnd (case sat_side (oo_side_and_tree o1) of
            Bid \<Rightarrow>
              bnd (chk_i64 (bids_base_lots pa - base_quantity)) (\<lambda>b.
              bnd (chk_i64 (base_quantity * locked_price)) (\<lambda>q.
              bnd (chk_i64 (bids_quote_lots pa - q)) (\<lambda>bq.
              Ok (pa\<lparr>bids_base_lots := b, bids_quote_lots := bq\<rparr>))))
          | Ask \<Rightarrow>
              bnd (chk_i64 (asks_base_lots pa - base_quantity)) (\<lambda>a.
              Ok (pa\<lparr>asks_base_lots := a\<rparr>))) (\<lambda>pa'.
     Ok (oo\<lparr>oo_position := pa', open_orders := (open_orders oo)[slot := open_order_default]\<rparr>))))"

definition add_order ::
  "side \<Rightarrow> book_tree \<Rightarrow> leaf_node \<Rightarrow> u64 \<Rightarrow> i64 \<Rightarrow> open_orders_account \<Rightarrow> open_orders_account res"
where
  "add_order side order_tree order cid locked_price oo =
     (let pa = oo_position oo; slot = owner_slot order in
      bnd (case side of
             Bid \<Rightarrow>
               bnd (chk_i64 (bids_base_lots pa + quantity order)) (\<lambda>b.
               bnd (chk_i64 (quantity order * locked_price)) (\<lambda>q.
               bnd (chk_i64 (bids_quote_lots pa + q)) (\<lambda>bq.
               Ok (pa\<lparr>bids_base_lots := b, bids_quote_lots := bq\<rparr>))))
           | Ask \<Rightarrow>
               bnd (chk_i64 (asks_base_lots pa + quantity order)) (\<lambda>a.
               Ok (pa\<lparr>asks_base_lots := a\<rparr>))) (\<lambda>pa'.
      bnd (arr_set (open_orders oo) slot
             \<lparr>oo_id = leaf_key order, oo_client_id = cid,
              oo_locked_price = locked_price, oo_is_free = False,
              oo_side_and_tree = side_and_tree_new side order_tree\<rparr>) (\<lambda>os.
      Ok (oo\<lparr>oo_position := pa', open_orders := os\<rparr>))))"

definition cancel_slot ::
  "nat \<Rightarrow> i64 \<Rightarrow> market \<Rightarrow> open_orders_account \<Rightarrow> open_orders_account res" where
  \<comment> \<open>\<open>OpenOrdersAccount::cancel_order\<close>\<close>
  "cancel_slot slot base_quantity m oo =
     bnd (arr_get (open_orders oo) slot) (\<lambda>o1.
     let price = oo_locked_price o1 in
     bnd (chk_i64 (base_quantity * base_lot_size m)) (\<lambda>bn.
     let base_quantity_native = as_u64 bn in
     bnd (chk_i64 (base_quantity * price)) (\<lambda>bp.
     bnd (chk_i64 (bp * quote_lot_size m)) (\<lambda>qn.
     let quote_quantity_native = as_u64 qn in
     bnd (maker_fees_ceil is_u64 m quote_quantity_native) (\<lambda>fees.
     let pa = oo_position oo in
     bnd (case sat_side (oo_side_and_tree o1) of
            Bid \<Rightarrow>
              bnd (chk_u64 (quote_quantity_native + fees)) (\<lambda>x.
              bnd (chk_u64 (quote_free_native pa + x)) (\<lambda>qf.
              bnd (chk_u64 (locked_maker_fees pa - fees)) (\<lambda>lf.
              Ok (pa\<lparr>quote_free_native := qf, locked_maker_fees := lf\<rparr>))))
          | Ask \<Rightarrow>
              bnd (chk_u64 (base_free_native pa + base_quantity_native)) (\<lambda>bf.
              Ok (pa\<lparr>base_free_native := bf\<rparr>))) (\<lambda>pa'.
     remove_order slot base_quantity price (oo\<lparr>oo_position := pa'\<rparr>)))))))"

definition execute_taker ::
  "side \<Rightarrow> u64 \<Rightarrow> u64 \<Rightarrow> u64 \<Rightarrow> u64 \<Rightarrow> market \<Rightarrow> open_orders_account \<Rightarrow>
   (open_orders_account \<times> market) res" where
  "execute_taker taker_side base_native quote_native taker_fees referrer_amount m oo =
     (let pa = oo_position oo in
      bnd (case taker_side of
             Bid \<Rightarrow> bnd (chk_u64 (base_free_native pa + base_native)) (\<lambda>x.
               Ok (pa\<lparr>base_free_native := x\<rparr>))
           | Ask \<Rightarrow> bnd (chk_u64 (quote_native - taker_fees)) (\<lambda>d.
               bnd (chk_u64 (quote_free_native pa + d)) (\<lambda>x.
               Ok (pa\<lparr>quote_free_native := x\<rparr>)))) (\<lambda>pa1.
      bnd (chk_u128 (p_taker_volume pa1 + quote_native)) (\<lambda>tv.
      bnd (chk_u64 (referrer_rebates_available pa1 + referrer_amount)) (\<lambda>ra.
      bnd (chk_u64 (referrer_rebates_accrued m + referrer_amount)) (\<lambda>rm.
      Ok (oo\<lparr>oo_position := pa1\<lparr>p_taker_volume := tv, referrer_rebates_available := ra\<rparr>\<rparr>,
          m\<lparr>referrer_rebates_accrued := rm\<rparr>))))))"

text \<open>The amounts a fill locks and frees on the maker's side: the maker fees to unlock, the
  amount above the fill price to free, and the price that was locked.\<close>

definition maker_locked ::
  "market \<Rightarrow> fill_event \<Rightarrow> side \<Rightarrow> u64 \<Rightarrow> u64 \<Rightarrow> (u64 \<times> u64 \<times> i64) res" where
  "maker_locked m fill side quote_native maker_fees =
     (if fe_peg_limit fill \<noteq> -1 \<and> side = Bid then
        bnd (chk_i64 (fe_quantity fill * fe_peg_limit fill)) (\<lambda>x.
        bnd (chk_i64 (x * quote_lot_size m)) (\<lambda>y.
        let quote_at_lock_price = as_u64 y in
        bnd (chk_u64 (quote_at_lock_price - quote_native)) (\<lambda>quote_to_free.
        bnd (maker_fees_floor m quote_at_lock_price) (\<lambda>fees_at_lock_price.
        bnd (chk_u64 (fees_at_lock_price - maker_fees)) (\<lambda>maker_fees_to_free.
        bnd (chk_u64 (quote_to_free + maker_fees_to_free)) (\<lambda>abv.
        Ok (fees_at_lock_price, abv, fe_peg_limit fill)))))))
      else Ok (maker_fees, 0, fe_price fill))"

text \<open>\<open>execute_maker\<close> by its blocks: fee and rebate, the amounts freed for the maker, volumes and
  accrued fees, and the release of the lots that were filled.\<close>

definition maker_fee_and_rebate :: "market \<Rightarrow> fill_event \<Rightarrow> u64 \<Rightarrow> (u64 \<times> u64) res" where
  "maker_fee_and_rebate m fill quote_native =
     (if fe_maker fill = fe_taker fill then Ok (0, 0)
      else bnd (maker_fees_floor m quote_native) (\<lambda>f.
        bnd (maker_rebate_floor m quote_native) (\<lambda>r. Ok (f, r))))"

definition credit_maker ::
  "market \<Rightarrow> fill_event \<Rightarrow> side \<Rightarrow> u64 \<Rightarrow> u64 \<Rightarrow> u64 \<Rightarrow> u64 \<Rightarrow> u64 \<Rightarrow> position \<Rightarrow> position res" where
  "credit_maker m fill side quote_native maker_fees maker_rebate locked_fees abv pa =
     (case side of
        Bid \<Rightarrow>
          bnd (chk_i64 (fe_quantity fill * base_lot_size m)) (\<lambda>bn.
          bnd (chk_u64 (base_free_native pa + as_u64 bn)) (\<lambda>bf.
          bnd (chk_u64 (maker_rebate + abv)) (\<lambda>add.
          bnd (chk_u64 (quote_free_native pa + add)) (\<lambda>qf.
          bnd (chk_u64 (locked_maker_fees pa - locked_fees)) (\<lambda>lf.
          Ok (pa\<lparr>base_free_native := bf, quote_free_native := qf, locked_maker_fees := lf\<rparr>))))))
      | Ask \<Rightarrow>
          bnd (chk_u64 (quote_native + maker_rebate)) (\<lambda>x.
          bnd (chk_u64 (x - maker_fees)) (\<lambda>y.
          bnd (chk_u64 (quote_free_native pa + y)) (\<lambda>qf.
          Ok (pa\<lparr>quote_free_native := qf\<rparr>)))))"

definition account_maker_volume ::
  "u64 \<Rightarrow> u64 \<Rightarrow> market \<Rightarrow> position \<Rightarrow> (position \<times> market) res" where
  "account_maker_volume quote_native maker_fees m pa =
     bnd (chk_u128 (p_maker_volume pa + quote_native)) (\<lambda>mv.
     bnd (chk_u64 (referrer_rebates_available pa + maker_fees)) (\<lambda>ra.
     bnd (chk_u64 (referrer_rebates_accrued m + maker_fees)) (\<lambda>rm.
     bnd (chk_u128 (m_maker_volume m + quote_native)) (\<lambda>mmv.
     bnd (chk_u128 (fees_accrued m + maker_fees)) (\<lambda>fa.
     Ok (pa\<lparr>p_maker_volume := mv, referrer_rebates_available := ra\<rparr>,
         m\<lparr>referrer_rebates_accrued := rm, m_maker_volume := mmv, fees_accrued := fa\<rparr>))))))"

definition release_maker_lots ::
  "fill_event \<Rightarrow> side \<Rightarrow> i64 \<Rightarrow> open_orders_account \<Rightarrow> open_orders_account res" where
  "release_maker_lots fill side locked_price oo =
     (if fe_maker_out fill
      then remove_order (fe_maker_slot fill) (fe_quantity fill) locked_price oo
      else (let pa = oo_position oo in case side of
          Bid \<Rightarrow>
            bnd (chk_i64 (bids_base_lots pa - fe_quantity fill)) (\<lambda>b.
            bnd (chk_i64 (fe_quantity fill * locked_price)) (\<lambda>q.
            bnd (chk_i64 (bids_quote_lots pa - q)) (\<lambda>bq.
            Ok (oo\<lparr>oo_position := pa\<lparr>bids_base_lots := b, bids_quote_lots := bq\<rparr>\<rparr>))))
        | Ask \<Rightarrow>
            bnd (chk_i64 (asks_base_lots pa - fe_quantity fill)) (\<lambda>a.
            Ok (oo\<lparr>oo_position := pa\<lparr>asks_base_lots := a\<rparr>\<rparr>))))"

definition execute_maker ::
  "fill_event \<Rightarrow> market \<Rightarrow> open_orders_account \<Rightarrow> (open_orders_account \<times> market) res" where
  "execute_maker fill m oo =
     (let side = invert_side (fe_taker_side fill) in
      bnd (chk_i64 (fe_quantity fill * fe_price fill)) (\<lambda>qp.
      bnd (chk_i64 (qp * quote_lot_size m)) (\<lambda>qn.
      let quote_native = as_u64 qn in
      bnd (maker_fee_and_rebate m fill quote_native) (\<lambda>(maker_fees, maker_rebate).
      bnd (maker_locked m fill side quote_native maker_fees) (\<lambda>(locked_fees, abv, locked_price).
      bnd (credit_maker m fill side quote_native maker_fees maker_rebate locked_fees abv
             (oo_position oo)) (\<lambda>pa1.
      bnd (account_maker_volume quote_native maker_fees m pa1) (\<lambda>(pa2, m1).
      bnd (release_maker_lots fill side locked_price (oo\<lparr>oo_position := pa2\<rparr>)) (\<lambda>oo2.
      bnd (if quote_native > 0 \<and> fe_maker fill \<noteq> fe_taker fill
           then taker_fees_ceil is_u64 m1 quote_native else Ok 0) (\<lambda>_.
      Ok (oo2, m1))))))))))"

section \<open>Properties\<close>

lemma position_of_Some:
  "position_of P xs = Some i \<Longrightarrow> i < length xs \<and> P (xs ! i) \<and> (\<forall>j<i. \<not> P (xs ! j))"
proof (induction xs arbitrary: i)
  case (Cons x xs)
  then show ?case by (cases i) (auto split: if_splits simp: less_Suc_eq_0_disj)
qed simp

lemma position_of_None: "position_of P xs = None \<longleftrightarrow> (\<forall>x \<in> set xs. \<not> P x)"
  by (induction xs) auto

lemma next_order_slot_spec:
  "next_order_slot oo = (case position_of oo_is_free (open_orders oo) of
     None \<Rightarrow> Inl (Err OpenOrdersFull) | Some i \<Rightarrow> Ok i)"
  by (simp add: next_order_slot_def ok_or_def split: option.splits)

text \<open>Everything of the quote token a user has in the market, free or locked.\<close>

definition quote_holdings :: "market \<Rightarrow> open_orders_account \<Rightarrow> int" where
  "quote_holdings m oo = quote_free_native (oo_position oo) +
     bids_quote_lots (oo_position oo) * quote_lot_size m + locked_maker_fees (oo_position oo)"

definition base_holdings :: "market \<Rightarrow> open_orders_account \<Rightarrow> int" where
  "base_holdings m oo = base_free_native (oo_position oo) +
     asks_base_lots (oo_position oo) * base_lot_size m"

lemma as_u64_of_chk: "is_i64 x \<Longrightarrow> 0 \<le> x \<Longrightarrow> as_u64 x = x"
  by (rule as_u64_id) (simp_all add: is_i64_def int_limits)

lemma add_then_remove:
  assumes "add_order side tree order cid lp oo = Ok oo1"
    and "is_i64 (bids_base_lots (oo_position oo))" "is_i64 (bids_quote_lots (oo_position oo))"
    and "is_i64 (asks_base_lots (oo_position oo))"
  shows "remove_order (owner_slot order) (quantity order) lp oo1 =
    Ok (oo\<lparr>open_orders := (open_orders oo)[owner_slot order := open_order_default]\<rparr>)"
proof (cases side)
  case Bid
  then show ?thesis using assms
    by (auto simp: add_order_def remove_order_def Let_def res_simps)
next
  case Ask
  then show ?thesis using assms
    by (auto simp: add_order_def remove_order_def Let_def res_simps)
qed

lemma remove_order_ok:
  assumes "remove_order slot q lp oo = Ok oo'"
  shows "slot < length (open_orders oo)" and "\<not> oo_is_free (open_orders oo ! slot)"
    and "open_orders oo' = (open_orders oo)[slot := open_order_default]"
    and "quote_free_native (oo_position oo') = quote_free_native (oo_position oo)"
    and "base_free_native (oo_position oo') = base_free_native (oo_position oo)"
    and "locked_maker_fees (oo_position oo') = locked_maker_fees (oo_position oo)"
    and "sat_side (oo_side_and_tree (open_orders oo ! slot)) = Bid \<Longrightarrow>
      bids_quote_lots (oo_position oo') = bids_quote_lots (oo_position oo) - q * lp \<and>
      bids_base_lots (oo_position oo') = bids_base_lots (oo_position oo) - q \<and>
      asks_base_lots (oo_position oo') = asks_base_lots (oo_position oo)"
    and "sat_side (oo_side_and_tree (open_orders oo ! slot)) = Ask \<Longrightarrow>
      asks_base_lots (oo_position oo') = asks_base_lots (oo_position oo) - q \<and>
      bids_base_lots (oo_position oo') = bids_base_lots (oo_position oo) \<and>
      bids_quote_lots (oo_position oo') = bids_quote_lots (oo_position oo)"
  using assms
  by (auto simp: remove_order_def Let_def res_simps split: side.splits)

text \<open>Cancelling an order moves what it locked back to the free amounts: the holdings stay.\<close>

lemma cancel_slot_holdings:
  assumes c: "cancel_slot slot q m oo = Ok oo'"
    and q: "0 \<le> q" and lots: "0 < base_lot_size m" "0 < quote_lot_size m"
    and lp: "0 \<le> oo_locked_price (open_orders oo ! slot)"
  shows "quote_holdings m oo' = quote_holdings m oo \<and> base_holdings m oo' = base_holdings m oo"
proof (cases "sat_side (oo_side_and_tree (open_orders oo ! slot))")
  case Bid
  let ?o = "open_orders oo ! slot"
  have n: "0 \<le> q * base_lot_size m" "0 \<le> q * oo_locked_price ?o * quote_lot_size m"
    using q lots lp by simp_all
  obtain fees where r: "remove_order slot q (oo_locked_price ?o) (oo\<lparr>oo_position :=
      (oo_position oo)\<lparr>quote_free_native := quote_free_native (oo_position oo) +
            (q * oo_locked_price ?o * quote_lot_size m + fees),
            locked_maker_fees := locked_maker_fees (oo_position oo) - fees\<rparr>\<rparr>) = Ok oo'"
    using c n Bid by (auto simp: cancel_slot_def Let_def res_simps as_u64_of_chk)
  show ?thesis
    using remove_order_ok(4-7) [OF r] Bid
    by (simp add: quote_holdings_def base_holdings_def left_diff_distrib)
next
  case Ask
  let ?o = "open_orders oo ! slot"
  have n: "0 \<le> q * base_lot_size m" "0 \<le> q * oo_locked_price ?o * quote_lot_size m"
    using q lots lp by simp_all
  have r: "remove_order slot q (oo_locked_price ?o) (oo\<lparr>oo_position :=
      (oo_position oo)\<lparr>base_free_native := base_free_native (oo_position oo) +
            q * base_lot_size m\<rparr>\<rparr>) = Ok oo'"
    using c n Ask by (auto simp: cancel_slot_def Let_def res_simps as_u64_of_chk)
  show ?thesis
    using remove_order_ok(4-6,8) [OF r] Ask
    by (simp add: quote_holdings_def base_holdings_def left_diff_distrib)
qed

lemma maker_locked_sum:
  assumes "maker_locked m fill Bid qn fees = Ok (locked, abv, lp)"
    and "qn = fe_quantity fill * fe_price fill * quote_lot_size m"
    and "0 \<le> fe_quantity fill" "0 < quote_lot_size m"
    and "fe_peg_limit fill = -1 \<or> 0 \<le> fe_peg_limit fill"
  shows "abv + qn + fees = fe_quantity fill * lp * quote_lot_size m + locked"
proof (cases "fe_peg_limit fill = -1")
  case True
  then show ?thesis using assms(1,2) by (simp add: maker_locked_def)
next
  case False
  then have "0 \<le> fe_quantity fill * fe_peg_limit fill * quote_lot_size m" using assms(3-5) by simp
  then show ?thesis using assms(1,2) False
    by (auto simp: maker_locked_def Let_def res_simps as_u64_of_chk)
qed

lemma credit_maker_bid:
  assumes "credit_maker m fill Bid qn fees rebate locked abv pa = Ok pa'"
    and "0 \<le> fe_quantity fill * base_lot_size m"
  shows "pa' = pa\<lparr>base_free_native := base_free_native pa + fe_quantity fill * base_lot_size m,
    quote_free_native := quote_free_native pa + (rebate + abv),
    locked_maker_fees := locked_maker_fees pa - locked\<rparr>"
  using assms by (auto simp: credit_maker_def Let_def res_simps as_u64_of_chk)

lemma account_maker_volume_ok:
  assumes "account_maker_volume qn fees m pa = Ok (pa', m')"
  shows "pa' = pa\<lparr>p_maker_volume := p_maker_volume pa + qn,
      referrer_rebates_available := referrer_rebates_available pa + fees\<rparr>"
    and "m' = m\<lparr>referrer_rebates_accrued := referrer_rebates_accrued m + fees,
      m_maker_volume := m_maker_volume m + qn, fees_accrued := fees_accrued m + fees\<rparr>"
  using assms by (auto simp: account_maker_volume_def res_simps)

lemma release_maker_lots_bid:
  assumes "release_maker_lots fill Bid lp oo = Ok oo'"
    and "fe_maker_out fill \<Longrightarrow> sat_side (oo_side_and_tree (open_orders oo ! fe_maker_slot fill)) = Bid"
  shows "quote_free_native (oo_position oo') = quote_free_native (oo_position oo) \<and>
    base_free_native (oo_position oo') = base_free_native (oo_position oo) \<and>
    locked_maker_fees (oo_position oo') = locked_maker_fees (oo_position oo) \<and>
    bids_quote_lots (oo_position oo') = bids_quote_lots (oo_position oo) - fe_quantity fill * lp \<and>
    asks_base_lots (oo_position oo') = asks_base_lots (oo_position oo)"
proof (cases "fe_maker_out fill")
  case True
  then have r: "remove_order (fe_maker_slot fill) (fe_quantity fill) lp oo = Ok oo'"
    using assms(1) by (simp add: release_maker_lots_def)
  show ?thesis using remove_order_ok(4-7) [OF r] assms(2) [OF True] by simp
next
  case False
  then show ?thesis using assms(1) by (auto simp: release_maker_lots_def Let_def res_simps)
qed

lemma execute_maker_steps:
  assumes e: "execute_maker fill m oo = Ok (oo', m')"
    and n: "0 \<le> fe_quantity fill * fe_price fill * quote_lot_size m"
  obtains fees rebate locked abv lp pa1 pa2 where
    "maker_fee_and_rebate m fill (fe_quantity fill * fe_price fill * quote_lot_size m) = Ok (fees, rebate)"
    and "maker_locked m fill (invert_side (fe_taker_side fill))
      (fe_quantity fill * fe_price fill * quote_lot_size m) fees = Ok (locked, abv, lp)"
    and "credit_maker m fill (invert_side (fe_taker_side fill))
      (fe_quantity fill * fe_price fill * quote_lot_size m) fees rebate locked abv (oo_position oo) = Ok pa1"
    and "account_maker_volume (fe_quantity fill * fe_price fill * quote_lot_size m) fees m pa1 = Ok (pa2, m')"
    and "release_maker_lots fill (invert_side (fe_taker_side fill)) lp (oo\<lparr>oo_position := pa2\<rparr>) = Ok oo'"
  using e n by (auto simp: execute_maker_def Let_def res_simps as_u64_of_chk)

text \<open>A fill of a maker's bid takes exactly the fill amount and the maker fee out of the maker's
  quote holdings (and adds the rebate), whatever price was locked, pegged or not.\<close>

lemma execute_maker_bid:
  assumes e: "execute_maker fill m oo = Ok (oo', m')" and side: "fe_taker_side fill = Ask"
    and q: "0 \<le> fe_quantity fill" "0 \<le> fe_price fill" and lots: "0 < base_lot_size m" "0 < quote_lot_size m"
    and peg: "fe_peg_limit fill = -1 \<or> 0 \<le> fe_peg_limit fill"
    and slot: "fe_maker_out fill \<Longrightarrow>
      sat_side (oo_side_and_tree (open_orders oo ! fe_maker_slot fill)) = Bid"
  shows "\<exists>fees rebate. (if fe_maker fill = fe_taker fill then fees = 0 \<and> rebate = 0
      else maker_fees_floor m (fe_quantity fill * fe_price fill * quote_lot_size m) = Ok fees \<and>
        maker_rebate_floor m (fe_quantity fill * fe_price fill * quote_lot_size m) = Ok rebate) \<and>
    quote_holdings m oo' = quote_holdings m oo - fe_quantity fill * fe_price fill * quote_lot_size m -
      fees + rebate \<and>
    base_holdings m oo' = base_holdings m oo + fe_quantity fill * base_lot_size m \<and>
    fees_accrued m' = fees_accrued m + fees"
proof -
  let ?qn = "fe_quantity fill * fe_price fill * quote_lot_size m"
  have n: "0 \<le> ?qn" "0 \<le> fe_quantity fill * base_lot_size m" using q lots by simp_all
  have sd: "invert_side (fe_taker_side fill) = Bid" using side by simp
  obtain fees rebate locked abv lp pa1 pa2 where
    f: "maker_fee_and_rebate m fill ?qn = Ok (fees, rebate)"
    and l: "maker_locked m fill Bid ?qn fees = Ok (locked, abv, lp)"
    and c: "credit_maker m fill Bid ?qn fees rebate locked abv (oo_position oo) = Ok pa1"
    and a: "account_maker_volume ?qn fees m pa1 = Ok (pa2, m')"
    and r: "release_maker_lots fill Bid lp (oo\<lparr>oo_position := pa2\<rparr>) = Ok oo'"
    using execute_maker_steps [OF e n(1)] unfolding sd by blast
  have s: "abv + ?qn + fees = fe_quantity fill * lp * quote_lot_size m + locked"
    by (rule maker_locked_sum [OF l refl q(1) lots(2) peg])
  have p: "quote_free_native pa2 = quote_free_native (oo_position oo) + (rebate + abv)"
    "locked_maker_fees pa2 = locked_maker_fees (oo_position oo) - locked"
    "base_free_native pa2 = base_free_native (oo_position oo) + fe_quantity fill * base_lot_size m"
    "bids_quote_lots pa2 = bids_quote_lots (oo_position oo)"
    "asks_base_lots pa2 = asks_base_lots (oo_position oo)"
    using credit_maker_bid [OF c n(2)] account_maker_volume_ok(1) [OF a] by simp_all
  have "quote_holdings m oo' = quote_holdings m oo - ?qn - fees + rebate \<and>
      base_holdings m oo' = base_holdings m oo + fe_quantity fill * base_lot_size m"
    using release_maker_lots_bid [OF r] slot s p
    by (simp add: quote_holdings_def base_holdings_def left_diff_distrib)
  moreover have "fees_accrued m' = fees_accrued m + fees"
    using account_maker_volume_ok(2) [OF a] by simp
  moreover have "if fe_maker fill = fe_taker fill then fees = 0 \<and> rebate = 0
      else maker_fees_floor m ?qn = Ok fees \<and> maker_rebate_floor m ?qn = Ok rebate"
    using f by (auto simp: maker_fee_and_rebate_def res_simps)
  ultimately show ?thesis by blast
qed

text \<open>A fill of a maker's ask turns base lots into the fill amount, less the fee, plus the rebate.\<close>

lemma execute_maker_ask:
  assumes e: "execute_maker fill m oo = Ok (oo', m')" and side: "fe_taker_side fill = Bid"
    and q: "0 \<le> fe_quantity fill" "0 \<le> fe_price fill" and lots: "0 < base_lot_size m" "0 < quote_lot_size m"
    and slot: "fe_maker_out fill \<Longrightarrow>
      sat_side (oo_side_and_tree (open_orders oo ! fe_maker_slot fill)) = Ask"
  shows "\<exists>fees rebate. maker_fee_and_rebate m fill (fe_quantity fill * fe_price fill * quote_lot_size m) =
      Ok (fees, rebate) \<and>
    quote_holdings m oo' = quote_holdings m oo + fe_quantity fill * fe_price fill * quote_lot_size m -
      fees + rebate \<and>
    base_holdings m oo' = base_holdings m oo - fe_quantity fill * base_lot_size m \<and>
    fees_accrued m' = fees_accrued m + fees"
proof -
  let ?qn = "fe_quantity fill * fe_price fill * quote_lot_size m"
  have n: "0 \<le> ?qn" using q lots by simp
  have sd: "invert_side (fe_taker_side fill) = Ask" using side by simp
  obtain fees rebate locked abv lp pa1 pa2 where
    f: "maker_fee_and_rebate m fill ?qn = Ok (fees, rebate)"
    and l: "maker_locked m fill Ask ?qn fees = Ok (locked, abv, lp)"
    and c: "credit_maker m fill Ask ?qn fees rebate locked abv (oo_position oo) = Ok pa1"
    and a: "account_maker_volume ?qn fees m pa1 = Ok (pa2, m')"
    and r: "release_maker_lots fill Ask lp (oo\<lparr>oo_position := pa2\<rparr>) = Ok oo'"
    using execute_maker_steps [OF e n] unfolding sd by blast
  have "pa1 = (oo_position oo)\<lparr>quote_free_native := quote_free_native (oo_position oo) +
      (?qn + rebate - fees)\<rparr>"
    using c by (auto simp: credit_maker_def res_simps)
  then have p: "quote_free_native pa2 = quote_free_native (oo_position oo) + (?qn + rebate - fees)"
    "locked_maker_fees pa2 = locked_maker_fees (oo_position oo)"
    "base_free_native pa2 = base_free_native (oo_position oo)"
    "bids_quote_lots pa2 = bids_quote_lots (oo_position oo)"
    "asks_base_lots pa2 = asks_base_lots (oo_position oo)"
    using account_maker_volume_ok(1) [OF a] by simp_all
  have "quote_holdings m oo' = quote_holdings m oo + ?qn - fees + rebate \<and>
      base_holdings m oo' = base_holdings m oo - fe_quantity fill * base_lot_size m"
  proof (cases "fe_maker_out fill")
    case True
    then have r': "remove_order (fe_maker_slot fill) (fe_quantity fill) lp (oo\<lparr>oo_position := pa2\<rparr>) = Ok oo'"
      using r by (simp add: release_maker_lots_def)
    show ?thesis using remove_order_ok(4-6,8) [OF r'] slot [OF True] p
      by (simp add: quote_holdings_def base_holdings_def left_diff_distrib)
  next
    case False
    then show ?thesis using r p
      by (auto simp: release_maker_lots_def Let_def res_simps quote_holdings_def base_holdings_def
          left_diff_distrib)
  qed
  moreover have "fees_accrued m' = fees_accrued m + fees"
    using account_maker_volume_ok(2) [OF a] by simp
  ultimately show ?thesis using f by blast
qed

end
