(* ===== verification/Orderbook.thy ===== *)
theory Orderbook
  imports Book_Side Open_Orders
begin

text \<open>
  \<open>state/orderbook/order.rs\<close> and \<open>state/orderbook/book.rs\<close>: order parameters and their price,
  the two-sided book, matching a new order, posting what remains of it, and cancelling. The
  mutable borrows of \<open>new_order\<close> are the fields of \<open>match_state\<close>: the market, the event heap,
  the taker's open-orders account if there is one, and the remaining accounts, an association
  list by key of accounts that load as open-orders accounts or do not.
\<close>

section \<open>Orders\<close>

datatype order_params =
    MarketParams
  | ImmediateOrCancelParams i64
  | FixedParams i64 post_order_type
  | OraclePeggedParams i64 post_order_type i64
  | FillOrKillParams i64

record order =
  o_side :: side
  o_max_base_lots :: i64
  o_max_quote_lots_including_fees :: i64
  o_client_order_id :: u64
  o_time_in_force :: int
  o_self_trade_behavior :: self_trade_behavior
  o_params :: order_params

record orderbook =
  bids :: book_side
  asks :: book_side

definition bookside :: "orderbook \<Rightarrow> side \<Rightarrow> book_side" where
  "bookside ob side = (case side of Bid \<Rightarrow> bids ob | Ask \<Rightarrow> asks ob)"

definition set_bookside :: "side \<Rightarrow> book_side \<Rightarrow> orderbook \<Rightarrow> orderbook" where
  "set_bookside side b ob = (case side of Bid \<Rightarrow> ob\<lparr>bids := b\<rparr> | Ask \<Rightarrow> ob\<lparr>asks := b\<rparr>)"

definition orderbook_init :: "orderbook \<Rightarrow> orderbook" where
  "orderbook_init ob =
     \<lparr>bids = (bids ob)\<lparr>side_nodes := (side_nodes (bids ob))\<lparr>order_tree_type := Bids\<rparr>\<rparr>,
      asks = (asks ob)\<lparr>side_nodes := (side_nodes (asks ob))\<lparr>order_tree_type := Asks\<rparr>\<rparr>\<rparr>"

definition orderbook_is_empty :: "orderbook \<Rightarrow> bool res" where
  "orderbook_is_empty ob = bnd (book_is_empty (bids ob)) (\<lambda>e.
     if e then book_is_empty (asks ob) else Ok False)"

text \<open>\<open>now_ts\<close> is the clock's time.\<close>

definition tif_from_expiry :: "u64 \<Rightarrow> u64 \<Rightarrow> int option" where
  "tif_from_expiry now_ts expiry_timestamp =
     (if expiry_timestamp \<noteq> 0 then
        (let tif = min (max 0 (expiry_timestamp - now_ts)) U16_MAX in
         if tif = 0 then None else Some tif)
      else Some 0)"

definition is_post_only :: "order \<Rightarrow> bool" where
  "is_post_only order = (case o_params order of
     FixedParams p t \<Rightarrow> t = PostOnly \<or> t = PostOnlySlide
   | OraclePeggedParams p t l \<Rightarrow> t = PostOnly \<or> t = PostOnlySlide
   | _ \<Rightarrow> False)"

definition is_fill_or_kill :: "order \<Rightarrow> bool" where
  "is_fill_or_kill order = (case o_params order of FillOrKillParams p \<Rightarrow> True | _ \<Rightarrow> False)"

definition post_target :: "order \<Rightarrow> book_tree option" where
  "post_target order = (case o_params order of
     FixedParams p t \<Rightarrow> Some Fixed
   | OraclePeggedParams p t l \<Rightarrow> Some OraclePegged
   | _ \<Rightarrow> None)"

definition order_peg_limit :: "order \<Rightarrow> i64" where
  "order_peg_limit order = (case o_params order of OraclePeggedParams p t l \<Rightarrow> l | _ \<Rightarrow> -1)"

fun market_order_limit_for_side :: "side \<Rightarrow> i64" where
  "market_order_limit_for_side Bid = I64_MAX"
| "market_order_limit_for_side Ask = 1"

definition post_only_slide_limit :: "side \<Rightarrow> i64 \<Rightarrow> i64 \<Rightarrow> i64 res" where
  "post_only_slide_limit side best_other_side lim = (case side of
     Bid \<Rightarrow> bnd (chk_i64 (best_other_side - 1)) (\<lambda>x. Ok (min lim x))
   | Ask \<Rightarrow> bnd (chk_i64 (best_other_side + 1)) (\<lambda>x. Ok (max lim x)))"

definition price_for_order_type ::
  "order \<Rightarrow> u64 \<Rightarrow> i64 option \<Rightarrow> i64 \<Rightarrow> post_order_type \<Rightarrow> orderbook \<Rightarrow> i64 res" where
  "price_for_order_type order now_ts oracle_price_lots price_lots order_type ob =
     (if order_type = PostOnlySlide then
        bnd (best_price (bookside ob (invert_side (o_side order))) now_ts oracle_price_lots)
          (\<lambda>best. case best of
             Some best_other_price \<Rightarrow> post_only_slide_limit (o_side order) best_other_price price_lots
           | None \<Rightarrow> Ok price_lots)
      else Ok price_lots)"

definition order_price_lots :: "order \<Rightarrow> u64 \<Rightarrow> i64 option \<Rightarrow> orderbook \<Rightarrow> i64 res" where
  \<comment> \<open>the first \<open>match\<close> of \<open>Order::price\<close>\<close>
  "order_price_lots order now_ts oracle_price_lots ob = (case o_params order of
     MarketParams \<Rightarrow> Ok (market_order_limit_for_side (o_side order))
   | ImmediateOrCancelParams p \<Rightarrow> Ok p
   | FillOrKillParams p \<Rightarrow> Ok p
   | FixedParams p t \<Rightarrow> price_for_order_type order now_ts oracle_price_lots p t ob
   | OraclePeggedParams off t l \<Rightarrow>
       bnd (ok_or oracle_price_lots OraclePegInvalidOracleState) (\<lambda>opl.
       bnd (if is_i64 (opl + off) then Ok (opl + off) else Inl (Err InvalidPriceLots)) (\<lambda>p.
       price_for_order_type order now_ts oracle_price_lots p t ob)))"

definition order_price :: "order \<Rightarrow> u64 \<Rightarrow> i64 option \<Rightarrow> orderbook \<Rightarrow> (i64 \<times> price_word) res" where
  "order_price order now_ts oracle_price_lots ob =
     bnd (order_price_lots order now_ts oracle_price_lots ob) (\<lambda>price_lots.
     bnd (require (price_lots \<ge> 1) InvalidPriceLots) (\<lambda>_.
     bnd (case o_params order of
            OraclePeggedParams off t l \<Rightarrow>
              bnd (unwrap oracle_price_lots) (\<lambda>opl.
              bnd (chk_i64 (price_lots - opl)) (\<lambda>d. Ok (oracle_pegged_price_data d)))
          | _ \<Rightarrow> fixed_price_data price_lots) (\<lambda>p_data.
     Ok (price_lots, p_data))))"

section \<open>Events\<close>

definition DROP_EXPIRED_ORDER_LIMIT :: nat where "DROP_EXPIRED_ORDER_LIMIT = 5"
definition FILL_EVENT_REMAINING_LIMIT :: nat where "FILL_EVENT_REMAINING_LIMIT = 15"

datatype remaining_acc = OpenOrdersAcc open_orders_account | UnloadableAcc

type_synonym remaining_accs = "(pubkey \<times> remaining_acc) list"

definition load_mut :: "remaining_acc \<Rightarrow> open_orders_account res" where
  "load_mut a = (case a of OpenOrdersAcc oo \<Rightarrow> Ok oo | UnloadableAcc \<Rightarrow> Inl (AnchorErr AccountLoadError))"

fun store_acc :: "pubkey \<Rightarrow> open_orders_account \<Rightarrow> remaining_accs \<Rightarrow> remaining_accs" where
  "store_acc k oo [] = []"
| "store_acc k oo ((k', a) # accs) =
     (if k' = k then (k', OpenOrdersAcc oo) # accs else (k', a) # store_acc k oo accs)"

text \<open>What the event handlers work on.\<close>

record accounts =
  ac_market :: market
  ac_heap :: event_heap
  ac_ooa :: "open_orders_account option"
  ac_remaining :: remaining_accs

definition queue_out_event :: "out_event \<Rightarrow> accounts \<Rightarrow> accounts res" where
  \<comment> \<open>the second half of \<open>process_out_event\<close>: a remaining account, else the heap\<close>
  "queue_out_event event ac = (case map_of (ac_remaining ac) (oe_owner event) of
     Some a \<Rightarrow>
       bnd (load_mut a) (\<lambda>acc.
       bnd (cancel_slot (oe_owner_slot event) (oe_quantity event) (ac_market ac) acc) (\<lambda>acc'.
       Ok (ac\<lparr>ac_remaining := store_acc (oe_owner event) acc' (ac_remaining ac)\<rparr>)))
   | None \<Rightarrow>
       bnd (push_back (OutEv event) (ac_heap ac)) (\<lambda>h. Ok (ac\<lparr>ac_heap := h\<rparr>)))"

definition process_out_event :: "out_event \<Rightarrow> pubkey \<Rightarrow> accounts \<Rightarrow> accounts res" where
  "process_out_event event owner ac = (case ac_ooa ac of
     Some acc \<Rightarrow>
       if owner = oe_owner event then
         bnd (cancel_slot (oe_owner_slot event) (oe_quantity event) (ac_market ac) acc) (\<lambda>acc'.
         Ok (ac\<lparr>ac_ooa := Some acc'\<rparr>))
       else queue_out_event event ac
   | None \<Rightarrow> queue_out_event event ac)"

definition process_fill_event :: "fill_event \<Rightarrow> nat \<Rightarrow> accounts \<Rightarrow> (nat \<times> accounts) res" where
  "process_fill_event event number_processed ac =
     (case (if number_processed < FILL_EVENT_REMAINING_LIMIT
            then map_of (ac_remaining ac) (fe_maker event) else None) of
        Some a \<Rightarrow>
          bnd (load_mut a) (\<lambda>maker.
          bnd (execute_maker event (ac_market ac) maker) (\<lambda>(maker', m').
          Ok (number_processed + 1, ac\<lparr>ac_market := m',
                ac_remaining := store_acc (fe_maker event) maker' (ac_remaining ac)\<rparr>)))
      | None \<Rightarrow>
          bnd (push_back (FillEv event) (ac_heap ac)) (\<lambda>h.
          Ok (number_processed, ac\<lparr>ac_heap := h\<rparr>)))"

definition out_event_of :: "side \<Rightarrow> leaf_node \<Rightarrow> u64 \<Rightarrow> event_heap \<Rightarrow> out_event" where
  "out_event_of side l now_ts h =
     out_event_new side (owner_slot l) now_ts (ev_seq_num h) (leaf_owner l) (quantity l)"

section \<open>Matching\<close>

record match_state =
  mt_acc :: accounts
  mt_base :: i64
  mt_quote :: i64
  mt_decremented :: i64
  mt_rebates :: u64
  mt_changes :: "(book_tree \<times> handle \<times> i64) list"
  mt_deletes :: "(book_tree \<times> key128) list"
  mt_dropped :: nat
  mt_fills :: nat
  mt_limit :: int
  mt_post_target :: "book_tree option"

datatype flow = Break match_state | Continue match_state

definition stop_posting :: "match_state \<Rightarrow> flow" where
  "stop_posting st = Break (st\<lparr>mt_post_target := None\<rparr>)"

definition drop_invalid :: "order \<Rightarrow> pubkey \<Rightarrow> u64 \<Rightarrow> book_item \<Rightarrow> match_state \<Rightarrow> match_state res" where
  "drop_invalid order owner now_ts best st =
     (if mt_dropped st < DROP_EXPIRED_ORDER_LIMIT then
        bnd (process_out_event (out_event_of (invert_side (o_side order)) (item_node best) now_ts
               (ac_heap (mt_acc st))) owner (mt_acc st)) (\<lambda>ac.
        Ok (st\<lparr>mt_dropped := mt_dropped st + 1, mt_acc := ac,
               mt_deletes := mt_deletes st @ [(item_tree best, leaf_key (item_node best))]\<rparr>))
      else Ok st)"

text \<open>The fill of one opposing order; \<open>st\<close> already has the self-trade bookkeeping.\<close>

definition fill_order ::
  "order \<Rightarrow> pubkey \<Rightarrow> u64 \<Rightarrow> book_item \<Rightarrow> i64 \<Rightarrow> i64 \<Rightarrow> match_state \<Rightarrow> match_state res" where
  "fill_order order owner now_ts best match_base_lots match_quote_lots st =
     (let node = item_node best in
      bnd (chk_i64 (mt_base st - match_base_lots)) (\<lambda>rb.
      bnd (chk_i64 (mt_quote st - match_quote_lots)) (\<lambda>rq.
      bnd (assert_that (rq \<ge> 0)) (\<lambda>_.
      bnd (chk_i64 (quantity node - match_base_lots)) (\<lambda>new_qty.
      let maker_out = (new_qty = 0);
          st1 = st\<lparr>mt_base := rb, mt_quote := rq\<rparr>;
          st2 = (if maker_out
                 then st1\<lparr>mt_deletes := mt_deletes st1 @ [(item_tree best, leaf_key node)]\<rparr>
                 else st1\<lparr>mt_changes := mt_changes st1 @ [(item_tree best, item_handle best, new_qty)]\<rparr>);
          fill = fill_event_new (o_side order) maker_out (owner_slot node) now_ts
            (seq_num (ac_market (mt_acc st))) (leaf_owner node) (client_order_id node)
            (timestamp node) owner (o_client_order_id order) (item_price_lots best)
            (peg_limit node) match_base_lots in
      bnd (process_fill_event fill (mt_fills st2) (mt_acc st2)) (\<lambda>(n, ac).
      bnd (chk_u8 (mt_limit st2 - 1)) (\<lambda>lim.
      Ok (st2\<lparr>mt_fills := n, mt_acc := ac, mt_limit := lim\<rparr>))))))))"

datatype self_trade = Proceed match_state | SkipMatch match_state

definition rebate_step :: "market \<Rightarrow> i64 \<Rightarrow> match_state \<Rightarrow> self_trade res" where
  "rebate_step m match_quote_lots st =
     bnd (chk_i64 (match_quote_lots * quote_lot_size m)) (\<lambda>q.
     bnd (maker_rebate_floor m (as_u64 q)) (\<lambda>r.
     bnd (chk_u64 (mt_rebates st + r)) (\<lambda>acc.
     Ok (Proceed (st\<lparr>mt_rebates := acc\<rparr>)))))"

definition self_trade_step ::
  "order \<Rightarrow> pubkey \<Rightarrow> book_item \<Rightarrow> i64 \<Rightarrow> match_state \<Rightarrow> self_trade res" where
  "self_trade_step order owner best match_quote_lots st =
     (let node = item_node best; m = ac_market (mt_acc st) in
      case ac_ooa (mt_acc st) of
        Some acc \<Rightarrow>
          if owner = leaf_owner node then
            (case o_self_trade_behavior order of
               DecrementTake \<Rightarrow>
                 bnd (chk_i64 (mt_decremented st + match_quote_lots)) (\<lambda>d.
                 Ok (Proceed (st\<lparr>mt_decremented := d\<rparr>)))
             | CancelProvide \<Rightarrow>
                 bnd (cancel_slot (owner_slot node) (quantity node) m acc) (\<lambda>acc'.
                 Ok (SkipMatch (st\<lparr>mt_acc := (mt_acc st)\<lparr>ac_ooa := Some acc'\<rparr>,
                   mt_deletes := mt_deletes st @ [(item_tree best, leaf_key node)]\<rparr>)))
             | AbortTransaction \<Rightarrow> Inl (Err WouldSelfTrade))
          else rebate_step m match_quote_lots st
      | None \<Rightarrow> rebate_step m match_quote_lots st)"

definition match_step ::
  "order \<Rightarrow> pubkey \<Rightarrow> u64 \<Rightarrow> i64 \<Rightarrow> book_item \<Rightarrow> match_state \<Rightarrow> flow res" where
  "match_step order owner now_ts price_lots best st =
     (if mt_base st = 0 \<or> mt_quote st = 0 then Ok (Break st)
      else if \<not> item_is_valid best then
        bnd (drop_invalid order owner now_ts best st) (\<lambda>st'. Ok (Continue st'))
      else if \<not> is_price_within_limit (o_side order) (item_price_lots best) price_lots then Ok (Break st)
      else if is_post_only order then Ok (stop_posting st)
      else if mt_limit st = 0 then Ok (stop_posting st)
      else
        bnd (div_chk is_i64 (mt_quote st) (item_price_lots best)) (\<lambda>max_match_by_quote.
        if max_match_by_quote = 0 then Ok (stop_posting st)
        else
          (let match_base_lots = min (min (mt_base st) (quantity (item_node best))) max_match_by_quote in
           bnd (chk_i64 (match_base_lots * item_price_lots best)) (\<lambda>match_quote_lots.
           bnd (self_trade_step order owner best match_quote_lots st) (\<lambda>r. case r of
             SkipMatch st' \<Rightarrow> Ok (Continue st')
           | Proceed st' \<Rightarrow>
               bnd (fill_order order owner now_ts best match_base_lots match_quote_lots st')
                 (\<lambda>st''. Ok (Continue st'')))))))"

fun match_loop ::
  "nat \<Rightarrow> order \<Rightarrow> pubkey \<Rightarrow> u64 \<Rightarrow> i64 \<Rightarrow> order_tree \<Rightarrow> book_iter \<Rightarrow> match_state \<Rightarrow> match_state res"
where
  "match_loop 0 order owner now_ts price_lots t bi st = Inl OutOfFuel"
| "match_loop (Suc fuel) order owner now_ts price_lots t bi st =
     bnd (book_iter_next t bi) (\<lambda>(x, bi'). case x of
       None \<Rightarrow> Ok st
     | Some best \<Rightarrow> bnd (match_step order owner now_ts price_lots best st) (\<lambda>r. case r of
         Break st' \<Rightarrow> Ok st'
       | Continue st' \<Rightarrow> match_loop fuel order owner now_ts price_lots t bi' st'))"

section \<open>Accounting of what was taken\<close>

record taken =
  tk_base_native :: u64
  tk_quote_native :: u64
  tk_quote_lots :: i64
  tk_taker_fees :: u64
  tk_referrer :: u64

definition taker_fees_step ::
  "i64 \<Rightarrow> i64 \<Rightarrow> u64 \<Rightarrow> market \<Rightarrow> (u64 \<times> u64 \<times> market) res" where
  \<comment> \<open>taker fees on what was not a self-trade, and what is left of them after the rebates\<close>
  "taker_fees_step quote_lots decremented rebates m =
     bnd (chk_i64 (quote_lots - decremented)) (\<lambda>d.
     bnd (chk_i64 (d * quote_lot_size m)) (\<lambda>w.
     let wo_self = as_u64 w in
     if wo_self > 0 then
       bnd (taker_fees_ceil is_u64 m wo_self) (\<lambda>fees.
       bnd (chk_u64 (fees - rebates)) (\<lambda>referrer.
       bnd (chk_u128 (fees_accrued m + referrer)) (\<lambda>fa.
       Ok (fees, referrer, m\<lparr>fees_accrued := fa\<rparr>))))
     else Ok (0, 0, m)))"

definition take_step ::
  "order \<Rightarrow> i64 \<Rightarrow> match_state \<Rightarrow> (taken \<times> match_state) res" where
  "take_step order order_max_quote_lots st =
     (let side = o_side order; m = ac_market (mt_acc st) in
      bnd (chk_i64 (order_max_quote_lots - mt_quote st)) (\<lambda>ql.
      bnd (chk_i64 (o_max_base_lots order - mt_base st)) (\<lambda>bl.
      bnd (assert_that (ql \<ge> 0)) (\<lambda>_.
      bnd (assert_that (bl \<ge> 0)) (\<lambda>_.
      bnd (chk_i64 (bl * base_lot_size m)) (\<lambda>bn.
      bnd (chk_i64 (ql * quote_lot_size m)) (\<lambda>qn.
      let base_native = as_u64 bn; quote_native = as_u64 qn in
      if ql > 0 \<or> bl > 0 then
        bnd (taker_fees_step ql (mt_decremented st) (mt_rebates st) m) (\<lambda>(fees, referrer, m1).
        bnd (case ac_ooa (mt_acc st) of
               Some acc \<Rightarrow>
                 bnd (execute_taker side base_native quote_native fees referrer m1 acc)
                   (\<lambda>(acc', m2). Ok (Some acc', m2))
             | None \<Rightarrow>
                 bnd (chk_u128 (taker_volume_wo_oo m1 + quote_native)) (\<lambda>v.
                 Ok (None, m1\<lparr>taker_volume_wo_oo := v\<rparr>))) (\<lambda>(ooa, m3).
        bnd (case side of
               Bid \<Rightarrow> chk_u64 (quote_native + fees)
             | Ask \<Rightarrow> chk_u64 (quote_native - fees)) (\<lambda>_.
        Ok (\<lparr>tk_base_native = base_native, tk_quote_native = quote_native, tk_quote_lots = ql,
             tk_taker_fees = fees, tk_referrer = referrer\<rparr>,
            st\<lparr>mt_acc := (mt_acc st)\<lparr>ac_market := m3, ac_ooa := ooa\<rparr>\<rparr>))))
      else
        Ok (\<lparr>tk_base_native = base_native, tk_quote_native = quote_native, tk_quote_lots = ql,
             tk_taker_fees = 0, tk_referrer = 0\<rparr>, st))))))))"

section \<open>Applying the matches to the opposing side\<close>

definition set_quantity :: "book_side \<Rightarrow> handle \<Rightarrow> i64 \<Rightarrow> book_side res" where
  "set_quantity b h q =
     bnd (get_node (side_nodes b) h) (\<lambda>n. bnd (unwrap n) (\<lambda>a. bnd (unwrap (as_leaf a)) (\<lambda>l.
     Ok (b\<lparr>side_nodes := (side_nodes b)\<lparr>nodes :=
       (nodes (side_nodes b))[h := LeafNode (l\<lparr>quantity := q\<rparr>)]\<rparr>\<rparr>))))"

fun apply_changes :: "(book_tree \<times> handle \<times> i64) list \<Rightarrow> book_side \<Rightarrow> book_side res" where
  "apply_changes [] b = Ok b"
| "apply_changes ((c, h, q) # xs) b = bnd (set_quantity b h q) (apply_changes xs)"

fun apply_deletes :: "(book_tree \<times> key128) list \<Rightarrow> book_side \<Rightarrow> book_side res" where
  "apply_deletes [] b = Ok b"
| "apply_deletes ((c, k) # xs) b =
     bnd (book_remove_by_key b c k) (\<lambda>(l, b'). bnd (unwrap l) (\<lambda>_. apply_deletes xs b'))"

section \<open>Posting the rest\<close>

definition postable_base_lots :: "order \<Rightarrow> market \<Rightarrow> i64 \<Rightarrow> taken \<Rightarrow> i64 \<Rightarrow> i64 res" where
  \<comment> \<open>from the taker fees in lots to \<open>book_base_quantity_lots\<close>; \<open>price\<close> is the locked price\<close>
  "postable_base_lots order m remaining_base_lots tk price =
     bnd (chk_i64 (as_i64 (tk_taker_fees tk) + quote_lot_size m)) (\<lambda>x.
     bnd (chk_i64 (x - 1)) (\<lambda>y.
     bnd (div_chk is_i64 y (quote_lot_size m)) (\<lambda>taker_fees_lots.
     bnd (chk_i64 (o_max_quote_lots_including_fees order - tk_quote_lots tk)) (\<lambda>a.
     bnd (chk_i64 (a - taker_fees_lots)) (\<lambda>remaining_quote_lots.
     bnd (maker_fees_ceil is_i64 m remaining_quote_lots) (\<lambda>f.
     bnd (chk_i64 (remaining_quote_lots - f)) (\<lambda>rq.
     bnd (div_chk is_i64 rq price) (\<lambda>by_quote.
     Ok (min remaining_base_lots by_quote)))))))))"

definition make_room ::
  "order \<Rightarrow> pubkey \<Rightarrow> u64 \<Rightarrow> i64 option \<Rightarrow> i64 \<Rightarrow> book_tree \<Rightarrow> book_side \<Rightarrow> accounts \<Rightarrow>
   (book_side \<times> accounts) res" where
  "make_room order owner now_ts oracle_price_lots price_lots tgt b ac =
     (let side = o_side order in
      bnd (book_remove_one_expired b tgt now_ts) (\<lambda>(expired, b1).
      bnd (case expired of
             Some l \<Rightarrow> process_out_event (out_event_of side l now_ts (ac_heap ac)) owner ac
           | None \<Rightarrow> Ok ac) (\<lambda>ac1.
      if book_is_full b1 then
        bnd (book_remove_worst b1 now_ts oracle_price_lots) (\<lambda>(w, b2).
        bnd (unwrap w) (\<lambda>(worst_order, worst_price).
        bnd (require (is_price_better side price_lots worst_price) SomeError) (\<lambda>_.
        bnd (process_out_event (out_event_of side worst_order now_ts (ac_heap ac1)) owner ac1) (\<lambda>ac2.
        Ok (b2, ac2)))))
      else Ok (b1, ac1))))"

record order_with_amounts =
  oa_order_id :: "key128 option"
  oa_posted_base_native :: u64
  oa_posted_quote_native :: u64
  oa_total_base_taken_native :: u64
  oa_total_quote_taken_native :: u64
  oa_taker_fees :: u64
  oa_maker_fees :: u64
  oa_referrer_amount :: u64

definition post_order ::
  "order \<Rightarrow> pubkey \<Rightarrow> u64 \<Rightarrow> i64 option \<Rightarrow> i64 \<Rightarrow> key128 \<Rightarrow> i64 \<Rightarrow> i64 \<Rightarrow> book_tree \<Rightarrow> book_side \<Rightarrow>
   accounts \<Rightarrow> (u64 \<times> i64 \<times> i64 \<times> book_side \<times> accounts) res" where
  \<comment> \<open>the block \<open>if let Some(order_tree_target) = post_target\<close>\<close>
  "post_order order owner now_ts oracle_price_lots price_lots order_id base_lots price tgt b ac =
     (let side = o_side order; m = ac_market ac in
      bnd (max_quote_lots m) (\<lambda>mx.
      bnd (chk_i64 (base_lots * price)) (\<lambda>bq.
      bnd (require (mx \<ge> bq) InvalidPostAmount) (\<lambda>_.
      bnd (chk_i64 (base_lots * base_lot_size m)) (\<lambda>posted_base_native.
      bnd (chk_i64 (bq * quote_lot_size m)) (\<lambda>posted_quote_native.
      bnd (unwrap (ac_ooa ac)) (\<lambda>oo.
      bnd (case side of
             Bid \<Rightarrow>
               bnd (maker_fees_ceil is_i64 m posted_quote_native) (\<lambda>f.
               bnd (chk_u64 f) (\<lambda>fees.
               bnd (chk_u64 (locked_maker_fees (oo_position oo) + fees)) (\<lambda>lf.
               Ok (fees, oo\<lparr>oo_position := (oo_position oo)\<lparr>locked_maker_fees := lf\<rparr>\<rparr>))))
           | Ask \<Rightarrow> Ok (0, oo)) (\<lambda>(maker_fees, oo1).
      bnd (make_room order owner now_ts oracle_price_lots price_lots tgt b (ac\<lparr>ac_ooa := Some oo1\<rparr>))
        (\<lambda>(b1, ac1).
      bnd (unwrap (ac_ooa ac1)) (\<lambda>oo2.
      bnd (next_order_slot oo2) (\<lambda>slot.
      let leaf = leaf_new slot order_id owner base_lots now_ts (o_time_in_force order)
            (order_peg_limit order) (o_client_order_id order) in
      bnd (book_insert_leaf b1 tgt leaf) (\<lambda>(_, _, b2).
      bnd (add_order side tgt leaf (o_client_order_id order) price oo2) (\<lambda>oo3.
      Ok (maker_fees, posted_base_native, posted_quote_native, b2,
          ac1\<lparr>ac_ooa := Some oo3\<rparr>))))))))))))))"

section \<open>A new order\<close>

definition order_max_quote_lots :: "order \<Rightarrow> market \<Rightarrow> i64 res" where
  "order_max_quote_lots order m =
     (if o_side order = Bid \<and> \<not> is_post_only order
      then subtract_taker_fees m (o_max_quote_lots_including_fees order)
      else Ok (o_max_quote_lots_including_fees order))"

definition start_match :: "order \<Rightarrow> i64 \<Rightarrow> int \<Rightarrow> accounts \<Rightarrow> match_state" where
  "start_match order max_quote lim ac =
     \<lparr>mt_acc = ac, mt_base = o_max_base_lots order, mt_quote = max_quote, mt_decremented = 0,
      mt_rebates = 0, mt_changes = [], mt_deletes = [], mt_dropped = 0, mt_fills = 0,
      mt_limit = lim, mt_post_target = post_target order\<rparr>"

definition match_order ::
  "order \<Rightarrow> pubkey \<Rightarrow> u64 \<Rightarrow> i64 option \<Rightarrow> i64 \<Rightarrow> book_side \<Rightarrow> match_state \<Rightarrow> match_state res" where
  "match_order order owner now_ts oracle_price_lots price_lots opposing st =
     bnd (book_iter_new opposing now_ts oracle_price_lots) (\<lambda>bi.
     match_loop (side_fuel (side_nodes opposing)) order owner now_ts price_lots
       (side_nodes opposing) bi st)"

definition final_target :: "order \<Rightarrow> i64 \<Rightarrow> i64 \<Rightarrow> book_tree option \<Rightarrow> book_tree option" where
  "final_target order price_lots base_lots tgt =
     (if base_lots \<le> 0 then None
      else if order_peg_limit order \<noteq> -1 \<and>
        is_price_better (o_side order) price_lots (order_peg_limit order) then None
      else tgt)"

definition locked_order_price :: "order \<Rightarrow> i64 \<Rightarrow> i64" where
  "locked_order_price order price_lots =
     (if order_peg_limit order \<noteq> -1 \<and> o_side order = Bid then order_peg_limit order else price_lots)"

definition new_order ::
  "orderbook \<Rightarrow> order \<Rightarrow> pubkey \<Rightarrow> u64 \<Rightarrow> int \<Rightarrow> i64 option \<Rightarrow> accounts \<Rightarrow>
   (order_with_amounts \<times> orderbook \<times> accounts) res" where
  "new_order ob order owner now_ts lim oracle_price_lots ac =
     (let side = o_side order; other_side = invert_side side in
      bnd (order_price order now_ts oracle_price_lots ob) (\<lambda>(price_lots, p_data).
      bnd (gen_order_id (ac_market ac) side p_data) (\<lambda>(order_id, m1).
      bnd (order_max_quote_lots order m1) (\<lambda>max_quote.
      bnd (max_base_lots m1) (\<lambda>mxb.
      bnd (require (mxb \<ge> o_max_base_lots order) InvalidInputLotsSize) (\<lambda>_.
      bnd (max_quote_lots m1) (\<lambda>mxq.
      bnd (require (mxq \<ge> max_quote) InvalidInputLotsSize) (\<lambda>_.
      bnd (match_order order owner now_ts oracle_price_lots price_lots (bookside ob other_side)
             (start_match order max_quote lim (ac\<lparr>ac_market := m1\<rparr>))) (\<lambda>st.
      bnd (take_step order max_quote st) (\<lambda>(tk, st1).
      let price = locked_order_price order price_lots in
      bnd (bnd (apply_changes (mt_changes st1) (bookside ob other_side))
             (apply_deletes (mt_deletes st1))) (\<lambda>opposing.
      let ob1 = set_bookside other_side opposing ob in
      bnd (postable_base_lots order (ac_market (mt_acc st1)) (mt_base st1) tk price) (\<lambda>base_lots.
      let tgt = final_target order price_lots base_lots (mt_post_target st1) in
      if is_fill_or_kill order \<and> mt_base st1 > 0 then Inl (Err WouldExecutePartially)
      else (case tgt of
        None \<Rightarrow> Ok (\<lparr>oa_order_id = None, oa_posted_base_native = 0, oa_posted_quote_native = 0,
            oa_total_base_taken_native = tk_base_native tk,
            oa_total_quote_taken_native = tk_quote_native tk, oa_taker_fees = tk_taker_fees tk,
            oa_maker_fees = 0, oa_referrer_amount = tk_referrer tk\<rparr>, ob1, mt_acc st1)
      | Some component \<Rightarrow>
          bnd (post_order order owner now_ts oracle_price_lots price_lots order_id base_lots price
                 component (bookside ob1 side) (mt_acc st1))
            (\<lambda>(maker_fees, posted_base, posted_quote, b, ac2).
          Ok (\<lparr>oa_order_id = Some order_id, oa_posted_base_native = as_u64 posted_base,
            oa_posted_quote_native = as_u64 posted_quote,
            oa_total_base_taken_native = tk_base_native tk,
            oa_total_quote_taken_native = tk_quote_native tk, oa_taker_fees = tk_taker_fees tk,
            oa_maker_fees = maker_fees, oa_referrer_amount = tk_referrer tk\<rparr>,
            set_bookside side b ob1, ac2)))))))))))))))"

section \<open>Cancelling\<close>

definition cancel_order ::
  "orderbook \<Rightarrow> open_orders_account \<Rightarrow> key128 \<Rightarrow> side_and_tree \<Rightarrow> market \<Rightarrow> pubkey option \<Rightarrow>
   (leaf_node \<times> orderbook \<times> open_orders_account) res" where
  "cancel_order ob oo order_id sat m expected_owner =
     (let side = sat_side sat; component = sat_order_tree sat in
      bnd (book_remove_by_key (bookside ob side) component order_id) (\<lambda>(l, b).
      bnd (ok_or l OrderIdNotFound) (\<lambda>leaf.
      bnd (case expected_owner of
             Some owner \<Rightarrow> require_anchor (leaf_owner leaf = owner) RequireKeysEqViolated
           | None \<Rightarrow> Ok ()) (\<lambda>_.
      bnd (cancel_slot (owner_slot leaf) (quantity leaf) m oo) (\<lambda>oo'.
      Ok (leaf, set_bookside side b ob, oo'))))))"

text \<open>The loop over the order slots; \<open>i\<close> is the next slot. An order that is no longer on the
  book is passed over (\<open>cancel_order\<close> has then changed nothing) and counts towards the limit.\<close>

function cancel_all_loop ::
  "nat \<Rightarrow> market \<Rightarrow> int \<Rightarrow> side option \<Rightarrow> u64 option \<Rightarrow> i64 \<Rightarrow> orderbook \<Rightarrow> open_orders_account \<Rightarrow>
   (i64 \<times> orderbook \<times> open_orders_account) res" where
  "cancel_all_loop i m lim side_opt client_opt tot ob oo =
     (if i \<ge> MAX_OPEN_ORDERS then Ok (tot, ob, oo)
      else bnd (arr_get (open_orders oo) i) (\<lambda>o1.
        if oo_is_free o1 \<or>
           (case side_opt of Some s \<Rightarrow> s \<noteq> sat_side (oo_side_and_tree o1) | None \<Rightarrow> False) \<or>
           (case client_opt of Some c \<Rightarrow> c \<noteq> oo_client_id o1 | None \<Rightarrow> False)
        then cancel_all_loop (Suc i) m lim side_opt client_opt tot ob oo
        else if lim = 0 then Ok (tot, ob, oo)
        else (case cancel_order ob oo (oo_id o1) (oo_side_and_tree o1) m None of
            Inl e \<Rightarrow>
              if e = Err OrderIdNotFound
              then cancel_all_loop (Suc i) m (lim - 1) side_opt client_opt tot ob oo
              else Inl e
          | Inr (leaf, ob', oo') \<Rightarrow>
              bnd (chk_i64 (tot + quantity leaf)) (\<lambda>tot'.
              cancel_all_loop (Suc i) m (lim - 1) side_opt client_opt tot' ob' oo'))))"
  by pat_completeness auto
termination
  by (relation "measure (\<lambda>(i, _). MAX_OPEN_ORDERS - i)") (auto simp: MAX_OPEN_ORDERS_def)

declare cancel_all_loop.simps [simp del]

definition cancel_all_orders ::
  "orderbook \<Rightarrow> open_orders_account \<Rightarrow> market \<Rightarrow> int \<Rightarrow> side option \<Rightarrow> u64 option \<Rightarrow>
   (i64 \<times> orderbook \<times> open_orders_account) res" where
  "cancel_all_orders ob oo m lim side_opt client_opt =
     cancel_all_loop 0 m lim side_opt client_opt 0 ob oo"

end
