(* ===== verification/Book_Side_Correct.thy ===== *)
theory Book_Side_Correct
  imports Book_Side
begin

text \<open>
  A book side as two sorted lists of orders. Both trees live in one node array and stay
  disjoint; an operation on one component leaves the orders of the other alone.
\<close>

definition side_inv :: "book_side \<Rightarrow> (book_tree \<Rightarrow> ctree option) \<Rightarrow> handle list \<Rightarrow> bool" where
  "side_inv b ot fl \<longleftrightarrow> (\<forall>c. tree_inv (side_nodes b) (book_root b c) (ot c) fl
     (ot_handles (ot (other_component c))))"

definition good_side :: "book_side \<Rightarrow> bool" where
  "good_side b \<longleftrightarrow> (\<exists>ot fl. side_inv b ot fl)"

definition side_orders :: "book_side \<Rightarrow> book_tree \<Rightarrow> leaf_node list" where
  "side_orders b c = tree_orders (side_nodes b) (book_root b c)"

lemma other_other [simp]: "other_component (other_component c) = c"
  by (cases c) auto

lemma other_neq [simp]: "other_component c \<noteq> c" "c \<noteq> other_component c"
  by (cases c; simp)+

lemma component_cases: "c' = c \<or> c' = other_component c"
  by (cases c; cases c') auto

lemma set_book_root_simps [simp]:
  "side_nodes (set_book_root c r t b) = t"
  "book_root (set_book_root c r t b) c = r"
  "book_root (set_book_root c r t b) (other_component c) = book_root b (other_component c)"
  by (cases c; simp add: set_book_root_def book_root_def)+

lemma set_book_root_same: "set_book_root c (book_root b c) (side_nodes b) b = b"
  by (cases b; cases c) (simp_all add: set_book_root_def book_root_def)

lemma side_update:
  assumes inv: "side_inv b ot fl"
    and new: "tree_inv T' r' ot' fl' (ot_handles (ot (other_component c)))"
    and fr: "frame_ok (side_nodes b) T' (ot_handles (ot (other_component c)))"
  shows "side_inv (set_book_root c r' T' b) (ot(c := ot')) fl'"
  unfolding side_inv_def
proof
  fix c'
  have o: "tree_inv (side_nodes b) (book_root b (other_component c)) (ot (other_component c)) fl
      (ot_handles (ot c))"
    using inv by (metis other_other side_inv_def)
  have "tree_rep (nodes T') (book_root b (other_component c)) (ot (other_component c))"
    by (rule tree_rep_frame [OF _ fr]) (use o in \<open>simp_all add: tree_inv_def\<close>)
  then have "tree_inv T' (book_root b (other_component c)) (ot (other_component c)) fl'
      (ot_handles ot')"
    using new by (simp add: tree_inv_def Un_commute Int_commute)
  then show "tree_inv (side_nodes (set_book_root c r' T' b)) (book_root (set_book_root c r' T' b) c')
      ((ot(c := ot')) c') fl' (ot_handles ((ot(c := ot')) (other_component c')))"
    using new component_cases [of c' c] by auto
qed

text \<open>One step on a component: what a client of the order tree gets for the whole side.\<close>

lemma good_side_step:
  assumes "good_side b"
  obtains F where "good_tree (side_nodes b) (book_root b c) F"
    and "\<And>T' r'. good_tree T' r' F \<Longrightarrow> frame_ok (side_nodes b) T' F \<Longrightarrow>
      good_side (set_book_root c r' T' b) \<and>
      side_orders (set_book_root c r' T' b) c = tree_orders T' r' \<and>
      side_orders (set_book_root c r' T' b) (other_component c) = side_orders b (other_component c) \<and>
      book_side_of (set_book_root c r' T' b) = book_side_of b"
proof -
  obtain ot fl where inv: "side_inv b ot fl" using assms by (auto simp: good_side_def)
  let ?F = "ot_handles (ot (other_component c))"
  have ic: "tree_inv (side_nodes b) (book_root b c') (ot c') fl (ot_handles (ot (other_component c')))"
    for c' using inv by (simp add: side_inv_def)
  show thesis
  proof (rule that [of ?F])
    show "good_tree (side_nodes b) (book_root b c) ?F" using ic by (rule good_treeI)
    fix T' r' assume g: "good_tree T' r' ?F" and fr: "frame_ok (side_nodes b) T' ?F"
    then obtain ot' fl' where t: "tree_inv T' r' ot' fl' ?F" by (auto simp: good_tree_def)
    let ?b = "set_book_root c r' T' b"
    have inv': "side_inv ?b (ot(c := ot')) fl'" by (rule side_update [OF inv t fr])
    then have "tree_inv T' (book_root ?b (other_component c)) (ot (other_component c)) fl'
        (ot_handles ot')"
      unfolding side_inv_def by (metis fun_upd_apply other_neq(1) other_other set_book_root_simps(1))
    then have "side_orders ?b (other_component c) = ot_orders (ot (other_component c))"
      using tree_orders_ok by (simp add: side_orders_def)
    also have "\<dots> = side_orders b (other_component c)"
      using tree_orders_ok [OF ic] by (simp add: side_orders_def)
    finally show "good_side ?b \<and> side_orders ?b c = tree_orders T' r' \<and>
        side_orders ?b (other_component c) = side_orders b (other_component c) \<and>
        book_side_of ?b = book_side_of b"
      using inv' fr by (auto simp: good_side_def side_orders_def book_side_of_def frame_ok_def)
  qed
qed

lemma good_side_tree: "good_side b \<Longrightarrow> \<exists>F. good_tree (side_nodes b) (book_root b c) F"
  using good_side_step by metis

lemma side_orders_sorted: "good_side b \<Longrightarrow> sorted_wrt (<) (map leaf_key (side_orders b c))"
  using good_side_tree [of b c] tree_orders_sorted by (auto simp: side_orders_def)

text \<open>The two states of a side before and after a step on component \<open>c\<close>.\<close>

definition side_step :: "book_side \<Rightarrow> book_tree \<Rightarrow> leaf_node list \<Rightarrow> book_side \<Rightarrow> bool" where
  "side_step b c os b' \<longleftrightarrow> good_side b' \<and> side_orders b' c = os \<and>
     side_orders b' (other_component c) = side_orders b (other_component c) \<and>
     book_side_of b' = book_side_of b"

lemma side_step_refl [simp]: "good_side b \<Longrightarrow> side_step b c (side_orders b c) b"
  by (simp add: side_step_def)

lemma side_stepE:
  assumes "good_side b"
  obtains F where "good_tree (side_nodes b) (book_root b c) F"
    and "\<And>T' r' os. good_tree T' r' F \<Longrightarrow> frame_ok (side_nodes b) T' F \<Longrightarrow>
      tree_orders T' r' = os \<Longrightarrow> side_step b c os (set_book_root c r' T' b)"
  using good_side_step [OF assms, of c] unfolding side_step_def by metis

lemma book_insert_leaf_spec:
  assumes "good_side b" and "leaf_ok l"
    and "\<not> book_is_full b \<or> book_insert_leaf b c l = Ok res"
  shows "\<exists>h b'. book_insert_leaf b c l =
      Ok (h, find_order (leaf_key l) (side_orders b c), b') \<and>
    side_step b c (insert_order l (side_orders b c)) b' \<and>
    nodes (side_nodes b') ! h = LeafNode l"
proof -
  obtain F where g: "good_tree (side_nodes b) (book_root b c) F"
    and step: "\<And>T' r' os. good_tree T' r' F \<Longrightarrow> frame_ok (side_nodes b) T' F \<Longrightarrow>
      tree_orders T' r' = os \<Longrightarrow> side_step b c os (set_book_root c r' T' b)"
    by (rule side_stepE [OF assms(1), of c]) blast
  obtain r where "\<not> is_full (side_nodes b) \<or> insert_leaf (side_nodes b) (book_root b c) l = Ok r"
    using assms(3) by (auto simp: book_is_full_def book_insert_leaf_def res_simps)
  then show ?thesis
    by (rule insert_leaf_spec [OF g assms(2)])
      (use step in \<open>auto simp: book_insert_leaf_def side_orders_def\<close>)
qed

lemma book_remove_by_key_spec:
  assumes "good_side b"
  shows "\<exists>b'. book_remove_by_key b c k = Ok (find_order k (side_orders b c), b') \<and>
    side_step b c (delete_order k (side_orders b c)) b'"
proof -
  obtain F where g: "good_tree (side_nodes b) (book_root b c) F"
    and step: "\<And>T' r' os. good_tree T' r' F \<Longrightarrow> frame_ok (side_nodes b) T' F \<Longrightarrow>
      tree_orders T' r' = os \<Longrightarrow> side_step b c os (set_book_root c r' T' b)"
    by (rule side_stepE [OF assms(1), of c]) blast
  show ?thesis
    by (rule remove_by_key_spec [OF g, of k])
      (use step in \<open>auto simp: book_remove_by_key_def side_orders_def\<close>)
qed

text \<open>What \<open>remove_one_expired\<close> does on one component, \<open>os\<close> its orders.\<close>

definition expired_choice :: "u64 \<Rightarrow> leaf_node list \<Rightarrow> leaf_node option \<Rightarrow> bool" where
  "expired_choice now_ts os r \<longleftrightarrow> (case r of
     None \<Rightarrow> \<forall>l \<in> set os. now_ts \<le> exp_of l
   | Some l \<Rightarrow> l \<in> set os \<and> exp_of l < now_ts \<and> (\<forall>l' \<in> set os. exp_of l \<le> exp_of l'))"

definition drop_choice :: "leaf_node option \<Rightarrow> leaf_node list \<Rightarrow> leaf_node list" where
  "drop_choice r os = (case r of None \<Rightarrow> os | Some l \<Rightarrow> delete_order (leaf_key l) os)"

lemma component_remove_expired:
  assumes "good_side b"
  shows "\<exists>r root' T'. remove_one_expired (side_nodes b) (book_root b c) now_ts = Ok (r, root', T') \<and>
    expired_choice now_ts (side_orders b c) r \<and>
    side_step b c (drop_choice r (side_orders b c)) (set_book_root c root' T' b) \<and>
    (r = None \<longrightarrow> set_book_root c root' T' b = b)"
proof -
  obtain F where g: "good_tree (side_nodes b) (book_root b c) F"
    and step: "\<And>T' r' os. good_tree T' r' F \<Longrightarrow> frame_ok (side_nodes b) T' F \<Longrightarrow>
      tree_orders T' r' = os \<Longrightarrow> side_step b c os (set_book_root c r' T' b)"
    by (rule side_stepE [OF assms(1), of c]) blast
  show ?thesis
  proof (rule remove_one_expired_spec [OF g, of now_ts])
    fix r root' T'
    assume e: "remove_one_expired (side_nodes b) (book_root b c) now_ts = Ok (r, root', T')"
      and s: "good_tree T' root' F" "frame_ok (side_nodes b) T' F"
      and r: "case r of
        None \<Rightarrow> root' = book_root b c \<and> T' = side_nodes b \<and>
          (\<forall>l \<in> set (tree_orders (side_nodes b) (book_root b c)). now_ts \<le> exp_of l)
      | Some l \<Rightarrow> l \<in> set (tree_orders (side_nodes b) (book_root b c)) \<and> exp_of l < now_ts \<and>
         (\<forall>l' \<in> set (tree_orders (side_nodes b) (book_root b c)). exp_of l \<le> exp_of l') \<and>
         tree_orders T' root' = delete_order (leaf_key l) (tree_orders (side_nodes b) (book_root b c))"
    have "drop_choice r (side_orders b c) = tree_orders T' root'"
      using r by (cases r) (auto simp: drop_choice_def side_orders_def)
    moreover have "expired_choice now_ts (side_orders b c) r"
      using r by (cases r) (auto simp: expired_choice_def side_orders_def)
    moreover have "r = None \<Longrightarrow> set_book_root c root' T' b = b"
      using r by (auto simp: set_book_root_same)
    ultimately show ?thesis using e step [OF s refl] by auto
  qed
qed

lemma book_remove_one_expired_spec:
  assumes "good_side b"
  shows "\<exists>r b'. book_remove_one_expired b c now_ts = Ok (r, b') \<and>
    (if \<forall>l \<in> set (side_orders b c). now_ts \<le> exp_of l
     then expired_choice now_ts (side_orders b (other_component c)) r \<and>
       side_step b (other_component c) (drop_choice r (side_orders b (other_component c))) b'
     else r \<noteq> None \<and> expired_choice now_ts (side_orders b c) r \<and>
       side_step b c (drop_choice r (side_orders b c)) b')"
proof -
  obtain r root' T' where e: "remove_one_expired (side_nodes b) (book_root b c) now_ts = Ok (r, root', T')"
    and ch: "expired_choice now_ts (side_orders b c) r"
    and st: "side_step b c (drop_choice r (side_orders b c)) (set_book_root c root' T' b)"
    and none: "r = None \<longrightarrow> set_book_root c root' T' b = b"
    using component_remove_expired [OF assms] by blast
  show ?thesis
  proof (cases r)
    case None
    obtain r2 root2 T2 where e2: "remove_one_expired (side_nodes b) (book_root b (other_component c))
        now_ts = Ok (r2, root2, T2)"
      and "expired_choice now_ts (side_orders b (other_component c)) r2"
      and "side_step b (other_component c) (drop_choice r2 (side_orders b (other_component c)))
        (set_book_root (other_component c) root2 T2 b)"
      using component_remove_expired [OF assms] by blast
    then show ?thesis using e None none ch
      by (auto simp: book_remove_one_expired_def expired_choice_def simp del: set_book_root_simps)
  next
    case (Some l)
    then have "\<not> (\<forall>l \<in> set (side_orders b c). now_ts \<le> exp_of l)"
      using ch by (fastforce simp: expired_choice_def)
    then show ?thesis using e Some ch st by (auto simp: book_remove_one_expired_def)
  qed
qed

end
