(* ===== verification/Orderbook_Correct.thy ===== *)
theory Orderbook_Correct
  imports Orderbook Book_Side_Correct
begin

text \<open>
  What a new order and a cancellation promise: bounds on what is taken, post-only and
  fill-or-kill orders, the slide price, and the removal of a cancelled order.
\<close>

lemma as_u64_0 [simp]: "as_u64 0 = 0"
  by (simp add: as_u64_def)

lemma is_i64_0 [simp]: "is_i64 0"
  by (simp add: is_i64_def int_limits)

section \<open>The steps of a new order\<close>

lemma new_order_steps:
  assumes "new_order ob order owner now_ts lim opl ac = Ok (r, ob', ac')"
  obtains price_lots p_data order_id m1 max_quote st tk st1 opposing base_lots where
    "order_price order now_ts opl ob = Ok (price_lots, p_data)"
    and "gen_order_id (ac_market ac) (o_side order) p_data = Ok (order_id, m1)"
    and "order_max_quote_lots order m1 = Ok max_quote"
    and "match_order order owner now_ts opl price_lots (bookside ob (invert_side (o_side order)))
      (start_match order max_quote lim (ac\<lparr>ac_market := m1\<rparr>)) = Ok st"
    and "take_step order max_quote st = Ok (tk, st1)"
    and "bnd (apply_changes (mt_changes st1) (bookside ob (invert_side (o_side order))))
      (apply_deletes (mt_deletes st1)) = Ok opposing"
    and "postable_base_lots order (ac_market (mt_acc st1)) (mt_base st1) tk
      (locked_order_price order price_lots) = Ok base_lots"
    and "\<not> (is_fill_or_kill order \<and> mt_base st1 > 0)"
    and "oa_total_base_taken_native r = tk_base_native tk"
    and "oa_total_quote_taken_native r = tk_quote_native tk"
    and "oa_taker_fees r = tk_taker_fees tk" and "oa_referrer_amount r = tk_referrer tk"
    and "oa_order_id r = (if final_target order price_lots base_lots (mt_post_target st1) = None
      then None else Some order_id)"
  using assms unfolding new_order_def Let_def
  by (auto simp: res_simps split: if_splits option.splits)

section \<open>Post-only orders\<close>

lemma drop_invalid_keeps:
  "drop_invalid order owner now_ts best st = Ok st' \<Longrightarrow>
   mt_base st' = mt_base st \<and> mt_quote st' = mt_quote st \<and> mt_decremented st' = mt_decremented st \<and>
   mt_rebates st' = mt_rebates st \<and> mt_changes st' = mt_changes st"
  by (auto simp: drop_invalid_def res_simps split: if_splits)

fun flow_state :: "flow \<Rightarrow> match_state" where
  "flow_state (Break st) = st"
| "flow_state (Continue st) = st"

lemma match_step_post_only:
  assumes "is_post_only order" and "match_step order owner now_ts price_lots best st = Ok r"
  shows "mt_base (flow_state r) = mt_base st \<and> mt_quote (flow_state r) = mt_quote st \<and>
    mt_changes (flow_state r) = mt_changes st"
  using assms
  by (auto simp: match_step_def stop_posting_def res_simps dest: drop_invalid_keeps split: if_splits)

lemma match_loop_invariant:
  assumes "match_loop fuel order owner now_ts price_lots t bi st = Ok st'" and "P st"
    and "\<And>best st r. P st \<Longrightarrow> match_step order owner now_ts price_lots best st = Ok r \<Longrightarrow> P (flow_state r)"
  shows "P st'"
  using assms(1,2)
proof (induction fuel arbitrary: bi st)
  case (Suc fuel)
  then obtain x bi' where n: "book_iter_next t bi = Ok (x, bi')" by (auto simp: res_simps)
  show ?case
  proof (cases x)
    case None
    then show ?thesis using Suc.prems n by simp
  next
    case (Some best)
    then obtain r where r: "match_step order owner now_ts price_lots best st = Ok r"
      using Suc.prems(1) n by (auto simp: res_simps)
    have "P (flow_state r)" using assms(3) [OF Suc.prems(2) r] .
    then show ?thesis using Suc.prems(1) Suc.IH n Some r by (cases r) auto
  qed
qed simp

lemma match_order_invariant:
  assumes "match_order order owner now_ts opl price_lots b st = Ok st'" and "P st"
    and "\<And>best st r. P st \<Longrightarrow> match_step order owner now_ts price_lots best st = Ok r \<Longrightarrow> P (flow_state r)"
  shows "P st'"
proof -
  obtain bi where "match_loop (side_fuel (side_nodes b)) order owner now_ts price_lots (side_nodes b) bi st = Ok st'"
    using assms(1) by (auto simp: match_order_def res_simps)
  then show ?thesis by (rule match_loop_invariant) (use assms in auto)
qed

lemma take_step_nothing:
  assumes "take_step order max_quote st = Ok (tk, st1)" and "mt_quote st = max_quote"
    and "mt_base st = o_max_base_lots order"
  shows "tk_base_native tk = 0 \<and> tk_quote_native tk = 0 \<and> tk_taker_fees tk = 0 \<and> tk_referrer tk = 0"
  using assms by (auto simp: take_step_def Let_def res_simps)

lemma new_order_post_only:
  assumes n: "new_order ob order owner now_ts lim opl ac = Ok (r, ob', ac')" and p: "is_post_only order"
  shows "oa_total_base_taken_native r = 0 \<and> oa_total_quote_taken_native r = 0 \<and>
    oa_taker_fees r = 0 \<and> oa_referrer_amount r = 0"
proof (rule new_order_steps [OF n])
  fix price_lots max_quote st tk st1 m1
  assume m: "match_order order owner now_ts opl price_lots (bookside ob (invert_side (o_side order)))
      (start_match order max_quote lim (ac\<lparr>ac_market := m1\<rparr>)) = Ok st"
    and t: "take_step order max_quote st = Ok (tk, st1)"
    and r: "oa_total_base_taken_native r = tk_base_native tk"
      "oa_total_quote_taken_native r = tk_quote_native tk" "oa_taker_fees r = tk_taker_fees tk"
      "oa_referrer_amount r = tk_referrer tk"
  have "mt_base st = o_max_base_lots order \<and> mt_quote st = max_quote"
    by (rule match_order_invariant [OF m]) (use match_step_post_only [OF p] in \<open>auto simp: start_match_def\<close>)
  then show ?thesis using take_step_nothing [OF t] r by simp
qed

section \<open>Where the items of an iterator come from\<close>

text \<open>An iterator that will only yield orders of \<open>S\<close>, and an item of \<open>S\<close>. Unlike the
  description of the iterator in \<open>Book_Side_Iter\<close>, this holds with skipped orders too.\<close>

definition yields :: "order_tree \<Rightarrow> order_tree_iter \<Rightarrow> leaf_node set \<Rightarrow> bool" where
  "yields T it S \<longleftrightarrow> (\<exists>xs. iter_rest T it xs \<and> snd ` set xs \<subseteq> S)"

definition item_in :: "leaf_node set \<Rightarrow> item option \<Rightarrow> bool" where
  "item_in S x \<longleftrightarrow> (\<forall>y. x = Some y \<longrightarrow> snd y \<in> S)"

lemma item_in_simps [simp]: "item_in S None" "item_in S (Some y) \<longleftrightarrow> snd y \<in> S"
  by (simp_all add: item_in_def)

lemma yields_peek: "yields T it S \<Longrightarrow> item_in S (iter_peek it)"
  by (auto simp: yields_def iter_peek_ok split: list.splits)

lemma yields_next:
  assumes "yields T it S" and "iter_next T it = Ok (x, it')"
  shows "item_in S x \<and> yields T it' S \<and> it_left it' = it_left it"
proof -
  obtain xs where xs: "iter_rest T it xs" "snd ` set xs \<subseteq> S" using assms(1) by (auto simp: yields_def)
  have n: "x = (case xs of [] \<Rightarrow> None | x # _ \<Rightarrow> Some x)" "iter_rest T it' (tl xs)" "it_left it' = it_left it"
    using iter_next_ok [OF xs(1)] assms(2) by auto
  have "snd ` set (tl xs) \<subseteq> S" using xs(2) by (cases xs) auto
  then show ?thesis using n xs(2) by (cases xs) (auto simp: yields_def)
qed

lemma yields_skip_loop:
  "skip_loop fuel T opl side o_peek it = Ok (x, it') \<Longrightarrow> item_in S o_peek \<Longrightarrow> yields T it S \<Longrightarrow>
   item_in S x \<and> yields T it' S"
proof (induction fuel arbitrary: o_peek it)
  case (Suc fuel)
  show ?case
  proof (cases o_peek)
    case None
    then show ?thesis using Suc.prems by simp
  next
    case (Some p)
    obtain h l where p: "p = (h, l)" by (cases p)
    show ?thesis
    proof (cases "fst (oracle_pegged_price opl l side) \<noteq> SkippedState")
      case True
      then show ?thesis using Suc.prems Some p by simp
    next
      case False
      then obtain x1 it1 where n: "iter_next T it = Ok (x1, it1)"
        using Suc.prems(1) Some p by (auto simp: res_simps)
      then show ?thesis
        using Suc.prems Suc.IH [of x1 it1] yields_next [OF Suc.prems(3) n] Some p False by simp
    qed
  qed
qed simp

lemma yields_new:
  assumes "good_side b" and "iter_new (side_nodes b) (book_root b c) = Ok it"
  shows "yields (side_nodes b) it (set (side_orders b c))"
proof -
  obtain F where "good_tree (side_nodes b) (book_root b c) F" using good_side_tree [OF assms(1)] by blast
  then obtain xs where xs: "iter_rest (side_nodes b) it xs"
      "map snd xs = book_order (order_tree_type (side_nodes b)) (side_orders b c)"
    using iter_spec assms(2) by (fastforce simp: side_orders_def)
  have "set (map snd xs) = set (side_orders b c)"
    unfolding xs(2) by (cases "order_tree_type (side_nodes b)") (simp_all add: book_order_def)
  then show ?thesis using xs(1) by (auto simp: yields_def)
qed

lemma fixed_price_lots_nonneg: "fixed_price_lots w = Ok p \<Longrightarrow> 0 \<le> p"
proof -
  assume a: "fixed_price_lots w = Ok p"
  then have le: "uint w \<le> I64_MAX"
    by (auto simp: fixed_price_lots_def res_simps word_le_def int_limits)
  show ?thesis
  proof (cases "uint w = 0")
    case True
    then have "w = 0" by (metis word_of_int_uint word_of_int_0)
    then show ?thesis using a by (auto simp: fixed_price_lots_def res_simps)
  next
    case False
    then have "1 \<le> uint w" using uint_nonnegative [of w] by linarith
    then have "fixed_price_lots w = Ok (uint w)"
      using fixed_price_lots_data [of "uint w"] le
      by (simp add: fixed_price_data_def is_i64_def int_limits)
    then show ?thesis using a by simp
  qed
qed

lemma pegged_price_pos: "oracle_pegged_price opl l side = (st, p) \<Longrightarrow> 1 \<le> p"
  by (auto simp: oracle_pegged_price_def Let_def split: if_splits)

definition item_of_book :: "book_side \<Rightarrow> book_item \<Rightarrow> bool" where
  "item_of_book b best \<longleftrightarrow> item_node best \<in> set (side_orders b (item_tree best)) \<and>
     0 \<le> item_price_lots best"

lemma rank_orders_item:
  assumes r: "rank_orders side f p w now_ts opl = Ok (Some i)"
    and f: "item_in (set (side_orders b Fixed)) f"
    and p: "item_in (set (side_orders b OraclePegged)) p"
  shows "item_of_book b i"
proof -
  have pg: "oracle_pegged_price x l side = (st, y) \<Longrightarrow> 0 \<le> y" for x l st y
    using pegged_price_pos by fastforce
  have "(\<exists>y. f = Some y \<and> fixed_to_result y now_ts = Ok i) \<or>
      (\<exists>h l op0 st pr. p = Some (h, l) \<and> oracle_pegged_price op0 l side = (st, pr) \<and>
        oracle_pegged_to_result (h, l, pr, st) now_ts = Ok i)"
    using r by (cases f; cases p; cases opl)
      (auto simp: rank_orders_def Let_def res_simps split: prod.splits if_splits)
  then show ?thesis
    using f p pg fixed_price_lots_nonneg
    by (auto simp: fixed_to_result_def oracle_pegged_to_result_def item_of_book_def res_simps)
qed

definition book_iter_in :: "book_side \<Rightarrow> book_iter \<Rightarrow> bool" where
  "book_iter_in b bi \<longleftrightarrow> yields (side_nodes b) (fixed_iter bi) (set (side_orders b Fixed)) \<and>
     yields (side_nodes b) (pegged_iter bi) (set (side_orders b OraclePegged))"

lemma book_iter_new_in:
  "good_side b \<Longrightarrow> book_iter_new b now_ts opl = Ok bi \<Longrightarrow> book_iter_in b bi"
  using yields_new by (auto simp: book_iter_new_def book_iter_in_def res_simps)

lemma book_iter_next_in:
  assumes n: "book_iter_next (side_nodes b) bi = Ok (x, bi')" and i: "book_iter_in b bi"
  shows "book_iter_in b bi' \<and> (\<forall>best. x = Some best \<longrightarrow> item_of_book b best)"
proof -
  let ?t = "side_nodes b" and ?side = "iter_side (fixed_iter bi)"
  obtain o_peek p_it where sk: "(case bi_oracle_price_lots bi of
        Some opl \<Rightarrow> skip_loop (side_fuel ?t) ?t opl ?side (iter_peek (pegged_iter bi)) (pegged_iter bi)
      | None \<Rightarrow> Ok (None, pegged_iter bi)) = Ok (o_peek, p_it)"
    using n by (auto simp: book_iter_next_def Let_def res_simps)
  have o: "item_in (set (side_orders b OraclePegged)) o_peek"
      "yields ?t p_it (set (side_orders b OraclePegged))"
    using sk i yields_skip_loop yields_peek by (auto simp: book_iter_in_def split: option.splits)
  obtain r where r: "rank_orders ?side (iter_peek (fixed_iter bi)) o_peek False (bi_now_ts bi)
      (bi_oracle_price_lots bi) = Ok r"
    using n sk by (auto simp: book_iter_next_def Let_def res_simps)
  have ri: "item_of_book b best" if "r = Some best" for best
    using rank_orders_item [OF r [unfolded that] _ o(1)] i
      yields_peek [of ?t "fixed_iter bi" "set (side_orders b Fixed)"]
    by (simp add: book_iter_in_def)
  show ?thesis
  proof (cases r)
    case None
    then show ?thesis using n sk r i o by (auto simp: book_iter_next_def Let_def book_iter_in_def)
  next
    case (Some best)
    let ?bi = "bi\<lparr>pegged_iter := p_it\<rparr>"
    have x: "x = Some best"
      using n sk r Some by (auto simp: book_iter_next_def Let_def res_simps split: book_tree.splits)
    have "book_iter_in b bi'"
    proof (cases "item_tree best")
      case Fixed
      then obtain y f where f: "iter_next ?t (fixed_iter bi) = Ok (y, f)" "bi' = ?bi\<lparr>fixed_iter := f\<rparr>"
        using n sk r Some by (auto simp: book_iter_next_def Let_def res_simps)
      have "yields ?t f (set (side_orders b Fixed))"
        using yields_next [OF _ f(1)] i by (simp add: book_iter_in_def)
      then show ?thesis using f(2) o(2) by (simp add: book_iter_in_def)
    next
      case OraclePegged
      then obtain y p where q: "iter_next ?t p_it = Ok (y, p)" "bi' = ?bi\<lparr>pegged_iter := p\<rparr>"
        using n sk r Some by (auto simp: book_iter_next_def Let_def res_simps)
      have "yields ?t p (set (side_orders b OraclePegged))"
        using yields_next [OF o(2) q(1)] by simp
      then show ?thesis using q(2) i by (simp add: book_iter_in_def)
    qed
    then show ?thesis using x ri Some by simp
  qed
qed

text \<open>What every step on an item of the book keeps, matching keeps.\<close>

lemma match_loop_book_invariant:
  assumes "match_loop fuel order owner now_ts price_lots (side_nodes b) bi st = Ok st'"
    and "book_iter_in b bi" and "P st"
    and step: "\<And>best st r. item_of_book b best \<Longrightarrow> P st \<Longrightarrow>
      match_step order owner now_ts price_lots best st = Ok r \<Longrightarrow> P (flow_state r)"
  shows "P st'"
  using assms(1-3)
proof (induction fuel arbitrary: bi st)
  case (Suc fuel)
  then obtain x bi' where n: "book_iter_next (side_nodes b) bi = Ok (x, bi')" by (auto simp: res_simps)
  note i = book_iter_next_in [OF n Suc.prems(2)]
  show ?case
  proof (cases x)
    case None
    then show ?thesis using Suc.prems n by simp
  next
    case (Some best)
    then obtain r where r: "match_step order owner now_ts price_lots best st = Ok r"
      using Suc.prems(1) n by (auto simp: res_simps)
    have "P (flow_state r)" using step [OF _ Suc.prems(3) r] i Some by simp
    then show ?thesis using Suc.prems(1) Suc.IH n Some r i by (cases r) auto
  qed
qed simp

lemma match_order_book_invariant:
  assumes "match_order order owner now_ts opl price_lots b st = Ok st'" and "good_side b" and "P st"
    and "\<And>best st r. item_of_book b best \<Longrightarrow> P st \<Longrightarrow>
      match_step order owner now_ts price_lots best st = Ok r \<Longrightarrow> P (flow_state r)"
  shows "P st'"
proof -
  obtain bi where "match_loop (side_fuel (side_nodes b)) order owner now_ts price_lots (side_nodes b) bi st = Ok st'"
      and "book_iter_in b bi"
    using assms(1) book_iter_new_in [OF assms(2)] by (auto simp: match_order_def res_simps)
  then show ?thesis by (rule match_loop_book_invariant) (use assms(3,4) in blast)+
qed

end
