(* ===== verification/Orderbook_Limits.thy ===== *)
theory Orderbook_Limits
  imports Orderbook_Correct
begin

text \<open>
  The limits an order sets on what it takes: the base amount, the quote amount with the taker
  fees, and the price. They are carried through the match loop by an invariant.
\<close>

definition same_terms :: "market \<Rightarrow> market \<Rightarrow> bool" where
  \<comment> \<open>what trading never changes: lots, fees, the vaults and what is booked into them\<close>
  "same_terms m m' \<longleftrightarrow> base_lot_size m' = base_lot_size m \<and> quote_lot_size m' = quote_lot_size m \<and>
     maker_fee m' = maker_fee m \<and> taker_fee m' = taker_fee m \<and>
     market_base_vault m' = market_base_vault m \<and> market_quote_vault m' = market_quote_vault m \<and>
     base_deposit_total m' = base_deposit_total m \<and> quote_deposit_total m' = quote_deposit_total m"

lemma same_terms_refl [simp]: "same_terms m m"
  by (simp add: same_terms_def)

lemma same_terms_trans: "same_terms m1 m2 \<Longrightarrow> same_terms m2 m3 \<Longrightarrow> same_terms m1 m3"
  by (simp add: same_terms_def)

lemma execute_maker_terms:
  assumes "execute_maker fill m oo = Ok (oo', m')"
  shows "same_terms m m'"
proof -
  obtain qn fees pa pa' where "account_maker_volume qn fees m pa = Ok (pa', m')"
    using assms by (auto simp: execute_maker_def Let_def res_simps)
  then show ?thesis using account_maker_volume_ok(2) [of qn fees m pa pa' m'] by (simp add: same_terms_def)
qed

lemma process_out_event_terms:
  "process_out_event ev owner ac = Ok ac' \<Longrightarrow> ac_market ac' = ac_market ac"
  by (auto simp: process_out_event_def queue_out_event_def res_simps split: option.splits if_splits)

lemma process_fill_event_terms:
  "process_fill_event ev n ac = Ok (n', ac') \<Longrightarrow> same_terms (ac_market ac) (ac_market ac')"
  by (auto simp: process_fill_event_def res_simps dest: execute_maker_terms
      split: option.splits if_splits)

section \<open>The invariant of the match loop\<close>

definition within_price :: "side \<Rightarrow> i64 \<Rightarrow> i64 \<Rightarrow> i64 \<Rightarrow> bool" where
  \<comment> \<open>\<open>quote\<close> paid (received) for \<open>base\<close> at no worse than \<open>lim\<close>\<close>
  "within_price side lim base quote = (case side of
     Bid \<Rightarrow> quote \<le> base * lim | Ask \<Rightarrow> base * lim \<le> quote)"

definition match_inv :: "order \<Rightarrow> i64 \<Rightarrow> i64 \<Rightarrow> market \<Rightarrow> match_state \<Rightarrow> bool" where
  "match_inv order max_quote price_lots m st \<longleftrightarrow>
     0 \<le> mt_base st \<and> mt_base st \<le> o_max_base_lots order \<and>
     0 \<le> mt_quote st \<and> mt_quote st \<le> max_quote \<and>
     0 \<le> mt_decremented st \<and> mt_decremented st \<le> max_quote - mt_quote st \<and>
     within_price (o_side order) price_lots (o_max_base_lots order - mt_base st) (max_quote - mt_quote st) \<and>
     same_terms m (ac_market (mt_acc st))"

lemma drop_invalid_terms:
  "drop_invalid order owner now_ts best st = Ok st' \<Longrightarrow>
   ac_market (mt_acc st') = ac_market (mt_acc st)"
  by (auto simp: drop_invalid_def res_simps dest: process_out_event_terms split: if_splits)

lemma self_trade_inv:
  assumes "self_trade_step order owner best mq st = Ok r"
  shows "case r of
     Proceed st' \<Rightarrow> mt_base st' = mt_base st \<and> mt_quote st' = mt_quote st \<and>
       ac_market (mt_acc st') = ac_market (mt_acc st) \<and>
       (mt_decremented st' = mt_decremented st \<or> mt_decremented st' = mt_decremented st + mq)
   | SkipMatch st' \<Rightarrow> mt_base st' = mt_base st \<and> mt_quote st' = mt_quote st \<and>
       ac_market (mt_acc st') = ac_market (mt_acc st) \<and> mt_decremented st' = mt_decremented st"
  using assms by (auto simp: self_trade_step_def rebate_step_def Let_def res_simps
      split: option.splits if_splits self_trade_behavior.splits)

lemma fill_order_inv:
  "fill_order order owner now_ts best mb mq st = Ok st' \<Longrightarrow>
   mt_base st' = mt_base st - mb \<and> mt_quote st' = mt_quote st - mq \<and> 0 \<le> mt_quote st' \<and>
   mt_decremented st' = mt_decremented st \<and>
   same_terms (ac_market (mt_acc st)) (ac_market (mt_acc st'))"
  by (auto simp: fill_order_def Let_def res_simps dest!: process_fill_event_terms split: if_splits)

lemma within_price_add:
  assumes "within_price side lim b q" and "is_price_within_limit side p lim" and "0 \<le> mb"
  shows "within_price side lim (b + mb) (q + mb * p)"
proof (cases side)
  case Bid
  then have "mb * p \<le> mb * lim" using assms by (intro mult_left_mono) auto
  then show ?thesis using assms Bid by (simp add: within_price_def algebra_simps)
next
  case Ask
  then have "mb * lim \<le> mb * p" using assms by (intro mult_left_mono) auto
  then show ?thesis using assms Ask by (simp add: within_price_def algebra_simps)
qed

text \<open>The cases of one iteration.\<close>

lemma match_step_cases:
  assumes "match_step order owner now_ts price_lots best st = Ok r"
  obtains (stop) "flow_state r = st \<or> flow_state r = st\<lparr>mt_post_target := None\<rparr>"
  | (drop) st' where "drop_invalid order owner now_ts best st = Ok st'" "flow_state r = st'"
      "\<not> item_is_valid best"
  | (trade) q mb s where "is_price_within_limit (o_side order) (item_price_lots best) price_lots"
      "item_is_valid best"
      "div_chk is_i64 (mt_quote st) (item_price_lots best) = Ok q" "q \<noteq> 0"
      "mb = min (min (mt_base st) (quantity (item_node best))) q"
      "\<not> is_post_only order" "mt_limit st \<noteq> 0"
      "self_trade_step order owner best (mb * item_price_lots best) st = Ok s"
      "case s of SkipMatch st' \<Rightarrow> flow_state r = st'
       | Proceed st' \<Rightarrow> fill_order order owner now_ts best mb (mb * item_price_lots best) st' =
           Ok (flow_state r)"
proof -
  let ?g = "mt_base st = 0 \<or> mt_quote st = 0 \<or> \<not> item_is_valid best \<or>
    \<not> is_price_within_limit (o_side order) (item_price_lots best) price_lots \<or>
    is_post_only order \<or> mt_limit st = 0"
  show thesis
  proof (cases ?g)
    case True
    then show thesis using assms stop drop
      by (auto simp: match_step_def stop_posting_def res_simps split: if_splits)
  next
    case False
    then obtain q where q: "div_chk is_i64 (mt_quote st) (item_price_lots best) = Ok q"
      using assms by (auto simp: match_step_def res_simps)
    let ?mb = "min (min (mt_base st) (quantity (item_node best))) q"
    show thesis
    proof (cases "q = 0")
      case True
      then have "r = Break (st\<lparr>mt_post_target := None\<rparr>)"
        using False q assms by (simp add: match_step_def stop_posting_def)
      then show thesis using stop by simp
    next
      case nz: False
      have e: "match_step order owner now_ts price_lots best st =
          bnd (chk_i64 (?mb * item_price_lots best)) (\<lambda>mq.
          bnd (self_trade_step order owner best mq st) (\<lambda>s. case s of
            SkipMatch st' \<Rightarrow> Ok (Continue st')
          | Proceed st' \<Rightarrow> bnd (fill_order order owner now_ts best ?mb mq st') (\<lambda>st''. Ok (Continue st''))))"
        using False q nz by (simp add: match_step_def Let_def)
      obtain s where s: "self_trade_step order owner best (?mb * item_price_lots best) st = Ok s"
        using assms unfolding e by (auto simp: res_simps)
      have "case s of SkipMatch st' \<Rightarrow> flow_state r = st'
         | Proceed st' \<Rightarrow> fill_order order owner now_ts best ?mb (?mb * item_price_lots best) st' =
             Ok (flow_state r)"
        using s assms unfolding e by (auto simp: res_simps split: self_trade.splits)
      then show thesis using trade False q nz s by blast
    qed
  qed
qed

lemma match_step_inv:
  assumes inv: "match_inv order max_quote price_lots m st" and item: "0 \<le> quantity (item_node best)" "0 \<le> item_price_lots best"
    and s: "match_step order owner now_ts price_lots best st = Ok r"
  shows "match_inv order max_quote price_lots m (flow_state r)"
  using s
proof (cases rule: match_step_cases)
  case stop
  then show ?thesis using inv by (auto simp: match_inv_def)
next
  case (drop st')
  then show ?thesis using inv drop_invalid_keeps [OF drop(1)] drop_invalid_terms [OF drop(1)]
    by (simp add: match_inv_def)
next
  case (trade q mb s)
  have p: "0 < item_price_lots best"
    using trade(3) item by (auto simp: div_chk_def less_le)
  have q0: "0 \<le> q"
    using trade(3) inv p by (auto simp: match_inv_def res_simps pos_imp_zdiv_nonneg_iff)
  have mb: "0 \<le> mb" "mb \<le> mt_base st" using trade(5) q0 inv item by (auto simp: match_inv_def )
  have mq: "0 \<le> mb * item_price_lots best" using mb item by simp
  show ?thesis
  proof (cases s)
    case (SkipMatch st')
    then show ?thesis using inv self_trade_inv [OF trade(8)] trade(9) by (simp add: match_inv_def)
  next
    case (Proceed st')
    then have f: "fill_order order owner now_ts best mb (mb * item_price_lots best) st' = Ok (flow_state r)"
      using trade(9) by simp
    have w: "within_price (o_side order) price_lots (o_max_base_lots order - mt_base st + mb)
        (max_quote - mt_quote st + mb * item_price_lots best)"
      by (rule within_price_add [OF _ trade(1) mb(1)]) (use inv in \<open>simp add: match_inv_def\<close>)
    then have w': "within_price (o_side order) price_lots (o_max_base_lots order - (mt_base st - mb))
        (max_quote - (mt_quote st - mb * item_price_lots best))"
      by (simp add: algebra_simps)
    show ?thesis
      using inv self_trade_inv [OF trade(8)] fill_order_inv [OF f] mb mq w' Proceed
      by (auto simp: match_inv_def intro: same_terms_trans)
  qed
qed

definition quantities_ok :: "book_side \<Rightarrow> bool" where
  "quantities_ok b \<longleftrightarrow> (\<forall>c. \<forall>l \<in> set (side_orders b c). 0 \<le> quantity l)"

lemma match_order_inv:
  assumes "match_order order owner now_ts opl price_lots b st = Ok st'"
    and "match_inv order max_quote price_lots m st" and "good_side b" and "quantities_ok b"
  shows "match_inv order max_quote price_lots m st'"
proof (rule match_order_book_invariant [where P = "match_inv order max_quote price_lots m", OF assms(1,3,2)])
  fix best st r
  assume "item_of_book b best" "match_inv order max_quote price_lots m st"
    "match_step order owner now_ts price_lots best st = Ok r"
  then show "match_inv order max_quote price_lots m (flow_state r)"
    using assms(4) by (auto simp: item_of_book_def quantities_ok_def intro: match_step_inv)
qed

section \<open>What is taken\<close>

lemma order_max_quote_le:
  assumes "order_max_quote_lots order m = Ok mq" and "fee_ok m"
    and "0 \<le> o_max_quote_lots_including_fees order" "is_i64 (o_max_quote_lots_including_fees order)"
  shows "0 \<le> mq" and "mq \<le> o_max_quote_lots_including_fees order"
    and "o_side order = Bid \<Longrightarrow> \<not> is_post_only order \<Longrightarrow>
      mq + ceil_div (mq * taker_fee m) FEES_SCALE_FACTOR \<le> o_max_quote_lots_including_fees order"
  using assms subtract_taker_fees_spec [OF assms(2,3)]
  by (auto simp: order_max_quote_lots_def is_i64_def split: if_splits)

lemma taker_fees_step_le:
  assumes t: "taker_fees_step ql d rebates m = Ok (fees, referrer, m')"
    and ok: "fee_ok m" and q: "0 \<le> d" "d \<le> ql" "0 < quote_lot_size m"
  shows "fees \<le> ceil_div (ql * quote_lot_size m * taker_fee m) FEES_SCALE_FACTOR"
    and "0 \<le> referrer" and "same_terms m m'"
    and "fees_accrued m' = fees_accrued m + referrer"
proof -
  let ?w = "(ql - d) * quote_lot_size m"
  have w: "0 \<le> ?w" "?w \<le> ql * quote_lot_size m" using q by (simp_all add: mult_right_mono)
  have f: "0 \<le> taker_fee m" using ok by (simp add: fee_ok_def)
  have le: "ceil_div (?w * taker_fee m) FEES_SCALE_FACTOR \<le>
      ceil_div (ql * quote_lot_size m * taker_fee m) FEES_SCALE_FACTOR"
    by (rule ceil_div_mono [OF scale_pos]) (use w f in \<open>simp add: mult_right_mono\<close>)
  have nn: "0 \<le> ceil_div (ql * quote_lot_size m * taker_fee m) FEES_SCALE_FACTOR"
    by (rule ceil_div_nonneg [OF scale_pos]) (use q f in simp)
  have wi: "is_i64 ?w" using t by (auto simp: taker_fees_step_def res_simps)
  have tf: "taker_fees_ceil is_u64 m ?w = chk_u64 (ceil_div (?w * taker_fee m) FEES_SCALE_FACTOR)"
    by (rule taker_fees_ceil_eq [OF ok w(1)]) (use wi in \<open>simp add: is_i64_def int_limits\<close>)
  show "fees \<le> ceil_div (ql * quote_lot_size m * taker_fee m) FEES_SCALE_FACTOR"
    "0 \<le> referrer" "same_terms m m'" "fees_accrued m' = fees_accrued m + referrer"
    using t le nn tf w(1) wi
    by (auto simp: taker_fees_step_def Let_def res_simps as_u64_of_chk same_terms_def is_u64_def
        split: if_splits)
qed

lemma take_step_le:
  assumes t: "take_step order max_quote st = Ok (tk, st1)"
    and inv: "match_inv order max_quote price_lots m st" and ok: "fee_ok m"
    and lots: "0 < base_lot_size m" "0 < quote_lot_size m"
  shows "tk_base_native tk = (o_max_base_lots order - mt_base st) * base_lot_size m"
    and "tk_quote_native tk = (max_quote - mt_quote st) * quote_lot_size m"
    and "tk_taker_fees tk \<le> ceil_div ((max_quote - mt_quote st) * quote_lot_size m * taker_fee m)
      FEES_SCALE_FACTOR"
    and "mt_base st1 = mt_base st"
proof -
  let ?m = "ac_market (mt_acc st)" and ?ql = "max_quote - mt_quote st"
    and ?bl = "o_max_base_lots order - mt_base st"
  have same: "base_lot_size ?m = base_lot_size m" "quote_lot_size ?m = quote_lot_size m"
    "taker_fee ?m = taker_fee m" "fee_ok ?m"
    using inv ok by (simp_all add: match_inv_def same_terms_def fee_ok_def)
  have n: "0 \<le> ?ql" "0 \<le> ?bl" "0 \<le> mt_decremented st" "mt_decremented st \<le> ?ql"
    using inv by (simp_all add: match_inv_def)
  have p: "0 \<le> ?bl * base_lot_size m" "0 \<le> ?ql * quote_lot_size m" using n lots by simp_all
  have nn: "0 \<le> ceil_div (?ql * quote_lot_size m * taker_fee m) FEES_SCALE_FACTOR"
    by (rule ceil_div_nonneg [OF scale_pos]) (use p ok in \<open>simp add: fee_ok_def\<close>)
  have le: "fees \<le> ceil_div (?ql * quote_lot_size m * taker_fee m) FEES_SCALE_FACTOR"
    if "taker_fees_step ?ql (mt_decremented st) (mt_rebates st) ?m = Ok (fees, rf, m1)" for fees rf m1
    using taker_fees_step_le(1) [OF that same(4) n(3,4)] same lots by simp
  show "tk_base_native tk = ?bl * base_lot_size m" "tk_quote_native tk = ?ql * quote_lot_size m"
    "tk_taker_fees tk \<le> ceil_div (?ql * quote_lot_size m * taker_fee m) FEES_SCALE_FACTOR"
    "mt_base st1 = mt_base st"
    using t p le nn same
    by (auto simp: take_step_def Let_def res_simps as_u64_of_chk split: if_splits)
qed

lemma gen_order_id_terms: "gen_order_id m side p = Ok (k, m') \<Longrightarrow> same_terms m m'"
  by (auto simp: gen_order_id_def same_terms_def res_simps)

text \<open>A fee on lots is at most the fee on one lot's worth, scaled: what fits in lots fits in the
  native unit.\<close>

lemma fee_scale:
  assumes "x + ceil_div (x * f) FEES_SCALE_FACTOR \<le> q" and "0 < lot"
  shows "x * lot + ceil_div (x * lot * f) FEES_SCALE_FACTOR \<le> q * lot"
proof -
  let ?c = "ceil_div (x * f) FEES_SCALE_FACTOR"
  have "x * f * lot \<le> ?c * FEES_SCALE_FACTOR * lot"
    using ceil_div_bounds(1) [OF scale_pos, of "x * f"] assms(2) by (intro mult_right_mono) auto
  then have "ceil_div (x * lot * f) FEES_SCALE_FACTOR \<le> ?c * lot"
    by (intro ceil_div_least [OF scale_pos]) (simp add: algebra_simps)
  moreover have "(x + ?c) * lot \<le> q * lot" using assms by (intro mult_right_mono) auto
  ultimately show ?thesis by (simp add: algebra_simps)
qed

lemma fee_mono:
  assumes "x \<le> y" and "0 \<le> f" and "y + ceil_div (y * f) FEES_SCALE_FACTOR \<le> q"
  shows "x + ceil_div (x * f) FEES_SCALE_FACTOR \<le> q"
proof -
  have "ceil_div (x * f) FEES_SCALE_FACTOR \<le> ceil_div (y * f) FEES_SCALE_FACTOR"
    using assms by (intro ceil_div_mono [OF scale_pos] mult_right_mono)
  then show ?thesis using assms by linarith
qed

definition order_ok :: "order \<Rightarrow> bool" where
  \<comment> \<open>what the instructions check of an order's amounts\<close>
  "order_ok order \<longleftrightarrow> 0 \<le> o_max_base_lots order \<and> 0 \<le> o_max_quote_lots_including_fees order \<and>
     is_i64 (o_max_quote_lots_including_fees order)"

definition market_ok :: "market \<Rightarrow> bool" where
  "market_ok m \<longleftrightarrow> fee_ok m \<and> 0 < base_lot_size m \<and> 0 < quote_lot_size m"

lemma new_order_taken:
  assumes n: "new_order ob order owner now_ts lim opl ac = Ok (r, ob', ac')"
    and ok: "order_ok order" "market_ok (ac_market ac)"
    and q: "good_side (bookside ob (invert_side (o_side order)))"
      "quantities_ok (bookside ob (invert_side (o_side order)))"
  obtains price_lots p_data base quote where
    "order_price order now_ts opl ob = Ok (price_lots, p_data)"
    and "0 \<le> base" "base \<le> o_max_base_lots order"
    and "0 \<le> quote" "quote \<le> o_max_quote_lots_including_fees order"
    and "within_price (o_side order) price_lots base quote"
    and "oa_total_base_taken_native r = base * base_lot_size (ac_market ac)"
    and "oa_total_quote_taken_native r = quote * quote_lot_size (ac_market ac)"
    and "o_side order = Bid \<Longrightarrow> oa_total_quote_taken_native r + oa_taker_fees r \<le>
      o_max_quote_lots_including_fees order * quote_lot_size (ac_market ac)"
    and "is_fill_or_kill order \<Longrightarrow> base = o_max_base_lots order"
proof (rule new_order_steps [OF n])
  let ?m = "ac_market ac"
  fix price_lots p_data k m1 max_quote st tk st1
  assume p: "order_price order now_ts opl ob = Ok (price_lots, p_data)"
    and g: "gen_order_id ?m (o_side order) p_data = Ok (k, m1)"
    and mq: "order_max_quote_lots order m1 = Ok max_quote"
    and mo: "match_order order owner now_ts opl price_lots (bookside ob (invert_side (o_side order)))
      (start_match order max_quote lim (ac\<lparr>ac_market := m1\<rparr>)) = Ok st"
    and t: "take_step order max_quote st = Ok (tk, st1)"
    and fk: "\<not> (is_fill_or_kill order \<and> mt_base st1 > 0)"
    and r: "oa_total_base_taken_native r = tk_base_native tk"
      "oa_total_quote_taken_native r = tk_quote_native tk" "oa_taker_fees r = tk_taker_fees tk"
  have same: "fee_ok m1" "base_lot_size m1 = base_lot_size ?m" "quote_lot_size m1 = quote_lot_size ?m"
    "0 < base_lot_size m1" "0 < quote_lot_size m1"
    using gen_order_id_terms [OF g] ok by (simp_all add: market_ok_def fee_ok_def same_terms_def)
  have f: "0 \<le> taker_fee m1" using same by (simp add: fee_ok_def)
  note mql = order_max_quote_le [OF mq same(1)]
  have mx: "0 \<le> max_quote" "max_quote \<le> o_max_quote_lots_including_fees order"
    using mql ok by (simp_all add: order_ok_def)
  have inv: "match_inv order max_quote price_lots m1 st"
    by (rule match_order_inv [OF mo _ q])
      (use ok mx in \<open>auto simp: match_inv_def start_match_def order_ok_def within_price_def split: side.splits\<close>)
  note tl = take_step_le [OF t inv same(1,4,5)]
  let ?base = "o_max_base_lots order - mt_base st" and ?quote = "max_quote - mt_quote st"
  have iv: "0 \<le> mt_base st" "mt_base st \<le> o_max_base_lots order" "0 \<le> mt_quote st"
    "mt_quote st \<le> max_quote" "within_price (o_side order) price_lots ?base ?quote"
    using inv by (simp_all add: match_inv_def)
  have bid: "tk_quote_native tk + tk_taker_fees tk \<le>
      o_max_quote_lots_including_fees order * quote_lot_size ?m" if "o_side order = Bid"
  proof (cases "is_post_only order")
    case True
    then show ?thesis using new_order_post_only [OF n True] r ok
      by (simp add: order_ok_def market_ok_def)
  next
    case False
    have "?quote + ceil_div (?quote * taker_fee m1) FEES_SCALE_FACTOR \<le>
        o_max_quote_lots_including_fees order"
      by (rule fee_mono [OF _ f mql(3)]) (use ok that False iv in \<open>simp_all add: order_ok_def\<close>)
    from fee_scale [OF this same(5)] show ?thesis using tl(2,3) same(3) by simp
  qed
  show thesis
    by (rule that [OF p _ _ _ _ iv(5)]) (use iv mx tl r same bid fk in auto)
qed

end
