(* ===== verification/Book_Side_Iter.thy ===== *)
theory Book_Side_Iter
  imports Book_Side_Correct
begin

text \<open>
  What the merging iterator of a book side yields. As long as no pegged order at hand is
  skipped (its price stays inside 1..i64::MAX), the iterator yields every order of both trees
  exactly once (the pegged ones only when there is an oracle price), best price first.
\<close>

section \<open>Items as values\<close>

definition fixed_priced :: "leaf_node \<Rightarrow> bool" where
  "fixed_priced l \<longleftrightarrow> 1 \<le> uint (price_data l) \<and> uint (price_data l) \<le> I64_MAX"

definition lapsed :: "u64 \<Rightarrow> leaf_node \<Rightarrow> bool" where
  "lapsed now_ts l \<longleftrightarrow> time_in_force l > 0 \<and> exp_of l \<le> now_ts"

definition fixed_item :: "u64 \<Rightarrow> item \<Rightarrow> book_item" where
  "fixed_item now_ts x = \<lparr>item_tree = Fixed, item_handle = fst x, item_node = snd x,
     item_price_lots = uint (price_data (snd x)),
     item_state = (if lapsed now_ts (snd x) then InvalidState else ValidState)\<rparr>"

definition pegged_item :: "side \<Rightarrow> i64 \<Rightarrow> u64 \<Rightarrow> item \<Rightarrow> book_item" where
  "pegged_item side opl now_ts x = \<lparr>item_tree = OraclePegged, item_handle = fst x,
     item_node = snd x, item_price_lots = snd (oracle_pegged_price opl (snd x) side),
     item_state = (if lapsed now_ts (snd x) then InvalidState
       else fst (oracle_pegged_price opl (snd x) side))\<rparr>"

lemma item_simps [simp]:
  "item_tree (fixed_item now_ts x) = Fixed" "item_tree (pegged_item side opl now_ts x) = OraclePegged"
  "item_node (fixed_item now_ts x) = snd x" "item_node (pegged_item side opl now_ts x) = snd x"
  "item_handle (fixed_item now_ts x) = fst x" "item_handle (pegged_item side opl now_ts x) = fst x"
  "item_price_lots (fixed_item now_ts x) = uint (price_data (snd x))"
  "item_price_lots (pegged_item side opl now_ts x) = snd (oracle_pegged_price opl (snd x) side)"
  by (simp_all add: fixed_item_def pegged_item_def)

definition skipped :: "side \<Rightarrow> i64 \<Rightarrow> leaf_node \<Rightarrow> bool" where
  "skipped side opl l \<longleftrightarrow> fst (oracle_pegged_price opl l side) = SkippedState"

lemma fixed_price_lots_uint:
  assumes "fixed_priced l"
  shows "fixed_price_lots (price_data l) = Ok (uint (price_data l))"
  using fixed_price_lots_data [of "uint (price_data l)"] assms
  by (simp add: fixed_priced_def is_i64_def int_limits fixed_price_data_def)

lemma fixed_to_result_ok [simp]:
  "leaf_ok (snd x) \<Longrightarrow> fixed_priced (snd x) \<Longrightarrow> fixed_to_result x now_ts = Ok (fixed_item now_ts x)"
  by (cases x) (simp add: fixed_to_result_def fixed_item_def fixed_price_lots_uint lapsed_def)

lemma offset_uint: "oracle_pegged_price_offset w = uint w - 2 ^ 63"
proof -
  have "uint (oracle_pegged_price_data (oracle_pegged_price_offset w)) =
      oracle_pegged_price_offset w + 2 ^ 63"
    by (rule uint_pegged [OF is_i64_offset])
  then show ?thesis by (simp add: pegged_data_offset)
qed

lemma pegged_price_range: "1 \<le> snd (oracle_pegged_price opl l side)"
    "snd (oracle_pegged_price opl l side) \<le> I64_MAX"
  by (auto simp: oracle_pegged_price_def Let_def sat_i64_def int_limits)

text \<open>The key a pegged order is compared with.\<close>

definition price_key :: "key128 \<Rightarrow> i64 \<Rightarrow> key128" where
  "price_key k p = or (push_bit 64 (ucast (word_of_int p :: price_word))) (ucast (key_seq k))"

lemma key_for_fixed_price_ok: "1 \<le> p \<Longrightarrow> key_for_fixed_price k p = Ok (price_key k p)"
  by (simp add: key_for_fixed_price_def fixed_price_data_def price_key_def key_seq_def)

lemma key_price_price_key: "key_price (price_key k p) = word_of_int p"
proof -
  have "price_key k p = new_node_key Ask (word_of_int p) (key_seq k)"
    by (simp add: price_key_def new_node_key_def)
  then show ?thesis by simp
qed

section \<open>The merge\<close>

definition pegged_key :: "side \<Rightarrow> i64 \<Rightarrow> item \<Rightarrow> key128" where
  "pegged_key side opl x =
     price_key (leaf_key (snd x)) (snd (oracle_pegged_price opl (snd x) side))"

fun merge_items :: "side \<Rightarrow> i64 \<Rightarrow> u64 \<Rightarrow> item list \<Rightarrow> item list \<Rightarrow> book_item list" where
  "merge_items side opl now_ts [] ps = map (pegged_item side opl now_ts) ps"
| "merge_items side opl now_ts fs [] = map (fixed_item now_ts) fs"
| "merge_items side opl now_ts (f # fs) (p # ps) =
     (if key_is_better side (leaf_key (snd f)) (pegged_key side opl p)
      then fixed_item now_ts f # merge_items side opl now_ts fs (p # ps)
      else pegged_item side opl now_ts p # merge_items side opl now_ts (f # fs) ps)"

definition side_items :: "side \<Rightarrow> i64 option \<Rightarrow> u64 \<Rightarrow> item list \<Rightarrow> item list \<Rightarrow> book_item list" where
  "side_items side orc now_ts fs ps = (case orc of
     None \<Rightarrow> map (fixed_item now_ts) fs
   | Some opl \<Rightarrow> merge_items side opl now_ts fs ps)"

definition book_rest :: "order_tree \<Rightarrow> book_iter \<Rightarrow> item list \<Rightarrow> item list \<Rightarrow> bool" where
  "book_rest T bi fs ps \<longleftrightarrow> iter_rest T (fixed_iter bi) fs \<and> iter_rest T (pegged_iter bi) ps \<and>
     it_left (fixed_iter bi) = (order_tree_type T = Bids) \<and>
     (\<forall>x \<in> set fs. leaf_ok (snd x) \<and> fixed_priced (snd x)) \<and>
     (\<forall>x \<in> set ps. leaf_ok (snd x)) \<and>
     (\<forall>opl. bi_oracle_price_lots bi = Some opl \<longrightarrow>
       (\<forall>x \<in> set ps. \<not> skipped (tree_type_side (order_tree_type T)) opl (snd x)))"

lemma merge_items_Nil2 [simp]: "merge_items side opl now_ts fs [] = map (fixed_item now_ts) fs"
  by (cases fs) auto

lemma skip_loop_head:
  "case ps of [] \<Rightarrow> True | p # _ \<Rightarrow> \<not> skipped side opl (snd p) \<Longrightarrow>
   skip_loop (Suc fuel) t opl side (case ps of [] \<Rightarrow> None | x # _ \<Rightarrow> Some x) it =
     Ok (case ps of [] \<Rightarrow> None | x # _ \<Rightarrow> Some x, it)"
  by (auto simp: skipped_def split: list.splits prod.splits)

lemma rank_fixed_only:
  "leaf_ok (snd f) \<Longrightarrow> fixed_priced (snd f) \<Longrightarrow>
   rank_orders side (Some f) None w now_ts orc = Ok (Some (fixed_item now_ts f))"
  by (simp add: rank_orders_def split: option.splits)

lemma oracle_pegged_to_result_ok:
  "leaf_ok l \<Longrightarrow> oracle_pegged_price opl l side = (st, p) \<Longrightarrow>
   oracle_pegged_to_result (h, l, p, st) now_ts = Ok (pegged_item side opl now_ts (h, l))"
  by (simp add: oracle_pegged_to_result_def pegged_item_def lapsed_def)

lemma rank_pegged_only:
  "leaf_ok (snd p) \<Longrightarrow>
   rank_orders side None (Some p) w now_ts (Some opl) = Ok (Some (pegged_item side opl now_ts p))"
  by (cases p; cases "oracle_pegged_price opl (snd p) side")
    (simp add: rank_orders_def oracle_pegged_to_result_ok)

lemma rank_both:
  assumes "leaf_ok (snd f)" and "fixed_priced (snd f)" and "leaf_ok (snd p)"
  shows "rank_orders side (Some f) (Some p) w now_ts (Some opl) =
    Ok (Some (if key_is_better side (leaf_key (snd f)) (pegged_key side opl p) \<noteq> w
      then fixed_item now_ts f else pegged_item side opl now_ts p))"
proof -
  obtain h l where p: "p = (h, l)" by (cases p)
  obtain st pr where pe: "oracle_pegged_price opl l side = (st, pr)"
    by (cases "oracle_pegged_price opl l side")
  have "1 \<le> pr" using pegged_price_range(1) [of opl l side] pe by simp
  then show ?thesis
    using assms pe by (simp add: rank_orders_def p key_for_fixed_price_ok pegged_key_def
        oracle_pegged_to_result_ok [OF _ pe])
qed

lemma iter_side_type:
  "it_left it = (order_tree_type T = Bids) \<Longrightarrow> iter_side it = tree_type_side (order_tree_type T)"
  by (cases "order_tree_type T") (auto simp: iter_side_def)

lemma iter_next_cons:
  "iter_rest T it (x # xs) \<Longrightarrow> \<exists>it'. iter_next T it = Ok (Some x, it') \<and> iter_rest T it' xs \<and>
    it_left it' = it_left it"
  using iter_next_ok [of T it "x # xs"] by auto

definition items_left :: "order_tree \<Rightarrow> book_iter \<Rightarrow> book_item list \<Rightarrow> bool" where
  "items_left T bi xs \<longleftrightarrow> (\<exists>fs ps. book_rest T bi fs ps \<and>
     xs = side_items (tree_type_side (order_tree_type T)) (bi_oracle_price_lots bi)
       (bi_now_ts bi) fs ps)"

lemma items_left_I:
  "book_rest T bi fs ps \<Longrightarrow> side_items (tree_type_side (order_tree_type T))
     (bi_oracle_price_lots bi) (bi_now_ts bi) fs ps = xs \<Longrightarrow> items_left T bi xs"
  by (auto simp: items_left_def)

text \<open>One call of \<open>next\<close>, by the source of the item it returns.\<close>

lemma next_fixed:
  assumes rest: "book_rest T bi (f # fs) ps"
    and rank: "case ps of p # _ \<Rightarrow> (case bi_oracle_price_lots bi of Some opl \<Rightarrow>
        key_is_better (tree_type_side (order_tree_type T)) (leaf_key (snd f))
          (pegged_key (tree_type_side (order_tree_type T)) opl p) | None \<Rightarrow> True) | [] \<Rightarrow> True"
  shows "\<exists>bi'. book_iter_next T bi = Ok (Some (fixed_item (bi_now_ts bi) f), bi') \<and>
    book_rest T bi' fs ps \<and> bi_oracle_price_lots bi' = bi_oracle_price_lots bi \<and>
    bi_now_ts bi' = bi_now_ts bi"
proof -
  let ?s = "tree_type_side (order_tree_type T)"
  have fr: "iter_rest T (fixed_iter bi) (f # fs)" and pr: "iter_rest T (pegged_iter bi) ps"
    and left: "it_left (fixed_iter bi) = (order_tree_type T = Bids)"
    and ok: "leaf_ok (snd f)" "fixed_priced (snd f)" "\<forall>x \<in> set ps. leaf_ok (snd x)"
    and ns: "\<forall>opl. bi_oracle_price_lots bi = Some opl \<longrightarrow> (\<forall>x \<in> set ps. \<not> skipped ?s opl (snd x))"
    using rest by (auto simp: book_rest_def)
  obtain it' where n: "iter_next T (fixed_iter bi) = Ok (Some f, it')" "iter_rest T it' fs"
      "it_left it' = it_left (fixed_iter bi)"
    using iter_next_cons [OF fr] by blast
  have side: "iter_side (fixed_iter bi) = ?s" by (rule iter_side_type [OF left])
  have fp: "iter_peek (fixed_iter bi) = Some f" using iter_peek_ok [OF fr] by simp
  have pk: "iter_peek (pegged_iter bi) = (case ps of [] \<Rightarrow> None | x # _ \<Rightarrow> Some x)"
    by (rule iter_peek_ok [OF pr])
  have sl: "skip_loop (side_fuel T) T opl ?s (iter_peek (pegged_iter bi)) (pegged_iter bi) =
      Ok (case ps of [] \<Rightarrow> None | x # _ \<Rightarrow> Some x, pegged_iter bi)"
    if "bi_oracle_price_lots bi = Some opl" for opl
    unfolding pk side_fuel_def add_2_eq_Suc'
    by (rule skip_loop_head) (use ns that in \<open>auto split: list.splits\<close>)
  have "book_iter_next T bi = Ok (Some (fixed_item (bi_now_ts bi) f), bi\<lparr>fixed_iter := it'\<rparr>)"
  proof (cases "bi_oracle_price_lots bi")
    case None
    then show ?thesis using ok n by (simp add: book_iter_next_def side fp rank_fixed_only Let_def)
  next
    case (Some opl)
    then show ?thesis using ok n rank sl [OF Some]
      by (cases ps)
        (simp_all add: book_iter_next_def side fp rank_fixed_only rank_both Let_def)
  qed
  then show ?thesis using rest n by (auto simp: book_rest_def)
qed

lemma next_pegged:
  assumes rest: "book_rest T bi fs (p # ps)" and orc: "bi_oracle_price_lots bi = Some opl"
    and rank: "case fs of f # _ \<Rightarrow>
        \<not> key_is_better (tree_type_side (order_tree_type T)) (leaf_key (snd f))
          (pegged_key (tree_type_side (order_tree_type T)) opl p) | [] \<Rightarrow> True"
  shows "\<exists>bi'. book_iter_next T bi =
      Ok (Some (pegged_item (tree_type_side (order_tree_type T)) opl (bi_now_ts bi) p), bi') \<and>
    book_rest T bi' fs ps \<and> bi_oracle_price_lots bi' = bi_oracle_price_lots bi \<and>
    bi_now_ts bi' = bi_now_ts bi"
proof -
  let ?s = "tree_type_side (order_tree_type T)"
  have fr: "iter_rest T (fixed_iter bi) fs" and pr: "iter_rest T (pegged_iter bi) (p # ps)"
    and left: "it_left (fixed_iter bi) = (order_tree_type T = Bids)"
    and ok: "\<forall>x \<in> set fs. leaf_ok (snd x) \<and> fixed_priced (snd x)" "leaf_ok (snd p)"
    and ns: "\<not> skipped ?s opl (snd p)"
    using rest orc by (auto simp: book_rest_def)
  obtain it' where n: "iter_next T (pegged_iter bi) = Ok (Some p, it')" "iter_rest T it' ps"
    using iter_next_cons [OF pr] by blast
  have side: "iter_side (fixed_iter bi) = ?s" by (rule iter_side_type [OF left])
  have fp: "iter_peek (fixed_iter bi) = (case fs of [] \<Rightarrow> None | x # _ \<Rightarrow> Some x)"
    by (rule iter_peek_ok [OF fr])
  have pk: "iter_peek (pegged_iter bi) = Some p" using iter_peek_ok [OF pr] by simp
  have sl: "skip_loop (side_fuel T) T opl ?s (Some p) (pegged_iter bi) =
      Ok (Some p, pegged_iter bi)"
    using skip_loop_head [where ps = "p # ps" and side = ?s and opl = opl] ns by (simp add: side_fuel_def)
  have "book_iter_next T bi = Ok (Some (pegged_item ?s opl (bi_now_ts bi) p),
      bi\<lparr>pegged_iter := it'\<rparr>)"
    using ok n rank sl orc pk
    by (cases fs)
      (simp_all add: book_iter_next_def side fp rank_pegged_only rank_both Let_def)
  then show ?thesis using rest n by (auto simp: book_rest_def)
qed

lemma next_none:
  assumes rest: "book_rest T bi [] ps" and e: "ps = [] \<or> bi_oracle_price_lots bi = None"
  shows "\<exists>bi'. book_iter_next T bi = Ok (None, bi') \<and> book_rest T bi' [] ps \<and>
    bi_oracle_price_lots bi' = bi_oracle_price_lots bi \<and> bi_now_ts bi' = bi_now_ts bi"
proof -
  have fr: "iter_rest T (fixed_iter bi) []" and pr: "iter_rest T (pegged_iter bi) ps"
    using rest by (auto simp: book_rest_def)
  have fp: "iter_peek (fixed_iter bi) = None" using iter_peek_ok [OF fr] by simp
  have pk: "iter_peek (pegged_iter bi) = (case ps of [] \<Rightarrow> None | x # _ \<Rightarrow> Some x)"
    by (rule iter_peek_ok [OF pr])
  have "book_iter_next T bi = Ok (None, bi\<lparr>pegged_iter := pegged_iter bi\<rparr>)"
    using e fp pk
    by (cases "bi_oracle_price_lots bi") (auto simp: book_iter_next_def rank_orders_def side_fuel_def Let_def)
  then show ?thesis using rest by (auto simp: book_rest_def)
qed

lemma book_iter_next_ok:
  assumes "items_left T bi xs"
  shows "\<exists>bi'. book_iter_next T bi = Ok (case xs of [] \<Rightarrow> None | x # _ \<Rightarrow> Some x, bi') \<and>
    items_left T bi' (tl xs)"
proof -
  let ?s = "tree_type_side (order_tree_type T)"
  obtain fs ps where r: "book_rest T bi fs ps"
    and xs: "xs = side_items ?s (bi_oracle_price_lots bi) (bi_now_ts bi) fs ps"
    using assms by (auto simp: items_left_def)
  let ?nf = "fs \<noteq> [] \<and> (\<forall>opl p ps'. bi_oracle_price_lots bi = Some opl \<and> ps = p # ps' \<longrightarrow>
    key_is_better ?s (leaf_key (snd (hd fs))) (pegged_key ?s opl p))"
  consider (fixed) f fs' where "fs = f # fs'" ?nf
    | (pegged) opl p ps' where "\<not> ?nf" "ps = p # ps'" "bi_oracle_price_lots bi = Some opl"
    | (none) "fs = []" "ps = [] \<or> bi_oracle_price_lots bi = None"
    by (cases fs; cases ps; cases "bi_oracle_price_lots bi"; simp; blast)
  then show ?thesis
  proof cases
    case fixed
    have "case ps of p # _ \<Rightarrow> (case bi_oracle_price_lots bi of Some opl \<Rightarrow>
        key_is_better ?s (leaf_key (snd f)) (pegged_key ?s opl p) | None \<Rightarrow> True) | [] \<Rightarrow> True"
      using fixed by (auto split: list.split option.split)
    from next_fixed [OF r [unfolded fixed(1)] this] obtain bi' where
      b: "book_iter_next T bi = Ok (Some (fixed_item (bi_now_ts bi) f), bi')" "book_rest T bi' fs' ps"
        "bi_oracle_price_lots bi' = bi_oracle_price_lots bi" "bi_now_ts bi' = bi_now_ts bi"
      by blast
    have "xs = fixed_item (bi_now_ts bi) f # side_items ?s (bi_oracle_price_lots bi) (bi_now_ts bi) fs' ps"
      using fixed xs by (cases "bi_oracle_price_lots bi"; cases ps) (auto simp: side_items_def)
    then show ?thesis using b items_left_I [OF b(2) refl] by simp
  next
    case pegged
    have rank: "case fs of f # _ \<Rightarrow> \<not> key_is_better ?s (leaf_key (snd f)) (pegged_key ?s opl p) | [] \<Rightarrow> True"
      using pegged by (auto split: list.split)
    from next_pegged [OF r [unfolded pegged(2)] pegged(3) rank] obtain bi' where
      b: "book_iter_next T bi = Ok (Some (pegged_item ?s opl (bi_now_ts bi) p), bi')"
        "book_rest T bi' fs ps'"
        "bi_oracle_price_lots bi' = bi_oracle_price_lots bi" "bi_now_ts bi' = bi_now_ts bi"
      by blast
    have "xs = pegged_item ?s opl (bi_now_ts bi) p #
        side_items ?s (bi_oracle_price_lots bi) (bi_now_ts bi) fs ps'"
      using pegged xs by (cases fs) (auto simp: side_items_def)
    then show ?thesis using b items_left_I [OF b(2) refl] by simp
  next
    case none
    from next_none [OF r [unfolded none(1)] none(2)] obtain bi' where
      b: "book_iter_next T bi = Ok (None, bi')" "book_rest T bi' [] ps"
        "bi_oracle_price_lots bi' = bi_oracle_price_lots bi" "bi_now_ts bi' = bi_now_ts bi"
      by blast
    have "xs = []" "side_items ?s (bi_oracle_price_lots bi) (bi_now_ts bi) [] ps = []"
      using none xs by (auto simp: side_items_def split: option.splits)
    then show ?thesis using b items_left_I [OF b(2) refl] by simp
  qed
qed

section \<open>Best price first\<close>

definition no_better :: "side \<Rightarrow> book_item \<Rightarrow> book_item \<Rightarrow> bool" where
  \<comment> \<open>\<open>y\<close>, which comes later, has no better price than \<open>x\<close>\<close>
  "no_better side x y \<longleftrightarrow> \<not> is_price_better side (item_price_lots y) (item_price_lots x)"

lemma no_better_trans: "no_better side x y \<Longrightarrow> no_better side y z \<Longrightarrow> no_better side x z"
  by (cases side) (auto simp: no_better_def)

lemma key_price_mono: "a \<le> b \<Longrightarrow> uint (key_price a) \<le> uint (key_price b)"
  using key_less_iff [of a b] by (auto simp: order_le_less word_less_def)

lemma better_key_price:
  "key_is_better side a b \<Longrightarrow> \<not> is_price_better side (uint (key_price b)) (uint (key_price a))"
  "\<not> key_is_better side a b \<Longrightarrow> \<not> is_price_better side (uint (key_price a)) (uint (key_price b))"
  using key_price_mono [of a b] key_price_mono [of b a]
  by (cases side; auto simp: key_is_better_def not_less)+

lemma pegged_price_eq:
  "snd (oracle_pegged_price opl l side) =
   max (sat_i64 (opl + oracle_pegged_price_offset (price_data l))) 1"
  by (auto simp: oracle_pegged_price_def Let_def)

lemma better_pegged_price:
  assumes "key_is_better side (leaf_key a) (leaf_key b)"
  shows "\<not> is_price_better side (snd (oracle_pegged_price opl b side))
    (snd (oracle_pegged_price opl a side))"
  using better_key_price(1) [OF assms]
  by (cases side) (auto simp: pegged_price_eq offset_uint price_data_key sat_i64_def max_def min_def)

lemma uint_pegged_key:
  "uint (key_price (pegged_key side opl x)) = snd (oracle_pegged_price opl (snd x) side)"
  using pegged_price_range [of opl "snd x" side]
  by (simp add: pegged_key_def key_price_price_key uint_word_of_int int_limits)

definition best_first :: "side \<Rightarrow> item list \<Rightarrow> bool" where
  "best_first side xs \<longleftrightarrow>
     sorted_wrt (\<lambda>x y. key_is_better side (leaf_key (snd x)) (leaf_key (snd y))) xs"

lemma set_merge_items:
  "set (merge_items side opl now_ts fs ps) =
   fixed_item now_ts ` set fs \<union> pegged_item side opl now_ts ` set ps"
  by (induction side opl now_ts fs ps rule: merge_items.induct) auto

lemma mset_merge_items:
  "mset (map item_node (merge_items side opl now_ts fs ps)) = mset (map snd fs) + mset (map snd ps)"
proof (induction side opl now_ts fs ps rule: merge_items.induct)
  case (1 side opl now_ts ps)
  then show ?case by (simp add: image_mset.compositionality comp_def)
next
  case (2 side opl now_ts f fs)
  then show ?case by (simp add: image_mset.compositionality comp_def)
qed auto

lemma merge_items_sorted:
  "best_first side fs \<Longrightarrow> best_first side ps \<Longrightarrow>
   sorted_wrt (no_better side) (merge_items side opl now_ts fs ps)"
proof (induction side opl now_ts fs ps rule: merge_items.induct)
  case (1 side opl now_ts ps)
  have "sorted_wrt (\<lambda>x y. no_better side (pegged_item side opl now_ts x) (pegged_item side opl now_ts y)) ps"
    using 1(2) unfolding best_first_def
    by (rule sorted_wrt_mono_rel [rotated]) (simp add: no_better_def better_pegged_price)
  then show ?case by (simp add: sorted_wrt_map)
next
  case (2 side opl now_ts f fs)
  have "sorted_wrt (\<lambda>x y. no_better side (fixed_item now_ts x) (fixed_item now_ts y)) (f # fs)"
    using 2(1) unfolding best_first_def
    by (rule sorted_wrt_mono_rel [rotated]) (simp add: no_better_def price_data_key better_key_price)
  then show ?case by (simp only: merge_items.simps sorted_wrt_map)
next
  case (3 side opl now_ts f fs p ps)
  have f: "no_better side (fixed_item now_ts f) (fixed_item now_ts x)" if "x \<in> set fs" for x
    using 3(3) that by (auto simp: best_first_def no_better_def price_data_key better_key_price)
  have p: "no_better side (pegged_item side opl now_ts p) (pegged_item side opl now_ts x)"
    if "x \<in> set ps" for x
    using 3(4) that by (auto simp: best_first_def no_better_def better_pegged_price)
  show ?case
  proof (cases "key_is_better side (leaf_key (snd f)) (pegged_key side opl p)")
    case True
    have fp: "no_better side (fixed_item now_ts f) (pegged_item side opl now_ts p)"
      using better_key_price(1) [OF True]
      by (simp add: no_better_def uint_pegged_key price_data_key)
    have "sorted_wrt (no_better side) (merge_items side opl now_ts fs (p # ps))"
      using 3 True by (auto simp: best_first_def)
    then show ?thesis
      using True f fp p by (auto simp: set_merge_items intro: no_better_trans)
  next
    case False
    have pf: "no_better side (pegged_item side opl now_ts p) (fixed_item now_ts f)"
      using better_key_price(2) [OF False]
      by (simp add: no_better_def uint_pegged_key price_data_key)
    have "sorted_wrt (no_better side) (merge_items side opl now_ts (f # fs) ps)"
      using 3 False by (auto simp: best_first_def)
    then show ?thesis
      using False f pf p by (auto simp: set_merge_items intro: no_better_trans)
  qed
qed

lemma side_items_sorted:
  "best_first side fs \<Longrightarrow> best_first side ps \<Longrightarrow>
   sorted_wrt (no_better side) (side_items side orc now_ts fs ps)"
  using merge_items_sorted [of side fs "[]"] merge_items_sorted [of side fs ps]
  by (auto simp: side_items_def best_first_def split: option.splits)

section \<open>Starting the iterator\<close>

lemma good_tree_leaf_ok: "good_tree T root F \<Longrightarrow> l \<in> set (tree_orders T root) \<Longrightarrow> leaf_ok l"
  by (erule good_treeE, rename_tac ot fl, case_tac ot)
    (auto simp: tree_inv_def intro: wf_exp_leaf_ok)

lemma book_order_best_first:
  assumes "sorted_wrt (<) (map leaf_key os)" and "map snd xs = book_order ty os"
  shows "best_first (tree_type_side ty) xs"
proof -
  have b: "key_is_better Bid = (\<lambda>a b. b < a)" "key_is_better Ask = (<)"
    by (auto simp: key_is_better_def fun_eq_iff)
  have "sorted_wrt (key_is_better (tree_type_side ty)) (map leaf_key (map snd xs))"
    unfolding assms(2) using assms(1)
    by (cases ty) (auto simp: book_order_def b rev_map [symmetric] sorted_wrt_rev)
  then show ?thesis by (simp add: best_first_def sorted_wrt_map)
qed

lemma mset_book_order [simp]: "mset (book_order ty xs) = mset xs"
  by (cases ty) (simp_all add: book_order_def)

lemma set_book_order [simp]: "set (book_order ty xs) = set xs"
  by (cases ty) (simp_all add: book_order_def)

text \<open>No pegged order of the side is out of the representable price range.\<close>

definition none_skipped :: "book_side \<Rightarrow> i64 option \<Rightarrow> bool" where
  "none_skipped b orc \<longleftrightarrow> (case orc of None \<Rightarrow> True
   | Some opl \<Rightarrow> \<forall>l \<in> set (side_orders b OraclePegged). \<not> skipped (book_side_of b) opl l)"

definition matchable_orders :: "book_side \<Rightarrow> i64 option \<Rightarrow> leaf_node multiset" where
  "matchable_orders b orc = mset (side_orders b Fixed) +
     (case orc of None \<Rightarrow> {#} | Some _ \<Rightarrow> mset (side_orders b OraclePegged))"

lemma book_iter_new_ok:
  assumes good: "good_side b" and fx: "\<forall>l \<in> set (side_orders b Fixed). fixed_priced l"
    and ns: "none_skipped b orc"
  shows "\<exists>bi xs. book_iter_new b now_ts orc = Ok bi \<and> items_left (side_nodes b) bi xs \<and>
    mset (map item_node xs) = matchable_orders b orc \<and>
    sorted_wrt (no_better (book_side_of b)) xs \<and> length xs < side_fuel (side_nodes b)"
proof -
  let ?T = "side_nodes b" and ?s = "book_side_of b"
  have it: "\<exists>it xs. iter_new ?T (book_root b c) = Ok it \<and> it_left it = (order_tree_type ?T = Bids) \<and>
      iter_rest ?T it xs \<and> length xs < tree_fuel ?T \<and>
      map snd xs = book_order (order_tree_type ?T) (side_orders b c) \<and> best_first ?s xs \<and>
      (\<forall>x \<in> set xs. snd x \<in> set (side_orders b c) \<and> leaf_ok (snd x))" for c
  proof -
    obtain F where g: "good_tree ?T (book_root b c) F" using good_side_tree [OF good] by blast
    obtain it xs where x: "iter_new ?T (book_root b c) = Ok it" "it_left it = (order_tree_type ?T = Bids)"
        "iter_rest ?T it xs" "length xs < tree_fuel ?T"
        "map snd xs = book_order (order_tree_type ?T) (side_orders b c)"
      using iter_spec [OF g] by (auto simp: side_orders_def)
    have "snd x \<in> set (side_orders b c)" if "x \<in> set xs" for x
      using arg_cong [OF x(5), of set] that by auto
    moreover have "best_first ?s xs"
      using book_order_best_first [OF tree_orders_sorted [OF g]] x(5)
      by (simp add: side_orders_def book_side_of_def)
    ultimately show ?thesis using x good_tree_leaf_ok [OF g] by (auto simp: side_orders_def)
  qed
  obtain fi fs where f: "iter_new ?T (book_root b Fixed) = Ok fi"
      "it_left fi = (order_tree_type ?T = Bids)" "iter_rest ?T fi fs" "length fs < tree_fuel ?T"
      "map snd fs = book_order (order_tree_type ?T) (side_orders b Fixed)" "best_first ?s fs"
      "\<forall>x \<in> set fs. snd x \<in> set (side_orders b Fixed) \<and> leaf_ok (snd x)"
    using it by blast
  obtain pi ps where p: "iter_new ?T (book_root b OraclePegged) = Ok pi"
      "iter_rest ?T pi ps" "length ps < tree_fuel ?T"
      "map snd ps = book_order (order_tree_type ?T) (side_orders b OraclePegged)" "best_first ?s ps"
      "\<forall>x \<in> set ps. snd x \<in> set (side_orders b OraclePegged) \<and> leaf_ok (snd x)"
    using it by blast
  let ?bi = "\<lparr>fixed_iter = fi, pegged_iter = pi, bi_now_ts = now_ts, bi_oracle_price_lots = orc\<rparr>"
  let ?xs = "side_items ?s orc now_ts fs ps"
  have "book_rest ?T ?bi fs ps"
    using f p fx ns by (auto simp: book_rest_def none_skipped_def book_side_of_def)
  then have "items_left ?T ?bi ?xs" by (rule items_left_I) (simp add: book_side_of_def)
  moreover have "mset (map item_node ?xs) = matchable_orders b orc"
    using mset_merge_items [of ?s _ now_ts fs ps] mset_merge_items [of ?s _ now_ts fs "[]"] f(5) p(4)
    by (cases orc) (simp_all add: side_items_def matchable_orders_def flip: mset_map)
  moreover have "sorted_wrt (no_better ?s) ?xs" by (rule side_items_sorted [OF f(6) p(5)])
  moreover have "length ?xs \<le> length fs + length ps"
    using arg_cong [OF mset_merge_items [of ?s _ now_ts fs ps], of size]
    by (cases orc) (simp_all add: side_items_def)
  ultimately show ?thesis using f p
    by (intro exI [of _ ?bi] exI [of _ ?xs]) (simp add: book_iter_new_def side_fuel_def)
qed

section \<open>Running it\<close>

fun book_iter_collect :: "nat \<Rightarrow> order_tree \<Rightarrow> book_iter \<Rightarrow> book_item list res" where
  "book_iter_collect 0 t bi = Inl OutOfFuel"
| "book_iter_collect (Suc fuel) t bi = bnd (book_iter_next t bi) (\<lambda>(x, bi'). case x of
     None \<Rightarrow> Ok []
   | Some it \<Rightarrow> bnd (book_iter_collect fuel t bi') (\<lambda>its. Ok (it # its)))"

definition iter_all :: "book_side \<Rightarrow> u64 \<Rightarrow> i64 option \<Rightarrow> book_item list res" where
  "iter_all b now_ts orc = bnd (book_iter_new b now_ts orc)
     (book_iter_collect (side_fuel (side_nodes b)) (side_nodes b))"

lemma book_iter_collect_ok:
  "items_left T bi xs \<Longrightarrow> length xs < fuel \<Longrightarrow> book_iter_collect fuel T bi = Ok xs"
proof (induction fuel arbitrary: bi xs)
  case (Suc fuel)
  obtain bi' where "book_iter_next T bi = Ok (case xs of [] \<Rightarrow> None | x # _ \<Rightarrow> Some x, bi')"
      "items_left T bi' (tl xs)"
    using book_iter_next_ok [OF Suc.prems(1)] by blast
  then show ?case using Suc by (cases xs) auto
qed simp

lemma valid_iter_next_ok:
  "items_left T bi xs \<Longrightarrow> length xs < fuel \<Longrightarrow>
   \<exists>bi'. valid_iter_next fuel T bi = Ok (find item_is_valid xs, bi') \<and>
     items_left T bi' (tl (dropWhile (\<lambda>x. \<not> item_is_valid x) xs))"
proof (induction fuel arbitrary: bi xs)
  case (Suc fuel)
  obtain bi' where n: "book_iter_next T bi = Ok (case xs of [] \<Rightarrow> None | x # _ \<Rightarrow> Some x, bi')"
      "items_left T bi' (tl xs)"
    using book_iter_next_ok [OF Suc.prems(1)] by blast
  show ?case
  proof (cases xs)
    case Nil
    then show ?thesis using n by simp
  next
    case (Cons x ys)
    then show ?thesis using n Suc.prems Suc.IH [of bi' ys] by auto
  qed
qed simp

lemma iter_all_spec:
  assumes "good_side b" and "\<forall>l \<in> set (side_orders b Fixed). fixed_priced l" and "none_skipped b orc"
  shows "\<exists>xs. iter_all b now_ts orc = Ok xs \<and> mset (map item_node xs) = matchable_orders b orc \<and>
    sorted_wrt (no_better (book_side_of b)) xs \<and>
    best_price b now_ts orc = Ok (map_option item_price_lots (find item_is_valid xs))"
proof -
  obtain bi xs where bi: "book_iter_new b now_ts orc = Ok bi" "items_left (side_nodes b) bi xs"
      "mset (map item_node xs) = matchable_orders b orc" "sorted_wrt (no_better (book_side_of b)) xs"
      "length xs < side_fuel (side_nodes b)"
    using book_iter_new_ok [OF assms] by blast
  have "iter_all b now_ts orc = Ok xs"
    using bi book_iter_collect_ok [OF bi(2,5)] by (simp add: iter_all_def)
  moreover have "best_price b now_ts orc = Ok (map_option item_price_lots (find item_is_valid xs))"
    using bi valid_iter_next_ok [OF bi(2,5)] by (auto simp: best_price_def)
  ultimately show ?thesis using bi by blast
qed

text \<open>The sums of \<open>quantity_at_price\<close>, over the valid items.\<close>

fun quantity_within :: "side \<Rightarrow> i64 \<Rightarrow> book_item list \<Rightarrow> i64" where
  "quantity_within side lim [] = 0"
| "quantity_within side lim (x # xs) =
     (if is_price_better side lim (item_price_lots x) then 0
      else quantity (item_node x) + quantity_within side lim xs)"

lemma filter_find_split:
  "filter P xs = (case find P xs of None \<Rightarrow> []
     | Some x \<Rightarrow> x # filter P (tl (dropWhile (\<lambda>x. \<not> P x) xs)))"
  by (induction xs) (auto split: option.split)

lemma set_tl: "set (tl xs) \<subseteq> set xs"
  by (cases xs) auto

lemma length_tl_dropWhile:
  assumes "xs \<noteq> []"
  shows "length (tl (dropWhile P xs)) < length xs"
proof -
  have "0 < length xs" using assms by simp
  then show ?thesis using length_dropWhile_le [of P xs] unfolding length_tl by linarith
qed

definition quantities :: "book_item list \<Rightarrow> i64" where
  "quantities xs = sum_list (map (quantity \<circ> item_node) xs)"

lemma quantity_within_le:
  "\<forall>x \<in> set xs. 0 \<le> quantity (item_node x) \<Longrightarrow>
   0 \<le> quantity_within side lim xs \<and> quantity_within side lim xs \<le> quantities xs"
proof (induction xs)
  case (Cons x xs)
  then have "0 \<le> quantities xs" by (simp add: quantities_def sum_list_nonneg)
  with Cons show ?case by (auto simp: quantities_def)
qed (simp add: quantities_def)

lemma quantity_loop_ok:
  "items_left T bi xs \<Longrightarrow> length xs < fuel \<Longrightarrow> length xs < side_fuel T \<Longrightarrow>
   \<forall>x \<in> set xs. 0 \<le> quantity (item_node x) \<Longrightarrow> 0 \<le> acc \<Longrightarrow>
   acc + quantities (filter item_is_valid xs) \<le> I64_MAX \<Longrightarrow>
   quantity_loop fuel T side lim acc bi = Ok (acc + quantity_within side lim (filter item_is_valid xs))"
proof (induction fuel arbitrary: bi xs acc)
  case (Suc fuel)
  let ?ys = "tl (dropWhile (\<lambda>x. \<not> item_is_valid x) xs)"
  obtain bi' where n: "valid_iter_next (side_fuel T) T bi = Ok (find item_is_valid xs, bi')"
      "items_left T bi' ?ys"
    using valid_iter_next_ok [OF Suc.prems(1,3)] by blast
  show ?case
  proof (cases "find item_is_valid xs")
    case None
    then show ?thesis using n filter_find_split [of item_is_valid xs] by simp
  next
    case (Some x)
    then have f: "filter item_is_valid xs = x # filter item_is_valid ?ys"
      using filter_find_split [of item_is_valid xs] by simp
    have xs: "xs \<noteq> []" using Some by auto
    have sub: "set ?ys \<subseteq> set xs"
      using set_tl set_dropWhileD by (metis subset_iff)
    have x: "x \<in> set xs" using arg_cong [OF f, of set] by auto
    have len: "length ?ys < fuel" "length ?ys < side_fuel T"
      using length_tl_dropWhile [OF xs, of "\<lambda>x. \<not> item_is_valid x"] Suc.prems by linarith+
    have ny: "\<forall>y \<in> set ?ys. 0 \<le> quantity (item_node y)" using sub Suc.prems(4) by blast
    have q: "quantities (filter item_is_valid xs) =
        quantity (item_node x) + quantities (filter item_is_valid ?ys)"
      by (simp add: f quantities_def)
    have "0 \<le> quantities (filter item_is_valid ?ys)"
      using quantity_within_le [of "filter item_is_valid ?ys" side lim] ny by auto
    then have "is_i64 (acc + quantity (item_node x))"
      using Suc.prems x q by (auto simp: is_i64_def int_limits)
    moreover have "quantity_loop fuel T side lim (acc + quantity (item_node x)) bi' =
        Ok (acc + quantity (item_node x) + quantity_within side lim (filter item_is_valid ?ys))"
      by (rule Suc.IH [OF n(2) len ny]) (use Suc.prems x q in auto)
    ultimately show ?thesis using n Some f by (simp add: algebra_simps)
  qed
qed simp

lemma quantity_at_price_spec:
  assumes "good_side b" and "\<forall>l \<in> set (side_orders b Fixed). fixed_priced l"
    and "none_skipped b (Some opl)"
    and "\<forall>l \<in># matchable_orders b (Some opl). 0 \<le> quantity l"
    and "sum_mset (image_mset quantity (matchable_orders b (Some opl))) \<le> I64_MAX"
  shows "\<exists>xs. iter_all b now_ts (Some opl) = Ok xs \<and>
    quantity_at_price b lim now_ts opl =
      Ok (quantity_within (book_side_of b) lim (filter item_is_valid xs))"
proof -
  obtain bi xs where bi: "book_iter_new b now_ts (Some opl) = Ok bi" "items_left (side_nodes b) bi xs"
      "mset (map item_node xs) = matchable_orders b (Some opl)"
      "length xs < side_fuel (side_nodes b)"
    using book_iter_new_ok [OF assms(1-3)] by blast
  have all: "iter_all b now_ts (Some opl) = Ok xs"
    using bi book_iter_collect_ok [OF bi(2,4)] by (simp add: iter_all_def)
  have pos: "\<forall>x \<in> set xs. 0 \<le> quantity (item_node x)"
    using assms(4) by (simp add: bi(3) [symmetric])
  have "quantities xs = sum_mset (image_mset quantity (matchable_orders b (Some opl)))"
    by (simp add: bi(3) [symmetric] quantities_def sum_mset_sum_list flip: mset_map)
  moreover have "quantities (filter item_is_valid xs) \<le> quantities xs"
    using pos by (induction xs) (auto simp: quantities_def)
  ultimately have "quantities (filter item_is_valid xs) \<le> I64_MAX" using assms(5) by simp
  then have "quantity_loop (side_fuel (side_nodes b)) (side_nodes b) (book_side_of b) lim 0 bi =
      Ok (quantity_within (book_side_of b) lim (filter item_is_valid xs))"
    using quantity_loop_ok [OF bi(2,4,4) pos] by simp
  then show ?thesis using all bi by (simp add: quantity_at_price_def)
qed

end
