(* ===== verification/Book_Side_Worst.thy ===== *)
theory Book_Side_Worst
  imports Book_Side_Iter
begin

text \<open>
  Removing the overall worst order of a book side (the code does it to make room in a full
  book), and a concrete book side on which the merging iterator loses an order.
\<close>

definition leaf_price :: "side \<Rightarrow> i64 option \<Rightarrow> book_tree \<Rightarrow> leaf_node \<Rightarrow> i64" where
  "leaf_price side orc c l = (case c of
     Fixed \<Rightarrow> uint (price_data l)
   | OraclePegged \<Rightarrow> (case orc of None \<Rightarrow> 0 | Some opl \<Rightarrow> snd (oracle_pegged_price opl l side)))"

definition in_book :: "book_side \<Rightarrow> i64 option \<Rightarrow> book_tree \<Rightarrow> leaf_node \<Rightarrow> bool" where
  "in_book b orc c l \<longleftrightarrow> l \<in> set (side_orders b c) \<and> (c = OraclePegged \<longrightarrow> orc \<noteq> None)"

lemma worst_order_last:
  assumes "sorted_wrt (<) (map leaf_key os)" and "worst_order ty os = Some w" and "l \<in> set os"
  shows "l = w \<or> key_is_better (tree_type_side ty) (leaf_key l) (leaf_key w)"
proof (cases ty)
  case Bids
  then obtain os' where "os = w # os'" using assms(2) by (cases os) (auto simp: worst_order_def)
  then show ?thesis using Bids assms by (auto simp: key_is_better_def)
next
  case Asks
  then obtain os' where "os = os' @ [w]"
    using assms(2) by (cases os rule: rev_cases) (auto simp: worst_order_def)
  then show ?thesis using Asks assms by (auto simp: key_is_better_def sorted_wrt_append)
qed

lemma worst_price:
  assumes "sorted_wrt (<) (map leaf_key os)" and "worst_order ty os = Some w" and "l \<in> set os"
  shows "\<not> is_price_better (tree_type_side ty) (leaf_price (tree_type_side ty) orc c w)
    (leaf_price (tree_type_side ty) orc c l)"
proof -
  have "is_price_better s p p = False" for s p by (cases s) auto
  then show ?thesis
    using worst_order_last [OF assms] better_key_price(1) better_pegged_price
    by (cases c; cases orc) (auto simp: leaf_price_def price_data_key)
qed

lemma worst_order_Nil: "worst_order ty os = None \<longleftrightarrow> os = []"
  by (auto simp: worst_order_def split: order_tree_type.splits)

lemma find_worst_side:
  assumes "good_side b"
  shows "\<exists>w. find_worst (side_nodes b) (book_root b c) = Ok w \<and>
    map_option snd w = worst_order (order_tree_type (side_nodes b)) (side_orders b c)"
  using good_side_tree [OF assms, of c] find_worst_spec by (auto simp: side_orders_def)

lemma good_side_leaf_ok: "good_side b \<Longrightarrow> l \<in> set (side_orders b c) \<Longrightarrow> leaf_ok l"
  using good_side_tree [of b c] good_tree_leaf_ok by (auto simp: side_orders_def)

text \<open>What \<open>rank_orders\<close> picks when it is asked for the worse order.\<close>

definition worse_of :: "side \<Rightarrow> i64 option \<Rightarrow> leaf_node option \<Rightarrow> leaf_node option \<Rightarrow>
    (book_tree \<times> leaf_node) option" where
  "worse_of side orc f p = (case (f, if orc = None then None else p) of
     (None, None) \<Rightarrow> None
   | (Some l, None) \<Rightarrow> Some (Fixed, l)
   | (None, Some l) \<Rightarrow> Some (OraclePegged, l)
   | (Some l, Some m) \<Rightarrow>
       if key_is_better side (leaf_key l) (price_key (leaf_key m) (leaf_price side orc OraclePegged m))
       then Some (OraclePegged, m) else Some (Fixed, l))"

lemma rank_worse:
  assumes "\<And>x. f = Some x \<Longrightarrow> leaf_ok (snd x) \<and> fixed_priced (snd x)"
    and "\<And>x. p = Some x \<Longrightarrow> leaf_ok (snd x)"
  shows "\<exists>r. rank_orders side f p True now_ts orc = Ok r \<and>
    map_option (\<lambda>i. (item_tree i, item_node i)) r =
      worse_of side orc (map_option snd f) (map_option snd p) \<and>
    (\<forall>i. r = Some i \<longrightarrow> item_price_lots i = leaf_price side orc (item_tree i) (item_node i))"
proof (cases orc)
  case None
  then show ?thesis
    using assms rank_fixed_only by (cases f) (auto simp: rank_orders_def worse_of_def leaf_price_def)
next
  case (Some opl)
  show ?thesis
  proof (cases f)
    case None
    then show ?thesis
    proof (cases p)
      case None
      with \<open>f = None\<close> show ?thesis by (simp add: rank_orders_def worse_of_def Some)
    next
      case (Some x)
      then show ?thesis using assms \<open>f = None\<close> \<open>orc = Some opl\<close>
        by (simp add: rank_pegged_only worse_of_def leaf_price_def)
    qed
  next
    case f: (Some x)
    show ?thesis
    proof (cases p)
      case None
      then show ?thesis using assms f \<open>orc = Some opl\<close>
        by (simp add: rank_fixed_only worse_of_def leaf_price_def)
    next
      case (Some y)
      then show ?thesis using assms f \<open>orc = Some opl\<close>
        by (simp add: rank_both worse_of_def leaf_price_def pegged_key_def)
    qed
  qed
qed

lemma not_better_trans:
  "\<not> is_price_better side x y \<Longrightarrow> \<not> is_price_better side y z \<Longrightarrow> \<not> is_price_better side x z"
  by (cases side) auto

lemma not_better_refl [simp]: "\<not> is_price_better side x x"
  by (cases side) auto

lemma uint_price_key:
  "uint (key_price (price_key k (leaf_price side (Some opl) OraclePegged m))) =
   leaf_price side (Some opl) OraclePegged m"
  using pegged_price_range [of opl m side]
  by (simp add: key_price_price_key leaf_price_def uint_word_of_int int_limits)

lemma worse_of_worst:
  assumes "worse_of side orc f p = Some (c, l)"
    and "c' = Fixed \<Longrightarrow> f = Some w" and "c' = OraclePegged \<Longrightarrow> p = Some w \<and> orc \<noteq> None"
  shows "\<not> is_price_better side (leaf_price side orc c l) (leaf_price side orc c' w)"
proof (cases "(f, if orc = None then None else p)")
  case (Pair a q)
  show ?thesis
  proof (cases a; cases q)
    fix x y assume xy: "a = Some x" "q = Some y"
    then obtain opl where o: "orc = Some opl" using Pair by (cases orc) auto
    note b = better_key_price [of side "leaf_key x" "price_key (leaf_key y) (leaf_price side orc OraclePegged y)"]
    show ?thesis
      using b assms xy Pair o uint_price_key [of "leaf_key y" side opl y]
      by (cases c') (auto simp: worse_of_def leaf_price_def price_data_key split: if_splits)
  qed (use assms Pair in \<open>cases c'; auto simp: worse_of_def split: if_splits\<close>)+
qed

lemma worse_of_None: "worse_of side orc f p = None \<longleftrightarrow> f = None \<and> (orc = None \<or> p = None)"
  by (auto simp: worse_of_def split: option.splits if_splits)

lemma worse_of_cases:
  assumes "worse_of side orc f p = Some (c, l)"
  shows "(c = Fixed \<and> f = Some l) \<or> (c = OraclePegged \<and> p = Some l \<and> orc \<noteq> None)"
  using assms by (auto simp: worse_of_def split: option.splits if_splits)

lemma book_remove_worst_spec:
  assumes good: "good_side b" and fx: "\<forall>l \<in> set (side_orders b Fixed). fixed_priced l"
  shows "\<exists>r b'. book_remove_worst b now_ts orc = Ok (r, b') \<and>
    (case r of
       None \<Rightarrow> b' = b \<and> matchable_orders b orc = {#}
     | Some (l, price) \<Rightarrow> \<exists>c. in_book b orc c l \<and> price = leaf_price (book_side_of b) orc c l \<and>
         side_step b c (delete_order (leaf_key l) (side_orders b c)) b' \<and>
         (\<forall>c' l'. in_book b orc c' l' \<longrightarrow>
           \<not> is_price_better (book_side_of b) price (leaf_price (book_side_of b) orc c' l')))"
proof -
  let ?T = "side_nodes b" and ?s = "book_side_of b"
  let ?w = "\<lambda>c. worst_order (order_tree_type ?T) (side_orders b c)"
  have s: "?s = tree_type_side (order_tree_type ?T)" by (simp add: book_side_of_def)
  have so: "sorted_wrt (<) (map leaf_key (side_orders b c))" for c
    by (rule side_orders_sorted [OF good])
  obtain f where f: "find_worst ?T (fst (roots b)) = Ok f" "map_option snd f = ?w Fixed"
    using find_worst_side [OF good, of Fixed] by (auto simp: book_root_def)
  obtain p where p: "find_worst ?T (snd (roots b)) = Ok p" "map_option snd p = ?w OraclePegged"
    using find_worst_side [OF good, of OraclePegged] by (auto simp: book_root_def)
  have mem: "snd x \<in> set (side_orders b c)" if "map_option snd (Some x) = ?w c" for x c
    using worst_order_mem [of "order_tree_type ?T" "side_orders b c" "snd x"] that by simp
  have fo: "leaf_ok (snd x) \<and> fixed_priced (snd x)" if "f = Some x" for x
    using mem [of x Fixed] f(2) that fx good_side_leaf_ok [OF good] by simp
  have po: "leaf_ok (snd x)" if "p = Some x" for x
    using mem [of x OraclePegged] p(2) that good_side_leaf_ok [OF good] by simp
  obtain r where r: "rank_orders ?s f p True now_ts orc = Ok r"
    and ri: "map_option (\<lambda>i. (item_tree i, item_node i)) r = worse_of ?s orc (?w Fixed) (?w OraclePegged)"
    and pr: "\<forall>i. r = Some i \<longrightarrow> item_price_lots i = leaf_price ?s orc (item_tree i) (item_node i)"
    using rank_worse [of f p ?s now_ts orc, OF fo po, unfolded f(2) p(2)] by blast
  show ?thesis
  proof (cases r)
    case None
    then have "?w Fixed = None" "orc = None \<or> ?w OraclePegged = None"
      using ri worse_of_None by (metis option.simps(8))+
    then have "matchable_orders b orc = {#}"
      by (cases orc) (simp_all add: matchable_orders_def worst_order_Nil)
    then show ?thesis using f p r None by (simp add: book_remove_worst_def)
  next
    case (Some i)
    let ?c = "item_tree i" and ?l = "item_node i"
    have w: "worse_of ?s orc (?w Fixed) (?w OraclePegged) = Some (?c, ?l)" using ri Some by simp
    have wc: "?w ?c = Some ?l" "?c = OraclePegged \<longrightarrow> orc \<noteq> None"
      using worse_of_cases [OF w] by auto
    have ml: "?l \<in> set (side_orders b ?c)" using worst_order_mem [OF wc(1)] .
    obtain b' where rm: "book_remove_by_key b ?c (leaf_key ?l) = Ok (Some ?l, b')"
        "side_step b ?c (delete_order (leaf_key ?l) (side_orders b ?c)) b'"
      using book_remove_by_key_spec [OF good, of ?c "leaf_key ?l"] find_order_mem [OF so ml] by auto
    have worst: "\<not> is_price_better ?s (leaf_price ?s orc ?c ?l) (leaf_price ?s orc c' l')"
      if "in_book b orc c' l'" for c' l'
    proof -
      have "side_orders b c' \<noteq> []" using that by (auto simp: in_book_def)
      then obtain w' where w': "?w c' = Some w'" using worst_order_Nil by blast
      have "\<not> is_price_better ?s (leaf_price ?s orc ?c ?l) (leaf_price ?s orc c' w')"
        by (rule worse_of_worst [OF w]) (use w' that in \<open>auto simp: in_book_def\<close>)
      moreover have "\<not> is_price_better ?s (leaf_price ?s orc c' w') (leaf_price ?s orc c' l')"
        unfolding s by (rule worst_price [OF so w']) (use that in \<open>simp add: in_book_def\<close>)
      ultimately show ?thesis by (rule not_better_trans)
    qed
    have "book_remove_worst b now_ts orc = Ok (Some (?l, item_price_lots i), b')"
      using f p r Some rm by (simp add: book_remove_worst_def)
    then show ?thesis using Some pr rm(2) ml wc(2) worst by (auto simp: in_book_def)
  qed
qed

section \<open>A book side whose iterator loses an order\<close>

definition peg_order :: "i64 \<Rightarrow> 64 word \<Rightarrow> leaf_node" where
  "peg_order off seq =
     leaf_new 0 (new_node_key Ask (oracle_pegged_price_data off) seq) 7 1 0 0 (-1) 0"

definition empty_side :: "order_tree_type \<Rightarrow> nat \<Rightarrow> book_side" where
  "empty_side ty n = \<lparr>roots = (zeroed_root, zeroed_root), side_nodes = zeroed_tree ty n\<rparr>"

text \<open>Three pegged asks, at offsets -100, -10 and -5 from the oracle price.\<close>

definition three_pegged_asks :: "book_side res" where
  "three_pegged_asks =
     bnd (book_insert_leaf (empty_side Asks 8) OraclePegged (peg_order (-100) 1)) (\<lambda>(_, _, b1).
     bnd (book_insert_leaf b1 OraclePegged (peg_order (-10) 2)) (\<lambda>(_, _, b2).
     bnd (book_insert_leaf b2 OraclePegged (peg_order (-5) 3)) (\<lambda>(_, _, b3). Ok b3)))"

definition prices_of :: "book_item list \<Rightarrow> i64 list" where
  "prices_of xs = map item_price_lots xs"

lemma empty_side_good: "int n < U32_MAX \<Longrightarrow> good_side (empty_side ty n)"
proof -
  assume n: "int n < U32_MAX"
  have "side_inv (empty_side ty n) (\<lambda>c. None) []"
    unfolding side_inv_def empty_side_def
    using zeroed_tree_inv [OF n] by (auto simp: book_root_def split: book_tree.splits)
  then show ?thesis by (auto simp: good_side_def)
qed

end
