(* ===== verification/Orderbook_Invariant.thy ===== *)
theory Orderbook_Invariant
  imports Orderbook_Limits Book_Side_Worst
begin

text \<open>
  The invariant of the whole book, kept by a new order and by a cancellation: both sides hold
  well-formed trees, every resting order has a positive quantity, and the orders of the fixed
  trees have a representable price. Also what posting does to the order's own side.
\<close>

section \<open>Changing the quantity of an order in place\<close>

fun set_qty :: "handle \<Rightarrow> i64 \<Rightarrow> ctree \<Rightarrow> ctree" where
  "set_qty h q (CLeaf h' l) = CLeaf h' (if h' = h then l\<lparr>quantity := q\<rparr> else l)"
| "set_qty h q (CNode h' i a b) = CNode h' i (set_qty h q a) (set_qty h q b)"

lemma set_qty_simps [simp]:
  "root_handle (set_qty h q t) = root_handle t"
  "handles (set_qty h q t) = handles t"
  "keys_of (set_qty h q t) = keys_of t"
  "min_exp (set_qty h q t) = min_exp t"
  "length (leaves (set_qty h q t)) = length (leaves t)"
  by (induction t) (auto simp: exp_of_def)

lemma set_qty_wf [simp]:
  "linked (set_qty h q t) = linked t" "wf_keys (set_qty h q t) = wf_keys t"
  "wf_exp (set_qty h q t) = wf_exp t"
  by (induction t) (auto simp: leaf_ok_def)

lemma set_qty_stored:
  "stored ns t \<Longrightarrow> h < length ns \<Longrightarrow> ns ! h = LeafNode l \<Longrightarrow>
   stored (ns[h := LeafNode (l\<lparr>quantity := q\<rparr>)]) (set_qty h q t)"
  by (induction t) (auto simp: nth_list_update)

text \<open>Two lists of orders that differ in quantities only, the new ones being \<open>q\<close>.\<close>

definition requantified :: "i64 \<Rightarrow> leaf_node list \<Rightarrow> leaf_node list \<Rightarrow> bool" where
  "requantified q = list_all2 (\<lambda>l l'. l' = l \<or> l' = l\<lparr>quantity := q\<rparr>)"

lemma requantified_refl: "requantified q os os"
  by (auto simp: requantified_def intro: list_all2_refl)

lemma set_qty_leaves: "requantified q (map snd (leaves t)) (map snd (leaves (set_qty h q t)))"
  unfolding requantified_def by (induction t) (auto intro: list_all2_appendI)

lemma requantified_mem:
  "requantified q os os' \<Longrightarrow> l' \<in> set os' \<Longrightarrow> \<exists>l \<in> set os. l' = l \<or> l' = l\<lparr>quantity := q\<rparr>"
  unfolding requantified_def list_all2_conv_all_nth in_set_conv_nth [of l'] by (metis nth_mem)

lemma free_chain_not_leaf: "free_chain ns h fl \<Longrightarrow> x \<in> set fl \<Longrightarrow> ns ! x \<noteq> LeafNode l"
  by (induction fl arbitrary: h) (auto split: if_splits)

lemma set_quantity_spec:
  assumes good: "good_side b" and s: "set_quantity b h q = Ok b'"
  shows "good_side b' \<and> (\<forall>c. requantified q (side_orders b c) (side_orders b' c)) \<and>
    book_side_of b' = book_side_of b"
proof -
  let ?T = "side_nodes b"
  obtain l where h: "h < length (nodes ?T)" "nodes ?T ! h = LeafNode l"
    and b': "b' = b\<lparr>side_nodes := ?T\<lparr>nodes := (nodes ?T)[h := LeafNode (l\<lparr>quantity := q\<rparr>)]\<rparr>\<rparr>"
    using s by (auto simp: set_quantity_def get_node_def as_leaf_def res_simps
        split: if_splits any_node.splits option.splits node_ref.splits elim!: node_case.elims)
  obtain ot fl where inv: "side_inv b ot fl" using good by (auto simp: good_side_def)
  let ?ot = "\<lambda>c. map_option (set_qty h q) (ot c)"
  have hs: "ot_handles (?ot c) = ot_handles (ot c)" for c by (cases "ot c") simp_all
  have r: "book_root b' c = book_root b c" for c by (cases c) (simp_all add: b' book_root_def)
  have n: "side_nodes b' = ?T\<lparr>nodes := (nodes ?T)[h := LeafNode (l\<lparr>quantity := q\<rparr>)]\<rparr>"
    by (simp add: b')
  have t: "tree_inv (side_nodes b') (book_root b' c) (?ot c) fl (ot_handles (?ot (other_component c)))"
    for c
  proof -
    have i: "tree_inv ?T (book_root b c) (ot c) fl (ot_handles (ot (other_component c)))"
      using inv by (simp add: side_inv_def)
    have "tree_rep (nodes (side_nodes b')) (book_root b' c) (?ot c)"
      using i h set_qty_stored [of "nodes ?T"]
      by (cases "ot c") (auto simp: tree_inv_def r n)
    moreover have "arena (side_nodes b') fl (ot_handles (ot c) \<union> ot_handles (ot (other_component c)))"
    proof -
      have ar: "arena ?T fl (ot_handles (ot c) \<union> ot_handles (ot (other_component c)))"
        using i by (simp add: tree_inv_def)
      then have "h \<notin> set fl"
        using free_chain_not_leaf [of "nodes ?T" "free_list_head ?T" fl h l] h by (auto simp: arena_def)
      then show ?thesis unfolding n by (intro arena_cong [OF ar]) (auto intro!: nth_list_update_neq)
    qed
    ultimately show ?thesis using i by (simp add: tree_inv_def hs)
  qed
  then have "side_inv b' ?ot fl" unfolding side_inv_def by blast
  then have "good_side b'" by (auto simp: good_side_def)
  moreover have "requantified q (side_orders b c) (side_orders b' c)" for c
  proof -
    have "tree_inv ?T (book_root b c) (ot c) fl (ot_handles (ot (other_component c)))"
      using inv by (simp add: side_inv_def)
    then have "side_orders b c = ot_orders (ot c)" "side_orders b' c = ot_orders (?ot c)"
      using tree_orders_ok tree_orders_ok [OF t [of c]] by (auto simp: side_orders_def)
    then show ?thesis using set_qty_leaves by (cases "ot c") (auto simp: requantified_refl)
  qed
  ultimately show ?thesis by (simp add: b' book_side_of_def)
qed

section \<open>Sound sides\<close>

definition sound_side :: "book_side \<Rightarrow> bool" where
  "sound_side b \<longleftrightarrow> good_side b \<and> (\<forall>c. \<forall>l \<in> set (side_orders b c). 1 \<le> quantity l) \<and>
     (\<forall>l \<in> set (side_orders b Fixed). fixed_priced l)"

lemma sound_sideD:
  "sound_side b \<Longrightarrow> good_side b" "sound_side b \<Longrightarrow> quantities_ok b"
  "sound_side b \<Longrightarrow> \<forall>l \<in> set (side_orders b Fixed). fixed_priced l"
  by (force simp: sound_side_def quantities_ok_def)+

text \<open>A step to a sound side of the same kind.\<close>

definition sound_step :: "book_side \<Rightarrow> book_side \<Rightarrow> bool" where
  "sound_step b b' \<longleftrightarrow> sound_side b' \<and> book_side_of b' = book_side_of b"

lemma sound_step_refl: "sound_side b \<Longrightarrow> sound_step b b"
  by (simp add: sound_step_def)

lemma sound_step_trans: "sound_step b1 b2 \<Longrightarrow> sound_step b2 b3 \<Longrightarrow> sound_step b1 b3"
  by (simp add: sound_step_def)

lemma side_step_sound:
  assumes "side_step b c os b'" and "sound_side b"
    and "\<forall>l \<in> set os. 1 \<le> quantity l \<and> (c = Fixed \<longrightarrow> fixed_priced l)"
  shows "sound_step b b'"
proof -
  have o: "side_orders b' c = os" "side_orders b' (other_component c) = side_orders b (other_component c)"
    and g: "good_side b'" "book_side_of b' = book_side_of b"
    using assms(1) by (simp_all add: side_step_def)
  have "1 \<le> quantity l \<and> (c' = Fixed \<longrightarrow> fixed_priced l)" if "l \<in> set (side_orders b' c')" for c' l
    using that component_cases [of c' c] o assms(2,3) by (auto simp: sound_side_def)
  then show ?thesis using g by (simp add: sound_side_def sound_step_def)
qed

lemma side_step_sound_sub:
  assumes "side_step b c os b'" and "sound_side b" and "set os \<subseteq> set (side_orders b c)"
  shows "sound_step b b'"
  by (rule side_step_sound [OF assms(1,2)]) (use assms(2,3) in \<open>auto simp: sound_side_def\<close>)

lemma set_quantity_sound:
  assumes "set_quantity b h q = Ok b'" and "sound_side b" and "1 \<le> q"
  shows "sound_step b b'"
proof -
  note s = set_quantity_spec [OF sound_sideD(1) [OF assms(2)] assms(1)]
  have "1 \<le> quantity l \<and> (c = Fixed \<longrightarrow> fixed_priced l)" if "l \<in> set (side_orders b' c)" for c l
  proof -
    have "requantified q (side_orders b c) (side_orders b' c)" using s by simp
    from requantified_mem [OF this that] obtain l0
      where "l0 \<in> set (side_orders b c)" "l = l0 \<or> l = l0\<lparr>quantity := q\<rparr>" by auto
    then show ?thesis
      using assms(2,3) by (auto simp: sound_side_def fixed_priced_def price_data_def)
  qed
  then show ?thesis using s by (simp add: sound_side_def sound_step_def)
qed

lemma apply_changes_sound:
  "apply_changes xs b = Ok b' \<Longrightarrow> sound_side b \<Longrightarrow> \<forall>(c, h, q) \<in> set xs. 1 \<le> q \<Longrightarrow> sound_step b b'"
proof (induction xs arbitrary: b)
  case Nil
  then show ?case by (simp add: sound_step_refl)
next
  case (Cons x xs)
  obtain c h q where x: "x = (c, h, q)" by (cases x)
  then obtain b1 where b1: "set_quantity b h q = Ok b1" "apply_changes xs b1 = Ok b'"
    using Cons.prems(1) by (auto simp: res_simps)
  have st: "sound_step b b1" by (rule set_quantity_sound [OF b1(1)]) (use Cons.prems x in auto)
  then have "sound_step b1 b'"
    by (intro Cons.IH [OF b1(2)]) (use Cons.prems in \<open>auto simp: sound_step_def\<close>)
  then show ?case by (rule sound_step_trans [OF st])
qed

lemma remove_by_key_sound:
  "sound_side b \<Longrightarrow> book_remove_by_key b c k = Ok (l, b') \<Longrightarrow> sound_step b b'"
  using book_remove_by_key_spec [OF sound_sideD(1), of b c k] side_step_sound_sub
    delete_order_subset by fastforce

lemma apply_deletes_sound:
  "apply_deletes xs b = Ok b' \<Longrightarrow> sound_side b \<Longrightarrow> sound_step b b'"
proof (induction xs arbitrary: b)
  case Nil
  then show ?case by (simp add: sound_step_refl)
next
  case (Cons x xs)
  obtain c k where x: "x = (c, k)" by (cases x)
  then obtain l b1 where b1: "book_remove_by_key b c k = Ok (l, b1)" "apply_deletes xs b1 = Ok b'"
    using Cons.prems(1) by (auto simp: res_simps)
  have st: "sound_step b b1" by (rule remove_by_key_sound [OF Cons.prems(2) b1(1)])
  then have "sound_step b1 b'" by (intro Cons.IH [OF b1(2)]) (simp add: sound_step_def)
  then show ?case by (rule sound_step_trans [OF st])
qed

section \<open>The changes the match loop collects\<close>

definition changes_ok :: "match_state \<Rightarrow> bool" where
  "changes_ok st \<longleftrightarrow> (\<forall>(c, h, q) \<in> set (mt_changes st). 1 \<le> q)"

lemma self_trade_changes:
  "self_trade_step order owner best mq st = Ok r \<Longrightarrow>
   (case r of Proceed st' \<Rightarrow> mt_changes st' = mt_changes st | SkipMatch st' \<Rightarrow> mt_changes st' = mt_changes st)"
  by (auto simp: self_trade_step_def rebate_step_def Let_def res_simps
      split: option.splits if_splits self_trade_behavior.splits)

lemma fill_order_changes:
  "fill_order order owner now_ts best mb mq st = Ok st' \<Longrightarrow>
   mt_changes st' = mt_changes st \<or> (\<exists>x. mt_changes st' =
     mt_changes st @ [(item_tree best, item_handle best, quantity (item_node best) - mb)] \<and>
     quantity (item_node best) - mb \<noteq> 0)"
  by (auto simp: fill_order_def Let_def res_simps split: if_splits)

lemma match_step_changes:
  assumes ok: "changes_ok st" and s: "match_step order owner now_ts price_lots best st = Ok r"
  shows "changes_ok (flow_state r)"
  using s
proof (cases rule: match_step_cases)
  case stop
  then show ?thesis using ok by (auto simp: changes_ok_def)
next
  case (drop st')
  then show ?thesis using ok drop_invalid_keeps [OF drop(1)] by (simp add: changes_ok_def)
next
  case (trade q mb s)
  have le: "mb \<le> quantity (item_node best)" using trade(5) by auto
  show ?thesis
  proof (cases s)
    case (SkipMatch st')
    then show ?thesis using ok self_trade_changes [OF trade(8)] trade(9) by (simp add: changes_ok_def)
  next
    case (Proceed st')
    then have "fill_order order owner now_ts best mb (mb * item_price_lots best) st' = Ok (flow_state r)"
      using trade(9) by simp
    from fill_order_changes [OF this] show ?thesis
      using ok self_trade_changes [OF trade(8)] Proceed le by (auto simp: changes_ok_def)
  qed
qed

section \<open>Making room and posting\<close>

text \<open>An order leaves a side to make room only when it has lapsed, or when its price is strictly
  worse than the price of the order that comes in.\<close>

definition gives_way :: "side \<Rightarrow> i64 \<Rightarrow> u64 \<Rightarrow> i64 option \<Rightarrow> book_tree \<Rightarrow> leaf_node \<Rightarrow> bool" where
  "gives_way side price_lots now_ts orc c l \<longleftrightarrow>
     exp_of l < now_ts \<or> is_price_better side price_lots (leaf_price side orc c l)"

definition room_step :: "side \<Rightarrow> i64 \<Rightarrow> u64 \<Rightarrow> i64 option \<Rightarrow> book_side \<Rightarrow> book_side \<Rightarrow> bool" where
  "room_step side price_lots now_ts orc b b' \<longleftrightarrow> sound_step b b' \<and>
     (\<forall>c. set (side_orders b' c) \<subseteq> set (side_orders b c) \<and>
       (\<forall>l \<in> set (side_orders b c) - set (side_orders b' c). gives_way side price_lots now_ts orc c l))"

lemma room_step_refl: "sound_side b \<Longrightarrow> room_step side p now_ts orc b b"
  by (simp add: room_step_def sound_step_refl)

lemma room_step_trans:
  assumes 1: "room_step side p now_ts orc b1 b2" and 2: "room_step side p now_ts orc b2 b3"
  shows "room_step side p now_ts orc b1 b3"
proof -
  have "set (side_orders b3 c) \<subseteq> set (side_orders b1 c)" for c
    using 1 2 unfolding room_step_def by (metis subset_trans)
  moreover have "gives_way side p now_ts orc c l"
    if "l \<in> set (side_orders b1 c) - set (side_orders b3 c)" for c l
    using 1 2 that unfolding room_step_def by (cases "l \<in> set (side_orders b2 c)") auto
  moreover have "sound_step b1 b3"
    by (rule sound_step_trans [of _ b2]) (use 1 2 in \<open>simp_all add: room_step_def\<close>)
  ultimately show ?thesis by (simp add: room_step_def)
qed

lemma room_step_delete:
  assumes b: "sound_side b" and st: "side_step b c (delete_order (leaf_key l) (side_orders b c)) b'"
    and l: "l \<in> set (side_orders b c)" "gives_way side p now_ts orc c l"
  shows "room_step side p now_ts orc b b'"
proof -
  have so: "sorted_wrt (<) (map leaf_key (side_orders b c))"
    using side_orders_sorted sound_sideD(1) [OF b] by blast
  have o: "side_orders b' c = delete_order (leaf_key l) (side_orders b c)"
    "side_orders b' (other_component c) = side_orders b (other_component c)"
    using st by (simp_all add: side_step_def)
  have only: "x = l" if "x \<in> set (side_orders b c)" "leaf_key x = leaf_key l" for x
    using find_order_mem [OF so that(1)] find_order_mem [OF so l(1)] unfolding that(2)
    by (metis option.inject)
  have "gives_way side p now_ts orc c x" if "x \<in> set (side_orders b c)" "leaf_key x = leaf_key l" for x
    using only [OF that] l(2) by simp
  then have "set (side_orders b' c') \<subseteq> set (side_orders b c') \<and>
      (\<forall>x \<in> set (side_orders b c') - set (side_orders b' c'). gives_way side p now_ts orc c' x)" for c'
    using component_cases [of c' c] o by (auto simp: set_delete_order)
  moreover have "sound_step b b'" by (rule side_step_sound_sub [OF st b delete_order_subset])
  ultimately show ?thesis by (simp add: room_step_def)
qed

lemma remove_expired_room:
  assumes b: "sound_side b" and r: "book_remove_one_expired b c now_ts = Ok (r, b')"
  shows "room_step side p now_ts orc b b'"
proof -
  have "\<exists>c'. expired_choice now_ts (side_orders b c') r \<and>
      side_step b c' (drop_choice r (side_orders b c')) b'"
    using book_remove_one_expired_spec [OF sound_sideD(1) [OF b], of c now_ts] r
    by (auto split: if_splits)
  then obtain c' where c': "expired_choice now_ts (side_orders b c') r"
    "side_step b c' (drop_choice r (side_orders b c')) b'" by blast
  show ?thesis
  proof (cases r)
    case None
    then have st: "side_step b c' (side_orders b c') b'" using c' by (simp add: drop_choice_def)
    have "side_orders b' c'' = side_orders b c''" for c''
      using st component_cases [of c'' c'] by (auto simp: side_step_def)
    moreover have "sound_step b b'" by (rule side_step_sound_sub [OF st b]) simp
    ultimately show ?thesis by (simp add: room_step_def)
  next
    case (Some l)
    then show ?thesis
      using c' by (intro room_step_delete [OF b]) (auto simp: drop_choice_def expired_choice_def gives_way_def)
  qed
qed

lemma remove_worst_room:
  assumes b: "sound_side b" and r: "book_remove_worst b now_ts orc = Ok (Some (l, price), b')"
    and p: "is_price_better (book_side_of b) p price"
  shows "room_step (book_side_of b) p now_ts orc b b'"
proof -
  obtain c where "in_book b orc c l" "price = leaf_price (book_side_of b) orc c l"
      "side_step b c (delete_order (leaf_key l) (side_orders b c)) b'"
    using book_remove_worst_spec [OF sound_sideD(1) [OF b] sound_sideD(3) [OF b], of now_ts orc] r by auto
  then show ?thesis
    using p by (intro room_step_delete [OF b]) (auto simp: in_book_def gives_way_def)
qed

lemma make_room_spec:
  assumes b: "sound_side b" and side: "book_side_of b = o_side order"
    and m: "make_room order owner now_ts orc price_lots tgt b ac = Ok (b', ac')"
  shows "room_step (o_side order) price_lots now_ts orc b b'"
proof -
  obtain expired b1 ac1 where e: "book_remove_one_expired b tgt now_ts = Ok (expired, b1)"
    and rest: "(if book_is_full b1 then
        bnd (book_remove_worst b1 now_ts orc) (\<lambda>(w, b2).
        bnd (unwrap w) (\<lambda>(worst_order, worst_price).
        bnd (require (is_price_better (o_side order) price_lots worst_price) SomeError) (\<lambda>_.
        bnd (process_out_event (out_event_of (o_side order) worst_order now_ts (ac_heap ac1)) owner ac1)
          (\<lambda>ac2. Ok (b2, ac2)))))
      else Ok (b1, ac1)) = Ok (b', ac')"
    using m by (auto simp: make_room_def Let_def res_simps)
  have r1: "room_step (o_side order) price_lots now_ts orc b b1" by (rule remove_expired_room [OF b e])
  then have b1: "sound_side b1" "book_side_of b1 = o_side order"
    using side by (simp_all add: room_step_def sound_step_def)
  show ?thesis
  proof (cases "book_is_full b1")
    case False
    then show ?thesis using rest r1 by simp
  next
    case True
    then obtain l price where "book_remove_worst b1 now_ts orc = Ok (Some (l, price), b')"
        "is_price_better (o_side order) price_lots price"
      using rest by (auto simp: res_simps)
    then have "room_step (o_side order) price_lots now_ts orc b1 b'"
      using remove_worst_room [OF b1(1)] b1(2) by metis
    then show ?thesis by (rule room_step_trans [OF r1])
  qed
qed

lemma leaf_new_simps [simp]:
  "leaf_key (leaf_new slot k w q ts tif peg cid) = k"
  "leaf_owner (leaf_new slot k w q ts tif peg cid) = w"
  "quantity (leaf_new slot k w q ts tif peg cid) = q"
  "leaf_ok (leaf_new slot k w q ts tif peg cid) \<longleftrightarrow> 0 \<le> ts \<and> 0 \<le> tif \<and> ts + tif \<le> U64_MAX"
  by (simp_all add: leaf_new_def leaf_ok_def)

lemma post_order_steps:
  assumes "post_order order owner now_ts orc price_lots order_id base_lots price tgt b ac =
    Ok (mf, pb, pq, b', ac')"
  obtains ac0 b1 ac1 slot h old where
    "make_room order owner now_ts orc price_lots tgt b ac0 = Ok (b1, ac1)"
    and "book_insert_leaf b1 tgt (leaf_new slot order_id owner base_lots now_ts (o_time_in_force order)
      (order_peg_limit order) (o_client_order_id order)) = Ok (h, old, b')"
    and "pb = base_lots * base_lot_size (ac_market ac)"
    and "pq = base_lots * price * quote_lot_size (ac_market ac)"
  using assms unfolding post_order_def Let_def by (auto simp: res_simps)

text \<open>What posting does to a side: some orders give way, then the new one is put in its place.\<close>

definition posts ::
  "side \<Rightarrow> i64 \<Rightarrow> u64 \<Rightarrow> i64 option \<Rightarrow> book_tree \<Rightarrow> leaf_node \<Rightarrow> book_side \<Rightarrow> book_side \<Rightarrow> bool" where
  "posts side price_lots now_ts orc c leaf b b' \<longleftrightarrow> sound_step b b' \<and>
     (\<exists>b1. room_step side price_lots now_ts orc b b1 \<and>
       side_step b1 c (insert_order leaf (side_orders b1 c)) b')"

lemma post_order_spec:
  assumes p: "post_order order owner now_ts orc price_lots order_id base_lots price tgt b ac =
      Ok (mf, pb, pq, b', ac')"
    and b: "sound_side b" "book_side_of b = o_side order"
    and q: "1 \<le> base_lots"
    and t: "0 \<le> now_ts" "0 \<le> o_time_in_force order" "now_ts + o_time_in_force order \<le> U64_MAX"
    and k: "tgt = Fixed \<Longrightarrow> 1 \<le> uint (key_price order_id) \<and> uint (key_price order_id) \<le> I64_MAX"
  shows "\<exists>leaf. posts (o_side order) price_lots now_ts orc tgt leaf b b' \<and> leaf_key leaf = order_id \<and>
    leaf_owner leaf = owner \<and> quantity leaf = base_lots"
proof (rule post_order_steps [OF p])
  fix ac0 b1 ac1 slot h old
  assume m: "make_room order owner now_ts orc price_lots tgt b ac0 = Ok (b1, ac1)"
  let ?l = "leaf_new slot order_id owner base_lots now_ts (o_time_in_force order)
      (order_peg_limit order) (o_client_order_id order)"
  assume i: "book_insert_leaf b1 tgt ?l = Ok (h, old, b')"
  have r: "room_step (o_side order) price_lots now_ts orc b b1" by (rule make_room_spec [OF b m])
  then have b1: "sound_step b b1" "sound_side b1" by (simp_all add: room_step_def sound_step_def)
  have st: "side_step b1 tgt (insert_order ?l (side_orders b1 tgt)) b'"
    using book_insert_leaf_spec [OF sound_sideD(1) [OF b1(2)], of ?l tgt "(h, old, b')"] i t by auto
  have "tgt = Fixed \<longrightarrow> fixed_priced ?l" using k by (simp add: fixed_priced_def price_data_key)
  then have "\<forall>l \<in> set (insert_order ?l (side_orders b1 tgt)). 1 \<le> quantity l \<and>
      (tgt = Fixed \<longrightarrow> fixed_priced l)"
    using b1(2) q by (auto simp: set_insert_order sound_side_def)
  then have "sound_step b1 b'" by (rule side_step_sound [OF st b1(2)])
  then have "sound_step b b'" by (rule sound_step_trans [OF b1(1)])
  then have "posts (o_side order) price_lots now_ts orc tgt ?l b b'" using r st by (auto simp: posts_def)
  then show ?thesis by (rule exI [of _ ?l, OF conjI]) simp
qed

lemma posts_mem: "posts side p now_ts orc c leaf b b' \<Longrightarrow> leaf \<in> set (side_orders b' c)"
  by (auto simp: posts_def side_step_def set_insert_order)

section \<open>A new order keeps the book sound\<close>

lemma take_step_changes:
  "take_step order max_quote st = Ok (tk, st1) \<Longrightarrow>
   mt_changes st1 = mt_changes st \<and> mt_post_target st1 = mt_post_target st"
  by (auto simp: take_step_def Let_def res_simps split: if_splits)

definition target_ok :: "order \<Rightarrow> match_state \<Rightarrow> bool" where
  "target_ok order st \<longleftrightarrow> mt_post_target st = None \<or> mt_post_target st = post_target order"

lemma match_step_target:
  assumes ok: "target_ok order st" and s: "match_step order owner now_ts price_lots best st = Ok r"
  shows "target_ok order (flow_state r)"
  using s
proof (cases rule: match_step_cases)
  case stop
  then show ?thesis using ok by (auto simp: target_ok_def)
next
  case (drop st')
  have "drop_invalid order owner now_ts best st = Ok x \<Longrightarrow> mt_post_target x = mt_post_target st" for x
    by (auto simp: drop_invalid_def res_simps split: if_splits)
  from this [OF drop(1)] show ?thesis using ok drop(2) by (simp add: target_ok_def)
next
  case (trade q mb s)
  have st: "case s of Proceed st' \<Rightarrow> mt_post_target st' = mt_post_target st
      | SkipMatch st' \<Rightarrow> mt_post_target st' = mt_post_target st"
    using trade(8) by (auto simp: self_trade_step_def rebate_step_def Let_def res_simps
        split: option.splits if_splits self_trade_behavior.splits)
  show ?thesis
  proof (cases s)
    case (SkipMatch st')
    then show ?thesis using ok st trade(9) by (simp add: target_ok_def)
  next
    case (Proceed st')
    then have "fill_order order owner now_ts best mb (mb * item_price_lots best) st' = Ok (flow_state r)"
      using trade(9) by simp
    moreover have "fill_order order owner now_ts best mb mq st' = Ok x \<Longrightarrow>
        mt_post_target x = mt_post_target st'" for x mq
      by (auto simp: fill_order_def Let_def res_simps split: if_splits)
    ultimately have "mt_post_target (flow_state r) = mt_post_target st'" by blast
    then show ?thesis using ok st Proceed by (simp add: target_ok_def)
  qed
qed

lemma new_order_book:
  assumes "new_order ob order owner now_ts lim opl ac = Ok (r, ob', ac')"
  obtains
    (unposted) price_lots p_data order_id m1 max_quote st tk st1 opposing where
    "order_price order now_ts opl ob = Ok (price_lots, p_data)"
      "gen_order_id (ac_market ac) (o_side order) p_data = Ok (order_id, m1)"
      "match_order order owner now_ts opl price_lots (bookside ob (invert_side (o_side order)))
        (start_match order max_quote lim (ac\<lparr>ac_market := m1\<rparr>)) = Ok st"
      "take_step order max_quote st = Ok (tk, st1)"
      "bnd (apply_changes (mt_changes st1) (bookside ob (invert_side (o_side order))))
        (apply_deletes (mt_deletes st1)) = Ok opposing"
      "oa_order_id r = None" "ob' = set_bookside (invert_side (o_side order)) opposing ob"
      "order_max_quote_lots order m1 = Ok max_quote" "ac' = mt_acc st1"
      "r = \<lparr>oa_order_id = None, oa_posted_base_native = 0, oa_posted_quote_native = 0,
        oa_total_base_taken_native = tk_base_native tk, oa_total_quote_taken_native = tk_quote_native tk,
        oa_taker_fees = tk_taker_fees tk, oa_maker_fees = 0, oa_referrer_amount = tk_referrer tk\<rparr>"
  | (posted) price_lots p_data order_id m1 max_quote st tk st1 opposing base_lots c mf pb pq b ac2 where
    "order_price order now_ts opl ob = Ok (price_lots, p_data)"
      "gen_order_id (ac_market ac) (o_side order) p_data = Ok (order_id, m1)"
      "match_order order owner now_ts opl price_lots (bookside ob (invert_side (o_side order)))
        (start_match order max_quote lim (ac\<lparr>ac_market := m1\<rparr>)) = Ok st"
      "take_step order max_quote st = Ok (tk, st1)"
      "bnd (apply_changes (mt_changes st1) (bookside ob (invert_side (o_side order))))
        (apply_deletes (mt_deletes st1)) = Ok opposing"
      "final_target order price_lots base_lots (mt_post_target st1) = Some c"
      "post_order order owner now_ts opl price_lots order_id base_lots
        (locked_order_price order price_lots) c
        (bookside (set_bookside (invert_side (o_side order)) opposing ob) (o_side order))
        (mt_acc st1) = Ok (mf, pb, pq, b, ac2)"
      "oa_order_id r = Some order_id"
      "ob' = set_bookside (o_side order) b (set_bookside (invert_side (o_side order)) opposing ob)"
      "order_max_quote_lots order m1 = Ok max_quote" "ac' = ac2"
      "r = \<lparr>oa_order_id = Some order_id, oa_posted_base_native = as_u64 pb, oa_posted_quote_native = as_u64 pq,
        oa_total_base_taken_native = tk_base_native tk, oa_total_quote_taken_native = tk_quote_native tk,
        oa_taker_fees = tk_taker_fees tk, oa_maker_fees = mf, oa_referrer_amount = tk_referrer tk\<rparr>"
  using assms unfolding new_order_def Let_def
  by (auto simp: res_simps split: if_splits option.splits)

lemma bookside_set [simp]:
  "bookside (set_bookside s b ob) s = b"
  "bookside (set_bookside (invert_side s) b ob) s = bookside ob s"
  "bookside (set_bookside s b ob) (invert_side s) = bookside ob (invert_side s)"
  by (cases s; simp add: bookside_def set_bookside_def)+

definition sound_book :: "orderbook \<Rightarrow> bool" where
  "sound_book ob \<longleftrightarrow> (\<forall>s. sound_side (bookside ob s) \<and> book_side_of (bookside ob s) = s)"

lemma side_or_other: "s' = s \<or> s' = invert_side s"
  by (cases s; cases s') auto

lemma sound_book_update:
  assumes "sound_book ob" and "sound_step (bookside ob s) b"
  shows "sound_book (set_bookside s b ob)"
  unfolding sound_book_def
proof
  fix s'
  show "sound_side (bookside (set_bookside s b ob) s') \<and>
      book_side_of (bookside (set_bookside s b ob) s') = s'"
    using side_or_other [of s' s] assms by (auto simp: sound_book_def sound_step_def)
qed

text \<open>Clock time and lifetime that a leaf can hold, and a price that is an \<open>i64\<close>.\<close>

definition times_ok :: "order \<Rightarrow> u64 \<Rightarrow> bool" where
  "times_ok order now_ts \<longleftrightarrow> 0 \<le> now_ts \<and> 0 \<le> o_time_in_force order \<and>
     now_ts + o_time_in_force order \<le> U64_MAX"

definition price_param_ok :: "order \<Rightarrow> bool" where
  "price_param_ok order \<longleftrightarrow> (case o_params order of FixedParams p t \<Rightarrow> is_i64 p | _ \<Rightarrow> True)"

lemma post_only_slide_limit_i64:
  "post_only_slide_limit s x p = Ok q \<Longrightarrow> is_i64 p \<Longrightarrow> is_i64 q"
  by (cases s) (auto simp: post_only_slide_limit_def res_simps min_def max_def)

lemma price_for_order_type_i64:
  assumes "price_for_order_type order now_ts opl p t ob = Ok q" and "is_i64 p"
  shows "is_i64 q"
proof (cases "t = PostOnlySlide")
  case True
  then obtain best where "(case best of Some x \<Rightarrow> post_only_slide_limit (o_side order) x p
      | None \<Rightarrow> Ok p) = Ok q"
    using assms(1) by (auto simp: price_for_order_type_def bnd_eq_Inr)
  then show ?thesis
    using assms(2) post_only_slide_limit_i64 [of "o_side order" _ p q] by (cases best) auto
next
  case False
  then show ?thesis using assms by (simp add: price_for_order_type_def)
qed

lemma order_price_fixed:
  assumes "order_price order now_ts opl ob = Ok (price_lots, p_data)" and "price_param_ok order"
    and "post_target order = Some Fixed"
  shows "1 \<le> price_lots \<and> uint p_data = price_lots \<and> price_lots \<le> I64_MAX"
proof -
  obtain p t where f: "o_params order = FixedParams p t"
    using assms(3) by (auto simp: post_target_def split: order_params.splits)
  have i: "is_i64 p" using assms(2) f by (simp add: price_param_ok_def)
  have "price_for_order_type order now_ts opl p t ob = Ok price_lots" "1 \<le> price_lots"
      "fixed_price_data price_lots = Ok p_data"
    using assms(1) f by (auto simp: order_price_def order_price_lots_def res_simps)
  then show ?thesis using price_for_order_type_i64 [OF _ i, of order now_ts opl t ob price_lots]
    by (auto simp: fixed_price_data_def res_simps is_i64_def int_limits uint_word_of_int)
qed

lemma gen_order_id_price: "gen_order_id m s p = Ok (k, m') \<Longrightarrow> key_price k = p"
  by (auto simp: gen_order_id_def res_simps)

lemma match_order_collects:
  assumes "match_order order owner now_ts opl price_lots b
      (start_match order max_quote lim ac) = Ok st"
  shows "changes_ok st \<and> target_ok order st"
  using match_order_invariant [OF assms, of changes_ok] match_order_invariant [OF assms, of "target_ok order"]
    match_step_changes match_step_target
  by (simp add: changes_ok_def target_ok_def start_match_def)

lemma opposing_sound:
  assumes "bnd (apply_changes xs b) (apply_deletes ys) = Ok b'" and "sound_side b"
    and "\<forall>(c, h, q) \<in> set xs. 1 \<le> q"
  shows "sound_step b b'"
proof -
  obtain b1 where b1: "apply_changes xs b = Ok b1" "apply_deletes ys b1 = Ok b'"
    using assms(1) by (auto simp: res_simps)
  have s: "sound_step b b1" by (rule apply_changes_sound [OF b1(1) assms(2,3)])
  then have "sound_step b1 b'" by (intro apply_deletes_sound [OF b1(2)]) (simp add: sound_step_def)
  then show ?thesis by (rule sound_step_trans [OF s])
qed

text \<open>What a new order leaves behind: a sound book; and when it reports an order id, the posted
  order is on its side of the book, and the others there gave way only if they had lapsed or had
  a worse price.\<close>

lemma new_order_sound:
  assumes n: "new_order ob order owner now_ts lim opl ac = Ok (r, ob', ac')"
    and s: "sound_book ob" and t: "times_ok order now_ts" and pp: "price_param_ok order"
  shows "sound_book ob' \<and> (case oa_order_id r of
      None \<Rightarrow> bookside ob' (o_side order) = bookside ob (o_side order)
    | Some k \<Rightarrow> \<exists>c leaf price_lots p_data. order_price order now_ts opl ob = Ok (price_lots, p_data) \<and>
        leaf_key leaf = k \<and> leaf_owner leaf = owner \<and> price_data leaf = p_data \<and>
        posts (o_side order) price_lots now_ts opl c leaf (bookside ob (o_side order))
          (bookside ob' (o_side order)))"
  using n
proof (cases rule: new_order_book)
  case (unposted price_lots p_data order_id m1 max_quote st tk st1 opposing)
  have "\<forall>(c, h, q) \<in> set (mt_changes st1). 1 \<le> q"
    using match_order_collects [OF unposted(3)] take_step_changes [OF unposted(4)]
    by (simp add: changes_ok_def)
  then have "sound_step (bookside ob (invert_side (o_side order))) opposing"
    using s by (intro opposing_sound [OF unposted(5)]) (simp_all add: sound_book_def)
  then show ?thesis using sound_book_update [OF s] unposted(6,7) by simp
next
  case (posted price_lots p_data order_id m1 max_quote st tk st1 opposing base_lots c mf pb pq b ac2)
  let ?ob1 = "set_bookside (invert_side (o_side order)) opposing ob"
  note col = match_order_collects [OF posted(3)] take_step_changes [OF posted(4)]
  have "\<forall>(c, h, q) \<in> set (mt_changes st1). 1 \<le> q" using col by (simp add: changes_ok_def)
  then have "sound_step (bookside ob (invert_side (o_side order))) opposing"
    using s by (intro opposing_sound [OF posted(5)]) (simp_all add: sound_book_def)
  then have s1: "sound_book ?ob1" by (rule sound_book_update [OF s])
  have b: "1 \<le> base_lots" and c: "mt_post_target st1 = Some c"
    using posted(6) by (auto simp: final_target_def split: if_splits)
  have k: "1 \<le> uint (key_price order_id) \<and> uint (key_price order_id) \<le> I64_MAX" if "c = Fixed"
  proof -
    have "post_target order = Some Fixed" using col c that by (auto simp: target_ok_def)
    from order_price_fixed [OF posted(1) pp this] show ?thesis
      using gen_order_id_price [OF posted(2)] by simp
  qed
  have "\<exists>leaf. posts (o_side order) price_lots now_ts opl c leaf (bookside ?ob1 (o_side order)) b \<and>
      leaf_key leaf = order_id \<and> leaf_owner leaf = owner \<and> quantity leaf = base_lots"
    using s1 s t k b by (intro post_order_spec [OF posted(7)]) (auto simp: sound_book_def times_ok_def)
  then obtain leaf where l: "posts (o_side order) price_lots now_ts opl c leaf
      (bookside ?ob1 (o_side order)) b" "leaf_key leaf = order_id" "leaf_owner leaf = owner" by blast
  have "sound_book ob'"
    unfolding posted(9) by (rule sound_book_update [OF s1]) (use l(1) in \<open>simp add: posts_def\<close>)
  moreover have "price_data leaf = p_data"
    using l(2) gen_order_id_price [OF posted(2)] by (simp add: price_data_key)
  ultimately show ?thesis using l posted(1,8,9) by auto
qed

end
