(* ===== verification/Event_Heap_Correct.thy ===== *)
theory Event_Heap_Correct
  imports Event_Heap
begin

text \<open>
  The event heap as a queue: \<open>heap_queue\<close> lists the events with their slots in the order of
  arrival. A contract of such queues (\<open>event_queue\<close>) is stated as a locale and interpreted on
  the heap's operations.
\<close>

section \<open>Representation\<close>

fun fchain :: "(nat \<Rightarrow> nat) \<Rightarrow> nat \<Rightarrow> nat list \<Rightarrow> bool" where
  "fchain nx h [] \<longleftrightarrow> h = NO_NODE"
| "fchain nx h (x # xs) \<longleftrightarrow> h = x \<and> fchain nx (nx x) xs"

definition nx :: "event_heap \<Rightarrow> nat \<Rightarrow> nat" where
  "nx h i = ev_next (ev_nodes h ! i)"

definition pv :: "event_heap \<Rightarrow> nat \<Rightarrow> nat" where
  "pv h i = ev_prev (ev_nodes h ! i)"

lemma nx_pv_simps [simp]:
  "nx (h\<lparr>free_head := x\<rparr>) = nx h" "nx (h\<lparr>used_head := x\<rparr>) = nx h"
  "nx (h\<lparr>ev_count := x\<rparr>) = nx h" "nx (h\<lparr>ev_seq_num := sn\<rparr>) = nx h"
  "pv (h\<lparr>free_head := x\<rparr>) = pv h" "pv (h\<lparr>used_head := x\<rparr>) = pv h"
  "pv (h\<lparr>ev_count := x\<rparr>) = pv h" "pv (h\<lparr>ev_seq_num := sn\<rparr>) = pv h"
  by (simp_all add: nx_def pv_def fun_eq_iff)

definition heap_rep :: "event_heap \<Rightarrow> nat list \<Rightarrow> nat list \<Rightarrow> bool" where
  "heap_rep h us fs \<longleftrightarrow>
     distinct (us @ fs) \<and> set us \<union> set fs = {..<length (ev_nodes h)} \<and>
     length (ev_nodes h) < NO_NODE \<and> ev_count h = length us \<and>
     used_head h = (if us = [] then NO_NODE else hd us) \<and> circ (nx h) (pv h) us \<and>
     fchain (nx h) (free_head h) fs \<and> (\<forall>i \<in> set fs. pv h i = NO_NODE)"

lemma fchain_cong: "(\<And>x. x \<in> set fs \<Longrightarrow> n' x = n x) \<Longrightarrow> fchain n h fs \<Longrightarrow> fchain n' h fs"
  by (induction fs arbitrary: h) auto

lemma heap_rep_less: "heap_rep h us fs \<Longrightarrow> i \<in> set us \<union> set fs \<Longrightarrow> i < length (ev_nodes h)"
  unfolding heap_rep_def by (metis lessThan_iff)

lemma heap_rep_length:
  assumes "heap_rep h us fs"
  shows "length us + length fs = length (ev_nodes h)"
proof -
  have "card (set (us @ fs)) = length (us @ fs)"
    by (rule distinct_card) (use assms in \<open>simp add: heap_rep_def\<close>)
  moreover have "set (us @ fs) = {..<length (ev_nodes h)}" using assms by (simp add: heap_rep_def)
  ultimately show ?thesis by (metis card_lessThan length_append)
qed

lemma circ_pv_mem: "circ n p us \<Longrightarrow> s \<in> set us \<Longrightarrow> p s \<in> set us \<and> n s \<in> set us"
proof -
  assume c: "circ n p us" and "s \<in> set us"
  then obtain xs ys where us: "us = xs @ s # ys" using split_list by fast
  then have "circ n p (s # ys @ xs)" using c circ_rotates [of n p xs "s # ys"] by simp
  moreover have "set us = set (s # ys @ xs)" using us by auto
  ultimately show ?thesis
    by (cases "ys @ xs") (auto simp: circ_def)
qed

lemma used_not_free: "heap_rep h us fs \<Longrightarrow> i \<in> set us \<Longrightarrow> \<not> ev_is_free (ev_nodes h ! i)"
proof -
  assume rep: "heap_rep h us fs" and i: "i \<in> set us"
  have "pv h i \<in> set us" using circ_pv_mem [of "nx h" "pv h" us i] rep i by (simp add: heap_rep_def)
  then have "pv h i < length (ev_nodes h)" using heap_rep_less [OF rep] by blast
  also have "\<dots> < NO_NODE" using rep by (simp add: heap_rep_def)
  finally show ?thesis by (simp add: ev_is_free_def pv_def)
qed

lemma set_next_ok:
  "i < length (ev_nodes h) \<Longrightarrow> \<exists>h'. set_next i x h = Ok h' \<and>
     length (ev_nodes h') = length (ev_nodes h) \<and> nx h' = (nx h)(i := x) \<and> pv h' = pv h \<and>
     (\<forall>j. ev_event (ev_nodes h' ! j) = ev_event (ev_nodes h ! j)) \<and>
     free_head h' = free_head h \<and> used_head h' = used_head h \<and> ev_count h' = ev_count h \<and>
     ev_seq_num h' = ev_seq_num h"
  by (auto simp: set_next_def nx_def pv_def fun_eq_iff nth_list_update)

lemma set_prev_ok:
  "i < length (ev_nodes h) \<Longrightarrow> \<exists>h'. set_prev i x h = Ok h' \<and>
     length (ev_nodes h') = length (ev_nodes h) \<and> pv h' = (pv h)(i := x) \<and> nx h' = nx h \<and>
     (\<forall>j. ev_event (ev_nodes h' ! j) = ev_event (ev_nodes h ! j)) \<and>
     free_head h' = free_head h \<and> used_head h' = used_head h \<and> ev_count h' = ev_count h \<and>
     ev_seq_num h' = ev_seq_num h"
  by (auto simp: set_prev_def nx_def pv_def fun_eq_iff nth_list_update)

section \<open>The operations\<close>

lemma push_back_ok:
  assumes rep: "heap_rep h us fs" and nf: "\<not> heap_is_full h" and sn: "is_u64 (ev_seq_num h + 1)"
  shows "\<exists>h' s fs'. push_back v h = Ok h' \<and> fs = s # fs' \<and> heap_rep h' (us @ [s]) fs' \<and>
    ev_event (ev_nodes h' ! s) = v \<and> (\<forall>i. i \<noteq> s \<longrightarrow> ev_event (ev_nodes h' ! i) = ev_event (ev_nodes h ! i)) \<and>
    ev_seq_num h' = ev_seq_num h + 1 \<and> length (ev_nodes h') = length (ev_nodes h)"
proof -
  have "fs \<noteq> []"
    using heap_rep_length [OF rep] nf rep by (auto simp: heap_is_full_def heap_len_def heap_rep_def)
  then obtain s fs' where fs: "fs = s # fs'" by (cases fs) auto
  have fh: "free_head h = s" and s: "s < length (ev_nodes h)" "s \<notin> set us" "s \<notin> set fs'"
    using rep fs heap_rep_less [OF rep, of s] by (auto simp: heap_rep_def)
  have fr: "\<forall>i \<in> set fs'. pv h i = NO_NODE" and fc: "fchain (nx h) (nx h s) fs'"
    using rep fs by (simp_all add: heap_rep_def)
  let ?N = "length (ev_nodes h)"
  have cnt: "is_u16 (int (length us) + 1)"
    using heap_rep_length [OF rep] rep fs
    by (auto simp: is_u16_def int_limits heap_rep_def NO_NODE_def)
  have final: "\<exists>h'. push_back v h = Ok h' \<and> heap_rep h' (us @ [s]) fs' \<and>
      ev_event (ev_nodes h' ! s) = v \<and>
      (\<forall>i. i \<noteq> s \<longrightarrow> ev_event (ev_nodes h' ! i) = ev_event (ev_nodes h ! i)) \<and>
      ev_seq_num h' = ev_seq_num h + 1 \<and> length (ev_nodes h') = length (ev_nodes h)"
  proof (cases us)
    case Nil
    let ?h' = "h\<lparr>free_head := nx h s, used_head := s, ev_count := 1, ev_seq_num := ev_seq_num h + 1,
      ev_nodes := (ev_nodes h)[s := \<lparr>ev_next = s, ev_prev = s, ev_event = v\<rparr>]\<rparr>"
    have e: "ev_count h = 0" using rep Nil by (simp add: heap_rep_def)
    have run: "push_back v h = Ok ?h'"
      using nf fh s(1) sn cnt Nil e
      by (simp add: push_back_def heap_is_empty_def heap_len_def nx_def Let_def)
    have n': "nx ?h' = (nx h)(s := s)" and p': "pv ?h' = (pv h)(s := s)"
      using s by (auto simp: fun_eq_iff nx_def pv_def nth_list_update)
    have "fchain (nx ?h') (nx h s) fs'"
      by (rule fchain_cong [OF _ fc]) (use s(3) n' in auto)
    moreover have "\<forall>i \<in> set fs'. pv ?h' i = NO_NODE"
      using fr s(3) p' by (metis fun_upd_other)
    moreover have "circ (nx ?h') (pv ?h') [s]" unfolding circ_def n' p' by simp
    ultimately have "heap_rep ?h' (us @ [s]) fs'"
      using rep fs Nil by (simp add: heap_rep_def)
    then show ?thesis using s run by auto
  next
    case (Cons u vs)
    have ne: "us \<noteq> []" using Cons by simp
    let ?h1 = "h\<lparr>free_head := nx h s\<rparr>"
    have uh: "used_head h = u" "ev_count h = length us" using rep Cons by (auto simp: heap_rep_def)
    have c: "circ (nx h) (pv h) us" and du: "distinct us" using rep by (auto simp: heap_rep_def)
    have pu: "pv h u = last us" using c Cons by (simp add: circ_def)
    have ul: "u < ?N" "last us < ?N" using heap_rep_less [OF rep] Cons ne last_in_set by auto
    obtain h2 where h2: "set_next (last us) s ?h1 = Ok h2" "length (ev_nodes h2) = ?N"
        "nx h2 = (nx h)(last us := s)" "pv h2 = pv h"
        "\<forall>j. ev_event (ev_nodes h2 ! j) = ev_event (ev_nodes h ! j)"
        "free_head h2 = nx h s" "used_head h2 = used_head h" "ev_count h2 = ev_count h"
        "ev_seq_num h2 = ev_seq_num h"
      using set_next_ok [of "last us" ?h1 s] ul by auto
    obtain h3 where h3: "set_prev u s h2 = Ok h3" "length (ev_nodes h3) = ?N"
        "pv h3 = (pv h)(u := s)" "nx h3 = (nx h)(last us := s)"
        "\<forall>j. ev_event (ev_nodes h3 ! j) = ev_event (ev_nodes h ! j)"
        "free_head h3 = nx h s" "used_head h3 = used_head h" "ev_count h3 = ev_count h"
        "ev_seq_num h3 = ev_seq_num h"
      using set_prev_ok [of u h2 s] ul h2 by auto
    let ?h' = "h3\<lparr>ev_count := ev_count h3 + 1, ev_seq_num := ev_seq_num h3 + 1,
      ev_nodes := (ev_nodes h3)[s := \<lparr>ev_next = u, ev_prev = last us, ev_event = v\<rparr>]\<rparr>"
    have run: "push_back v h = Ok ?h'"
      using nf fh s sn cnt uh pu ul h2 h3 Cons
      by (simp add: push_back_def heap_is_empty_def heap_len_def nx_def pv_def Let_def)
    obtain h' where h': "h' = ?h'" by simp
    have n': "nx h' = (nx h)(last us := s, s := u)" and p': "pv h' = (pv h)(u := s, s := last us)"
      and f': "free_head h' = nx h s" "used_head h' = u" "ev_count h' = Suc (length us)"
        "length (ev_nodes h') = ?N" "ev_seq_num h' = ev_seq_num h + 1"
        "ev_event (ev_nodes h' ! s) = v"
        "\<forall>i. i \<noteq> s \<longrightarrow> ev_event (ev_nodes h' ! i) = ev_event (ev_nodes h ! i)"
      unfolding h' using s h3 uh by (auto simp: fun_eq_iff nx_def pv_def nth_list_update)
    have hd: "hd us = u" using Cons by simp
    have "circ (nx h') (pv h') (us @ [s])"
      using circ_push [OF c ne du s(2)] unfolding hd n' p' .
    moreover have dj: "set us \<inter> set fs' = {}" using rep fs by (auto simp: heap_rep_def)
    then have "last us \<notin> set fs'" "u \<notin> set fs'" using ne Cons by (auto simp: disjoint_iff)
    then have keep: "nx h' x = nx h x \<and> pv h' x = pv h x" if "x \<in> set fs'" for x
      using that s(3) by (auto simp: n' p')
    have "fchain (nx h') (free_head h') fs'"
      unfolding f'(1) by (rule fchain_cong [OF _ fc]) (simp add: keep)
    moreover have "\<forall>i \<in> set fs'. pv h' i = NO_NODE" using fr keep by simp
    moreover have "distinct ((us @ [s]) @ fs')" "set (us @ [s]) \<union> set fs' = {..<?N}" "?N < NO_NODE"
      using rep fs by (auto simp: heap_rep_def)
    ultimately have "heap_rep h' (us @ [s]) fs'"
      using Cons f' by (simp add: heap_rep_def)
    then show ?thesis using run [folded h'] f' by auto
  qed
  then show ?thesis using fs by auto
qed

lemma delete_slot_ok:
  assumes rep: "heap_rep h us fs" and su: "s \<in> set us"
  shows "\<exists>h'. delete_slot s h = Ok (ev_event (ev_nodes h ! s), h') \<and>
    heap_rep h' (filter (\<lambda>i. i \<noteq> s) us) (s # fs) \<and>
    (\<forall>i. ev_event (ev_nodes h' ! i) = ev_event (ev_nodes h ! i)) \<and>
    ev_seq_num h' = ev_seq_num h \<and> length (ev_nodes h') = length (ev_nodes h)"
proof -
  let ?N = "length (ev_nodes h)" and ?p = "pv h s" and ?n = "nx h s"
  obtain xs ys where us: "us = xs @ s # ys" using su split_list by fast
  have c: "circ (nx h) (pv h) us" and du: "distinct us" and dj: "set us \<inter> set fs = {}"
    and cnt: "ev_count h = length us" and uh: "used_head h = hd us" and N: "?N < NO_NODE"
    using rep su by (auto simp: heap_rep_def)
  have pn: "?p \<in> set us" "?n \<in> set us" using circ_pv_mem [OF c su] by auto
  have lt: "s < ?N" "?p < ?N" "?n < ?N" using heap_rep_less [OF rep] su pn by auto
  have nfree: "\<not> ev_is_free (ev_nodes h ! s)" by (rule used_not_free [OF rep su])
  obtain h1 where h1: "set_next ?p ?n h = Ok h1" "length (ev_nodes h1) = ?N"
      "nx h1 = (nx h)(?p := ?n)" "pv h1 = pv h"
      "\<forall>j. ev_event (ev_nodes h1 ! j) = ev_event (ev_nodes h ! j)"
      "free_head h1 = free_head h" "used_head h1 = used_head h" "ev_count h1 = ev_count h"
      "ev_seq_num h1 = ev_seq_num h"
    using set_next_ok [of ?p h ?n] lt by blast
  obtain h2 where h2: "set_prev ?n ?p h1 = Ok h2" "length (ev_nodes h2) = ?N"
      "pv h2 = (pv h)(?n := ?p)" "nx h2 = (nx h)(?p := ?n)"
      "\<forall>j. ev_event (ev_nodes h2 ! j) = ev_event (ev_nodes h ! j)"
      "free_head h2 = free_head h" "used_head h2 = used_head h" "ev_count h2 = ev_count h"
      "ev_seq_num h2 = ev_seq_num h"
    using set_prev_ok [of ?n h1 ?p] lt h1 by auto
  let ?h3 = "if ev_count h2 = 1 then h2\<lparr>used_head := NO_NODE\<rparr>
    else if used_head h2 = s then h2\<lparr>used_head := ?n\<rparr> else h2"
  let ?h' = "?h3\<lparr>ev_count := ev_count ?h3 - 1, free_head := s,
    ev_nodes := (ev_nodes ?h3)[s := (ev_nodes ?h3 ! s)\<lparr>ev_next := free_head h, ev_prev := NO_NODE\<rparr>]\<rparr>"
  have c1: "1 \<le> ev_count h" using cnt us by simp
  have "length us < 65535" using heap_rep_length [OF rep] N by (simp add: NO_NODE_def)
  then have "1 \<le> int (ev_count h)" "int (ev_count h) < 65535" using c1 cnt by linarith+
  then have u16: "is_u16 (int (ev_count h) - 1)" by (simp add: is_u16_def int_limits)
  have u0: "is_u16 0" by (simp add: is_u16_def int_limits)
  have nodes3: "ev_nodes ?h3 = ev_nodes h2" "ev_count ?h3 = ev_count h"
    "ev_seq_num ?h3 = ev_seq_num h" using h2 by simp_all
  have run: "delete_slot s h = Ok (ev_event (ev_nodes h ! s), ?h')"
    unfolding delete_slot_def Let_def nx_def [symmetric] pv_def [symmetric]
    using lt nfree c1 h1 h2 u16 N
    by (simp add: heap_is_empty_def heap_len_def u0)
  obtain h' where h': "h' = ?h'" by simp
  have n': "nx h' = ((nx h)(?p := ?n))(s := free_head h)"
    and p': "pv h' = ((pv h)(?n := ?p))(s := NO_NODE)"
    unfolding h' h2(3,4) [symmetric] using lt h2(2)
    by (auto simp: fun_eq_iff nx_def pv_def nth_list_update)
  have f': "free_head h' = s" "ev_count h' = ev_count h - 1" "ev_seq_num h' = ev_seq_num h"
    "length (ev_nodes h') = ?N" "used_head h' = (if ev_count h = 1 then NO_NODE
      else if used_head h = s then ?n else used_head h)"
    "ev_event (ev_nodes h' ! i) = ev_event (ev_nodes h ! i)" for i
    unfolding h' using h2 lt by (simp_all add: nth_list_update)
  have snot: "s \<notin> set (xs @ ys)" using du us by auto
  then have "filter (\<lambda>i. i \<noteq> s) xs = xs" "filter (\<lambda>i. i \<noteq> s) ys = ys"
    by (auto intro!: filter_True)
  then have f: "filter (\<lambda>i. i \<noteq> s) us = xs @ ys" using us by simp
  have "circ ((nx h)(?p := ?n)) ((pv h)(?n := ?p)) (xs @ ys)"
    by (rule circ_delete) (use c du us in auto)
  then have "circ (nx h') (pv h') (xs @ ys)"
    by (rule circ_cong [rotated]) (use snot n' p' in auto)
  moreover have "fchain (nx h) (free_head h) fs" using rep by (simp add: heap_rep_def)
  then have "fchain (nx h') (free_head h) fs"
    by (rule fchain_cong [rotated]) (use dj su pn n' in auto)
  then have "fchain (nx h') (free_head h') (s # fs)" by (simp add: n' f')
  moreover have "\<forall>i \<in> set fs. pv h i = NO_NODE" using rep by (simp add: heap_rep_def)
  then have "\<forall>i \<in> set (s # fs). pv h' i = NO_NODE" using dj pn by (auto simp: p')
  moreover have "used_head h' = (if xs @ ys = [] then NO_NODE else hd (xs @ ys))"
  proof (cases xs)
    case Nil
    then show ?thesis using us uh cnt f' c by (cases ys) (auto simp: circ_def)
  next
    case (Cons x xs')
    then show ?thesis using us uh cnt f' du by auto
  qed
  moreover have "set us \<union> set fs = {..<?N}" "distinct (us @ fs)"
    using rep by (simp_all add: heap_rep_def)
  then have "set (xs @ ys) \<union> set (s # fs) = {..<?N}" "distinct ((xs @ ys) @ s # fs)"
    unfolding us by auto
  ultimately have "heap_rep h' (xs @ ys) (s # fs)"
    using N cnt us f' by (simp add: heap_rep_def)
  then show ?thesis using run [folded h'] f f' by auto
qed

lemma delete_slot_err:
  assumes rep: "heap_rep h us fs" and su: "s \<notin> set us"
  shows "delete_slot s h = Inl (Err SomeError)"
proof (cases "s < length (ev_nodes h)")
  case True
  then have "s \<in> set fs" using rep su unfolding heap_rep_def by (metis UnE lessThan_iff)
  then have "ev_is_free (ev_nodes h ! s)" using rep by (auto simp: heap_rep_def ev_is_free_def pv_def)
  then show ?thesis by (simp add: delete_slot_def)
next
  case False
  then show ?thesis by (simp add: delete_slot_def)
qed

section \<open>The queue\<close>

type_synonym slotted = "any_event \<times> nat"

definition slotted_of :: "event_heap \<Rightarrow> nat \<Rightarrow> slotted" where
  "slotted_of h i = (ev_event (ev_nodes h ! i), i)"

definition good_heap :: "event_heap \<Rightarrow> bool" where
  "good_heap h \<longleftrightarrow> (\<exists>us fs. heap_rep h us fs)"

definition heap_queue :: "event_heap \<Rightarrow> slotted list" where
  "heap_queue h = (case heap_iter h of Inl e \<Rightarrow> [] | Inr xs \<Rightarrow> xs)"

lemma heap_iter_from_ok:
  "(\<forall>(a, b) \<in> consec us. nx h a = b) \<Longrightarrow> (\<forall>i \<in> set us. i < length (ev_nodes h)) \<Longrightarrow>
   us \<noteq> [] \<longrightarrow> s = hd us \<Longrightarrow> heap_iter_from (length us) h s = Ok (map (slotted_of h) us)"
proof (induction us arbitrary: s)
  case (Cons u us)
  then have "ev_next (ev_nodes h ! u) = hd us" if "us \<noteq> []"
    using that by (cases us) (auto simp: nx_def)
  moreover have "\<forall>(a, b) \<in> consec us. nx h a = b" using Cons.prems by (cases us) auto
  ultimately show ?case using Cons by (simp add: slotted_of_def)
qed simp

lemma heap_iter_ok:
  assumes rep: "heap_rep h us fs"
  shows "heap_iter h = Ok (map (slotted_of h) us)"
  unfolding heap_iter_def heap_len_def
proof -
  have "heap_iter_from (length us) h (used_head h) = Ok (map (slotted_of h) us)"
    by (rule heap_iter_from_ok) (use rep heap_rep_less [OF rep] in \<open>auto simp: heap_rep_def circ_def\<close>)
  then show "heap_iter_from (ev_count h) h (used_head h) = Ok (map (slotted_of h) us)"
    using rep by (simp add: heap_rep_def)
qed

lemma heap_queue_ok: "heap_rep h us fs \<Longrightarrow> heap_queue h = map (slotted_of h) us"
  by (simp add: heap_queue_def heap_iter_ok)

lemma heap_len_queue: "good_heap h \<Longrightarrow> length (heap_queue h) = heap_len h"
  by (auto simp: good_heap_def heap_queue_ok heap_len_def heap_rep_def)

lemma heap_slots_distinct: "good_heap h \<Longrightarrow> distinct (map snd (heap_queue h))"
  by (auto simp: good_heap_def heap_queue_ok heap_rep_def comp_def slotted_of_def)

lemma push_back_spec:
  assumes "good_heap h" and "\<not> heap_is_full h" and "is_u64 (ev_seq_num h + 1)"
  shows "\<exists>h' s. push_back v h = Ok h' \<and> good_heap h' \<and> heap_queue h' = heap_queue h @ [(v, s)] \<and>
    ev_seq_num h' = ev_seq_num h + 1 \<and> length (ev_nodes h') = length (ev_nodes h)"
proof -
  obtain us fs where rep: "heap_rep h us fs" using assms(1) by (auto simp: good_heap_def)
  obtain h' s fs' where p: "push_back v h = Ok h'" "fs = s # fs'" "heap_rep h' (us @ [s]) fs'"
      "ev_event (ev_nodes h' ! s) = v"
      "\<forall>i. i \<noteq> s \<longrightarrow> ev_event (ev_nodes h' ! i) = ev_event (ev_nodes h ! i)"
      "ev_seq_num h' = ev_seq_num h + 1" "length (ev_nodes h') = length (ev_nodes h)"
    using push_back_ok [OF rep assms(2,3)] by blast
  have "s \<notin> set us" using rep p(2) by (auto simp: heap_rep_def)
  then have "map (slotted_of h') us = map (slotted_of h) us"
    using p(5) by (auto simp: slotted_of_def)
  then have "heap_queue h' = heap_queue h @ [(v, s)]"
    using heap_queue_ok [OF rep] heap_queue_ok [OF p(3)] p(4) by (simp add: slotted_of_def)
  then show ?thesis using p by (auto simp: good_heap_def)
qed

lemma delete_slot_spec:
  assumes "good_heap h"
  shows "if s \<in> snd ` set (heap_queue h)
    then \<exists>e h'. delete_slot s h = Ok (e, h') \<and> (e, s) \<in> set (heap_queue h) \<and> good_heap h' \<and>
      heap_queue h' = filter (\<lambda>x. snd x \<noteq> s) (heap_queue h) \<and>
      ev_seq_num h' = ev_seq_num h \<and> length (ev_nodes h') = length (ev_nodes h)
    else delete_slot s h = Inl (Err SomeError)"
proof -
  obtain us fs where rep: "heap_rep h us fs" using assms(1) by (auto simp: good_heap_def)
  have q: "heap_queue h = map (slotted_of h) us" by (rule heap_queue_ok [OF rep])
  have s: "snd ` set (heap_queue h) = set us" unfolding q by (auto simp: slotted_of_def image_image)
  show ?thesis
  proof (cases "s \<in> set us")
    case True
    obtain h' where d: "delete_slot s h = Ok (ev_event (ev_nodes h ! s), h')"
        "heap_rep h' (filter (\<lambda>i. i \<noteq> s) us) (s # fs)"
        "\<forall>i. ev_event (ev_nodes h' ! i) = ev_event (ev_nodes h ! i)"
        "ev_seq_num h' = ev_seq_num h" "length (ev_nodes h') = length (ev_nodes h)"
      using delete_slot_ok [OF rep True] by blast
    have "heap_queue h' = filter (\<lambda>x. snd x \<noteq> s) (heap_queue h)"
      unfolding heap_queue_ok [OF d(2)] q
      using d(3) by (simp add: filter_map comp_def slotted_of_def)
    moreover have "(ev_event (ev_nodes h ! s), s) \<in> set (heap_queue h)"
      unfolding q using True by (auto simp: slotted_of_def)
    ultimately show ?thesis using d True s by (auto simp: good_heap_def)
  next
    case False
    then show ?thesis using delete_slot_err [OF rep False] s by simp
  qed
qed

lemma pop_front_spec:
  assumes "good_heap h"
  shows "case heap_queue h of [] \<Rightarrow> pop_front h = Inl (Err SomeError)
    | (e, s) # q \<Rightarrow> \<exists>h'. pop_front h = Ok (e, h') \<and> good_heap h' \<and> heap_queue h' = q \<and>
        ev_seq_num h' = ev_seq_num h \<and> length (ev_nodes h') = length (ev_nodes h)"
proof -
  obtain us fs where rep: "heap_rep h us fs" using assms(1) by (auto simp: good_heap_def)
  have q: "heap_queue h = map (slotted_of h) us" by (rule heap_queue_ok [OF rep])
  show ?thesis
  proof (cases us)
    case Nil
    then have "delete_slot (used_head h) h = Inl (Err SomeError)" by (intro delete_slot_err [OF rep]) simp
    then show ?thesis using q Nil by (simp add: pop_front_def)
  next
    case (Cons u vs)
    have uh: "used_head h = u" and du: "distinct us" using rep Cons by (auto simp: heap_rep_def)
    have "u \<in> snd ` set (heap_queue h)" using q Cons by (auto simp: slotted_of_def)
    then obtain e h' where d: "delete_slot u h = Ok (e, h')" "(e, u) \<in> set (heap_queue h)" "good_heap h'"
        "heap_queue h' = filter (\<lambda>x. snd x \<noteq> u) (heap_queue h)"
        "ev_seq_num h' = ev_seq_num h" "length (ev_nodes h') = length (ev_nodes h)"
      using delete_slot_spec [OF assms, of u] by auto
    have "e = ev_event (ev_nodes h ! u)" using d(2) q by (auto simp: slotted_of_def)
    moreover have "filter (\<lambda>x. snd x \<noteq> u) (map (slotted_of h) vs) = map (slotted_of h) vs"
      using du Cons by (intro filter_True) (auto simp: slotted_of_def)
    ultimately show ?thesis using d uh q Cons by (auto simp: pop_front_def slotted_of_def)
  qed
qed

lemma heap_init_good:
  assumes "0 < length (ev_nodes h)" and "length (ev_nodes h) < NO_NODE"
  shows "good_heap (heap_init h) \<and> heap_queue (heap_init h) = []"
proof -
  let ?n = "length (ev_nodes h)" and ?h = "heap_init h"
  have nxh: "nx ?h i = (if i = ?n - 1 then NO_NODE else i + 1)" "pv ?h i = NO_NODE" if "i < ?n" for i
    using that by (simp_all add: heap_init_def nx_def pv_def Let_def)
  have ch: "k \<le> ?n \<Longrightarrow> fchain (nx ?h) (if k = 0 then NO_NODE else ?n - k) [?n - k..<?n]" for k
  proof (induction k)
    case (Suc k)
    have "[?n - Suc k..<?n] = (?n - Suc k) # [?n - k..<?n]"
      using Suc.prems by (simp add: upt_conv_Cons Suc_diff_Suc)
    moreover have "nx ?h (?n - Suc k) = (if k = 0 then NO_NODE else ?n - k)"
      using Suc.prems nxh(1) [of "?n - Suc k"] by auto
    ultimately show ?case using Suc by auto
  qed simp
  have "heap_rep ?h [] [0..<?n]"
    using ch [of ?n] assms nxh
    by (auto simp: heap_rep_def circ_def heap_init_def Let_def atLeast0LessThan)
  then show ?thesis using heap_queue_ok by (auto simp: good_heap_def)
qed

section \<open>The contract of an event queue\<close>

locale event_queue =
  fixes inv :: "'q \<Rightarrow> bool"
    and contents :: "'q \<Rightarrow> slotted list"
    and room :: "'q \<Rightarrow> bool"
    and push :: "any_event \<Rightarrow> 'q \<Rightarrow> 'q res"
    and pop :: "'q \<Rightarrow> (any_event \<times> 'q) res"
  assumes push_law: "inv q \<Longrightarrow> room q \<Longrightarrow>
      \<exists>q' s. push v q = Ok q' \<and> inv q' \<and> contents q' = contents q @ [(v, s)]"
    and pop_law: "inv q \<Longrightarrow> contents q = (e, s) # es \<Longrightarrow>
      \<exists>q'. pop q = Ok (e, q') \<and> inv q' \<and> contents q' = es"
    and pop_empty: "inv q \<Longrightarrow> contents q = [] \<Longrightarrow> pop q = Inl (Err SomeError)"
begin

fun drain :: "nat \<Rightarrow> 'q \<Rightarrow> (any_event list \<times> 'q) res" where
  "drain 0 q = Ok ([], q)"
| "drain (Suc n) q = bnd (pop q) (\<lambda>(e, q'). bnd (drain n q') (\<lambda>(es, q''). Ok (e # es, q'')))"

lemma drain_ok:
  "inv q \<Longrightarrow> n \<le> length (contents q) \<Longrightarrow>
   \<exists>q'. drain n q = Ok (map fst (take n (contents q)), q') \<and> inv q' \<and> contents q' = drop n (contents q)"
proof (induction n arbitrary: q)
  case (Suc n)
  then obtain e s es where c: "contents q = (e, s) # es" by (cases "contents q") auto
  obtain q1 where "pop q = Ok (e, q1)" "inv q1" "contents q1 = es"
    using pop_law [OF Suc.prems(1) c] by blast
  with Suc.IH [of q1] Suc.prems c show ?case by auto
qed simp

text \<open>Events come out in the order in which they went in.\<close>

lemma push_then_drain:
  assumes "inv q" and "room q"
  shows "\<exists>q1 q2. push v q = Ok q1 \<and>
    drain (Suc (length (contents q))) q1 = Ok (map fst (contents q) @ [v], q2) \<and> contents q2 = []"
proof -
  obtain q1 s where q1: "push v q = Ok q1" "inv q1" "contents q1 = contents q @ [(v, s)]"
    using push_law [OF assms] by blast
  show ?thesis using drain_ok [OF q1(2), of "Suc (length (contents q))"] q1 by auto
qed

end

definition heap_room :: "event_heap \<Rightarrow> bool" where
  "heap_room h \<longleftrightarrow> \<not> heap_is_full h \<and> is_u64 (ev_seq_num h + 1)"

interpretation evq: event_queue good_heap heap_queue heap_room push_back pop_front
proof
  show "\<exists>q' s. push_back v q = Ok q' \<and> good_heap q' \<and> heap_queue q' = heap_queue q @ [(v, s)]"
    if "good_heap q" "heap_room q" for q v
    using push_back_spec [of q v] that by (auto simp: heap_room_def)
  show "\<exists>q'. pop_front q = Ok (e, q') \<and> good_heap q' \<and> heap_queue q' = es"
    if "good_heap q" "heap_queue q = (e, s) # es" for q e s es
    using pop_front_spec [of q] that by auto
  show "pop_front q = Inl (Err SomeError)" if "good_heap q" "heap_queue q = []" for q
    using pop_front_spec [of q] that by auto
qed

end
