(* ===== verification/Accounting.thy ===== *)
theory Accounting
  imports Orderbook_Invariant Event_Heap_Correct
begin

text \<open>
  Accounting of a new order. The claims on the market's vaults are what the users have free or
  locked, what the market itself has put aside, and what the events that are still to be
  consumed will credit or debit. Matching, dropping, cancelling and posting move claims around;
  a new order adds exactly what it costs. Tokens are named by the side that pays with them:
  \<open>Bid\<close> stands for the quote token, \<open>Ask\<close> for the base token.
\<close>

section \<open>Claims\<close>

definition holdings :: "side \<Rightarrow> market \<Rightarrow> open_orders_account \<Rightarrow> int" where
  "holdings t m oo = (case t of Bid \<Rightarrow> quote_holdings m oo | Ask \<Rightarrow> base_holdings m oo)"

definition fill_quote :: "market \<Rightarrow> fill_event \<Rightarrow> int" where
  "fill_quote m f = fe_quantity f * fe_price f * quote_lot_size m"

definition fill_base :: "market \<Rightarrow> fill_event \<Rightarrow> int" where
  "fill_base m f = fe_quantity f * base_lot_size m"

definition fill_rebate :: "market \<Rightarrow> fill_event \<Rightarrow> int" where
  "fill_rebate m f = (if fe_maker f = fe_taker f then 0
     else case maker_rebate_floor m (fill_quote m f) of Inl e \<Rightarrow> 0 | Inr r \<Rightarrow> r)"

text \<open>What a taker of a side owes is counted positive for a bid, negative for an ask.\<close>

definition by_side :: "side \<Rightarrow> int \<Rightarrow> int" where
  "by_side s x = (case s of Bid \<Rightarrow> x | Ask \<Rightarrow> - x)"

definition event_claim :: "side \<Rightarrow> market \<Rightarrow> any_event \<Rightarrow> int" where
  "event_claim t m ev = (case ev of OutEv out \<Rightarrow> 0
   | FillEv f \<Rightarrow> (case t of
       Bid \<Rightarrow> by_side (fe_taker_side f) (fill_quote m f) + fill_rebate m f
     | Ask \<Rightarrow> - by_side (fe_taker_side f) (fill_base m f)))"

definition market_claim :: "side \<Rightarrow> market \<Rightarrow> int" where
  "market_claim t m = (case t of Bid \<Rightarrow> referrer_rebates_accrued m + fees_available m | Ask \<Rightarrow> 0)"

definition acc_value :: "(open_orders_account \<Rightarrow> int) \<Rightarrow> remaining_acc option \<Rightarrow> int" where
  "acc_value f a = (case a of Some (OpenOrdersAcc oo) \<Rightarrow> f oo | _ \<Rightarrow> 0)"

definition accs_total :: "(open_orders_account \<Rightarrow> int) \<Rightarrow> remaining_accs \<Rightarrow> int" where
  "accs_total f accs = (\<Sum>k \<in> fst ` set accs. acc_value f (map_of accs k))"

definition events_total :: "(any_event \<Rightarrow> int) \<Rightarrow> event_heap \<Rightarrow> int" where
  "events_total f h = sum_list (map (\<lambda>x. f (fst x)) (heap_queue h))"

definition own_value :: "(open_orders_account \<Rightarrow> int) \<Rightarrow> open_orders_account option \<Rightarrow> int" where
  "own_value f a = (case a of None \<Rightarrow> 0 | Some oo \<Rightarrow> f oo)"

definition claims :: "side \<Rightarrow> accounts \<Rightarrow> int" where
  "claims t ac = market_claim t (ac_market ac) + own_value (holdings t (ac_market ac)) (ac_ooa ac) +
     accs_total (holdings t (ac_market ac)) (ac_remaining ac) +
     events_total (event_claim t (ac_market ac)) (ac_heap ac)"

lemma own_value_simps [simp]: "own_value f None = 0" "own_value f (Some oo) = f oo"
  by (simp_all add: own_value_def)

lemma acc_value_simps [simp]:
  "acc_value f None = 0" "acc_value f (Some UnloadableAcc) = 0"
  "acc_value f (Some (OpenOrdersAcc oo)) = f oo"
  by (simp_all add: acc_value_def)

text \<open>Claims depend on the market through its lot sizes and fees only.\<close>

definition same_rates :: "market \<Rightarrow> market \<Rightarrow> bool" where
  "same_rates m m' \<longleftrightarrow> base_lot_size m' = base_lot_size m \<and> quote_lot_size m' = quote_lot_size m \<and>
     maker_fee m' = maker_fee m"

lemma same_terms_rates: "same_terms m m' \<Longrightarrow> same_rates m m'"
  by (simp add: same_terms_def same_rates_def)

lemma same_rates_claims:
  assumes "same_rates m m'"
  shows "holdings t m' = holdings t m" and "event_claim t m' = event_claim t m"
proof -
  have r: "maker_rebate_floor m' = maker_rebate_floor m"
    using assms by (simp add: same_rates_def fun_eq_iff maker_rebate_floor_def unsigned_maker_fees_floor_def)
  have q: "fill_quote m' = fill_quote m" "fill_base m' = fill_base m"
    using assms by (simp_all add: same_rates_def fun_eq_iff fill_quote_def fill_base_def)
  show "holdings t m' = holdings t m"
    using assms by (cases t) (simp_all add: same_rates_def fun_eq_iff holdings_def quote_holdings_def base_holdings_def)
  show "event_claim t m' = event_claim t m"
  proof
    fix ev
    show "event_claim t m' ev = event_claim t m ev"
      by (cases ev; cases t) (simp_all add: event_claim_def fill_rebate_def r q)
  qed
qed

lemmas same_terms_claims = same_rates_claims [OF same_terms_rates]

lemma map_of_store:
  "map_of accs k \<noteq> None \<Longrightarrow> map_of (store_acc k oo accs) = (map_of accs)(k \<mapsto> OpenOrdersAcc oo)"
  by (induction accs) (auto simp: fun_eq_iff)

lemma store_keys [simp]: "fst ` set (store_acc k oo accs) = fst ` set accs"
proof -
  have "map fst (store_acc k oo accs) = map fst accs" by (induction accs) auto
  then show ?thesis by (metis set_map)
qed

lemma accs_total_store:
  assumes "map_of accs k = Some (OpenOrdersAcc oo)"
  shows "accs_total f (store_acc k oo' accs) = accs_total f accs - f oo + f oo'"
proof -
  let ?K = "fst ` set accs"
  have k: "k \<in> ?K" using assms map_of_SomeD [OF assms] by (metis fst_conv image_eqI)
  have m: "map_of (store_acc k oo' accs) = (map_of accs)(k \<mapsto> OpenOrdersAcc oo')"
    using assms by (intro map_of_store) simp
  have "accs_total f (store_acc k oo' accs) =
      f oo' + (\<Sum>x \<in> ?K - {k}. acc_value f (map_of (store_acc k oo' accs) x))"
    unfolding accs_total_def store_keys by (subst sum.remove [OF _ k]) (simp_all add: m)
  also have "(\<Sum>x \<in> ?K - {k}. acc_value f (map_of (store_acc k oo' accs) x)) =
      (\<Sum>x \<in> ?K - {k}. acc_value f (map_of accs x))"
    by (rule sum.cong) (simp_all add: m)
  also have "\<dots> = accs_total f accs - f oo"
    unfolding accs_total_def by (subst sum.remove [OF _ k]) (simp_all add: assms)
  finally show ?thesis by simp
qed

lemma push_back_queue:
  assumes "good_heap h" and "push_back ev h = Ok h'"
  shows "good_heap h' \<and> (\<exists>s. heap_queue h' = heap_queue h @ [(ev, s)])"
proof -
  have "\<not> heap_is_full h" using assms(2) by (simp add: push_back_def res_simps)
  moreover have "ev_seq_num h4 = ev_seq_num h" if "set_next i x h = Ok h2" "set_prev j y h2 = Ok h4" for i x j y h2 h4
    using that by (auto simp: set_next_def set_prev_def res_simps)
  then have "is_u64 (ev_seq_num h + 1)"
    using assms(2) by (auto simp: push_back_def Let_def res_simps set_next_def set_prev_def split: if_splits)
  ultimately show ?thesis using push_back_spec [OF assms(1), of ev] assms(2) by auto
qed

lemma events_total_push:
  "good_heap h \<Longrightarrow> push_back ev h = Ok h' \<Longrightarrow> events_total f h' = events_total f h + f ev"
  using push_back_queue [of h ev h'] by (auto simp: events_total_def)

section \<open>Accounts between two steps\<close>

definition account_ok :: "open_orders_account \<Rightarrow> bool" where
  "account_ok oo \<longleftrightarrow> (\<forall>x \<in> set (open_orders oo). 0 \<le> oo_locked_price x)"

definition freed :: "open_orders_account \<Rightarrow> open_orders_account \<Rightarrow> bool" where
  \<comment> \<open>the order slots are the same, but for one that may have been freed\<close>
  "freed oo oo' \<longleftrightarrow> open_orders oo' = open_orders oo \<or>
     (\<exists>i. open_orders oo' = (open_orders oo)[i := open_order_default])"

definition slot_side :: "side \<Rightarrow> nat \<Rightarrow> open_orders_account \<Rightarrow> bool" where
  \<comment> \<open>a slot in use holds an order of the side\<close>
  "slot_side s i oo \<longleftrightarrow> (i < length (open_orders oo) \<longrightarrow> \<not> oo_is_free (open_orders oo ! i) \<longrightarrow>
     sat_side (oo_side_and_tree (open_orders oo ! i)) = s)"

lemma open_order_default_simps [simp]:
  "oo_is_free open_order_default" "oo_locked_price open_order_default = 0"
  by (simp_all add: open_order_default_def)

lemma freed_ok: "freed oo oo' \<Longrightarrow> account_ok oo \<Longrightarrow> account_ok oo'"
  by (auto simp: freed_def account_ok_def dest!: subsetD [OF set_update_subset_insert])

lemma freed_slot: "freed oo oo' \<Longrightarrow> slot_side s i oo \<Longrightarrow> slot_side s i oo'"
proof (unfold freed_def, elim disjE exE)
  fix j
  assume "open_orders oo' = (open_orders oo)[j := open_order_default]" "slot_side s i oo"
  then show ?thesis by (cases "j = i") (auto simp: slot_side_def)
qed (simp add: slot_side_def)

lemma cancel_slot_steps:
  assumes "cancel_slot slot q m oo = Ok oo'"
  obtains pa where "remove_order slot q (oo_locked_price (open_orders oo ! slot)) (oo\<lparr>oo_position := pa\<rparr>) = Ok oo'"
    and "slot < length (open_orders oo)"
  using assms unfolding cancel_slot_def Let_def by (auto simp: res_simps)

lemma cancel_slot_claims:
  assumes c: "cancel_slot slot q m oo = Ok oo'" and ok: "account_ok oo" "market_ok m" and q: "0 \<le> q"
  shows "holdings t m oo' = holdings t m oo \<and> freed oo oo'"
proof -
  obtain pa where r: "remove_order slot q (oo_locked_price (open_orders oo ! slot)) (oo\<lparr>oo_position := pa\<rparr>) = Ok oo'"
      "slot < length (open_orders oo)"
    by (rule cancel_slot_steps [OF c])
  have "freed oo oo'" using remove_order_ok(3) [OF r(1)] by (auto simp: freed_def)
  moreover have "0 \<le> oo_locked_price (open_orders oo ! slot)" using ok(1) r(2) by (simp add: account_ok_def)
  then have "holdings t m oo' = holdings t m oo"
    using cancel_slot_holdings [OF c q] ok(2) by (cases t) (simp_all add: holdings_def market_ok_def)
  ultimately show ?thesis by simp
qed

definition fill_ok :: "fill_event \<Rightarrow> bool" where
  "fill_ok f \<longleftrightarrow> 0 \<le> fe_quantity f \<and> 0 \<le> fe_price f \<and> (fe_peg_limit f = -1 \<or> 0 \<le> fe_peg_limit f)"

lemma execute_maker_frees:
  assumes e: "execute_maker fill m oo = Ok (oo', m')" and n: "0 \<le> fill_quote m fill"
  shows "freed oo oo' \<and> fees_available m' = fees_available m \<and>
    referrer_rebates_accrued m' - referrer_rebates_accrued m = fees_accrued m' - fees_accrued m \<and>
    (fe_maker_out fill \<longrightarrow> fe_maker_slot fill < length (open_orders oo) \<and>
       \<not> oo_is_free (open_orders oo ! fe_maker_slot fill))"
proof (rule execute_maker_steps [OF e n [unfolded fill_quote_def]])
  fix fees lp pa1 pa2
  assume a: "account_maker_volume (fe_quantity fill * fe_price fill * quote_lot_size m) fees m pa1 = Ok (pa2, m')"
    and r: "release_maker_lots fill (invert_side (fe_taker_side fill)) lp (oo\<lparr>oo_position := pa2\<rparr>) = Ok oo'"
  have "freed oo oo' \<and> (fe_maker_out fill \<longrightarrow> fe_maker_slot fill < length (open_orders oo) \<and>
      \<not> oo_is_free (open_orders oo ! fe_maker_slot fill))"
  proof (cases "fe_maker_out fill")
    case True
    then have "remove_order (fe_maker_slot fill) (fe_quantity fill) lp (oo\<lparr>oo_position := pa2\<rparr>) = Ok oo'"
      using r by (simp add: release_maker_lots_def)
    from remove_order_ok(1-3) [OF this] show ?thesis by (auto simp: freed_def)
  next
    case False
    then have "open_orders oo' = open_orders oo"
      using r by (auto simp: release_maker_lots_def Let_def res_simps split: side.splits)
    then show ?thesis using False by (simp add: freed_def)
  qed
  then show ?thesis using account_maker_volume_ok(2) [OF a] by simp
qed

lemma execute_maker_claims:
  assumes e: "execute_maker fill m oo = Ok (oo', m')" and f: "fill_ok fill" and mk: "market_ok m"
    and slot: "fe_maker_out fill \<Longrightarrow> slot_side (invert_side (fe_taker_side fill)) (fe_maker_slot fill) oo"
  shows "holdings t m oo' + market_claim t m' =
    holdings t m oo + market_claim t m + event_claim t m (FillEv fill)"
proof -
  have q: "0 \<le> fe_quantity fill" "0 \<le> fe_price fill" "fe_peg_limit fill = -1 \<or> 0 \<le> fe_peg_limit fill"
    using f by (simp_all add: fill_ok_def)
  have lots: "0 < base_lot_size m" "0 < quote_lot_size m" using mk by (simp_all add: market_ok_def)
  have n: "0 \<le> fill_quote m fill" using q lots by (simp add: fill_quote_def)
  note fr = execute_maker_frees [OF e n]
  have sl: "sat_side (oo_side_and_tree (open_orders oo ! fe_maker_slot fill)) = invert_side (fe_taker_side fill)"
    if "fe_maker_out fill" using that fr slot by (simp add: slot_side_def)
  show ?thesis
  proof (cases "fe_taker_side fill")
    case Ask
    then obtain fees rebate where x: "if fe_maker fill = fe_taker fill then fees = 0 \<and> rebate = 0
        else maker_fees_floor m (fill_quote m fill) = Ok fees \<and> maker_rebate_floor m (fill_quote m fill) = Ok rebate"
      "quote_holdings m oo' = quote_holdings m oo - fill_quote m fill - fees + rebate"
      "base_holdings m oo' = base_holdings m oo + fill_base m fill" "fees_accrued m' = fees_accrued m + fees"
      using execute_maker_bid [OF e Ask q(1,2) lots q(3), folded fill_quote_def fill_base_def] sl Ask by auto
    have "fill_rebate m fill = rebate" using x(1) by (auto simp: fill_rebate_def split: if_splits)
    then show ?thesis using x Ask fr
      by (cases t) (simp_all add: holdings_def market_claim_def event_claim_def by_side_def)
  next
    case Bid
    then obtain fees rebate where x: "maker_fee_and_rebate m fill (fill_quote m fill) = Ok (fees, rebate)"
      "quote_holdings m oo' = quote_holdings m oo + fill_quote m fill - fees + rebate"
      "base_holdings m oo' = base_holdings m oo - fill_base m fill" "fees_accrued m' = fees_accrued m + fees"
      using execute_maker_ask [OF e Bid q(1,2) lots, folded fill_quote_def fill_base_def] sl Bid by auto
    have "fill_rebate m fill = rebate"
      using x(1) by (auto simp: fill_rebate_def maker_fee_and_rebate_def res_simps split: if_splits)
    then show ?thesis using x Bid fr
      by (cases t) (simp_all add: holdings_def market_claim_def event_claim_def by_side_def)
  qed
qed

section \<open>Events\<close>

definition event_fine :: "any_event \<Rightarrow> bool" where
  "event_fine ev = (case ev of OutEv out \<Rightarrow> 0 \<le> oe_quantity out | FillEv f \<Rightarrow> fill_ok f)"

definition heap_fine :: "event_heap \<Rightarrow> bool" where
  "heap_fine h \<longleftrightarrow> good_heap h \<and> (\<forall>x \<in> set (heap_queue h). event_fine (fst x))"

lemma heap_fine_push:
  assumes "heap_fine h" and "push_back ev h = Ok h'" and "event_fine ev"
  shows "heap_fine h'"
  using assms push_back_queue [of h ev h'] by (auto simp: heap_fine_def)

definition ac_fine :: "side \<Rightarrow> leaf_node set \<Rightarrow> accounts \<Rightarrow> bool" where
  \<comment> \<open>accounts that hold orders of the book side \<open>s\<close> with the leaves \<open>L\<close>\<close>
  "ac_fine s L ac \<longleftrightarrow> heap_fine (ac_heap ac) \<and>
     (\<forall>oo. ac_ooa ac = Some oo \<longrightarrow> account_ok oo) \<and>
     (\<forall>k oo. map_of (ac_remaining ac) k = Some (OpenOrdersAcc oo) \<longrightarrow> account_ok oo \<and>
       (\<forall>l \<in> L. leaf_owner l = k \<longrightarrow> slot_side s (owner_slot l) oo))"

lemma ac_fine_own:
  "ac_fine s L ac \<Longrightarrow> account_ok oo \<Longrightarrow> ac_fine s L (ac\<lparr>ac_ooa := Some oo\<rparr>)"
  by (simp add: ac_fine_def)

lemma ac_fine_market [simp]: "ac_fine s L (ac\<lparr>ac_market := m\<rparr>) \<longleftrightarrow> ac_fine s L ac"
  by (simp add: ac_fine_def)

lemma ac_fine_store:
  assumes "ac_fine s L ac" and "map_of (ac_remaining ac) k = Some (OpenOrdersAcc oo)" and "freed oo oo'"
  shows "ac_fine s L (ac\<lparr>ac_remaining := store_acc k oo' (ac_remaining ac)\<rparr>)"
  using assms freed_ok [OF assms(3)] freed_slot [OF assms(3)]
  by (auto simp: ac_fine_def map_of_store split: if_splits)

lemma ac_fine_push:
  "ac_fine s L ac \<Longrightarrow> push_back ev (ac_heap ac) = Ok h \<Longrightarrow> event_fine ev \<Longrightarrow>
   ac_fine s L (ac\<lparr>ac_heap := h\<rparr>)"
  using heap_fine_push [of "ac_heap ac" ev h] by (auto simp: ac_fine_def)

lemma load_mut_eq [res_simps]: "load_mut a = Inr oo \<longleftrightarrow> a = OpenOrdersAcc oo"
  by (cases a) (auto simp: load_mut_def)

lemma claims_own:
  "ac_ooa ac = Some oo \<Longrightarrow> claims t (ac\<lparr>ac_ooa := Some oo'\<rparr>) =
     claims t ac - holdings t (ac_market ac) oo + holdings t (ac_market ac) oo'"
  by (simp add: claims_def)

lemma claims_push:
  "good_heap (ac_heap ac) \<Longrightarrow> push_back ev (ac_heap ac) = Ok h \<Longrightarrow>
   claims t (ac\<lparr>ac_heap := h\<rparr>) = claims t ac + event_claim t (ac_market ac) ev"
  by (simp add: claims_def events_total_push)

lemma claims_store:
  "map_of (ac_remaining ac) k = Some (OpenOrdersAcc oo) \<Longrightarrow>
   claims t (ac\<lparr>ac_remaining := store_acc k oo' (ac_remaining ac)\<rparr>) =
     claims t ac - holdings t (ac_market ac) oo + holdings t (ac_market ac) oo'"
  by (simp add: claims_def accs_total_store)

lemma claims_market:
  "same_rates (ac_market ac) m \<Longrightarrow> claims t (ac\<lparr>ac_market := m\<rparr>) =
     claims t ac - market_claim t (ac_market ac) + market_claim t m"
  by (simp add: claims_def same_rates_claims)

lemma queue_out_event_claims:
  assumes p: "queue_out_event ev ac = Ok ac'" and f: "ac_fine s L ac" and mk: "market_ok (ac_market ac)"
    and q: "0 \<le> oe_quantity ev"
  shows "claims t ac' = claims t ac \<and> ac_fine s L ac' \<and> ac_market ac' = ac_market ac \<and> ac_ooa ac' = ac_ooa ac"
proof (cases "map_of (ac_remaining ac) (oe_owner ev)")
  case None
  then obtain h where h: "push_back (OutEv ev) (ac_heap ac) = Ok h" "ac' = ac\<lparr>ac_heap := h\<rparr>"
    using p by (auto simp: queue_out_event_def res_simps)
  have "good_heap (ac_heap ac)" using f by (simp add: ac_fine_def heap_fine_def)
  then show ?thesis
    using claims_push [OF _ h(1)] ac_fine_push [OF f h(1)] h(2) q by (simp add: event_claim_def event_fine_def)
next
  case (Some a)
  then obtain oo oo' where o: "a = OpenOrdersAcc oo"
      "cancel_slot (oe_owner_slot ev) (oe_quantity ev) (ac_market ac) oo = Ok oo'"
      "ac' = ac\<lparr>ac_remaining := store_acc (oe_owner ev) oo' (ac_remaining ac)\<rparr>"
    using p by (auto simp: queue_out_event_def res_simps)
  have "account_ok oo" using f Some o(1) by (auto simp: ac_fine_def)
  note c = cancel_slot_claims [OF o(2) this mk q]
  show ?thesis
    using c claims_store [of ac "oe_owner ev" oo t oo'] ac_fine_store [OF f, of "oe_owner ev" oo oo'] Some o
    by simp
qed

lemma process_out_event_claims:
  assumes p: "process_out_event ev owner ac = Ok ac'" and f: "ac_fine s L ac"
    and mk: "market_ok (ac_market ac)" and q: "0 \<le> oe_quantity ev"
  shows "claims t ac' = claims t ac \<and> ac_fine s L ac' \<and> ac_market ac' = ac_market ac \<and>
    (ac_ooa ac' = None \<longleftrightarrow> ac_ooa ac = None)"
proof (cases "ac_ooa ac \<noteq> None \<and> owner = oe_owner ev")
  case True
  then obtain oo oo' where o: "ac_ooa ac = Some oo"
      "cancel_slot (oe_owner_slot ev) (oe_quantity ev) (ac_market ac) oo = Ok oo'"
      "ac' = ac\<lparr>ac_ooa := Some oo'\<rparr>"
    using p by (auto simp: process_out_event_def res_simps)
  have ok: "account_ok oo" using f o(1) by (simp add: ac_fine_def)
  note c = cancel_slot_claims [OF o(2) ok mk q]
  show ?thesis using c claims_own [OF o(1), of t oo'] ac_fine_own [OF f freed_ok [OF _ ok]] o by simp
next
  case False
  then have "queue_out_event ev ac = Ok ac'"
    using p by (auto simp: process_out_event_def split: option.splits if_splits)
  from queue_out_event_claims [OF this f mk q] show ?thesis by simp
qed

lemma process_fill_event_claims:
  assumes p: "process_fill_event fill n ac = Ok (n', ac')" and f: "ac_fine s L ac"
    and mk: "market_ok (ac_market ac)" and fo: "fill_ok fill"
    and l: "l \<in> L" "fe_maker fill = leaf_owner l" "fe_maker_slot fill = owner_slot l"
      "fe_taker_side fill = invert_side s"
  shows "claims t ac' = claims t ac + event_claim t (ac_market ac) (FillEv fill) \<and> ac_fine s L ac' \<and>
    ac_ooa ac' = ac_ooa ac"
proof (cases "if n < FILL_EVENT_REMAINING_LIMIT then map_of (ac_remaining ac) (fe_maker fill) else None")
  case None
  then obtain h where h: "push_back (FillEv fill) (ac_heap ac) = Ok h" "ac' = ac\<lparr>ac_heap := h\<rparr>"
    using p by (auto simp: process_fill_event_def res_simps)
  have "good_heap (ac_heap ac)" using f by (simp add: ac_fine_def heap_fine_def)
  then show ?thesis using claims_push [OF _ h(1)] ac_fine_push [OF f h(1)] h(2) fo by (simp add: event_fine_def)
next
  case (Some a)
  then obtain oo oo' m' where o: "a = OpenOrdersAcc oo"
      "execute_maker fill (ac_market ac) oo = Ok (oo', m')"
      "ac' = ac\<lparr>ac_market := m', ac_remaining := store_acc (fe_maker fill) oo' (ac_remaining ac)\<rparr>"
    using p by (auto simp: process_fill_event_def res_simps)
  have k: "map_of (ac_remaining ac) (fe_maker fill) = Some (OpenOrdersAcc oo)"
    using Some o(1) by (auto split: if_splits)
  have "slot_side s (owner_slot l) oo" using f k l by (auto simp: ac_fine_def)
  then have c: "holdings t (ac_market ac) oo' + market_claim t m' = holdings t (ac_market ac) oo +
      market_claim t (ac_market ac) + event_claim t (ac_market ac) (FillEv fill)"
    using execute_maker_claims [OF o(2) fo mk, of t] l by simp
  have "0 \<le> fill_quote (ac_market ac) fill"
    using fo mk by (simp add: fill_ok_def market_ok_def fill_quote_def)
  then have fr: "freed oo oo'" using execute_maker_frees [OF o(2)] by simp
  have st: "same_terms (ac_market ac) m'" by (rule execute_maker_terms [OF o(2)])
  let ?ac1 = "ac\<lparr>ac_remaining := store_acc (fe_maker fill) oo' (ac_remaining ac)\<rparr>"
  have e: "ac' = ?ac1\<lparr>ac_market := m'\<rparr>" using o(3) by simp
  have "claims t ac' = claims t ?ac1 - market_claim t (ac_market ac) + market_claim t m'"
    unfolding e using claims_market [of ?ac1 m' t] same_terms_rates [OF st] by simp
  then show ?thesis
    using claims_store [OF k, of t oo'] c ac_fine_store [OF f k fr] same_terms_claims(1) [OF st, of t] o(3)
    by (simp add: e)
qed

end
