(* ===== verification/Accounting_Match.thy ===== *)
theory Accounting_Match
  imports Accounting
begin

text \<open>
  The accounting of the matching loop and of what follows it: every fill, drop and cancellation
  changes the claims by what the taker has taken so far and the rebates promised to makers, and
  the final accounting and the posting of the rest add exactly what the order costs.
\<close>

section \<open>One iteration\<close>

lemma maker_rebate_bounds:
  assumes "maker_rebate_floor m x = Ok r" and "fee_ok m" and "0 \<le> x" and "x \<le> U64_MAX"
  shows "0 \<le> r \<and> r * FEES_SCALE_FACTOR \<le> x * \<bar>maker_fee m\<bar>"
proof (cases "maker_fee m > 0")
  case True
  then show ?thesis using assms by (simp add: maker_rebate_floor_def)
next
  case False
  then have r: "r = x * \<bar>maker_fee m\<bar> div FEES_SCALE_FACTOR"
    using assms unsigned_floor_eq [OF assms(2-4)] by (simp add: maker_rebate_floor_def)
  have "0 \<le> x * \<bar>maker_fee m\<bar>" using assms(3) by simp
  then show ?thesis
    unfolding r using scale_pos by (simp add: pos_imp_zdiv_nonneg_iff minus_mod_eq_div_mult [symmetric])
qed

lemma self_trade_cases:
  assumes "self_trade_step order owner best mq st = Ok r"
  obtains
    (self) st' where "r = Proceed st'" "ac_ooa (mt_acc st) \<noteq> None" "owner = leaf_owner (item_node best)"
      "st' = st\<lparr>mt_decremented := mt_decremented st + mq\<rparr>"
  | (other) st' x where "r = Proceed st'"
      "ac_ooa (mt_acc st) = None \<or> owner \<noteq> leaf_owner (item_node best)"
      "is_i64 (mq * quote_lot_size (ac_market (mt_acc st)))"
      "maker_rebate_floor (ac_market (mt_acc st))
        (as_u64 (mq * quote_lot_size (ac_market (mt_acc st)))) = Ok x"
      "st' = st\<lparr>mt_rebates := mt_rebates st + x\<rparr>"
  | (cancelled) st' acc acc' where "r = SkipMatch st'" "ac_ooa (mt_acc st) = Some acc"
      "cancel_slot (owner_slot (item_node best)) (quantity (item_node best))
        (ac_market (mt_acc st)) acc = Ok acc'"
      "mt_acc st' = (mt_acc st)\<lparr>ac_ooa := Some acc'\<rparr>" "mt_base st' = mt_base st"
      "mt_quote st' = mt_quote st" "mt_decremented st' = mt_decremented st" "mt_rebates st' = mt_rebates st"
  using assms
  by (auto simp: self_trade_step_def rebate_step_def Let_def res_simps
      split: option.splits if_splits self_trade_behavior.splits)

lemma fill_order_steps:
  assumes "fill_order order owner now_ts best mb mq st = Ok st'"
  obtains out n n' where
    "process_fill_event (fill_event_new (o_side order) out (owner_slot (item_node best)) now_ts
        (seq_num (ac_market (mt_acc st))) (leaf_owner (item_node best))
        (client_order_id (item_node best)) (timestamp (item_node best)) owner (o_client_order_id order)
        (item_price_lots best) (peg_limit (item_node best)) mb) n (mt_acc st) = Ok (n', mt_acc st')"
    and "mt_base st' = mt_base st - mb" and "mt_quote st' = mt_quote st - mq"
    and "mt_decremented st' = mt_decremented st" and "mt_rebates st' = mt_rebates st"
proof -
  have "\<exists>out n n'. process_fill_event (fill_event_new (o_side order) out (owner_slot (item_node best)) now_ts
        (seq_num (ac_market (mt_acc st))) (leaf_owner (item_node best))
        (client_order_id (item_node best)) (timestamp (item_node best)) owner (o_client_order_id order)
        (item_price_lots best) (peg_limit (item_node best)) mb) n (mt_acc st) = Ok (n', mt_acc st') \<and>
      mt_base st' = mt_base st - mb \<and> mt_quote st' = mt_quote st - mq \<and>
      mt_decremented st' = mt_decremented st \<and> mt_rebates st' = mt_rebates st"
    using assms unfolding fill_order_def Let_def
    by (auto simp: res_simps split: if_splits) blast+
  then show thesis using that by blast
qed

text \<open>The claims in the middle of a match. \<open>c0\<close> are those at its beginning.\<close>

definition match_claims ::
  "order \<Rightarrow> i64 \<Rightarrow> market \<Rightarrow> (side \<Rightarrow> int) \<Rightarrow> leaf_node set \<Rightarrow> bool \<Rightarrow> match_state \<Rightarrow> bool" where
  "match_claims order mq m0 c0 L no_own st \<longleftrightarrow>
     ac_fine (invert_side (o_side order)) L (mt_acc st) \<and>
     claims Bid (mt_acc st) = c0 Bid +
       by_side (o_side order) ((mq - mt_quote st) * quote_lot_size m0) + mt_rebates st \<and>
     claims Ask (mt_acc st) = c0 Ask -
       by_side (o_side order) ((o_max_base_lots order - mt_base st) * base_lot_size m0) \<and>
     0 \<le> mt_rebates st \<and>
     mt_rebates st * FEES_SCALE_FACTOR \<le>
       (mq - mt_quote st - mt_decremented st) * quote_lot_size m0 * \<bar>maker_fee m0\<bar> \<and>
     (ac_ooa (mt_acc st) = None \<longleftrightarrow> no_own)"

lemma by_side_step: "by_side s ((a - (x - d)) * k) = by_side s ((a - x) * k) + by_side s (d * k)"
  by (cases s) (simp_all add: by_side_def algebra_simps)

lemma by_side_0 [simp]: "by_side s 0 = 0"
  by (cases s) (simp_all add: by_side_def)

definition maker_leaf_ok :: "bool \<Rightarrow> pubkey \<Rightarrow> leaf_node \<Rightarrow> bool" where
  \<comment> \<open>an order a taker can meet; a taker without an account is not a maker\<close>
  "maker_leaf_ok no_own owner l \<longleftrightarrow> 0 \<le> quantity l \<and> (peg_limit l = -1 \<or> 0 \<le> peg_limit l) \<and>
     (no_own \<longrightarrow> leaf_owner l \<noteq> owner)"

lemma fill_order_claims:
  assumes fl: "fill_order order owner now_ts best mb (mb * item_price_lots best) st = Ok st'"
    and c: "ac_fine (invert_side (o_side order)) L (mt_acc st)" and mk: "market_ok (ac_market (mt_acc st))"
    and l: "item_node best \<in> L" "maker_leaf_ok no_own owner (item_node best)" "0 \<le> item_price_lots best"
    and mb: "0 \<le> mb"
  shows "ac_fine (invert_side (o_side order)) L (mt_acc st') \<and> ac_ooa (mt_acc st') = ac_ooa (mt_acc st) \<and>
    claims Bid (mt_acc st') = claims Bid (mt_acc st) +
      by_side (o_side order) (mb * item_price_lots best * quote_lot_size (ac_market (mt_acc st))) +
      (if leaf_owner (item_node best) = owner then 0
       else case maker_rebate_floor (ac_market (mt_acc st))
         (mb * item_price_lots best * quote_lot_size (ac_market (mt_acc st))) of Inl e \<Rightarrow> 0 | Inr x \<Rightarrow> x) \<and>
    claims Ask (mt_acc st') = claims Ask (mt_acc st) -
      by_side (o_side order) (mb * base_lot_size (ac_market (mt_acc st))) \<and>
    mt_base st' = mt_base st - mb \<and> mt_quote st' = mt_quote st - mb * item_price_lots best \<and>
    mt_decremented st' = mt_decremented st \<and> mt_rebates st' = mt_rebates st"
proof (rule fill_order_steps [OF fl])
  fix out n n'
  let ?f = "fill_event_new (o_side order) out (owner_slot (item_node best)) now_ts
        (seq_num (ac_market (mt_acc st))) (leaf_owner (item_node best))
        (client_order_id (item_node best)) (timestamp (item_node best)) owner (o_client_order_id order)
        (item_price_lots best) (peg_limit (item_node best)) mb"
  assume p: "process_fill_event ?f n (mt_acc st) = Ok (n', mt_acc st')"
    and k: "mt_base st' = mt_base st - mb" "mt_quote st' = mt_quote st - mb * item_price_lots best"
      "mt_decremented st' = mt_decremented st" "mt_rebates st' = mt_rebates st"
  have fo: "fill_ok ?f" using l mb by (simp add: fill_ok_def fill_event_new_def maker_leaf_ok_def)
  have "claims t (mt_acc st') = claims t (mt_acc st) + event_claim t (ac_market (mt_acc st)) (FillEv ?f) \<and>
      ac_fine (invert_side (o_side order)) L (mt_acc st') \<and> ac_ooa (mt_acc st') = ac_ooa (mt_acc st)" for t
    by (rule process_fill_event_claims [OF p c mk fo l(1)]) (simp_all add: fill_event_new_def)
  from this [of Bid] this [of Ask] show ?thesis
    using k by (simp add: event_claim_def fill_event_new_def fill_quote_def fill_base_def fill_rebate_def)
qed

lemma same_terms_market_ok: "same_terms m m' \<Longrightarrow> market_ok m \<Longrightarrow> market_ok m'"
  by (simp add: same_terms_def market_ok_def fee_ok_def)

text \<open>A proceeding match, by the self-trade bookkeeping and the fill.\<close>

lemma proceed_claims:
  assumes c: "match_claims order mq m0 c0 L no_own st" and terms: "same_terms m0 (ac_market (mt_acc st))"
    and mk: "market_ok m0"
    and s: "self_trade_step order owner best (mb * item_price_lots best) st = Ok (Proceed st1)"
    and fl: "fill_order order owner now_ts best mb (mb * item_price_lots best) st1 = Ok st'"
    and l: "item_node best \<in> L" "maker_leaf_ok no_own owner (item_node best)" "0 \<le> item_price_lots best"
    and mb: "0 \<le> mb"
  shows "match_claims order mq m0 c0 L no_own st'"
proof -
  let ?m = "ac_market (mt_acc st)"
  let ?q = "mb * item_price_lots best * quote_lot_size m0"
  have t: "quote_lot_size ?m = quote_lot_size m0" "base_lot_size ?m = base_lot_size m0"
      "maker_fee ?m = maker_fee m0" "market_ok ?m"
    using terms mk same_terms_market_ok by (auto simp: same_terms_def)
  have q: "0 \<le> ?q" using mb l mk by (simp add: market_ok_def)
  have acc: "mt_acc st1 = mt_acc st"
    using s by (cases rule: self_trade_cases) auto
  have fine: "ac_fine (invert_side (o_side order)) L (mt_acc st1)" "market_ok (ac_market (mt_acc st1))"
    using c t acc by (simp_all add: match_claims_def)
  note f = fill_order_claims [OF fl fine l mb, unfolded acc t]
  show ?thesis
    using s
  proof (cases rule: self_trade_cases)
    case (self st'')
    then have "mt_decremented st1 = mt_decremented st + mb * item_price_lots best"
        "mt_rebates st1 = mt_rebates st" "mt_base st1 = mt_base st" "mt_quote st1 = mt_quote st"
        "leaf_owner (item_node best) = owner" by simp_all
    moreover have "mt_rebates st * FEES_SCALE_FACTOR \<le> (mq - (mt_quote st - mb * item_price_lots best) -
        (mt_decremented st + mb * item_price_lots best)) * quote_lot_size m0 * \<bar>maker_fee m0\<bar>"
      using c by (simp add: match_claims_def algebra_simps)
    ultimately show ?thesis using f c by (simp add: match_claims_def by_side_step)
  next
    case (other st'' x)
    have o: "leaf_owner (item_node best) \<noteq> owner"
      using other(2) c l(2) by (auto simp: match_claims_def maker_leaf_ok_def)
    have x: "maker_rebate_floor ?m ?q = Ok x"
      using other(3,4) q t by (simp add: as_u64_of_chk)
    have "0 \<le> x \<and> x * FEES_SCALE_FACTOR \<le> ?q * \<bar>maker_fee ?m\<bar>"
      by (rule maker_rebate_bounds [OF x _ q])
        (use t other(3) in \<open>simp_all add: market_ok_def is_i64_def int_limits\<close>)
    then have "0 \<le> mt_rebates st + x" "(mt_rebates st + x) * FEES_SCALE_FACTOR \<le>
        (mq - (mt_quote st - mb * item_price_lots best) - mt_decremented st) * quote_lot_size m0 * \<bar>maker_fee m0\<bar>"
      using c t by (simp_all add: match_claims_def algebra_simps)
    moreover have "mt_decremented st1 = mt_decremented st" "mt_rebates st1 = mt_rebates st + x"
        "mt_base st1 = mt_base st" "mt_quote st1 = mt_quote st" using other(1,5) by simp_all
    ultimately show ?thesis using f c o x by (simp add: match_claims_def by_side_step)
  next
    case (cancelled st'' acc acc')
    then show ?thesis by simp
  qed
qed

lemma match_step_claims:
  assumes c: "match_claims order mq m0 c0 L no_own st" and inv: "match_inv order mq price_lots m0 st"
    and mk: "market_ok m0"
    and l: "item_node best \<in> L" "maker_leaf_ok no_own owner (item_node best)" "0 \<le> item_price_lots best"
    and s: "match_step order owner now_ts price_lots best st = Ok r"
  shows "match_claims order mq m0 c0 L no_own (flow_state r)"
  using s
proof (cases rule: match_step_cases)
  case stop
  then show ?thesis using c by (auto simp: match_claims_def)
next
  case (drop st')
  let ?m = "ac_market (mt_acc st)"
  have mk': "market_ok ?m" using inv mk same_terms_market_ok by (auto simp: match_inv_def)
  have q: "0 \<le> quantity (item_node best)" using l by (simp add: maker_leaf_ok_def)
  show ?thesis
  proof (cases "mt_dropped st < DROP_EXPIRED_ORDER_LIMIT")
    case False
    then show ?thesis using drop c by (simp add: drop_invalid_def)
  next
    case True
    then obtain ac where p: "process_out_event (out_event_of (invert_side (o_side order)) (item_node best)
          now_ts (ac_heap (mt_acc st))) owner (mt_acc st) = Ok ac"
        and e: "flow_state r = st\<lparr>mt_dropped := mt_dropped st + 1, mt_acc := ac,
          mt_deletes := mt_deletes st @ [(item_tree best, leaf_key (item_node best))]\<rparr>"
      using drop by (auto simp: drop_invalid_def res_simps)
    have fine: "ac_fine (invert_side (o_side order)) L (mt_acc st)" using c by (simp add: match_claims_def)
    have "claims t ac = claims t (mt_acc st) \<and> ac_fine (invert_side (o_side order)) L ac \<and>
        ac_market ac = ?m \<and> (ac_ooa ac = None \<longleftrightarrow> ac_ooa (mt_acc st) = None)" for t
      by (rule process_out_event_claims [OF p fine mk']) (simp add: out_event_of_def out_event_new_def q)
    then show ?thesis using c by (simp add: match_claims_def e)
  qed
next
  case (trade q mb s)
  have p: "0 < item_price_lots best"
    using trade(3) l by (auto simp: div_chk_def less_le)
  have q0: "0 \<le> q"
    using trade(3) inv p by (auto simp: match_inv_def res_simps pos_imp_zdiv_nonneg_iff)
  have mb: "0 \<le> mb" using trade(5) q0 inv l by (auto simp: match_inv_def maker_leaf_ok_def)
  have terms: "same_terms m0 (ac_market (mt_acc st))" using inv by (simp add: match_inv_def)
  show ?thesis
  proof (cases s)
    case (Proceed st')
    then show ?thesis
      using proceed_claims [OF c terms mk _ _ l mb] trade(8,9) by simp
  next
    case (SkipMatch st')
    have mk': "market_ok (ac_market (mt_acc st))" by (rule same_terms_market_ok [OF terms mk])
    from trade(8) [unfolded SkipMatch] show ?thesis
    proof (cases rule: self_trade_cases)
      case (cancelled st'' acc acc')
      have ok: "account_ok acc" using c cancelled(2) by (simp add: match_claims_def ac_fine_def)
      have q: "0 \<le> quantity (item_node best)" using l by (simp add: maker_leaf_ok_def)
      have k: "holdings t (ac_market (mt_acc st)) acc' = holdings t (ac_market (mt_acc st)) acc \<and>
          freed acc acc'" for t
        by (rule cancel_slot_claims [OF cancelled(3) ok mk' q])
      then have "claims t (mt_acc st'') = claims t (mt_acc st)" for t
        using claims_own [OF cancelled(2)] cancelled(4) by simp
      moreover have "ac_fine (invert_side (o_side order)) L (mt_acc st'')"
        using c k freed_ok [OF _ ok] ac_fine_own cancelled(4) by (simp add: match_claims_def)
      moreover have "flow_state r = st''" using trade(9) SkipMatch cancelled(1) by simp
      ultimately show ?thesis using c cancelled by (simp add: match_claims_def)
    qed auto
  qed
qed

text \<open>The loop.\<close>

definition leaves_of :: "book_side \<Rightarrow> leaf_node set" where
  "leaves_of b = set (side_orders b Fixed) \<union> set (side_orders b OraclePegged)"

lemma match_order_claims:
  assumes mo: "match_order order owner now_ts opl price_lots b st = Ok st'"
    and b: "good_side b" and l: "\<forall>l \<in> leaves_of b. maker_leaf_ok no_own owner l"
    and mk: "market_ok m0" and inv: "match_inv order mq price_lots m0 st"
    and c: "match_claims order mq m0 c0 (leaves_of b) no_own st"
  shows "match_claims order mq m0 c0 (leaves_of b) no_own st' \<and> match_inv order mq price_lots m0 st'"
proof (rule match_order_book_invariant [OF mo b])
  show "match_claims order mq m0 c0 (leaves_of b) no_own st \<and> match_inv order mq price_lots m0 st"
    using c inv by simp
next
  fix best st1 r
  assume i: "item_of_book b best"
    and p: "match_claims order mq m0 c0 (leaves_of b) no_own st1 \<and> match_inv order mq price_lots m0 st1"
    and s: "match_step order owner now_ts price_lots best st1 = Ok r"
  have lf: "item_node best \<in> leaves_of b" "0 \<le> item_price_lots best"
    using i by (cases "item_tree best"; simp add: item_of_book_def leaves_of_def)+
  with l have ok: "maker_leaf_ok no_own owner (item_node best)" by blast
  then have "0 \<le> quantity (item_node best)" by (simp add: maker_leaf_ok_def)
  then show "match_claims order mq m0 c0 (leaves_of b) no_own (flow_state r) \<and>
      match_inv order mq price_lots m0 (flow_state r)"
    using match_step_claims [OF _ _ mk lf(1) ok lf(2) s] match_step_inv [OF _ _ lf(2) s] p by blast
qed

section \<open>The taker's part\<close>

lemma taker_fees_split:
  assumes t: "taker_fees_step ql d rebates m = Ok (fees, referrer, m')" and mk: "market_ok m"
    and q: "0 \<le> d" "d \<le> ql" and r: "0 \<le> rebates"
      "rebates * FEES_SCALE_FACTOR \<le> (ql - d) * quote_lot_size m * \<bar>maker_fee m\<bar>"
  shows "fees = referrer + rebates \<and> same_terms m m' \<and> (\<forall>t. market_claim t m' = market_claim t m) \<and>
    referrer_rebates_accrued m' = referrer_rebates_accrued m"
proof -
  have l: "fee_ok m" "0 < quote_lot_size m" using mk by (simp_all add: market_ok_def)
  have w: "0 \<le> (ql - d) * quote_lot_size m" using q l by simp
  have z: "rebates = 0" if "(ql - d) * quote_lot_size m = 0"
  proof -
    have "rebates * FEES_SCALE_FACTOR \<le> 0" using r(2) that by simp
    then show ?thesis using r(1) scale_pos by (simp add: mult_le_0_iff)
  qed
  have "fees = referrer + rebates \<and> (m' = m \<or> m' = m\<lparr>fees_accrued := fees_accrued m + referrer\<rparr>)"
    using t w z by (auto simp: taker_fees_step_def Let_def res_simps as_u64_of_chk split: if_splits)
  then show ?thesis
    using taker_fees_step_le(3) [OF t l(1) q l(2)] by (auto simp: market_claim_def split: side.splits)
qed

lemma execute_taker_claims:
  assumes "execute_taker side bn qn fees referrer m acc = Ok (acc', m')"
  shows "same_terms m m' \<and> open_orders acc' = open_orders acc \<and>
    market_claim Bid m' = market_claim Bid m + referrer \<and> market_claim Ask m' = 0 \<and>
    quote_holdings m acc' = quote_holdings m acc + (case side of Bid \<Rightarrow> 0 | Ask \<Rightarrow> qn - fees) \<and>
    base_holdings m acc' = base_holdings m acc + (case side of Bid \<Rightarrow> bn | Ask \<Rightarrow> 0)"
  using assms
  by (cases side) (auto simp: execute_taker_def Let_def res_simps same_terms_def market_claim_def
      quote_holdings_def base_holdings_def)

text \<open>What a taker adds to the claims: what a bid pays with its fees, or the base an ask sells; a
  taker without an account trades at once, so that only the makers' parts remain.\<close>

definition taker_adds :: "side \<Rightarrow> side \<Rightarrow> bool \<Rightarrow> u64 \<Rightarrow> u64 \<Rightarrow> u64 \<Rightarrow> u64 \<Rightarrow> int" where
  "taker_adds t side no_own base_native quote_native fees referrer = (case t of
     Bid \<Rightarrow> (if no_own then by_side side quote_native + (fees - referrer)
             else if side = Bid then quote_native + fees else 0)
   | Ask \<Rightarrow> (if no_own then - by_side side base_native
             else if side = Ask then base_native else 0))"

lemma take_step_claims:
  assumes t: "take_step order mq st = Ok (tk, st1)" and c: "match_claims order mq m0 c0 L no_own st"
    and inv: "match_inv order mq price_lots m0 st" and mk: "market_ok m0"
  shows "claims t (mt_acc st1) = c0 t + taker_adds t (o_side order) no_own (tk_base_native tk)
      (tk_quote_native tk) (tk_taker_fees tk) (tk_referrer tk) \<and>
    ac_fine (invert_side (o_side order)) L (mt_acc st1) \<and> same_terms m0 (ac_market (mt_acc st1)) \<and>
    (ac_ooa (mt_acc st1) = None \<longleftrightarrow> no_own)"
proof -
  let ?ac = "mt_acc st" and ?ql = "mq - mt_quote st" and ?bl = "o_max_base_lots order - mt_base st"
  let ?m = "ac_market ?ac"
  have terms: "same_terms m0 ?m" using inv by (simp add: match_inv_def)
  have mk': "market_ok ?m" by (rule same_terms_market_ok [OF terms mk])
  have same: "quote_lot_size m0 = quote_lot_size ?m" "base_lot_size m0 = base_lot_size ?m"
      "maker_fee m0 = maker_fee ?m" using terms by (simp_all add: same_terms_def)
  have lots: "0 < quote_lot_size ?m" "0 < base_lot_size ?m" using mk' by (simp_all add: market_ok_def)
  have n: "0 \<le> ?ql" "0 \<le> ?bl" "0 \<le> mt_decremented st" "mt_decremented st \<le> ?ql"
    using inv by (simp_all add: match_inv_def)
  have nn: "0 \<le> ?ql * quote_lot_size ?m" "0 \<le> ?bl * base_lot_size ?m" using n lots by simp_all
  have cl: "claims Bid ?ac = c0 Bid + by_side (o_side order) (?ql * quote_lot_size ?m) + mt_rebates st"
      "claims Ask ?ac = c0 Ask - by_side (o_side order) (?bl * base_lot_size ?m)"
      "ac_fine (invert_side (o_side order)) L ?ac" "ac_ooa ?ac = None \<longleftrightarrow> no_own"
    and rb: "0 \<le> mt_rebates st" "mt_rebates st * FEES_SCALE_FACTOR \<le>
      (?ql - mt_decremented st) * quote_lot_size ?m * \<bar>maker_fee ?m\<bar>"
    using c by (simp_all add: match_claims_def same)
  show ?thesis
  proof (cases "?ql > 0 \<or> ?bl > 0")
    case False
    then have z: "?ql = 0" "?bl = 0" "mt_decremented st = 0" using n by simp_all
    then have "mt_rebates st = 0" using rb scale_pos by (simp add: mult_le_0_iff)
    moreover have "tk_base_native tk = 0" "tk_quote_native tk = 0" "tk_taker_fees tk = 0"
        "tk_referrer tk = 0" "st1 = st"
      using t z by (auto simp: take_step_def Let_def res_simps)
    ultimately show ?thesis
      using cl z terms by (cases t) (simp_all add: taker_adds_def)
  next
    case True
    have i: "is_i64 (?bl * base_lot_size ?m)" "is_i64 (?ql * quote_lot_size ?m)"
      using t by (auto simp: take_step_def Let_def res_simps)
    note u = as_u64_of_chk [OF i(1) nn(2)] as_u64_of_chk [OF i(2) nn(1)]
    obtain fees referrer m1 ooa m3 where f: "taker_fees_step ?ql (mt_decremented st) (mt_rebates st) ?m =
          Ok (fees, referrer, m1)"
        and x': "(case ac_ooa ?ac of
               Some acc \<Rightarrow> bnd (execute_taker (o_side order) (as_u64 (?bl * base_lot_size ?m))
                   (as_u64 (?ql * quote_lot_size ?m)) fees referrer m1 acc) (\<lambda>(acc', m2). Ok (Some acc', m2))
             | None \<Rightarrow> bnd (chk_u128 (taker_volume_wo_oo m1 + as_u64 (?ql * quote_lot_size ?m))) (\<lambda>v.
                 Ok (None, m1\<lparr>taker_volume_wo_oo := v\<rparr>))) = Ok (ooa, m3)"
        and k': "tk_base_native tk = as_u64 (?bl * base_lot_size ?m)"
          "tk_quote_native tk = as_u64 (?ql * quote_lot_size ?m)"
          "tk_taker_fees tk = fees" "tk_referrer tk = referrer"
          "mt_acc st1 = ?ac\<lparr>ac_market := m3, ac_ooa := ooa\<rparr>"
      using t True by (auto simp: take_step_def Let_def res_simps)
    note x = x' [unfolded u] and k = k' [unfolded u]
    note sp = taker_fees_split [OF f mk' n(3,4) rb]
    show ?thesis
    proof (cases "ac_ooa ?ac")
      case None
      then have e: "ooa = None" "same_terms m1 m3" "\<forall>t. market_claim t m3 = market_claim t m1"
        using x by (auto simp: res_simps same_terms_def market_claim_def split: side.splits)
      have s3: "same_terms ?m m3" using sp e(2) same_terms_trans by blast
      have a: "mt_acc st1 = ?ac\<lparr>ac_market := m3\<rparr>" using k(5) e(1) None by simp
      have "claims t (mt_acc st1) = claims t ?ac"
        unfolding a using claims_market [OF same_terms_rates [OF s3]] sp e(3) by simp
      then show ?thesis
        using cl sp k s3 terms same_terms_trans None
        by (cases t) (auto simp: taker_adds_def a)
    next
      case (Some acc)
      then obtain acc' where e: "execute_taker (o_side order) (?bl * base_lot_size ?m)
          (?ql * quote_lot_size ?m) fees referrer m1 acc = Ok (acc', m3)" "ooa = Some acc'"
        using x by (auto simp: res_simps)
      note ex = execute_taker_claims [OF e(1)]
      have s3: "same_terms ?m m3" using sp ex same_terms_trans by blast
      have a: "mt_acc st1 = (?ac\<lparr>ac_ooa := Some acc'\<rparr>)\<lparr>ac_market := m3\<rparr>" using k(5) e(2) by simp
      have ho: "holdings t m1 = holdings t ?m" using sp same_terms_claims(1) by blast
      have cm: "claims t (mt_acc st1) = claims t ?ac - holdings t ?m acc + holdings t ?m acc' -
          market_claim t ?m + market_claim t m3"
        unfolding a using claims_market [of "?ac\<lparr>ac_ooa := Some acc'\<rparr>" m3 t] same_terms_rates [OF s3]
          claims_own [OF Some, of t acc'] by simp
      have "account_ok acc'" using cl(3) Some ex by (simp add: ac_fine_def account_ok_def)
      then have fine: "ac_fine (invert_side (o_side order)) L (mt_acc st1)"
        unfolding a using ac_fine_own [OF cl(3)] by simp
      have "holdings t ?m acc' = holdings t ?m acc + (case t of
          Bid \<Rightarrow> (case o_side order of Bid \<Rightarrow> 0 | Ask \<Rightarrow> ?ql * quote_lot_size ?m - fees)
        | Ask \<Rightarrow> (case o_side order of Bid \<Rightarrow> ?bl * base_lot_size ?m | Ask \<Rightarrow> 0))"
        unfolding ho [symmetric] using ex by (cases t) (simp_all add: holdings_def)
      moreover have "market_claim t m3 = market_claim t ?m + (case t of Bid \<Rightarrow> referrer | Ask \<Rightarrow> 0)"
        using ex sp by (cases t) (simp, simp add: market_claim_def)
      ultimately have "claims t (mt_acc st1) = c0 t + taker_adds t (o_side order) no_own
          (?bl * base_lot_size ?m) (?ql * quote_lot_size ?m) fees referrer"
        using cm cl sp Some by (cases t; cases "o_side order") (simp_all add: taker_adds_def by_side_def)
      then show ?thesis
        using fine k(1-4) same_terms_trans [OF terms s3] cl(4) Some e(2) k(5) by simp
    qed
  qed
qed

end
