(* ===== verification/Accounting_Order.thy ===== *)
theory Accounting_Order
  imports Accounting_Match
begin

text \<open>
  The accounting of posting an order, and of a whole new order: the claims grow by what the order
  takes and posts, with its fees, in the token its side pays with, and not at all in the other.
\<close>

section \<open>Making room\<close>

lemma remove_expired_mem:
  assumes "sound_side b" and "book_remove_one_expired b c now_ts = Ok (Some l, b')"
  shows "\<exists>c'. l \<in> set (side_orders b c')"
  using book_remove_one_expired_spec [OF sound_sideD(1) [OF assms(1)], of c now_ts] assms(2)
  by (auto simp: expired_choice_def split: if_splits)

lemma remove_worst_mem:
  assumes "sound_side b" and "book_remove_worst b now_ts orc = Ok (Some (l, price), b')"
  shows "\<exists>c'. l \<in> set (side_orders b c')"
  using book_remove_worst_spec [OF sound_sideD(1,3) [OF assms(1)], of now_ts orc] assms(2)
  by (auto simp: in_book_def)

lemma sound_quantity: "sound_side b \<Longrightarrow> l \<in> set (side_orders b c) \<Longrightarrow> 0 \<le> quantity l"
  by (fastforce simp: sound_side_def)

definition same_claims :: "side \<Rightarrow> leaf_node set \<Rightarrow> accounts \<Rightarrow> accounts \<Rightarrow> bool" where
  "same_claims s L ac ac' \<longleftrightarrow> (\<forall>t. claims t ac' = claims t ac) \<and> ac_fine s L ac' \<and>
     ac_market ac' = ac_market ac \<and> (ac_ooa ac' = None \<longleftrightarrow> ac_ooa ac = None)"

lemma evict_claims:
  assumes p: "process_out_event (out_event_of side l now_ts h) owner ac = Ok ac'"
    and "ac_fine s L ac" and "market_ok (ac_market ac)" and "0 \<le> quantity l"
  shows "same_claims s L ac ac'"
proof -
  have "0 \<le> oe_quantity (out_event_of side l now_ts h)"
    using assms(4) by (simp add: out_event_of_def out_event_new_def)
  from process_out_event_claims [OF p assms(2,3) this] show ?thesis by (simp add: same_claims_def)
qed

lemma make_room_claims:
  assumes b: "sound_side b" and m: "make_room order owner now_ts orc price_lots tgt b ac = Ok (b', ac')"
    and f: "ac_fine s L ac" and mk: "market_ok (ac_market ac)"
  shows "same_claims s L ac ac'"
proof -
  obtain expired b1 ac1 where e: "book_remove_one_expired b tgt now_ts = Ok (expired, b1)"
    and p: "(case expired of
             Some l \<Rightarrow> process_out_event (out_event_of (o_side order) l now_ts (ac_heap ac)) owner ac
           | None \<Rightarrow> Ok ac) = Ok ac1"
    and rest: "(if book_is_full b1 then
        bnd (book_remove_worst b1 now_ts orc) (\<lambda>(w, b2).
        bnd (unwrap w) (\<lambda>(worst_order, worst_price).
        bnd (require (is_price_better (o_side order) price_lots worst_price) SomeError) (\<lambda>_.
        bnd (process_out_event (out_event_of (o_side order) worst_order now_ts (ac_heap ac1)) owner ac1)
          (\<lambda>ac2. Ok (b2, ac2)))))
      else Ok (b1, ac1)) = Ok (b', ac')"
    using m by (auto simp: make_room_def Let_def res_simps)
  have c1: "same_claims s L ac ac1"
  proof (cases expired)
    case None
    then show ?thesis using p f by (simp add: same_claims_def)
  next
    case (Some l)
    then obtain c' where "l \<in> set (side_orders b c')" using remove_expired_mem [OF b] e by blast
    then have "0 \<le> quantity l" by (rule sound_quantity [OF b])
    then show ?thesis using p Some evict_claims [OF _ f mk] by simp
  qed
  have b1: "sound_side b1"
    using remove_expired_room [OF b e] by (auto simp: room_step_def sound_step_def)
  show ?thesis
  proof (cases "book_is_full b1")
    case False
    then show ?thesis using rest c1 by simp
  next
    case True
    then obtain l price where w: "book_remove_worst b1 now_ts orc = Ok (Some (l, price), b')"
        and p2: "process_out_event (out_event_of (o_side order) l now_ts (ac_heap ac1)) owner ac1 = Ok ac'"
      using rest by (auto simp: res_simps)
    obtain c' where "l \<in> set (side_orders b1 c')" using remove_worst_mem [OF b1 w] by blast
    then have "0 \<le> quantity l" by (rule sound_quantity [OF b1])
    then have "same_claims s L ac1 ac'"
      using c1 mk by (intro evict_claims [OF p2]) (simp_all add: same_claims_def)
    then show ?thesis using c1 by (simp add: same_claims_def)
  qed
qed

section \<open>Posting\<close>

lemma add_order_claims:
  assumes a: "add_order side tgt leaf cid lp oo = Ok oo'" and lp: "0 \<le> lp" and ok: "account_ok oo"
  shows "account_ok oo'" and "holdings t m oo' = holdings t m oo + (if t = side then
      (case t of Bid \<Rightarrow> quantity leaf * lp * quote_lot_size m | Ask \<Rightarrow> quantity leaf * base_lot_size m) else 0)"
proof -
  show "account_ok oo'"
    using a lp ok unfolding add_order_def Let_def account_ok_def
    by (auto simp: res_simps dest!: subsetD [OF set_update_subset_insert] split: side.splits)
  show "holdings t m oo' = holdings t m oo + (if t = side then
      (case t of Bid \<Rightarrow> quantity leaf * lp * quote_lot_size m | Ask \<Rightarrow> quantity leaf * base_lot_size m) else 0)"
    using a by (cases t; cases side) (auto simp: add_order_def Let_def res_simps holdings_def
        quote_holdings_def base_holdings_def distrib_right)
qed

lemma post_order_accounts:
  assumes "post_order order owner now_ts orc price_lots order_id base_lots price tgt b ac =
    Ok (mf, pb, pq, b', ac')"
  obtains oo oo1 b1 ac1 oo2 slot oo3 where
    "ac_ooa ac = Some oo"
    and "case o_side order of
        Bid \<Rightarrow> oo1 = oo\<lparr>oo_position := (oo_position oo)\<lparr>locked_maker_fees := locked_maker_fees (oo_position oo) + mf\<rparr>\<rparr>
      | Ask \<Rightarrow> mf = 0 \<and> oo1 = oo"
    and "make_room order owner now_ts orc price_lots tgt b (ac\<lparr>ac_ooa := Some oo1\<rparr>) = Ok (b1, ac1)"
    and "ac_ooa ac1 = Some oo2"
    and "add_order (o_side order) tgt (leaf_new slot order_id owner base_lots now_ts (o_time_in_force order)
      (order_peg_limit order) (o_client_order_id order)) (o_client_order_id order) price oo2 = Ok oo3"
    and "ac' = ac1\<lparr>ac_ooa := Some oo3\<rparr>"
    and "pb = base_lots * base_lot_size (ac_market ac)" "is_i64 pb"
    and "pq = base_lots * price * quote_lot_size (ac_market ac)" "is_i64 pq"
    and "o_side order = Bid \<Longrightarrow> is_u64 (locked_maker_fees (oo_position oo) + mf)"
  using assms unfolding post_order_def Let_def
  by (cases "o_side order") (auto simp: res_simps)

lemma post_order_claims:
  assumes p: "post_order order owner now_ts orc price_lots order_id base_lots price tgt b ac =
      Ok (mf, pb, pq, b', ac')"
    and b: "sound_side b" and f: "ac_fine s L ac" and mk: "market_ok (ac_market ac)"
    and n: "0 \<le> base_lots" "0 \<le> price"
  shows "claims t ac' = claims t ac + (if t = o_side order then
      (case t of Bid \<Rightarrow> as_u64 pq + mf | Ask \<Rightarrow> as_u64 pb) else 0) \<and> ac_fine s L ac' \<and>
    ac_market ac' = ac_market ac \<and> ac_ooa ac' \<noteq> None"
proof (rule post_order_accounts [OF p])
  fix oo oo1 b1 ac1 oo2 slot oo3
  let ?leaf = "leaf_new slot order_id owner base_lots now_ts (o_time_in_force order)
      (order_peg_limit order) (o_client_order_id order)"
  assume own: "ac_ooa ac = Some oo"
    and o1: "case o_side order of
        Bid \<Rightarrow> oo1 = oo\<lparr>oo_position := (oo_position oo)\<lparr>locked_maker_fees := locked_maker_fees (oo_position oo) + mf\<rparr>\<rparr>
      | Ask \<Rightarrow> mf = 0 \<and> oo1 = oo"
    and mr: "make_room order owner now_ts orc price_lots tgt b (ac\<lparr>ac_ooa := Some oo1\<rparr>) = Ok (b1, ac1)"
    and own2: "ac_ooa ac1 = Some oo2"
    and ad: "add_order (o_side order) tgt ?leaf (o_client_order_id order) price oo2 = Ok oo3"
    and e: "ac' = ac1\<lparr>ac_ooa := Some oo3\<rparr>"
    and pb: "pb = base_lots * base_lot_size (ac_market ac)" "is_i64 pb"
    and pq: "pq = base_lots * price * quote_lot_size (ac_market ac)" "is_i64 pq"
  let ?m = "ac_market ac"
  have lots: "0 < base_lot_size ?m" "0 < quote_lot_size ?m" using mk by (simp_all add: market_ok_def)
  have u: "as_u64 pb = pb" "as_u64 pq = pq" using pb pq n lots by (simp_all add: as_u64_of_chk)
  have ok1: "account_ok oo1"
    using f own o1 by (cases "o_side order") (auto simp: ac_fine_def account_ok_def)
  have h1: "holdings t ?m oo1 = holdings t ?m oo + (if t = Bid \<and> o_side order = Bid then mf else 0)"
    using o1 by (cases "o_side order"; cases t) (simp_all add: holdings_def quote_holdings_def base_holdings_def)
  have mc: "same_claims s L (ac\<lparr>ac_ooa := Some oo1\<rparr>) ac1"
    using make_room_claims [OF b mr ac_fine_own [OF f ok1]] mk by simp
  then have m1: "ac_market ac1 = ?m" "ac_fine s L ac1" by (simp_all add: same_claims_def)
  have ok2: "account_ok oo2" using m1(2) own2 by (simp add: ac_fine_def)
  have "claims t ac1 = claims t ac - holdings t ?m oo + holdings t ?m oo1"
    using mc claims_own [OF own, of t oo1] by (simp add: same_claims_def)
  then have "claims t ac' = claims t ac - holdings t ?m oo + holdings t ?m oo1 - holdings t ?m oo2 +
      holdings t ?m oo3"
    unfolding e using claims_own [OF own2, of t oo3] m1(1) by simp
  then show ?thesis
    using add_order_claims(2) [OF ad n(2) ok2, of t ?m] h1 u pb pq add_order_claims(1) [OF ad n(2) ok2]
      ac_fine_own [OF m1(2)] e m1(1)
    by (cases t; cases "o_side order") simp_all
qed

section \<open>A new order\<close>

definition order_adds :: "side \<Rightarrow> side \<Rightarrow> bool \<Rightarrow> order_with_amounts \<Rightarrow> int" where
  "order_adds t side no_own r = taker_adds t side no_own (oa_total_base_taken_native r)
       (oa_total_quote_taken_native r) (oa_taker_fees r) (oa_referrer_amount r) +
     (if t = side \<and> \<not> no_own then (case t of Bid \<Rightarrow> oa_posted_quote_native r + oa_maker_fees r
        | Ask \<Rightarrow> oa_posted_base_native r) else 0)"

text \<open>The state in which a taker meets the other side: the book is sound, the makers' slots hold
  orders of that side, and the prices are not negative.\<close>

definition trade_ready :: "orderbook \<Rightarrow> order \<Rightarrow> pubkey \<Rightarrow> accounts \<Rightarrow> bool" where
  "trade_ready ob order owner ac \<longleftrightarrow> sound_book ob \<and> order_ok order \<and>
     (order_peg_limit order = -1 \<or> 0 \<le> order_peg_limit order) \<and> market_ok (ac_market ac) \<and>
     (\<forall>l \<in> leaves_of (bookside ob (invert_side (o_side order))). maker_leaf_ok (ac_ooa ac = None) owner l) \<and>
     ac_fine (invert_side (o_side order)) (leaves_of (bookside ob (invert_side (o_side order)))) ac"

lemma order_price_pos: "order_price order now_ts opl ob = Ok (p, d) \<Longrightarrow> 1 \<le> p"
  by (auto simp: order_price_def res_simps)

lemma new_order_matched:
  assumes rd: "trade_ready ob order owner ac"
    and g: "gen_order_id (ac_market ac) (o_side order) p_data = Ok (order_id, m1)"
    and mq: "order_max_quote_lots order m1 = Ok max_quote"
    and mo: "match_order order owner now_ts opl price_lots (bookside ob (invert_side (o_side order)))
      (start_match order max_quote lim (ac\<lparr>ac_market := m1\<rparr>)) = Ok st"
    and t: "take_step order max_quote st = Ok (tk, st1)"
  shows "claims t (mt_acc st1) = claims t ac + taker_adds t (o_side order) (ac_ooa ac = None)
      (tk_base_native tk) (tk_quote_native tk) (tk_taker_fees tk) (tk_referrer tk) \<and>
    ac_fine (invert_side (o_side order)) (leaves_of (bookside ob (invert_side (o_side order)))) (mt_acc st1) \<and>
    same_terms (ac_market ac) (ac_market (mt_acc st1)) \<and> (ac_ooa (mt_acc st1) = None \<longleftrightarrow> ac_ooa ac = None)"
proof -
  let ?b = "bookside ob (invert_side (o_side order))" and ?ac = "ac\<lparr>ac_market := m1\<rparr>"
  have s1: "same_terms (ac_market ac) m1" by (rule gen_order_id_terms [OF g])
  have mk: "market_ok m1" using same_terms_market_ok [OF s1] rd by (simp add: trade_ready_def)
  have good: "good_side ?b" using rd by (simp add: trade_ready_def sound_book_def sound_side_def)
  have cl: "claims t ?ac = claims t ac" for t
  proof -
    have "market_claim t m1 = market_claim t (ac_market ac)"
      using g by (cases t) (auto simp: gen_order_id_def res_simps market_claim_def)
    then show ?thesis using claims_market [OF same_terms_rates [OF s1], of t] by simp
  qed
  have mx: "0 \<le> max_quote" "max_quote \<le> o_max_quote_lots_including_fees order"
    using order_max_quote_le [OF mq] mk rd by (simp_all add: trade_ready_def order_ok_def market_ok_def)
  have inv0: "match_inv order max_quote price_lots m1 (start_match order max_quote lim ?ac)"
    using mx rd by (auto simp: match_inv_def start_match_def trade_ready_def order_ok_def within_price_def
        split: side.splits)
  have c0: "match_claims order max_quote m1 (\<lambda>t. claims t ac) (leaves_of ?b) (ac_ooa ac = None)
      (start_match order max_quote lim ?ac)"
    using rd cl by (simp add: match_claims_def start_match_def trade_ready_def)
  have l: "\<forall>l \<in> leaves_of ?b. maker_leaf_ok (ac_ooa ac = None) owner l"
    using rd by (simp add: trade_ready_def)
  note mc = match_order_claims [OF mo good l mk inv0 c0]
  from take_step_claims [OF t conjunct1 [OF mc] conjunct2 [OF mc] mk, of t] show ?thesis
    using same_terms_trans [OF s1] by simp
qed

lemma new_order_claims:
  assumes n: "new_order ob order owner now_ts lim opl ac = Ok (r, ob', ac')"
    and rd: "trade_ready ob order owner ac"
  shows "claims t ac' = claims t ac + order_adds t (o_side order) (ac_ooa ac = None) r \<and>
    ac_fine (invert_side (o_side order)) (leaves_of (bookside ob (invert_side (o_side order)))) ac' \<and>
    same_terms (ac_market ac) (ac_market ac') \<and> (ac_ooa ac' = None \<longleftrightarrow> ac_ooa ac = None)"
  using n
proof (cases rule: new_order_book)
  case (unposted price_lots p_data order_id m1 max_quote st tk st1 opposing)
  show ?thesis
    using new_order_matched [OF rd unposted(2,8,3,4), of t] unposted(9,10)
    by (cases t) (simp_all add: order_adds_def)
next
  case (posted price_lots p_data order_id m1 max_quote st tk st1 opposing base_lots c mf pb pq b ac2)
  note mt = new_order_matched [OF rd posted(2,10,3,4)]
  let ?L = "leaves_of (bookside ob (invert_side (o_side order)))"
  have bl: "0 \<le> base_lots" using posted(6) by (auto simp: final_target_def split: if_splits)
  have pr: "0 \<le> locked_order_price order price_lots"
    using order_price_pos [OF posted(1)] rd by (auto simp: locked_order_price_def trade_ready_def)
  have sd: "sound_side (bookside ob (o_side order))" using rd by (simp add: trade_ready_def sound_book_def)
  have mk: "market_ok (ac_market (mt_acc st1))"
    using mt same_terms_market_ok rd by (auto simp: trade_ready_def)
  have "claims t ac2 = claims t (mt_acc st1) + (if t = o_side order then
      (case t of Bid \<Rightarrow> as_u64 pq + mf | Ask \<Rightarrow> as_u64 pb) else 0) \<and>
      ac_fine (invert_side (o_side order)) ?L ac2 \<and> ac_market ac2 = ac_market (mt_acc st1) \<and> ac_ooa ac2 \<noteq> None"
    using post_order_claims [OF posted(7), of "invert_side (o_side order)" ?L t] sd mt mk bl pr by simp
  moreover have "ac_ooa (mt_acc st1) \<noteq> None"
    using posted(7) by (auto elim!: post_order_accounts)
  ultimately show ?thesis
    using mt [of t] posted(11,12) by (cases t) (auto simp: order_adds_def)
qed

section \<open>Accounts that do not load\<close>

text \<open>A remaining account that does not load, as the taker's own, which is already borrowed, is
  left as it is.\<close>

definition shut :: "pubkey \<Rightarrow> accounts \<Rightarrow> bool" where
  "shut k ac \<longleftrightarrow> (\<forall>oo. map_of (ac_remaining ac) k \<noteq> Some (OpenOrdersAcc oo))"

lemma process_out_event_shut:
  "process_out_event ev owner ac = Ok ac' \<Longrightarrow> shut k ac \<Longrightarrow> shut k ac'"
  by (auto simp: process_out_event_def queue_out_event_def res_simps shut_def map_of_store
      split: option.splits if_splits)

lemma process_fill_event_shut:
  "process_fill_event fill n ac = Ok (n', ac') \<Longrightarrow> shut k ac \<Longrightarrow> shut k ac'"
  by (auto simp: process_fill_event_def res_simps shut_def map_of_store split: option.splits if_splits)

lemma match_step_shut:
  assumes sh: "shut k (mt_acc st)" and s: "match_step order owner now_ts price_lots best st = Ok r"
  shows "shut k (mt_acc (flow_state r))"
  using s
proof (cases rule: match_step_cases)
  case stop
  then show ?thesis using sh by auto
next
  case (drop st')
  have "drop_invalid order owner now_ts best st = Ok x \<Longrightarrow> shut k (mt_acc x)" for x
    using sh by (auto simp: drop_invalid_def res_simps intro: process_out_event_shut split: if_splits)
  then show ?thesis using drop by simp
next
  case (trade q mb s)
  show ?thesis
  proof (cases s)
    case (SkipMatch st')
    from trade(8) [unfolded SkipMatch] have "shut k (mt_acc st')"
      using sh by (cases rule: self_trade_cases) (auto simp: shut_def)
    then show ?thesis using trade(9) SkipMatch by simp
  next
    case (Proceed st')
    from trade(8) [unfolded Proceed] have "mt_acc st' = mt_acc st"
      by (cases rule: self_trade_cases) auto
    then have sh': "shut k (mt_acc st')" using sh by simp
    have "fill_order order owner now_ts best mb (mb * item_price_lots best) st' = Ok (flow_state r)"
      using trade(9) Proceed by simp
    then show ?thesis
      by (rule fill_order_steps) (use sh' process_fill_event_shut in blast)
  qed
qed

lemma make_room_shut:
  "make_room order owner now_ts orc price_lots tgt b ac = Ok (b', ac') \<Longrightarrow> shut k ac \<Longrightarrow> shut k ac'"
  by (auto simp: make_room_def Let_def res_simps dest: process_out_event_shut [of _ _ _ _ k]
      split: option.splits if_splits)

lemma take_step_remaining:
  "take_step order mq st = Ok (tk, st1) \<Longrightarrow> ac_remaining (mt_acc st1) = ac_remaining (mt_acc st)"
  by (auto simp: take_step_def Let_def res_simps split: if_splits)

lemma new_order_shut:
  assumes n: "new_order ob order owner now_ts lim opl ac = Ok (r, ob', ac')" and sh: "shut k ac"
  shows "shut k ac'"
proof -
  have m: "shut k (mt_acc st1)" if
      "match_order order owner now_ts opl price_lots b (start_match order mq lim (ac\<lparr>ac_market := m1\<rparr>)) = Ok st"
      "take_step order mq st = Ok (tk, st1)" for price_lots b mq m1 st st1 tk
  proof -
    have "shut k (mt_acc st)"
      by (rule match_order_invariant [OF that(1), of "\<lambda>st. shut k (mt_acc st)"])
        (use sh match_step_shut in \<open>auto simp: start_match_def shut_def\<close>)
    then show ?thesis using take_step_remaining [OF that(2)] by (simp add: shut_def)
  qed
  from n show ?thesis
  proof (cases rule: new_order_book)
    case (unposted price_lots p_data order_id m1 max_quote st tk st1 opposing)
    then show ?thesis using m by blast
  next
    case (posted price_lots p_data order_id m1 max_quote st tk st1 opposing base_lots c mf pb pq b ac2)
    have s1: "shut k (mt_acc st1)" using m posted(3,4) by blast
    from posted(7) have "shut k ac2"
    proof (rule post_order_accounts)
      fix oo1 b1 ac1 oo3
      assume "make_room order owner now_ts opl price_lots c
          (bookside (set_bookside (invert_side (o_side order)) opposing ob) (o_side order))
          ((mt_acc st1)\<lparr>ac_ooa := Some oo1\<rparr>) = Ok (b1, ac1)" "ac2 = ac1\<lparr>ac_ooa := Some oo3\<rparr>"
      then show ?thesis using make_room_shut [of _ _ _ _ _ _ _ _ _ _ k] s1 by (fastforce simp: shut_def)
    qed
    then show ?thesis using posted(11) by simp
  qed
qed

end
