(* ===== verification/Runtime.thy ===== *)
theory Runtime
  imports Orderbook
begin

text \<open>
  What the instructions of \<open>programs/openbook-v2/src/instructions\<close> run on: the clock, the accounts
  they load, the two programs they call, and the account constraints Anchor checks for each of
  them before the handler runs (\<open>accounts_ix\<close>), in the order in which they are declared.

  The token program and the system program are not part of this repository: they are the
  two functions of a \<open>runtime\<close>, acting on a state of their own of any type. A token transfer has the
  seeds of the signing market, if it is signed by one, the source, the destination, the
  authority and the amount. The oracle price in lots (or the error of reading it) is an argument
  of the instructions that need it. Accounts have been loaded as what they are: checks of owner,
  discriminator and signature are Anchor's.
\<close>

section \<open>Clock and called programs\<close>

record clock =
  ck_unix_timestamp :: i64
  ck_slot :: u64

definition clock_u64 :: "clock \<Rightarrow> u64 res" where
  \<comment> \<open>\<open>clock.unix_timestamp.try_into().unwrap()\<close>\<close>
  "clock_u64 ck = chk_u64 (ck_unix_timestamp ck)"

type_synonym seeds = "pubkey \<times> nat"

record 's runtime =
  token_cpi :: "seeds option \<Rightarrow> pubkey \<Rightarrow> pubkey \<Rightarrow> pubkey \<Rightarrow> u64 \<Rightarrow> 's \<Rightarrow> 's res"
  system_cpi :: "pubkey \<Rightarrow> pubkey \<Rightarrow> u64 \<Rightarrow> 's \<Rightarrow> 's res"

definition token_transfer ::
  "'s runtime \<Rightarrow> u64 \<Rightarrow> pubkey \<Rightarrow> pubkey \<Rightarrow> pubkey \<Rightarrow> 's \<Rightarrow> 's res" where
  "token_transfer rt amount src dst authority s =
     (if amount > 0 then token_cpi rt None src dst authority amount s else Ok s)"

definition token_transfer_signed ::
  "'s runtime \<Rightarrow> u64 \<Rightarrow> pubkey \<Rightarrow> pubkey \<Rightarrow> pubkey \<Rightarrow> seeds \<Rightarrow> 's \<Rightarrow> 's res" where
  "token_transfer_signed rt amount src dst authority sds s =
     (if amount > 0 then token_cpi rt (Some sds) src dst authority amount s else Ok s)"

definition system_program_transfer ::
  "'s runtime \<Rightarrow> u64 \<Rightarrow> pubkey \<Rightarrow> pubkey \<Rightarrow> 's \<Rightarrow> 's res" where
  "system_program_transfer rt amount src dst s =
     (if amount > 0 then system_cpi rt src dst amount s else Ok s)"

definition market_seeds :: "market \<Rightarrow> pubkey \<Rightarrow> seeds" where
  "market_seeds m k = (k, m_bump m)"

section \<open>Accounts\<close>

text \<open>A token account as it was when the instruction began.\<close>

record token_account =
  ta_key :: pubkey
  ta_mint :: pubkey
  ta_owner :: pubkey
  ta_amount :: u64

record 's world =
  w_market :: market
  w_book :: orderbook
  w_heap :: event_heap
  w_ooa :: open_orders_account
  w_remaining :: remaining_accs
  w_tokens :: 's

text \<open>While an instruction holds its open-orders account, a remaining account that is the same
  account does not load; afterwards it has what the instruction wrote.\<close>

definition borrow_out :: "pubkey \<Rightarrow> remaining_accs \<Rightarrow> remaining_accs" where
  "borrow_out k accs = map (\<lambda>(k', a). (k', if k' = k then UnloadableAcc else a)) accs"

definition give_back :: "pubkey \<Rightarrow> open_orders_account \<Rightarrow> remaining_accs \<Rightarrow> remaining_accs" where
  "give_back k oo accs = map (\<lambda>(k', a). (k', if k' = k then OpenOrdersAcc oo else a)) accs"

record open_orders_indexer =
  ix_bump :: nat
  ix_created_counter :: int
  ix_addresses :: "pubkey list"

definition has_active_open_orders_accounts :: "open_orders_indexer \<Rightarrow> bool" where
  "has_active_open_orders_accounts ix \<longleftrightarrow> ix_addresses ix \<noteq> []"

definition indexer_space :: "nat \<Rightarrow> nat" where
  "indexer_space n = 8 + 1 + 4 + (4 + (n * 32))"

section \<open>Account constraints\<close>

abbreviation has_one :: "bool \<Rightarrow> unit res" where "has_one b \<equiv> require_anchor b ConstraintHasOne"
abbreviation raw :: "bool \<Rightarrow> unit res" where "raw b \<equiv> require_anchor b ConstraintRaw"
abbreviation same_mint :: "bool \<Rightarrow> unit res" where "same_mint b \<equiv> require_anchor b ConstraintTokenMint"

fun all_ok :: "unit res list \<Rightarrow> unit res" where
  "all_ok [] = Ok ()"
| "all_ok (c # cs) = bnd c (\<lambda>_. all_ok cs)"

lemma all_ok_eq_Inr [res_simps]: "all_ok cs = Inr u \<longleftrightarrow> (\<forall>c \<in> set cs. c = Ok ())"
  by (induction cs) (auto simp: res_simps)

record place_order_ctx =
  po_signer :: pubkey
  po_open_orders_account :: pubkey
  po_open_orders_admin :: "pubkey option"
  po_user_token_account :: token_account
  po_market :: pubkey
  po_bids :: pubkey
  po_asks :: pubkey
  po_event_heap :: pubkey
  po_market_vault :: token_account
  po_oracle_a :: "pubkey option"
  po_oracle_b :: "pubkey option"

definition check_place_order :: "place_order_ctx \<Rightarrow> market \<Rightarrow> open_orders_account \<Rightarrow> unit res" where
  "check_place_order cx m oo = all_ok
    [has_one (oo_market oo = po_market cx),
     require (is_owner_or_delegate oo (po_signer cx)) NoOwnerOrDelegate,
     same_mint (ta_mint (po_user_token_account cx) = ta_mint (po_market_vault cx)),
     has_one (m_bids m = po_bids cx),
     has_one (m_asks m = po_asks cx),
     has_one (m_event_heap m = po_event_heap cx),
     raw (oracle_a m = non_zero_key (po_oracle_a cx)),
     raw (oracle_b m = non_zero_key (po_oracle_b cx)),
     require (open_orders_admin m = non_zero_key (po_open_orders_admin cx)) InvalidOpenOrdersAdmin,
     raw (is_market_vault m (ta_key (po_market_vault cx)))]"

record cancel_order_ctx =
  co_signer :: pubkey
  co_open_orders_account :: pubkey
  co_market :: pubkey
  co_bids :: pubkey
  co_asks :: pubkey

definition check_cancel_order :: "cancel_order_ctx \<Rightarrow> market \<Rightarrow> open_orders_account \<Rightarrow> unit res" where
  "check_cancel_order cx m oo = all_ok
    [has_one (oo_market oo = co_market cx),
     require (is_owner_or_delegate oo (co_signer cx)) NoOwnerOrDelegate,
     has_one (m_bids m = co_bids cx),
     has_one (m_asks m = co_asks cx)]"

definition to_cancel_order :: "place_order_ctx \<Rightarrow> cancel_order_ctx" where
  "to_cancel_order cx = \<lparr>co_signer = po_signer cx, co_open_orders_account = po_open_orders_account cx,
     co_market = po_market cx, co_bids = po_bids cx, co_asks = po_asks cx\<rparr>"

record place_take_order_ctx =
  pt_signer :: pubkey
  pt_penalty_payer :: pubkey
  pt_market :: pubkey
  pt_market_authority :: pubkey
  pt_bids :: pubkey
  pt_asks :: pubkey
  pt_market_base_vault :: token_account
  pt_market_quote_vault :: token_account
  pt_event_heap :: pubkey
  pt_user_base_account :: token_account
  pt_user_quote_account :: token_account
  pt_oracle_a :: "pubkey option"
  pt_oracle_b :: "pubkey option"
  pt_open_orders_admin :: "pubkey option"

definition check_place_take_order :: "place_take_order_ctx \<Rightarrow> market \<Rightarrow> unit res" where
  "check_place_take_order cx m = all_ok
    [has_one (m_bids m = pt_bids cx),
     has_one (m_asks m = pt_asks cx),
     has_one (m_event_heap m = pt_event_heap cx),
     has_one (market_base_vault m = ta_key (pt_market_base_vault cx)),
     has_one (market_quote_vault m = ta_key (pt_market_quote_vault cx)),
     has_one (market_authority m = pt_market_authority cx),
     raw (oracle_a m = non_zero_key (pt_oracle_a cx)),
     raw (oracle_b m = non_zero_key (pt_oracle_b cx)),
     require (open_orders_admin m = non_zero_key (pt_open_orders_admin cx)) InvalidOpenOrdersAdmin,
     same_mint (ta_mint (pt_user_base_account cx) = ta_mint (pt_market_base_vault cx)),
     same_mint (ta_mint (pt_user_quote_account cx) = ta_mint (pt_market_quote_vault cx))]"

record place_all_ctx =
  pa_signer :: pubkey
  pa_open_orders_account :: pubkey
  pa_open_orders_admin :: "pubkey option"
  pa_user_quote_account :: token_account
  pa_user_base_account :: token_account
  pa_market :: pubkey
  pa_bids :: pubkey
  pa_asks :: pubkey
  pa_event_heap :: pubkey
  pa_market_quote_vault :: token_account
  pa_market_base_vault :: token_account
  pa_oracle_a :: "pubkey option"
  pa_oracle_b :: "pubkey option"

definition check_place_all :: "place_all_ctx \<Rightarrow> market \<Rightarrow> open_orders_account \<Rightarrow> unit res" where
  "check_place_all cx m oo = all_ok
    [has_one (oo_market oo = pa_market cx),
     require (is_owner_or_delegate oo (pa_signer cx)) NoOwnerOrDelegate,
     same_mint (ta_mint (pa_user_quote_account cx) = ta_mint (pa_market_quote_vault cx)),
     same_mint (ta_mint (pa_user_base_account cx) = ta_mint (pa_market_base_vault cx)),
     has_one (m_bids m = pa_bids cx),
     has_one (m_asks m = pa_asks cx),
     has_one (m_event_heap m = pa_event_heap cx),
     has_one (market_base_vault m = ta_key (pa_market_base_vault cx)),
     has_one (market_quote_vault m = ta_key (pa_market_quote_vault cx)),
     raw (oracle_a m = non_zero_key (pa_oracle_a cx)),
     raw (oracle_b m = non_zero_key (pa_oracle_b cx)),
     require (open_orders_admin m = non_zero_key (pa_open_orders_admin cx)) InvalidOpenOrdersAdmin]"

record consume_events_ctx =
  ce_consume_events_admin :: "pubkey option"
  ce_market :: pubkey
  ce_event_heap :: pubkey

definition check_consume_events :: "consume_events_ctx \<Rightarrow> market \<Rightarrow> unit res" where
  "check_consume_events cx m = all_ok
    [has_one (m_event_heap m = ce_event_heap cx),
     require (consume_events_admin m = non_zero_key (ce_consume_events_admin cx))
       InvalidConsumeEventsAdmin]"

record deposit_ctx =
  dp_owner :: pubkey
  dp_user_base_account :: token_account
  dp_user_quote_account :: token_account
  dp_open_orders_account :: pubkey
  dp_market :: pubkey
  dp_market_base_vault :: token_account
  dp_market_quote_vault :: token_account

definition check_deposit :: "deposit_ctx \<Rightarrow> market \<Rightarrow> open_orders_account \<Rightarrow> unit res" where
  "check_deposit cx m oo = all_ok
    [same_mint (ta_mint (dp_user_base_account cx) = ta_mint (dp_market_base_vault cx)),
     same_mint (ta_mint (dp_user_quote_account cx) = ta_mint (dp_market_quote_vault cx)),
     has_one (oo_market oo = dp_market cx),
     has_one (market_base_vault m = ta_key (dp_market_base_vault cx)),
     has_one (market_quote_vault m = ta_key (dp_market_quote_vault cx))]"

record settle_funds_ctx =
  sf_owner :: pubkey
  sf_penalty_payer :: pubkey
  sf_open_orders_account :: pubkey
  sf_market :: pubkey
  sf_market_authority :: pubkey
  sf_market_base_vault :: token_account
  sf_market_quote_vault :: token_account
  sf_user_base_account :: token_account
  sf_user_quote_account :: token_account
  sf_referrer_account :: "token_account option"

definition referrer_mint_ok :: "token_account option \<Rightarrow> token_account \<Rightarrow> bool" where
  "referrer_mint_ok referrer vault \<longleftrightarrow> (case referrer of
     None \<Rightarrow> True | Some r \<Rightarrow> ta_mint r = ta_mint vault)"

definition check_settle_funds :: "settle_funds_ctx \<Rightarrow> market \<Rightarrow> open_orders_account \<Rightarrow> unit res" where
  "check_settle_funds cx m oo = all_ok
    [has_one (oo_market oo = sf_market cx),
     require (is_owner_or_delegate oo (sf_owner cx)) NoOwnerOrDelegate,
     has_one (market_base_vault m = ta_key (sf_market_base_vault cx)),
     has_one (market_quote_vault m = ta_key (sf_market_quote_vault cx)),
     has_one (market_authority m = sf_market_authority cx),
     same_mint (ta_mint (sf_user_base_account cx) = ta_mint (sf_market_base_vault cx)),
     raw (is_settle_destination_allowed oo (sf_owner cx) (ta_owner (sf_user_base_account cx))),
     same_mint (ta_mint (sf_user_quote_account cx) = ta_mint (sf_market_quote_vault cx)),
     raw (is_settle_destination_allowed oo (sf_owner cx) (ta_owner (sf_user_quote_account cx))),
     same_mint (referrer_mint_ok (sf_referrer_account cx) (sf_market_quote_vault cx))]"

text \<open>\<open>SettleFundsExpired\<close> has the accounts of \<open>SettleFunds\<close> and the admin, who signs.\<close>

record settle_expired_ctx =
  se_close_market_admin :: pubkey
  se_accounts :: settle_funds_ctx

definition check_close_admin :: "market \<Rightarrow> pubkey \<Rightarrow> unit res" where
  "check_close_admin m admin = all_ok
    [require (nz_is_some (close_market_admin m)) NoCloseMarketAdmin,
     require (nz_eq (close_market_admin m) admin) InvalidCloseMarketAdmin]"

definition check_settle_expired :: "settle_expired_ctx \<Rightarrow> market \<Rightarrow> open_orders_account \<Rightarrow> unit res" where
  "check_settle_expired ex m oo = (let cx = se_accounts ex in all_ok
    [has_one (oo_market oo = sf_market cx),
     has_one (market_base_vault m = ta_key (sf_market_base_vault cx)),
     has_one (market_quote_vault m = ta_key (sf_market_quote_vault cx)),
     has_one (market_authority m = sf_market_authority cx),
     check_close_admin m (se_close_market_admin ex),
     same_mint (ta_mint (sf_user_base_account cx) = ta_mint (sf_market_base_vault cx)),
     raw (ta_owner (sf_user_base_account cx) = oo_owner oo),
     same_mint (ta_mint (sf_user_quote_account cx) = ta_mint (sf_market_quote_vault cx)),
     raw (ta_owner (sf_user_quote_account cx) = oo_owner oo),
     same_mint (referrer_mint_ok (sf_referrer_account cx) (sf_market_quote_vault cx))])"

definition to_settle_funds :: "settle_expired_ctx \<Rightarrow> settle_funds_ctx" where
  "to_settle_funds ex = se_accounts ex"

record sweep_fees_ctx =
  sw_collect_fee_admin :: pubkey
  sw_market :: pubkey
  sw_market_authority :: pubkey
  sw_market_quote_vault :: token_account
  sw_token_receiver_account :: token_account

definition check_sweep_fees :: "sweep_fees_ctx \<Rightarrow> market \<Rightarrow> unit res" where
  "check_sweep_fees cx m = all_ok
    [has_one (market_quote_vault m = ta_key (sw_market_quote_vault cx)),
     has_one (collect_fee_admin m = sw_collect_fee_admin cx),
     has_one (market_authority m = sw_market_authority cx),
     same_mint (ta_mint (sw_token_receiver_account cx) = ta_mint (sw_market_quote_vault cx))]"

record prune_orders_ctx =
  pr_close_market_admin :: pubkey
  pr_open_orders_account :: pubkey
  pr_market :: pubkey
  pr_bids :: pubkey
  pr_asks :: pubkey

definition check_prune_orders :: "prune_orders_ctx \<Rightarrow> market \<Rightarrow> open_orders_account \<Rightarrow> unit res" where
  "check_prune_orders cx m oo = all_ok
    [has_one (oo_market oo = pr_market cx),
     has_one (m_bids m = pr_bids cx),
     has_one (m_asks m = pr_asks cx),
     check_close_admin m (pr_close_market_admin cx)]"

record close_market_ctx =
  cm_close_market_admin :: pubkey
  cm_market :: pubkey
  cm_bids :: pubkey
  cm_asks :: pubkey
  cm_event_heap :: pubkey

definition check_close_market :: "close_market_ctx \<Rightarrow> market \<Rightarrow> unit res" where
  "check_close_market cx m = all_ok
    [has_one (m_bids m = cm_bids cx),
     has_one (m_asks m = cm_asks cx),
     has_one (m_event_heap m = cm_event_heap cx),
     check_close_admin m (cm_close_market_admin cx)]"

definition check_set_market_expired :: "pubkey \<Rightarrow> market \<Rightarrow> unit res" where
  "check_set_market_expired admin m = check_close_admin m admin"

definition check_set_delegate :: "pubkey \<Rightarrow> open_orders_account \<Rightarrow> unit res" where
  "check_set_delegate owner oo = has_one (oo_owner oo = owner)"

end
