(* ===== verification/Trading.thy ===== *)
theory Trading
  imports Runtime
begin

text \<open>
  The trading instructions: \<open>place_order\<close>, \<open>place_take_order\<close>, \<open>cancel_all_and_place_orders\<close>,
  \<open>edit_order\<close>, the cancellations and \<open>consume_events\<close>, each as one definition on the world of
  the accounts it loads. The part of a handler that settles what an order costs against the free
  funds of the user is a definition of its own, so that its lemmas are stated once.
\<close>

section \<open>Placing an order\<close>

definition penalize :: "event_heap \<Rightarrow> event_heap \<Rightarrow> position \<Rightarrow> position res" where
  \<comment> \<open>one penalty when the heap has grown\<close>
  "penalize before after pa =
     (if heap_len after > heap_len before then
        bnd (chk_u64 (penalty_heap_count pa + 1)) (\<lambda>n. Ok (pa\<lparr>penalty_heap_count := n\<rparr>))
      else Ok pa)"

definition order_cost :: "side \<Rightarrow> order_with_amounts \<Rightarrow> u64 res" where
  \<comment> \<open>\<open>max_quote_including_fees\<close> of a bid, \<open>max_base_native\<close> of an ask\<close>
  "order_cost side r = (case side of
     Bid \<Rightarrow>
       bnd (chk_u64 (oa_total_quote_taken_native r + oa_posted_quote_native r)) (\<lambda>a.
       bnd (chk_u64 (a + oa_taker_fees r)) (\<lambda>b. chk_u64 (b + oa_maker_fees r)))
   | Ask \<Rightarrow> chk_u64 (oa_total_base_taken_native r + oa_posted_base_native r))"

definition pay_for_order :: "side \<Rightarrow> u64 \<Rightarrow> position \<Rightarrow> market \<Rightarrow> (u64 \<times> position \<times> market) res" where
  \<comment> \<open>free funds first, the rest is the deposit\<close>
  "pay_for_order side cost pa m = (case side of
     Bid \<Rightarrow>
       (let free_qty_to_lock = min cost (quote_free_native pa) in
        bnd (chk_u64 (cost - free_qty_to_lock)) (\<lambda>deposit_amount.
        bnd (chk_u64 (quote_free_native pa - free_qty_to_lock)) (\<lambda>qf.
        bnd (chk_u64 (quote_deposit_total m + deposit_amount)) (\<lambda>t.
        Ok (deposit_amount, pa\<lparr>quote_free_native := qf\<rparr>, m\<lparr>quote_deposit_total := t\<rparr>)))))
   | Ask \<Rightarrow>
       (let free_qty_to_lock = min cost (base_free_native pa) in
        bnd (chk_u64 (cost - free_qty_to_lock)) (\<lambda>deposit_amount.
        bnd (chk_u64 (base_free_native pa - free_qty_to_lock)) (\<lambda>bf.
        bnd (chk_u64 (base_deposit_total m + deposit_amount)) (\<lambda>t.
        Ok (deposit_amount, pa\<lparr>base_free_native := bf\<rparr>, m\<lparr>base_deposit_total := t\<rparr>))))))"

definition world_accounts :: "pubkey \<Rightarrow> 's world \<Rightarrow> accounts" where
  "world_accounts k w = \<lparr>ac_market = w_market w, ac_heap = w_heap w, ac_ooa = Some (w_ooa w),
     ac_remaining = borrow_out k (w_remaining w)\<rparr>"

definition check_order_lots :: "order \<Rightarrow> unit res" where
  "check_order_lots order =
     bnd (require (o_max_base_lots order \<ge> 0) InvalidInputLots) (\<lambda>_.
     require (o_max_quote_lots_including_fees order \<ge> 0) InvalidInputLots)"

definition place_order ::
  "'s runtime \<Rightarrow> clock \<Rightarrow> i64 option res \<Rightarrow> place_order_ctx \<Rightarrow> order \<Rightarrow> int \<Rightarrow> 's world \<Rightarrow>
   (key128 option \<times> 's world) res" where
  "place_order rt ck opl_res cx order lim w =
     bnd (check_order_lots order) (\<lambda>_.
     bnd (require (get_vault_by_side (w_market w) (o_side order) = ta_key (po_market_vault cx))
            InvalidMarketVault) (\<lambda>_.
     bnd (require (\<not> market_is_expired (w_market w) (ck_unix_timestamp ck)) MarketHasExpired) (\<lambda>_.
     bnd (clock_u64 ck) (\<lambda>now_ts.
     bnd opl_res (\<lambda>oracle_price_lots.
     bnd (new_order (w_book w) order (po_open_orders_account cx) now_ts lim oracle_price_lots
            (world_accounts (po_open_orders_account cx) w)) (\<lambda>(r, ob, ac).
     bnd (unwrap (ac_ooa ac)) (\<lambda>oo.
     bnd (order_cost (o_side order) r) (\<lambda>cost.
     bnd (pay_for_order (o_side order) cost (oo_position oo) (ac_market ac)) (\<lambda>(deposit_amount, pa, m).
     bnd (penalize (w_heap w) (ac_heap ac) pa) (\<lambda>pa'.
     bnd (token_transfer rt deposit_amount (ta_key (po_user_token_account cx))
            (ta_key (po_market_vault cx)) (po_signer cx) (w_tokens w)) (\<lambda>tok.
     let oo' = oo\<lparr>oo_position := pa'\<rparr> in
     Ok (oa_order_id r, \<lparr>w_market = m, w_book = ob, w_heap = ac_heap ac, w_ooa = oo',
        w_remaining = give_back (po_open_orders_account cx) oo' (ac_remaining ac),
        w_tokens = tok\<rparr>))))))))))))"

section \<open>Taking without an open-orders account\<close>

definition take_amounts :: "side \<Rightarrow> order_with_amounts \<Rightarrow> market \<Rightarrow> (u64 \<times> u64 \<times> market) res" where
  \<comment> \<open>what the taker deposits and withdraws, and the deposit totals after it\<close>
  "take_amounts side r m =
     bnd (chk_u64 (oa_taker_fees r - oa_referrer_amount r)) (\<lambda>makers_rebates.
     case side of
       Bid \<Rightarrow>
         bnd (chk_u64 (oa_total_quote_taken_native r + makers_rebates)) (\<lambda>q.
         bnd (chk_u64 (base_deposit_total m - oa_total_base_taken_native r)) (\<lambda>bt.
         bnd (chk_u64 (quote_deposit_total m + q)) (\<lambda>qt.
         Ok (q, oa_total_base_taken_native r, m\<lparr>base_deposit_total := bt, quote_deposit_total := qt\<rparr>))))
     | Ask \<Rightarrow>
         bnd (chk_u64 (oa_total_quote_taken_native r - makers_rebates)) (\<lambda>q.
         bnd (chk_u64 (base_deposit_total m + oa_total_base_taken_native r)) (\<lambda>bt.
         bnd (chk_u64 (quote_deposit_total m - q)) (\<lambda>qt.
         Ok (oa_total_base_taken_native r, q, m\<lparr>base_deposit_total := bt, quote_deposit_total := qt\<rparr>)))))"

definition take_transfers ::
  "'s runtime \<Rightarrow> place_take_order_ctx \<Rightarrow> side \<Rightarrow> seeds \<Rightarrow> u64 \<Rightarrow> u64 \<Rightarrow> 's \<Rightarrow> 's res" where
  "take_transfers rt cx side sds deposit_amount withdraw_amount tok =
     (let (user_deposit_acc, user_withdraw_acc, market_deposit_acc, market_withdraw_acc) =
        (case side of
           Bid \<Rightarrow> (pt_user_quote_account cx, pt_user_base_account cx,
             pt_market_quote_vault cx, pt_market_base_vault cx)
         | Ask \<Rightarrow> (pt_user_base_account cx, pt_user_quote_account cx,
             pt_market_base_vault cx, pt_market_quote_vault cx)) in
      bnd (token_transfer rt deposit_amount (ta_key user_deposit_acc) (ta_key market_deposit_acc)
             (pt_signer cx) tok) (\<lambda>tok1.
      token_transfer_signed rt withdraw_amount (ta_key market_withdraw_acc) (ta_key user_withdraw_acc)
        (pt_market_authority cx) sds tok1))"

text \<open>The world's open-orders account is not among the accounts of this instruction.\<close>

definition place_take_order ::
  "'s runtime \<Rightarrow> clock \<Rightarrow> i64 option res \<Rightarrow> place_take_order_ctx \<Rightarrow> order \<Rightarrow> int \<Rightarrow> 's world \<Rightarrow>
   's world res" where
  "place_take_order rt ck opl_res cx order lim w =
     bnd (check_order_lots order) (\<lambda>_.
     bnd (require (\<not> market_is_expired (w_market w) (ck_unix_timestamp ck)) MarketHasExpired) (\<lambda>_.
     bnd (clock_u64 ck) (\<lambda>now_ts.
     bnd opl_res (\<lambda>oracle_price_lots.
     bnd (new_order (w_book w) order (pt_signer cx) now_ts lim oracle_price_lots
            \<lparr>ac_market = w_market w, ac_heap = w_heap w, ac_ooa = None,
             ac_remaining = w_remaining w\<rparr>) (\<lambda>(r, ob, ac).
     bnd (take_amounts (o_side order) r (ac_market ac)) (\<lambda>(deposit_amount, withdraw_amount, m).
     bnd (if heap_len (ac_heap ac) > heap_len (w_heap w)
          then system_program_transfer rt PENALTY_EVENT_HEAP (pt_penalty_payer cx) (pt_market cx) (w_tokens w)
          else Ok (w_tokens w)) (\<lambda>tok.
     bnd (take_transfers rt cx (o_side order) (market_seeds m (pt_market cx)) deposit_amount
            withdraw_amount tok) (\<lambda>tok'.
     Ok (w\<lparr>w_market := m, w_book := ob, w_heap := ac_heap ac, w_remaining := ac_remaining ac,
           w_tokens := tok'\<rparr>)))))))))"

section \<open>Cancelling and placing several orders\<close>

text \<open>An order of the list, with its amounts bounded by what the user can still pay.\<close>

definition bound_order ::
  "place_all_ctx \<Rightarrow> u64 \<Rightarrow> u64 \<Rightarrow> market \<Rightarrow> position \<Rightarrow> order \<Rightarrow> order res" where
  "bound_order cx base_amount quote_amount m pa order =
     bnd (max_base_lots m) (\<lambda>mxb.
     bnd (require (o_max_quote_lots_including_fees order \<ge> 0) InvalidInputLots) (\<lambda>_.
     case o_side order of
       Ask \<Rightarrow>
         bnd (chk_u64 (ta_amount (pa_user_base_account cx) + base_free_native pa)) (\<lambda>a.
         bnd (chk_u64 (a - base_amount)) (\<lambda>max_available_base.
         bnd (max_base_lots_from_lamports m max_available_base) (\<lambda>l.
         Ok (order\<lparr>o_max_base_lots := min mxb l\<rparr>))))
     | Bid \<Rightarrow>
         bnd (chk_u64 (ta_amount (pa_user_quote_account cx) + quote_free_native pa)) (\<lambda>a.
         bnd (chk_u64 (a - quote_amount)) (\<lambda>max_available_quote.
         bnd (max_quote_lots_from_lamports m max_available_quote) (\<lambda>l.
         Ok (order\<lparr>o_max_base_lots := mxb,
           o_max_quote_lots_including_fees := min (o_max_quote_lots_including_fees order) l\<rparr>))))))"

definition add_cost :: "side \<Rightarrow> order_with_amounts \<Rightarrow> u64 \<Rightarrow> u64 \<Rightarrow> (u64 \<times> u64) res" where
  "add_cost side r base_amount quote_amount =
     bnd (order_cost side r) (\<lambda>cost. case side of
       Bid \<Rightarrow> if is_u64 (quote_amount + cost) then Ok (base_amount, quote_amount + cost)
              else Inl (Err InvalidInputOrdersAmounts)
     | Ask \<Rightarrow> if is_u64 (base_amount + cost) then Ok (base_amount + cost, quote_amount)
              else Inl (Err InvalidInputOrdersAmounts))"

fun place_each ::
  "place_all_ctx \<Rightarrow> u64 \<Rightarrow> int \<Rightarrow> i64 option \<Rightarrow> order list \<Rightarrow> u64 \<Rightarrow> u64 \<Rightarrow> key128 option list \<Rightarrow>
   orderbook \<Rightarrow> accounts \<Rightarrow> (u64 \<times> u64 \<times> key128 option list \<times> orderbook \<times> accounts) res" where
  "place_each cx now_ts lim opl [] base_amount quote_amount ids ob ac =
     Ok (base_amount, quote_amount, ids, ob, ac)"
| "place_each cx now_ts lim opl (order # orders) base_amount quote_amount ids ob ac =
     bnd (unwrap (ac_ooa ac)) (\<lambda>oo.
     bnd (bound_order cx base_amount quote_amount (ac_market ac) (oo_position oo) order) (\<lambda>order'.
     bnd (new_order ob order' (pa_open_orders_account cx) now_ts lim opl ac) (\<lambda>(r, ob', ac').
     bnd (add_cost (o_side order') r base_amount quote_amount) (\<lambda>(b, q).
     place_each cx now_ts lim opl orders b q (ids @ [oa_order_id r]) ob' ac'))))"

definition cancel_all_and_place_orders ::
  "'s runtime \<Rightarrow> clock \<Rightarrow> i64 option res \<Rightarrow> place_all_ctx \<Rightarrow> bool \<Rightarrow> order list \<Rightarrow> int \<Rightarrow> 's world \<Rightarrow>
   (key128 option list \<times> 's world) res" where
  "cancel_all_and_place_orders rt ck opl_res cx cancel orders lim w =
     (let k = pa_open_orders_account cx; m = w_market w in
      bnd (require (\<not> market_is_expired m (ck_unix_timestamp ck)) MarketHasExpired) (\<lambda>_.
      bnd (clock_u64 ck) (\<lambda>now_ts.
      bnd opl_res (\<lambda>oracle_price_lots.
      bnd (if cancel then cancel_all_orders (w_book w) (w_ooa w) m U8_MAX None None
           else Ok (0, w_book w, w_ooa w)) (\<lambda>(_, ob0, oo0).
      bnd (place_each cx now_ts lim oracle_price_lots orders 0 0 [] ob0
             \<lparr>ac_market = m, ac_heap = w_heap w, ac_ooa = Some oo0,
              ac_remaining = borrow_out k (w_remaining w)\<rparr>)
        (\<lambda>(base_amount, quote_amount, ids, ob, ac).
      bnd (unwrap (ac_ooa ac)) (\<lambda>oo.
      bnd (pay_for_order Ask base_amount (oo_position oo) (ac_market ac)) (\<lambda>(deposit_base, pa1, m1).
      bnd (pay_for_order Bid quote_amount pa1 m1) (\<lambda>(deposit_quote, pa2, m2).
      bnd (penalize (w_heap w) (ac_heap ac) pa2) (\<lambda>pa3.
      bnd (token_transfer rt deposit_quote (ta_key (pa_user_quote_account cx))
             (ta_key (pa_market_quote_vault cx)) (pa_signer cx) (w_tokens w)) (\<lambda>tok1.
      bnd (token_transfer rt deposit_base (ta_key (pa_user_base_account cx))
             (ta_key (pa_market_base_vault cx)) (pa_signer cx) tok1) (\<lambda>tok2.
      let oo' = oo\<lparr>oo_position := pa3\<rparr> in
      Ok (ids, \<lparr>w_market = m2, w_book = ob, w_heap = ac_heap ac, w_ooa = oo',
         w_remaining = give_back k oo' (ac_remaining ac), w_tokens = tok2\<rparr>)))))))))))))"

section \<open>Cancelling\<close>

definition cancel_order_instr :: "cancel_order_ctx \<Rightarrow> key128 \<Rightarrow> 's world \<Rightarrow> 's world res" where
  \<comment> \<open>\<open>instructions::cancel_order\<close>\<close>
  "cancel_order_instr cx order_id w =
     bnd (require (order_id > 0) InvalidInputOrderId) (\<lambda>_.
     bnd (ok_or (find_order_with_order_id (w_ooa w) order_id) OpenOrdersOrderNotFound) (\<lambda>o1.
     bnd (cancel_order (w_book w) (w_ooa w) (oo_id o1) (oo_side_and_tree o1) (w_market w)
            (Some (co_open_orders_account cx))) (\<lambda>(_, ob, oo).
     Ok (w\<lparr>w_book := ob, w_ooa := oo\<rparr>))))"

definition cancel_all_orders_instr :: "side option \<Rightarrow> int \<Rightarrow> 's world \<Rightarrow> 's world res" where
  \<comment> \<open>\<open>instructions::cancel_all_orders\<close>\<close>
  "cancel_all_orders_instr side_option lim w =
     bnd (cancel_all_orders (w_book w) (w_ooa w) (w_market w) lim side_option None) (\<lambda>(_, ob, oo).
     Ok (w\<lparr>w_book := ob, w_ooa := oo\<rparr>))"

definition cancel_order_by_client_order_id :: "u64 \<Rightarrow> 's world \<Rightarrow> (i64 \<times> 's world) res" where
  "cancel_order_by_client_order_id cid w =
     bnd (cancel_all_orders (w_book w) (w_ooa w) (w_market w) U8_MAX None (Some cid))
       (\<lambda>(n, ob, oo). Ok (n, w\<lparr>w_book := ob, w_ooa := oo\<rparr>))"

definition edit_order ::
  "'s runtime \<Rightarrow> clock \<Rightarrow> i64 option res \<Rightarrow> place_order_ctx \<Rightarrow> u64 \<Rightarrow> i64 \<Rightarrow> order \<Rightarrow> int \<Rightarrow>
   's world \<Rightarrow> (key128 option \<times> 's world) res" where
  "edit_order rt ck opl_res cx cancel_client_order_id expected_cancel_size order lim w =
     bnd (require (expected_cancel_size \<ge> 0) InvalidInputCancelSize) (\<lambda>_.
     bnd (cancel_order_by_client_order_id cancel_client_order_id w) (\<lambda>(leaf_node_quantity, w1).
     bnd (chk_i64 (expected_cancel_size - leaf_node_quantity)) (\<lambda>filled_amount.
     if filled_amount > 0 \<and> o_max_base_lots order > filled_amount then
       bnd (chk_i64 (o_max_base_lots order - filled_amount)) (\<lambda>mb.
       place_order rt ck opl_res cx (order\<lparr>o_max_base_lots := mb\<rparr>) lim w1)
     else Ok (None, w1))))"

definition prune_orders :: "clock \<Rightarrow> int \<Rightarrow> 's world \<Rightarrow> 's world res" where
  "prune_orders ck lim w =
     bnd (require (market_is_expired (w_market w) (ck_unix_timestamp ck)) MarketHasNotExpired) (\<lambda>_.
     bnd (cancel_all_orders (w_book w) (w_ooa w) (w_market w) lim None None) (\<lambda>(_, ob, oo).
     Ok (w\<lparr>w_book := ob, w_ooa := oo\<rparr>)))"

section \<open>Consuming events\<close>

definition MAX_EVENTS_CONSUME :: nat where "MAX_EVENTS_CONSUME = 8"

text \<open>\<open>slots_to_consume\<close>: the given slots in use, then the slots in the order of the queue, each
  once, \<open>n\<close> at most. The chain is lazy: what comes after the \<open>n\<close> slots is not looked at.\<close>

fun take_given :: "event_heap \<Rightarrow> nat \<Rightarrow> nat list \<Rightarrow> nat list \<Rightarrow> nat list res" where
  "take_given h n taken [] = Ok taken"
| "take_given h n taken (s # ss) =
     (if length taken \<ge> n then Ok taken
      else bnd (arr_get (ev_nodes h) s) (\<lambda>nd.
        take_given h n (if ev_is_free nd \<or> s \<in> set taken then taken else taken @ [s]) ss))"

fun take_queued :: "nat \<Rightarrow> event_heap \<Rightarrow> nat \<Rightarrow> nat \<Rightarrow> nat list \<Rightarrow> nat list res" where
  "take_queued 0 h n s taken = Ok taken"
| "take_queued (Suc k) h n s taken =
     (if length taken \<ge> n then Ok taken
      else bnd (arr_get (ev_nodes h) s) (\<lambda>nd.
        take_queued k h n (ev_next nd) (if s \<in> set taken then taken else taken @ [s])))"

definition slots_to_consume :: "event_heap \<Rightarrow> nat \<Rightarrow> nat list option \<Rightarrow> nat list res" where
  "slots_to_consume h lim slots =
     bnd (take_given h lim [] (case slots of None \<Rightarrow> [] | Some ss \<Rightarrow> ss)) (\<lambda>taken.
     take_queued (heap_len h) h lim (used_head h) taken)"

text \<open>One event; an account that was not passed leaves the event where it is.\<close>

definition apply_event ::
  "any_event \<Rightarrow> market \<Rightarrow> remaining_accs \<Rightarrow> (market \<times> remaining_accs) option res" where
  "apply_event event m accs = (case event of
     FillEv fill \<Rightarrow> (case map_of accs (fe_maker fill) of
         None \<Rightarrow> Ok None
       | Some a \<Rightarrow>
           bnd (load_mut a) (\<lambda>maker.
           bnd (execute_maker fill m maker) (\<lambda>(maker', m').
           Ok (Some (m', store_acc (fe_maker fill) maker' accs)))))
   | OutEv out \<Rightarrow> (case map_of accs (oe_owner out) of
         None \<Rightarrow> Ok None
       | Some a \<Rightarrow>
           bnd (load_mut a) (\<lambda>owner.
           bnd (cancel_slot (oe_owner_slot out) (oe_quantity out) m owner) (\<lambda>owner'.
           Ok (Some (m, store_acc (oe_owner out) owner' accs))))))"

definition consume_slot ::
  "nat \<Rightarrow> market \<times> event_heap \<times> remaining_accs \<Rightarrow> (market \<times> event_heap \<times> remaining_accs) res" where
  "consume_slot slot s = (case s of (m, h, accs) \<Rightarrow>
     bnd (unwrap (heap_at_slot h slot)) (\<lambda>event.
     bnd (apply_event event m accs) (\<lambda>r. case r of
       None \<Rightarrow> Ok (m, h, accs)
     | Some (m', accs') \<Rightarrow>
         bnd (delete_slot slot h) (\<lambda>(_, h'). Ok (m', h', accs')))))"

fun consume_slots ::
  "nat list \<Rightarrow> market \<times> event_heap \<times> remaining_accs \<Rightarrow> (market \<times> event_heap \<times> remaining_accs) res" where
  "consume_slots [] s = Ok s"
| "consume_slots (slot # slots) s = bnd (consume_slot slot s) (consume_slots slots)"

definition consume_events :: "nat \<Rightarrow> nat list option \<Rightarrow> 's world \<Rightarrow> 's world res" where
  "consume_events lim slots w =
     bnd (slots_to_consume (w_heap w) (min lim MAX_EVENTS_CONSUME) slots) (\<lambda>ss.
     bnd (consume_slots ss (w_market w, w_heap w, w_remaining w)) (\<lambda>(m, h, accs).
     Ok (w\<lparr>w_market := m, w_heap := h, w_remaining := accs\<rparr>)))"

end
