(* ===== verification/Funds.thy ===== *)
theory Funds
  imports Runtime
begin

text \<open>
  The instructions that move funds without trading: \<open>deposit\<close> and \<open>refill\<close>, \<open>settle_funds\<close> and
  \<open>settle_funds_expired\<close>, \<open>sweep_fees\<close>. Logs are left out.
\<close>

section \<open>Deposits\<close>

definition deposit ::
  "'s runtime \<Rightarrow> clock \<Rightarrow> deposit_ctx \<Rightarrow> u64 \<Rightarrow> u64 \<Rightarrow> 's world \<Rightarrow> 's world res" where
  "deposit rt ck cx base_amount quote_amount w =
     (let m = w_market w; pa = oo_position (w_ooa w) in
      bnd (require (\<not> market_is_expired m (ck_unix_timestamp ck)) MarketHasExpired) (\<lambda>_.
      bnd (token_transfer rt base_amount (ta_key (dp_user_base_account cx))
             (ta_key (dp_market_base_vault cx)) (dp_owner cx) (w_tokens w)) (\<lambda>tok1.
      bnd (chk_u64 (base_free_native pa + base_amount)) (\<lambda>bf.
      bnd (chk_u64 (base_deposit_total m + base_amount)) (\<lambda>bt.
      bnd (token_transfer rt quote_amount (ta_key (dp_user_quote_account cx))
             (ta_key (dp_market_quote_vault cx)) (dp_owner cx) tok1) (\<lambda>tok2.
      bnd (chk_u64 (quote_free_native pa + quote_amount)) (\<lambda>qf.
      bnd (chk_u64 (quote_deposit_total m + quote_amount)) (\<lambda>qt.
      Ok (w\<lparr>w_market := m\<lparr>base_deposit_total := bt, quote_deposit_total := qt\<rparr>,
            w_ooa := (w_ooa w)\<lparr>oo_position := pa\<lparr>base_free_native := bf, quote_free_native := qf\<rparr>\<rparr>,
            w_tokens := tok2\<rparr>)))))))))"

definition refill ::
  "'s runtime \<Rightarrow> clock \<Rightarrow> deposit_ctx \<Rightarrow> u64 \<Rightarrow> u64 \<Rightarrow> 's world \<Rightarrow> 's world res" where
  "refill rt ck cx base_amount quote_amount w =
     (let pa = oo_position (w_ooa w);
          q = quote_amount - min quote_amount (quote_free_native pa);
          b = base_amount - min base_amount (base_free_native pa) in
      deposit rt ck cx b q w)"

section \<open>Settling\<close>

text \<open>The accounting of \<open>settle_funds\<close>: the rebate the referrer gets, and the market after it.\<close>

definition roundoff_maker_fees :: "market \<Rightarrow> position \<Rightarrow> u64 \<times> position" where
  "roundoff_maker_fees m pa =
     (if maker_fee m > 0 \<and> bids_base_lots pa = 0
      then (locked_maker_fees pa, pa\<lparr>locked_maker_fees := 0\<rparr>) else (0, pa))"

definition settle_market :: "bool \<Rightarrow> u64 \<Rightarrow> position \<Rightarrow> market \<Rightarrow> market res" where
  "settle_market has_referrer referrer_rebate pa m =
     bnd (if has_referrer then
            bnd (chk_u128 (fees_to_referrers m + referrer_rebate)) (\<lambda>f.
            bnd (chk_u64 (quote_deposit_total m - referrer_rebate)) (\<lambda>t.
            Ok (m\<lparr>fees_to_referrers := f, quote_deposit_total := t\<rparr>)))
          else
            bnd (chk_u64 (fees_available m + referrer_rebate)) (\<lambda>f. Ok (m\<lparr>fees_available := f\<rparr>))) (\<lambda>m1.
     bnd (chk_u64 (base_deposit_total m1 - base_free_native pa)) (\<lambda>bt.
     bnd (chk_u64 (quote_deposit_total m1 - quote_free_native pa)) (\<lambda>qt.
     bnd (chk_u64 (referrer_rebates_accrued m1 - referrer_rebates_available pa)) (\<lambda>ra.
     Ok (m1\<lparr>base_deposit_total := bt, quote_deposit_total := qt, referrer_rebates_accrued := ra\<rparr>)))))"

definition settle_penalty ::
  "'s runtime \<Rightarrow> settle_funds_ctx \<Rightarrow> position \<Rightarrow> 's \<Rightarrow> (position \<times> 's) res" where
  "settle_penalty rt cx pa tok =
     (if penalty_heap_count pa > 0 then
        bnd (chk_u64 (penalty_heap_count pa * PENALTY_EVENT_HEAP)) (\<lambda>amount.
        bnd (system_program_transfer rt amount (sf_penalty_payer cx) (sf_market cx) tok) (\<lambda>tok'.
        Ok (pa\<lparr>penalty_heap_count := 0\<rparr>, tok')))
      else Ok (pa, tok))"

definition settle_transfers ::
  "'s runtime \<Rightarrow> settle_funds_ctx \<Rightarrow> seeds \<Rightarrow> u64 \<Rightarrow> position \<Rightarrow> 's \<Rightarrow> 's res" where
  "settle_transfers rt cx sds referrer_rebate pa tok =
     bnd (case sf_referrer_account cx of
            Some r \<Rightarrow> token_transfer_signed rt referrer_rebate (ta_key (sf_market_quote_vault cx))
              (ta_key r) (sf_market_authority cx) sds tok
          | None \<Rightarrow> Ok tok) (\<lambda>tok1.
     bnd (token_transfer_signed rt (base_free_native pa) (ta_key (sf_market_base_vault cx))
            (ta_key (sf_user_base_account cx)) (sf_market_authority cx) sds tok1) (\<lambda>tok2.
     token_transfer_signed rt (quote_free_native pa) (ta_key (sf_market_quote_vault cx))
       (ta_key (sf_user_quote_account cx)) (sf_market_authority cx) sds tok2))"

definition settle_funds :: "'s runtime \<Rightarrow> settle_funds_ctx \<Rightarrow> 's world \<Rightarrow> 's world res" where
  "settle_funds rt cx w =
     (let (roundoff, pa) = roundoff_maker_fees (w_market w) (oo_position (w_ooa w)) in
      bnd (chk_u64 (referrer_rebates_available pa + roundoff)) (\<lambda>referrer_rebate.
      bnd (settle_market (sf_referrer_account cx \<noteq> None) referrer_rebate pa (w_market w)) (\<lambda>m.
      bnd (settle_penalty rt cx pa (w_tokens w)) (\<lambda>(pa1, tok1).
      bnd (settle_transfers rt cx (market_seeds m (sf_market cx)) referrer_rebate pa1 tok1) (\<lambda>tok2.
      Ok (w\<lparr>w_market := m,
            w_ooa := (w_ooa w)\<lparr>oo_position := pa1\<lparr>base_free_native := 0, quote_free_native := 0,
              referrer_rebates_available := 0\<rparr>\<rparr>,
            w_tokens := tok2\<rparr>))))))"

definition settle_funds_expired ::
  "'s runtime \<Rightarrow> clock \<Rightarrow> settle_expired_ctx \<Rightarrow> 's world \<Rightarrow> 's world res" where
  "settle_funds_expired rt ck ex w =
     bnd (require (market_is_expired (w_market w) (ck_unix_timestamp ck)) MarketHasNotExpired) (\<lambda>_.
     settle_funds rt (to_settle_funds ex) w)"

section \<open>Fees\<close>

definition sweep_fees :: "'s runtime \<Rightarrow> sweep_fees_ctx \<Rightarrow> 's world \<Rightarrow> 's world res" where
  "sweep_fees rt cx w =
     (let m = w_market w; amount = fees_available m in
      bnd (chk_u64 (quote_deposit_total m - amount)) (\<lambda>t.
      let m' = m\<lparr>fees_available := 0, quote_deposit_total := t\<rparr> in
      bnd (token_transfer_signed rt amount (ta_key (sw_market_quote_vault cx))
             (ta_key (sw_token_receiver_account cx)) (sw_market_authority cx)
             (market_seeds m' (sw_market cx)) (w_tokens w)) (\<lambda>tok.
      Ok (w\<lparr>w_market := m', w_tokens := tok\<rparr>))))"

end
