(* ===== verification/Admin.thy ===== *)
theory Admin
  imports Runtime
begin

text \<open>
  The life of the accounts: creating and closing a market, open-orders accounts and their
  indexer, delegates, expiry, and the stub oracle. Anchor allocates, initialises (with zeros) and
  closes the accounts themselves; a handler fills or checks them. Prices of the stub oracle are
  the 64 bits of a float.
\<close>

section \<open>Markets\<close>

datatype oracle_type = Pyth | Stub | SwitchboardV1 | SwitchboardV2 | RaydiumCLMM

record create_market_ctx =
  cr_market :: pubkey
  cr_market_authority :: pubkey
  cr_market_authority_bump :: nat
  cr_bids :: pubkey
  cr_asks :: pubkey
  cr_event_heap :: pubkey
  cr_market_base_vault :: pubkey
  cr_market_quote_vault :: pubkey
  cr_base_mint :: pubkey
  cr_base_decimals :: nat
  cr_quote_mint :: pubkey
  cr_quote_decimals :: nat
  cr_oracle_a :: "pubkey option"
  cr_oracle_b :: "pubkey option"
  cr_collect_fee_admin :: pubkey
  cr_open_orders_admin :: "pubkey option"
  cr_consume_events_admin :: "pubkey option"
  cr_close_market_admin :: "pubkey option"

definition check_create_market :: "create_market_ctx \<Rightarrow> unit res" where
  "check_create_market cx = raw (cr_base_mint cx \<noteq> cr_quote_mint cx)"

text \<open>The confidence filter is widened from \<open>f32\<close> to \<open>f64\<close> by \<open>widen\<close>.\<close>

record oracle_config_params =
  ocp_conf_filter :: "32 word"
  ocp_max_staleness_slots :: "int option"

definition to_oracle_config :: "(32 word \<Rightarrow> 64 word) \<Rightarrow> oracle_config_params \<Rightarrow> oracle_config" where
  "to_oracle_config widen p = \<lparr>conf_filter = widen (ocp_conf_filter p),
     max_staleness_slots = (case ocp_max_staleness_slots p of Some v \<Rightarrow> v | None \<Rightarrow> -1)\<rparr>"

text \<open>\<open>kind\<close> is \<open>determine_oracle_type\<close> of the account with a key. A key of zero stands for no
  oracle; the source unwraps the account then.\<close>

definition check_oracles ::
  "(pubkey \<Rightarrow> oracle_type res) \<Rightarrow> pubkey option \<Rightarrow> pubkey option \<Rightarrow> unit res" where
  "check_oracles kind opt_a opt_b =
     (if nz_is_some (non_zero_key opt_a) \<and> nz_is_some (non_zero_key opt_b) then
        bnd (unwrap opt_a) (\<lambda>a. bnd (unwrap opt_b) (\<lambda>b.
        bnd (require_anchor (a \<noteq> b) RequireKeysNeqViolated) (\<lambda>_.
        bnd (kind a) (\<lambda>ta. bnd (kind b) (\<lambda>tb. require (ta = tb) InvalidOracleTypes)))))
      else if nz_is_some (non_zero_key opt_a) then
        bnd (unwrap opt_a) (\<lambda>a. bnd (kind a) (\<lambda>_. Ok ()))
      else if nz_is_some (non_zero_key opt_b) then Inl (Err InvalidSecondOracle)
      else Ok ())"

definition check_fees :: "i64 \<Rightarrow> i64 \<Rightarrow> unit res" where
  "check_fees mk tk =
     bnd (require (\<bar>mk\<bar> \<le> FEES_SCALE_FACTOR) InvalidInputMarketFees) (\<lambda>_.
     bnd (require (\<bar>tk\<bar> \<le> FEES_SCALE_FACTOR) InvalidInputMarketFees) (\<lambda>_.
     bnd (if tk \<ge> 0 then (if mk \<ge> 0 then Ok True else bnd (chk_i64 \<bar>mk\<bar>) (\<lambda>x. Ok (x \<le> tk)))
          else Ok False) (\<lambda>b.
     require b InvalidInputMarketFees)))"

definition create_market ::
  "(32 word \<Rightarrow> 64 word) \<Rightarrow> (pubkey \<Rightarrow> oracle_type res) \<Rightarrow> clock \<Rightarrow> create_market_ctx \<Rightarrow>
   8 word list \<Rightarrow> oracle_config_params \<Rightarrow> i64 \<Rightarrow> i64 \<Rightarrow> i64 \<Rightarrow> i64 \<Rightarrow> i64 \<Rightarrow> orderbook \<Rightarrow> event_heap \<Rightarrow>
   (market \<times> orderbook \<times> event_heap) res" where
  "create_market widen kind ck cx name cfg ql bl mk tk expiry ob h =
     bnd (check_fees mk tk) (\<lambda>_.
     bnd (require (expiry = 0 \<or> expiry > ck_unix_timestamp ck) InvalidInputMarketExpired) (\<lambda>_.
     bnd (require (ql > 0) InvalidInputLots) (\<lambda>_.
     bnd (require (bl > 0) InvalidInputLots) (\<lambda>_.
     bnd (check_oracles kind (cr_oracle_a cx) (cr_oracle_b cx)) (\<lambda>_.
     bnd (fill_from_str 16 name) (\<lambda>nm.
     Ok (\<lparr>m_bump = cr_market_authority_bump cx, base_decimals = cr_base_decimals cx,
          quote_decimals = cr_quote_decimals cx, market_authority = cr_market_authority cx,
          time_expiry = expiry, collect_fee_admin = cr_collect_fee_admin cx,
          open_orders_admin = non_zero_key (cr_open_orders_admin cx),
          consume_events_admin = non_zero_key (cr_consume_events_admin cx),
          close_market_admin = non_zero_key (cr_close_market_admin cx), m_name = nm,
          m_bids = cr_bids cx, m_asks = cr_asks cx, m_event_heap = cr_event_heap cx,
          oracle_a = non_zero_key (cr_oracle_a cx), oracle_b = non_zero_key (cr_oracle_b cx),
          m_oracle_config = to_oracle_config widen cfg, quote_lot_size = ql, base_lot_size = bl,
          seq_num = 0, registration_time = ck_unix_timestamp ck, maker_fee = mk, taker_fee = tk,
          fees_accrued = 0, fees_to_referrers = 0, referrer_rebates_accrued = 0,
          fees_available = 0, m_maker_volume = 0, taker_volume_wo_oo = 0,
          base_mint = cr_base_mint cx, quote_mint = cr_quote_mint cx,
          market_base_vault = cr_market_base_vault cx, base_deposit_total = 0,
          market_quote_vault = cr_market_quote_vault cx, quote_deposit_total = 0\<rparr>,
         orderbook_init ob, heap_init h)))))))"

definition set_market_expired :: "clock \<Rightarrow> market \<Rightarrow> market res" where
  "set_market_expired ck m =
     bnd (require (\<not> market_is_expired m (ck_unix_timestamp ck)) MarketHasExpired) (\<lambda>_.
     Ok (m\<lparr>time_expiry := -1\<rparr>))"

definition close_market :: "clock \<Rightarrow> 's world \<Rightarrow> unit res" where
  "close_market ck w =
     bnd (require (market_is_expired (w_market w) (ck_unix_timestamp ck)) MarketHasNotExpired) (\<lambda>_.
     bnd (require (market_is_empty (w_market w)) NonEmptyMarket) (\<lambda>_.
     bnd (orderbook_is_empty (w_book w)) (\<lambda>e.
     bnd (require e BookContainsElements) (\<lambda>_.
     require (heap_is_empty (w_heap w)) EventHeapContainsElements))))"

section \<open>Open-orders accounts\<close>

definition create_open_orders_indexer :: "nat \<Rightarrow> open_orders_indexer \<Rightarrow> open_orders_indexer" where
  "create_open_orders_indexer bump ix = ix\<lparr>ix_bump := bump, ix_created_counter := 0\<rparr>"

definition close_open_orders_indexer :: "open_orders_indexer \<Rightarrow> unit res" where
  "close_open_orders_indexer ix =
     require (\<not> has_active_open_orders_accounts ix) IndexerActiveOO"

record create_ooa_ctx =
  cc_owner :: pubkey
  cc_delegate_account :: "pubkey option"
  cc_open_orders_account :: pubkey
  cc_bump :: nat
  cc_market :: pubkey

definition check_create_ooa :: "open_orders_indexer \<Rightarrow> unit res" where
  \<comment> \<open>the size limit of the indexer, and the counter in the seeds of the new account\<close>
  "check_create_ooa ix =
     bnd (raw (length (ix_addresses ix) < 256)) (\<lambda>_.
     bnd (chk_u32 (ix_created_counter ix + 1)) (\<lambda>_. Ok ()))"

definition create_open_orders_account ::
  "create_ooa_ctx \<Rightarrow> 8 word list \<Rightarrow> open_orders_indexer \<Rightarrow> open_orders_account \<Rightarrow>
   (open_orders_account \<times> open_orders_indexer) res" where
  "create_open_orders_account cx name ix acc =
     bnd (chk_u32 (ix_created_counter ix + 1)) (\<lambda>c.
     bnd (fill_from_str 32 name) (\<lambda>nm.
     Ok (acc\<lparr>oo_name := nm, oo_account_num := c, oo_market := cc_market cx, oo_bump := cc_bump cx,
           oo_owner := cc_owner cx, oo_delegate := non_zero_key (cc_delegate_account cx),
           oo_version := 1, open_orders := replicate MAX_OPEN_ORDERS open_order_default\<rparr>,
         ix\<lparr>ix_addresses := ix_addresses ix @ [cc_open_orders_account cx], ix_created_counter := c\<rparr>)))"

definition check_close_ooa ::
  "pubkey \<Rightarrow> open_orders_account \<Rightarrow> open_orders_indexer \<Rightarrow> unit res" where
  \<comment> \<open>the new size of the indexer is computed from \<open>addresses.len() - 1\<close>\<close>
  "check_close_ooa owner oo ix =
     bnd (assert_that (ix_addresses ix \<noteq> [])) (\<lambda>_. has_one (oo_owner oo = owner))"

definition close_open_orders_account ::
  "pubkey \<Rightarrow> open_orders_account \<Rightarrow> open_orders_indexer \<Rightarrow> open_orders_indexer res" where
  "close_open_orders_account k oo ix =
     bnd (require (position_is_empty (oo_position oo) (oo_version oo)) NonEmptyOpenOrdersPosition) (\<lambda>_.
     bnd (unwrap (position_of (\<lambda>x. x = k) (ix_addresses ix))) (\<lambda>i.
     Ok (ix\<lparr>ix_addresses := take i (ix_addresses ix) @ drop (Suc i) (ix_addresses ix)\<rparr>)))"

definition set_delegate :: "pubkey option \<Rightarrow> open_orders_account \<Rightarrow> open_orders_account" where
  "set_delegate delegate_account oo = oo\<lparr>oo_delegate := nz_of_option delegate_account\<rparr>"

section \<open>The stub oracle\<close>

record stub_oracle =
  so_owner :: pubkey
  so_mint :: pubkey
  so_price :: "64 word"
  so_last_update_ts :: i64
  so_last_update_slot :: u64
  so_deviation :: "64 word"

definition stub_oracle_create ::
  "clock \<Rightarrow> pubkey \<Rightarrow> pubkey \<Rightarrow> 64 word \<Rightarrow> stub_oracle \<Rightarrow> stub_oracle" where
  "stub_oracle_create ck owner mint price so = so\<lparr>so_owner := owner, so_mint := mint,
     so_price := price, so_last_update_ts := ck_unix_timestamp ck, so_last_update_slot := ck_slot ck\<rparr>"

definition stub_oracle_set :: "clock \<Rightarrow> 64 word \<Rightarrow> stub_oracle \<Rightarrow> stub_oracle" where
  "stub_oracle_set ck price so = so\<lparr>so_price := price,
     so_last_update_ts := ck_unix_timestamp ck, so_last_update_slot := ck_slot ck\<rparr>"

definition check_stub_oracle_owner :: "pubkey \<Rightarrow> stub_oracle \<Rightarrow> unit res" where
  "check_stub_oracle_owner owner so = has_one (so_owner so = owner)"

definition stub_oracle_close :: "stub_oracle \<Rightarrow> unit res" where
  "stub_oracle_close so = Ok ()"

end
