(* ===== verification/Entry_Points.thy ===== *)
theory Entry_Points
  imports Trading Funds Admin
begin

text \<open>
  The program's entry points, \<open>programs/openbook-v2/src/lib.rs\<close>: each checks the accounts of its
  instruction, validates its arguments, builds the order, and calls the handler. An order whose
  expiry lies in the past is skipped with success.
\<close>

section \<open>Arguments\<close>

record place_order_args =
  a_side :: side
  a_price_lots :: i64
  a_max_base_lots :: i64
  a_max_quote_lots_including_fees :: i64
  a_client_order_id :: u64
  a_order_type :: place_order_type
  a_expiry_timestamp :: u64
  a_self_trade_behavior :: self_trade_behavior
  a_limit :: int

record place_multiple_orders_args =
  mu_price_lots :: i64
  mu_max_quote_lots_including_fees :: i64
  mu_expiry_timestamp :: u64

record place_order_pegged_args =
  pg_side :: side
  pg_price_offset_lots :: i64
  pg_peg_limit :: i64
  pg_max_base_lots :: i64
  pg_max_quote_lots_including_fees :: i64
  pg_client_order_id :: u64
  pg_order_type :: place_order_type
  pg_expiry_timestamp :: u64
  pg_self_trade_behavior :: self_trade_behavior
  pg_limit :: int

record place_take_order_args =
  tk_side :: side
  tk_price_lots :: i64
  tk_max_base_lots :: i64
  tk_max_quote_lots_including_fees :: i64
  tk_order_type :: place_order_type
  tk_limit :: int

section \<open>Building orders\<close>

text \<open>\<open>Order::tif_from_expiry\<close> reads the clock itself, before it looks at the timestamp.\<close>

definition tif_from_clock :: "clock \<Rightarrow> u64 \<Rightarrow> int option res" where
  "tif_from_clock ck expiry_timestamp =
     bnd (clock_u64 ck) (\<lambda>now_ts. Ok (tif_from_expiry now_ts expiry_timestamp))"

definition params_of_type :: "place_order_type \<Rightarrow> i64 \<Rightarrow> order_params res" where
  "params_of_type ty price_lots = (case ty of
     PlaceMarket \<Rightarrow> Ok MarketParams
   | PlaceImmediateOrCancel \<Rightarrow> Ok (ImmediateOrCancelParams price_lots)
   | PlaceFillOrKill \<Rightarrow> Ok (FillOrKillParams price_lots)
   | _ \<Rightarrow> bnd (to_post_order_type ty) (\<lambda>t. Ok (FixedParams price_lots t)))"

definition order_of_args :: "place_order_args \<Rightarrow> int \<Rightarrow> order res" where
  "order_of_args args tif =
     bnd (params_of_type (a_order_type args) (a_price_lots args)) (\<lambda>p.
     Ok \<lparr>o_side = a_side args, o_max_base_lots = a_max_base_lots args,
         o_max_quote_lots_including_fees = a_max_quote_lots_including_fees args,
         o_client_order_id = a_client_order_id args, o_time_in_force = tif,
         o_self_trade_behavior = a_self_trade_behavior args, o_params = p\<rparr>)"

definition order_of_pegged_args :: "place_order_pegged_args \<Rightarrow> int \<Rightarrow> order res" where
  "order_of_pegged_args args tif =
     bnd (to_post_order_type (pg_order_type args)) (\<lambda>t.
     Ok \<lparr>o_side = pg_side args, o_max_base_lots = pg_max_base_lots args,
         o_max_quote_lots_including_fees = pg_max_quote_lots_including_fees args,
         o_client_order_id = pg_client_order_id args, o_time_in_force = tif,
         o_self_trade_behavior = pg_self_trade_behavior args,
         o_params = OraclePeggedParams (pg_price_offset_lots args) t (pg_peg_limit args)\<rparr>)"

definition params_of_take_type :: "place_order_type \<Rightarrow> i64 \<Rightarrow> order_params res" where
  "params_of_take_type ty price_lots = (case ty of
     PlaceMarket \<Rightarrow> Ok MarketParams
   | PlaceImmediateOrCancel \<Rightarrow> Ok (ImmediateOrCancelParams price_lots)
   | PlaceFillOrKill \<Rightarrow> Ok (FillOrKillParams price_lots)
   | _ \<Rightarrow> Inl (Err InvalidInputOrderType))"

definition order_of_take_args :: "place_take_order_args \<Rightarrow> order res" where
  "order_of_take_args args =
     bnd (params_of_take_type (tk_order_type args) (tk_price_lots args)) (\<lambda>p.
     Ok \<lparr>o_side = tk_side args, o_max_base_lots = tk_max_base_lots args,
         o_max_quote_lots_including_fees = tk_max_quote_lots_including_fees args,
         o_client_order_id = 0, o_time_in_force = 0, o_self_trade_behavior = DecrementTake,
         o_params = p\<rparr>)"

text \<open>The orders of \<open>place_orders\<close>: the bids, then the asks; \<open>i\<close> counts them all, those that have
  expired too, and is the client order id.\<close>

fun orders_of ::
  "clock \<Rightarrow> place_order_type \<Rightarrow> nat \<Rightarrow> nat \<Rightarrow> place_multiple_orders_args list \<Rightarrow> order list res" where
  "orders_of ck ty n_bids i [] = Ok []"
| "orders_of ck ty n_bids i (a # args) =
     bnd (require (mu_price_lots a \<ge> 1) InvalidInputPriceLots) (\<lambda>_.
     bnd (tif_from_clock ck (mu_expiry_timestamp a)) (\<lambda>tif. case tif of
       None \<Rightarrow> orders_of ck ty n_bids (Suc i) args
     | Some t \<Rightarrow>
         bnd (params_of_type ty (mu_price_lots a)) (\<lambda>p.
         bnd (orders_of ck ty n_bids (Suc i) args) (\<lambda>os.
         Ok (\<lparr>o_side = (if i < n_bids then Bid else Ask), o_max_base_lots = I64_MIN,
              o_max_quote_lots_including_fees = mu_max_quote_lots_including_fees a,
              o_client_order_id = int i, o_time_in_force = t,
              o_self_trade_behavior = CancelProvide, o_params = p\<rparr> # os)))))"

section \<open>Entry points\<close>

definition ix_place_order ::
  "'s runtime \<Rightarrow> clock \<Rightarrow> i64 option res \<Rightarrow> place_order_ctx \<Rightarrow> place_order_args \<Rightarrow> 's world \<Rightarrow>
   (key128 option \<times> 's world) res" where
  "ix_place_order rt ck opl cx args w =
     bnd (check_place_order cx (w_market w) (w_ooa w)) (\<lambda>_.
     bnd (require (a_price_lots args \<ge> 1) InvalidInputPriceLots) (\<lambda>_.
     bnd (tif_from_clock ck (a_expiry_timestamp args)) (\<lambda>tif. case tif of
       None \<Rightarrow> Ok (None, w)
     | Some t \<Rightarrow>
         bnd (order_of_args args t) (\<lambda>order. place_order rt ck opl cx order (a_limit args) w))))"

definition ix_edit_order ::
  "'s runtime \<Rightarrow> clock \<Rightarrow> i64 option res \<Rightarrow> place_order_ctx \<Rightarrow> u64 \<Rightarrow> i64 \<Rightarrow> place_order_args \<Rightarrow>
   's world \<Rightarrow> (key128 option \<times> 's world) res" where
  "ix_edit_order rt ck opl cx cid expected_cancel_size args w =
     bnd (check_place_order cx (w_market w) (w_ooa w)) (\<lambda>_.
     bnd (require (a_price_lots args \<ge> 1) InvalidInputPriceLots) (\<lambda>_.
     bnd (tif_from_clock ck (a_expiry_timestamp args)) (\<lambda>tif. case tif of
       None \<Rightarrow> Ok (None, w)
     | Some t \<Rightarrow>
         bnd (order_of_args args t) (\<lambda>order.
         edit_order rt ck opl cx cid expected_cancel_size order (a_limit args) w))))"

definition ix_place_order_pegged ::
  "'s runtime \<Rightarrow> clock \<Rightarrow> i64 option res \<Rightarrow> place_order_ctx \<Rightarrow> place_order_pegged_args \<Rightarrow> 's world \<Rightarrow>
   (key128 option \<times> 's world) res" where
  "ix_place_order_pegged rt ck opl cx args w =
     bnd (check_place_order cx (w_market w) (w_ooa w)) (\<lambda>_.
     bnd (require (po_oracle_a cx \<noteq> None) DisabledOraclePeg) (\<lambda>_.
     bnd (require (pg_peg_limit args > 0) InvalidInputPegLimit) (\<lambda>_.
     bnd (tif_from_clock ck (pg_expiry_timestamp args)) (\<lambda>tif. case tif of
       None \<Rightarrow> Ok (None, w)
     | Some t \<Rightarrow>
         bnd (order_of_pegged_args args t) (\<lambda>order.
         place_order rt ck opl cx order (pg_limit args) w)))))"

definition ix_edit_order_pegged ::
  "'s runtime \<Rightarrow> clock \<Rightarrow> i64 option res \<Rightarrow> place_order_ctx \<Rightarrow> u64 \<Rightarrow> i64 \<Rightarrow> place_order_pegged_args \<Rightarrow>
   's world \<Rightarrow> (key128 option \<times> 's world) res" where
  "ix_edit_order_pegged rt ck opl cx cid expected_cancel_size args w =
     bnd (check_place_order cx (w_market w) (w_ooa w)) (\<lambda>_.
     bnd (require (po_oracle_a cx \<noteq> None) DisabledOraclePeg) (\<lambda>_.
     bnd (require (pg_peg_limit args > 0) InvalidInputPegLimit) (\<lambda>_.
     bnd (tif_from_clock ck (pg_expiry_timestamp args)) (\<lambda>tif. case tif of
       None \<Rightarrow> Ok (None, w)
     | Some t \<Rightarrow>
         bnd (order_of_pegged_args args t) (\<lambda>order.
         edit_order rt ck opl cx cid expected_cancel_size order (pg_limit args) w)))))"

definition ix_place_orders ::
  "'s runtime \<Rightarrow> clock \<Rightarrow> i64 option res \<Rightarrow> place_all_ctx \<Rightarrow> place_order_type \<Rightarrow>
   place_multiple_orders_args list \<Rightarrow> place_multiple_orders_args list \<Rightarrow> int \<Rightarrow> 's world \<Rightarrow>
   (key128 option list \<times> 's world) res" where
  "ix_place_orders rt ck opl cx ty bid_args ask_args lim w =
     bnd (check_place_all cx (w_market w) (w_ooa w)) (\<lambda>_.
     bnd (orders_of ck ty (length bid_args) 0 (bid_args @ ask_args)) (\<lambda>orders.
     cancel_all_and_place_orders rt ck opl cx False orders lim w))"

definition ix_cancel_all_and_place_orders ::
  "'s runtime \<Rightarrow> clock \<Rightarrow> i64 option res \<Rightarrow> place_all_ctx \<Rightarrow> place_order_type \<Rightarrow>
   place_multiple_orders_args list \<Rightarrow> place_multiple_orders_args list \<Rightarrow> int \<Rightarrow> 's world \<Rightarrow>
   (key128 option list \<times> 's world) res" where
  "ix_cancel_all_and_place_orders rt ck opl cx ty bid_args ask_args lim w =
     bnd (check_place_all cx (w_market w) (w_ooa w)) (\<lambda>_.
     bnd (orders_of ck ty (length bid_args) 0 (bid_args @ ask_args)) (\<lambda>orders.
     cancel_all_and_place_orders rt ck opl cx True orders lim w))"

definition ix_place_take_order ::
  "'s runtime \<Rightarrow> clock \<Rightarrow> i64 option res \<Rightarrow> place_take_order_ctx \<Rightarrow> place_take_order_args \<Rightarrow>
   's world \<Rightarrow> 's world res" where
  "ix_place_take_order rt ck opl cx args w =
     bnd (check_place_take_order cx (w_market w)) (\<lambda>_.
     bnd (require (tk_price_lots args \<ge> 1) InvalidInputPriceLots) (\<lambda>_.
     bnd (order_of_take_args args) (\<lambda>order.
     place_take_order rt ck opl cx order (tk_limit args) w)))"

definition ix_consume_events :: "consume_events_ctx \<Rightarrow> nat \<Rightarrow> 's world \<Rightarrow> 's world res" where
  "ix_consume_events cx lim w =
     bnd (check_consume_events cx (w_market w)) (\<lambda>_. consume_events lim None w)"

definition ix_consume_given_events ::
  "consume_events_ctx \<Rightarrow> nat list \<Rightarrow> 's world \<Rightarrow> 's world res" where
  "ix_consume_given_events cx slots w =
     bnd (check_consume_events cx (w_market w)) (\<lambda>_.
     bnd (require (list_all (\<lambda>s. s < MAX_NUM_EVENTS) slots) InvalidInputHeapSlots) (\<lambda>_.
     consume_events (length slots) (Some slots) w))"

definition ix_cancel_order :: "cancel_order_ctx \<Rightarrow> key128 \<Rightarrow> 's world \<Rightarrow> 's world res" where
  "ix_cancel_order cx order_id w =
     bnd (check_cancel_order cx (w_market w) (w_ooa w)) (\<lambda>_. cancel_order_instr cx order_id w)"

definition ix_cancel_order_by_client_order_id ::
  "cancel_order_ctx \<Rightarrow> u64 \<Rightarrow> 's world \<Rightarrow> (i64 \<times> 's world) res" where
  "ix_cancel_order_by_client_order_id cx cid w =
     bnd (check_cancel_order cx (w_market w) (w_ooa w)) (\<lambda>_. cancel_order_by_client_order_id cid w)"

definition ix_cancel_all_orders ::
  "cancel_order_ctx \<Rightarrow> side option \<Rightarrow> int \<Rightarrow> 's world \<Rightarrow> 's world res" where
  "ix_cancel_all_orders cx side_option lim w =
     bnd (check_cancel_order cx (w_market w) (w_ooa w)) (\<lambda>_. cancel_all_orders_instr side_option lim w)"

definition ix_deposit ::
  "'s runtime \<Rightarrow> clock \<Rightarrow> deposit_ctx \<Rightarrow> u64 \<Rightarrow> u64 \<Rightarrow> 's world \<Rightarrow> 's world res" where
  "ix_deposit rt ck cx b q w =
     bnd (check_deposit cx (w_market w) (w_ooa w)) (\<lambda>_. deposit rt ck cx b q w)"

definition ix_refill ::
  "'s runtime \<Rightarrow> clock \<Rightarrow> deposit_ctx \<Rightarrow> u64 \<Rightarrow> u64 \<Rightarrow> 's world \<Rightarrow> 's world res" where
  "ix_refill rt ck cx b q w =
     bnd (check_deposit cx (w_market w) (w_ooa w)) (\<lambda>_. refill rt ck cx b q w)"

definition ix_settle_funds :: "'s runtime \<Rightarrow> settle_funds_ctx \<Rightarrow> 's world \<Rightarrow> 's world res" where
  "ix_settle_funds rt cx w =
     bnd (check_settle_funds cx (w_market w) (w_ooa w)) (\<lambda>_. settle_funds rt cx w)"

definition ix_settle_funds_expired ::
  "'s runtime \<Rightarrow> clock \<Rightarrow> settle_expired_ctx \<Rightarrow> 's world \<Rightarrow> 's world res" where
  "ix_settle_funds_expired rt ck ex w =
     bnd (check_settle_expired ex (w_market w) (w_ooa w)) (\<lambda>_. settle_funds_expired rt ck ex w)"

definition ix_sweep_fees :: "'s runtime \<Rightarrow> sweep_fees_ctx \<Rightarrow> 's world \<Rightarrow> 's world res" where
  "ix_sweep_fees rt cx w = bnd (check_sweep_fees cx (w_market w)) (\<lambda>_. sweep_fees rt cx w)"

definition ix_prune_orders :: "clock \<Rightarrow> prune_orders_ctx \<Rightarrow> int \<Rightarrow> 's world \<Rightarrow> 's world res" where
  "ix_prune_orders ck cx lim w =
     bnd (check_prune_orders cx (w_market w) (w_ooa w)) (\<lambda>_. prune_orders ck lim w)"

definition ix_set_market_expired :: "clock \<Rightarrow> pubkey \<Rightarrow> market \<Rightarrow> market res" where
  "ix_set_market_expired ck admin m =
     bnd (check_set_market_expired admin m) (\<lambda>_. set_market_expired ck m)"

definition ix_close_market :: "clock \<Rightarrow> close_market_ctx \<Rightarrow> 's world \<Rightarrow> unit res" where
  "ix_close_market ck cx w =
     bnd (check_close_market cx (w_market w)) (\<lambda>_. close_market ck w)"

definition ix_set_delegate ::
  "pubkey \<Rightarrow> pubkey option \<Rightarrow> open_orders_account \<Rightarrow> open_orders_account res" where
  "ix_set_delegate owner delegate_account oo =
     bnd (check_set_delegate owner oo) (\<lambda>_. Ok (set_delegate delegate_account oo))"

definition ix_create_market ::
  "(32 word \<Rightarrow> 64 word) \<Rightarrow> (pubkey \<Rightarrow> oracle_type res) \<Rightarrow> clock \<Rightarrow> create_market_ctx \<Rightarrow>
   8 word list \<Rightarrow> oracle_config_params \<Rightarrow> i64 \<Rightarrow> i64 \<Rightarrow> i64 \<Rightarrow> i64 \<Rightarrow> i64 \<Rightarrow> orderbook \<Rightarrow> event_heap \<Rightarrow>
   (market \<times> orderbook \<times> event_heap) res" where
  "ix_create_market widen kind ck cx name cfg ql bl mk tk expiry ob h =
     bnd (check_create_market cx) (\<lambda>_. create_market widen kind ck cx name cfg ql bl mk tk expiry ob h)"

definition ix_create_open_orders_account ::
  "create_ooa_ctx \<Rightarrow> 8 word list \<Rightarrow> open_orders_indexer \<Rightarrow> open_orders_account \<Rightarrow>
   (open_orders_account \<times> open_orders_indexer) res" where
  "ix_create_open_orders_account cx name ix acc =
     bnd (check_create_ooa ix) (\<lambda>_. create_open_orders_account cx name ix acc)"

definition ix_close_open_orders_account ::
  "pubkey \<Rightarrow> pubkey \<Rightarrow> open_orders_account \<Rightarrow> open_orders_indexer \<Rightarrow> open_orders_indexer res" where
  "ix_close_open_orders_account owner k oo ix =
     bnd (check_close_ooa owner oo ix) (\<lambda>_. close_open_orders_account k oo ix)"

definition ix_stub_oracle_set :: "clock \<Rightarrow> pubkey \<Rightarrow> 64 word \<Rightarrow> stub_oracle \<Rightarrow> stub_oracle res" where
  "ix_stub_oracle_set ck owner price so =
     bnd (check_stub_oracle_owner owner so) (\<lambda>_. Ok (stub_oracle_set ck price so))"

definition ix_stub_oracle_close :: "pubkey \<Rightarrow> stub_oracle \<Rightarrow> unit res" where
  "ix_stub_oracle_close owner so =
     bnd (check_stub_oracle_owner owner so) (\<lambda>_. stub_oracle_close so)"

end
