(* ===== verification/Solvency.thy ===== *)
theory Solvency
  imports Accounting_Order Entry_Points
begin

text \<open>
  The books of a market balance: what is recorded as deposited, less all claims on it, is the same
  before and after every instruction. With what the token program promises, a vault that covers
  the recorded deposits keeps covering them.
\<close>

section \<open>Deposits against claims\<close>

definition deposit_total :: "side \<Rightarrow> market \<Rightarrow> int" where
  "deposit_total t m = (case t of Bid \<Rightarrow> quote_deposit_total m | Ask \<Rightarrow> base_deposit_total m)"

definition slack :: "side \<Rightarrow> accounts \<Rightarrow> int" where
  "slack t ac = deposit_total t (ac_market ac) - claims t ac"

definition world_slack :: "side \<Rightarrow> pubkey \<Rightarrow> 's world \<Rightarrow> int" where
  \<comment> \<open>of an instruction on the open-orders account \<open>k\<close>\<close>
  "world_slack t k w = slack t (world_accounts k w)"

definition market_accounts :: "'s world \<Rightarrow> accounts" where
  \<comment> \<open>of an instruction without an open-orders account\<close>
  "market_accounts w = \<lparr>ac_market = w_market w, ac_heap = w_heap w, ac_ooa = None,
     ac_remaining = w_remaining w\<rparr>"

lemma borrow_out_keys [simp]: "fst ` set (borrow_out k accs) = fst ` set accs"
  by (force simp: borrow_out_def)

lemma map_of_borrow_out:
  "map_of (borrow_out k accs) k' =
     (if k' = k then map_option (\<lambda>_. UnloadableAcc) (map_of accs k) else map_of accs k')"
  by (induction accs) (auto simp: borrow_out_def)

lemma borrow_give_back [simp]: "borrow_out k (give_back k oo accs) = borrow_out k accs"
  by (induction accs) (auto simp: borrow_out_def give_back_def)

lemma shut_world [simp]: "shut k (world_accounts k w)"
  by (auto simp: shut_def world_accounts_def map_of_borrow_out)

lemma accs_total_borrow_out:
  assumes "\<forall>oo. map_of accs k \<noteq> Some (OpenOrdersAcc oo)"
  shows "accs_total f (borrow_out k accs) = accs_total f accs"
  unfolding accs_total_def borrow_out_keys
proof (rule sum.cong)
  fix x
  show "acc_value f (map_of (borrow_out k accs) x) = acc_value f (map_of accs x)"
  proof (cases "x = k")
    case True
    then show ?thesis using assms
      by (cases "map_of accs k"; simp add: map_of_borrow_out) (metis acc_value_simps(2) remaining_acc.exhaust)
  qed (simp add: map_of_borrow_out)
qed simp

lemma world_accounts_back:
  assumes "shut k ac"
  shows "claims t (world_accounts k \<lparr>w_market = m, w_book = ob, w_heap = ac_heap ac, w_ooa = oo,
      w_remaining = give_back k oo (ac_remaining ac), w_tokens = tok\<rparr>) =
    claims t (ac\<lparr>ac_ooa := Some oo, ac_market := m\<rparr>)"
  using assms accs_total_borrow_out [of "ac_remaining ac" k]
  by (simp add: world_accounts_def claims_def shut_def)

text \<open>Paying for an order moves the free part of its cost out of the claims and books the rest as
  deposited.\<close>

lemma pay_for_order_ok:
  assumes "pay_for_order side cost pa m = Ok (d, pa', m')"
  shows "deposit_total t m' = deposit_total t m + (if t = side then d else 0)"
    and "same_rates m m'" and "market_claim t m' = market_claim t m"
    and "oo_position oo = pa \<Longrightarrow> holdings t n (oo\<lparr>oo_position := pa'\<rparr>) =
      holdings t n oo - (if t = side then cost - d else 0)"
    and "market_base_vault m' = market_base_vault m" and "market_quote_vault m' = market_quote_vault m"
    and "0 \<le> d"
  using assms
  by (cases side; cases t; auto simp: pay_for_order_def Let_def res_simps deposit_total_def same_rates_def
      market_claim_def holdings_def quote_holdings_def base_holdings_def is_u64_def)+

lemma penalize_holdings:
  "penalize h h' pa = Ok pa' \<Longrightarrow> holdings t m (oo\<lparr>oo_position := pa'\<rparr>) = holdings t m (oo\<lparr>oo_position := pa\<rparr>)"
  by (cases t) (auto simp: penalize_def res_simps holdings_def quote_holdings_def base_holdings_def
      split: if_splits)

lemma order_cost_adds:
  "order_cost side r = Ok cost \<Longrightarrow> order_adds t side False r = (if t = side then cost else 0)"
  by (cases side; cases t) (auto simp: order_cost_def res_simps order_adds_def taker_adds_def)

lemma place_order_steps:
  assumes "place_order rt ck opl_res cx order lim w = Ok (oid, w')"
  obtains now_ts opl r ob ac oo cost d pa m pa' tok where
    "check_order_lots order = Ok ()"
    and "get_vault_by_side (w_market w) (o_side order) = ta_key (po_market_vault cx)"
    and "\<not> market_is_expired (w_market w) (ck_unix_timestamp ck)"
    and "clock_u64 ck = Ok now_ts" and "opl_res = Ok opl"
    and "new_order (w_book w) order (po_open_orders_account cx) now_ts lim opl
      (world_accounts (po_open_orders_account cx) w) = Ok (r, ob, ac)"
    and "ac_ooa ac = Some oo" and "order_cost (o_side order) r = Ok cost"
    and "pay_for_order (o_side order) cost (oo_position oo) (ac_market ac) = Ok (d, pa, m)"
    and "penalize (w_heap w) (ac_heap ac) pa = Ok pa'"
    and "token_transfer rt d (ta_key (po_user_token_account cx)) (ta_key (po_market_vault cx))
      (po_signer cx) (w_tokens w) = Ok tok"
    and "oid = oa_order_id r"
    and "w' = \<lparr>w_market = m, w_book = ob, w_heap = ac_heap ac, w_ooa = oo\<lparr>oo_position := pa'\<rparr>,
      w_remaining = give_back (po_open_orders_account cx) (oo\<lparr>oo_position := pa'\<rparr>) (ac_remaining ac),
      w_tokens = tok\<rparr>"
  using assms unfolding place_order_def Let_def by (auto simp: res_simps)

text \<open>After an order has been made and paid, the books are as before.\<close>

lemma paid_order_slack:
  assumes cl: "claims t ac = claims t ac0 + (if t = side then cost else 0)"
    and tm: "same_terms (ac_market ac0) (ac_market ac)" and own: "ac_ooa ac = Some oo"
    and pay: "pay_for_order side cost (oo_position oo) (ac_market ac) = Ok (d, pa, m)"
  shows "slack t (ac\<lparr>ac_ooa := Some (oo\<lparr>oo_position := pa\<rparr>), ac_market := m\<rparr>) = slack t ac0"
proof -
  note p = pay_for_order_ok [OF pay]
  let ?oo = "oo\<lparr>oo_position := pa\<rparr>"
  let ?ac = "ac\<lparr>ac_ooa := Some ?oo\<rparr>"
  have "claims t (?ac\<lparr>ac_market := m\<rparr>) = claims t ?ac"
    using claims_market [of ?ac m t] p(2) p(3) [of t] by simp
  also have "\<dots> = claims t ac - (if t = side then cost - d else 0)"
    using claims_own [OF own, of t ?oo] p(4) [OF refl, of t "ac_market ac"] by simp
  finally have "claims t (ac\<lparr>ac_ooa := Some ?oo, ac_market := m\<rparr>) = claims t ac0 + (if t = side then d else 0)"
    using cl by simp
  moreover have "deposit_total t (ac_market ac) = deposit_total t (ac_market ac0)"
    using tm by (cases t) (simp_all add: same_terms_def deposit_total_def)
  ultimately show ?thesis using p(1) [of t] by (simp add: slack_def)
qed

lemma slack_penalized:
  assumes "penalize h h' pa = Ok pa'"
  shows "slack t (ac\<lparr>ac_ooa := Some (oo\<lparr>oo_position := pa'\<rparr>), ac_market := m\<rparr>) =
    slack t (ac\<lparr>ac_ooa := Some (oo\<lparr>oo_position := pa\<rparr>), ac_market := m\<rparr>)"
  using penalize_holdings [OF assms, of t m oo] by (simp add: slack_def claims_def)

lemma place_order_slack:
  assumes p: "place_order rt ck opl_res cx order lim w = Ok (oid, w')"
    and rd: "trade_ready (w_book w) order (po_open_orders_account cx) (world_accounts (po_open_orders_account cx) w)"
  shows "world_slack t (po_open_orders_account cx) w' = world_slack t (po_open_orders_account cx) w"
proof (rule place_order_steps [OF p])
  let ?k = "po_open_orders_account cx"
  fix now_ts opl r ob ac oo cost d pa m pa' tok
  assume n: "new_order (w_book w) order ?k now_ts lim opl (world_accounts ?k w) = Ok (r, ob, ac)"
    and own: "ac_ooa ac = Some oo" and cost: "order_cost (o_side order) r = Ok cost"
    and pay: "pay_for_order (o_side order) cost (oo_position oo) (ac_market ac) = Ok (d, pa, m)"
    and pen: "penalize (w_heap w) (ac_heap ac) pa = Ok pa'"
    and w': "w' = \<lparr>w_market = m, w_book = ob, w_heap = ac_heap ac, w_ooa = oo\<lparr>oo_position := pa'\<rparr>,
      w_remaining = give_back ?k (oo\<lparr>oo_position := pa'\<rparr>) (ac_remaining ac), w_tokens = tok\<rparr>"
  have sh: "shut ?k ac" by (rule new_order_shut [OF n]) simp
  have o0: "ac_ooa (world_accounts ?k w) \<noteq> None" by (simp add: world_accounts_def)
  have cl: "claims t ac = claims t (world_accounts ?k w) + (if t = o_side order then cost else 0)"
    and tm: "same_terms (ac_market (world_accounts ?k w)) (ac_market ac)"
    using new_order_claims [OF n rd, of t] o0 order_cost_adds [OF cost, of t] by simp_all
  have "world_slack t ?k w' = slack t (ac\<lparr>ac_ooa := Some (oo\<lparr>oo_position := pa'\<rparr>), ac_market := m\<rparr>)"
    unfolding world_slack_def slack_def w' world_accounts_back [OF sh] by (simp add: world_accounts_def)
  then show ?thesis
    using paid_order_slack [OF cl tm own pay] slack_penalized [OF pen] by (simp add: world_slack_def)
qed

section \<open>Taking without an account\<close>

lemma take_amounts_ok:
  assumes "take_amounts side r m = Ok (d, wd, m')"
  shows "deposit_total t m' = deposit_total t m + order_adds t side True r"
    and "same_rates m m'" and "market_claim t m' = market_claim t m"
    and "market_base_vault m' = market_base_vault m" and "market_quote_vault m' = market_quote_vault m"
    and "deposit_total t m' = deposit_total t m + (if t = side then d else - wd)"
  using assms
  by (cases side; cases t; auto simp: take_amounts_def res_simps deposit_total_def same_rates_def
      market_claim_def order_adds_def taker_adds_def by_side_def)+

lemma place_take_order_steps:
  assumes "place_take_order rt ck opl_res cx order lim w = Ok w'"
  obtains now_ts opl r ob ac d wd m tok tok' where
    "check_order_lots order = Ok ()"
    and "new_order (w_book w) order (pt_signer cx) now_ts lim opl (market_accounts w) = Ok (r, ob, ac)"
    and "take_amounts (o_side order) r (ac_market ac) = Ok (d, wd, m)"
    and "(if heap_len (ac_heap ac) > heap_len (w_heap w)
          then system_program_transfer rt PENALTY_EVENT_HEAP (pt_penalty_payer cx) (pt_market cx) (w_tokens w)
          else Ok (w_tokens w)) = Ok tok"
    and "take_transfers rt cx (o_side order) (market_seeds m (pt_market cx)) d wd tok = Ok tok'"
    and "w' = w\<lparr>w_market := m, w_book := ob, w_heap := ac_heap ac, w_remaining := ac_remaining ac,
      w_tokens := tok'\<rparr>"
  using assms unfolding place_take_order_def Let_def market_accounts_def by (auto simp: res_simps)

lemma place_take_order_slack:
  assumes p: "place_take_order rt ck opl_res cx order lim w = Ok w'"
    and rd: "trade_ready (w_book w) order (pt_signer cx) (market_accounts w)"
  shows "slack t (market_accounts w') = slack t (market_accounts w)"
proof (rule place_take_order_steps [OF p])
  fix now_ts opl r ob ac d wd m tok tok'
  assume n: "new_order (w_book w) order (pt_signer cx) now_ts lim opl (market_accounts w) = Ok (r, ob, ac)"
    and ta: "take_amounts (o_side order) r (ac_market ac) = Ok (d, wd, m)"
    and w': "w' = w\<lparr>w_market := m, w_book := ob, w_heap := ac_heap ac, w_remaining := ac_remaining ac,
      w_tokens := tok'\<rparr>"
  note a = take_amounts_ok [OF ta]
  have o0: "ac_ooa (market_accounts w) = None" by (simp add: market_accounts_def)
  then have own: "ac_ooa ac = None" and tm: "same_terms (ac_market (market_accounts w)) (ac_market ac)"
    and cl: "claims t ac = claims t (market_accounts w) + order_adds t (o_side order) True r"
    using new_order_claims [OF n rd, of t] by simp_all
  have e: "market_accounts w' = ac\<lparr>ac_market := m\<rparr>" using own by (simp add: w' market_accounts_def)
  have "claims t (market_accounts w') = claims t ac"
    unfolding e using claims_market [of ac m t] a(2) a(3) [of t] by simp
  moreover have "deposit_total t (ac_market ac) = deposit_total t (ac_market (market_accounts w))"
    using tm by (cases t) (simp_all add: same_terms_def deposit_total_def)
  ultimately show ?thesis using cl a(1) [of t] by (simp add: slack_def e)
qed

section \<open>Consuming events\<close>

definition event_ok :: "remaining_accs \<Rightarrow> any_event \<Rightarrow> bool" where
  "event_ok accs ev = (case ev of OutEv out \<Rightarrow> 0 \<le> oe_quantity out
   | FillEv f \<Rightarrow> fill_ok f \<and> (\<forall>oo. fe_maker_out f \<and> map_of accs (fe_maker f) = Some (OpenOrdersAcc oo) \<longrightarrow>
       slot_side (invert_side (fe_taker_side f)) (fe_maker_slot f) oo))"

definition events_ready :: "accounts \<Rightarrow> bool" where
  "events_ready ac \<longleftrightarrow> market_ok (ac_market ac) \<and> good_heap (ac_heap ac) \<and>
     (\<forall>k oo. map_of (ac_remaining ac) k = Some (OpenOrdersAcc oo) \<longrightarrow> account_ok oo) \<and>
     (\<forall>x \<in> set (heap_queue (ac_heap ac)). event_ok (ac_remaining ac) (fst x))"

lemma event_ok_store:
  assumes "event_ok accs ev" and k: "map_of accs k = Some (OpenOrdersAcc oo)" and f: "freed oo oo'"
  shows "event_ok (store_acc k oo' accs) ev"
  using assms(1) k freed_slot [OF f] by (auto simp: event_ok_def map_of_store split: any_event.splits if_splits)

lemma events_ready_store:
  assumes "events_ready ac" and k: "map_of (ac_remaining ac) k = Some (OpenOrdersAcc oo)"
    and f: "freed oo oo'"
  shows "events_ready (ac\<lparr>ac_remaining := store_acc k oo' (ac_remaining ac)\<rparr>)"
  using assms(1) k freed_ok [OF f] event_ok_store [OF _ k f]
  by (auto simp: events_ready_def map_of_store split: if_splits)

lemma apply_event_claims:
  assumes ap: "apply_event ev (ac_market ac) (ac_remaining ac) = Ok (Some (m', accs'))"
    and rd: "events_ready ac" and ev: "event_ok (ac_remaining ac) ev"
  shows "claims t (ac\<lparr>ac_market := m', ac_remaining := accs'\<rparr>) =
      claims t ac + event_claim t (ac_market ac) ev \<and>
    events_ready (ac\<lparr>ac_market := m', ac_remaining := accs'\<rparr>) \<and> same_terms (ac_market ac) m'"
proof (cases ev)
  case (FillEv f)
  then obtain oo oo' where k: "map_of (ac_remaining ac) (fe_maker f) = Some (OpenOrdersAcc oo)"
      and e: "execute_maker f (ac_market ac) oo = Ok (oo', m')"
      and a: "accs' = store_acc (fe_maker f) oo' (ac_remaining ac)"
    using ap by (auto simp: apply_event_def res_simps split: option.splits)
  have mk: "market_ok (ac_market ac)" using rd by (simp add: events_ready_def)
  have fo: "fill_ok f" and out: "fe_maker_out f \<Longrightarrow> slot_side (invert_side (fe_taker_side f)) (fe_maker_slot f) oo"
    using ev FillEv k by (simp_all add: event_ok_def)
  have st: "same_terms (ac_market ac) m'" by (rule execute_maker_terms [OF e])
  have "0 \<le> fill_quote (ac_market ac) f"
    using fo mk by (simp add: fill_ok_def market_ok_def fill_quote_def)
  then have fr: "freed oo oo'" using execute_maker_frees [OF e] by simp
  let ?ac1 = "ac\<lparr>ac_remaining := accs'\<rparr>"
  have "claims t (?ac1\<lparr>ac_market := m'\<rparr>) = claims t ?ac1 - market_claim t (ac_market ac) + market_claim t m'"
    using claims_market [of ?ac1 m' t] same_terms_rates [OF st] by simp
  then have "claims t (?ac1\<lparr>ac_market := m'\<rparr>) = claims t ac + event_claim t (ac_market ac) ev"
    using claims_store [OF k, of t oo'] execute_maker_claims [OF e fo mk out, of t] FillEv
    by (simp add: a)
  moreover have "events_ready (?ac1\<lparr>ac_market := m'\<rparr>)"
    using events_ready_store [OF rd k fr] same_terms_market_ok [OF st mk] by (simp add: events_ready_def a)
  moreover have e2: "ac\<lparr>ac_market := m', ac_remaining := accs'\<rparr> = ?ac1\<lparr>ac_market := m'\<rparr>" by (cases ac) simp
  ultimately show ?thesis using st unfolding e2 by blast
next
  case (OutEv out)
  then obtain oo oo' where k: "map_of (ac_remaining ac) (oe_owner out) = Some (OpenOrdersAcc oo)"
      and e: "cancel_slot (oe_owner_slot out) (oe_quantity out) (ac_market ac) oo = Ok oo'"
      and a: "accs' = store_acc (oe_owner out) oo' (ac_remaining ac)" "m' = ac_market ac"
    using ap by (auto simp: apply_event_def res_simps split: option.splits)
  have q: "account_ok oo" "market_ok (ac_market ac)" "0 \<le> oe_quantity out"
    using rd ev k OutEv by (auto simp: events_ready_def event_ok_def)
  note c = cancel_slot_claims [OF e q]
  have "ac\<lparr>ac_market := m', ac_remaining := accs'\<rparr> = ac\<lparr>ac_remaining := accs'\<rparr>"
    using a(2) by (cases ac) simp
  then show ?thesis
    using claims_store [OF k, of t oo'] c events_ready_store [OF rd k] OutEv
    by (simp add: a event_claim_def)
qed

definition triple_accounts :: "market \<times> event_heap \<times> remaining_accs \<Rightarrow> accounts" where
  "triple_accounts s = (case s of (m, h, accs) \<Rightarrow>
     \<lparr>ac_market = m, ac_heap = h, ac_ooa = None, ac_remaining = accs\<rparr>)"

lemma sum_list_filter_neq:
  assumes "distinct (map snd xs)" and "(e, s) \<in> set xs"
  shows "sum_list (map (\<lambda>x. f (fst x)) (filter (\<lambda>x. snd x \<noteq> s) xs)) =
    sum_list (map (\<lambda>x. f (fst x)) xs) - (f e :: int)"
  using assms
proof (induction xs)
  case (Cons x xs)
  show ?case
  proof (cases "snd x = s")
    case True
    have ns: "snd y \<noteq> s" if "y \<in> set xs" for y
      using Cons.prems(1) True that by (metis distinct.simps(2) imageI list.map(2) set_map)
    then have "x = (e, s)" using Cons.prems(2) by force
    moreover have "filter (\<lambda>x. snd x \<noteq> s) xs = xs" using ns by (simp add: filter_id_conv)
    ultimately have "x = (e, s)" "filter (\<lambda>x. snd x \<noteq> s) xs = xs" by simp_all
    then show ?thesis by simp
  next
    case False
    then show ?thesis using Cons by auto
  qed
qed simp

lemma delete_slot_claims:
  assumes g: "good_heap h" and d: "delete_slot slot h = Ok (e, h')" and a: "heap_at_slot h slot = Some ev"
  shows "good_heap h' \<and> events_total f h' = events_total f h - f ev \<and>
    set (heap_queue h') \<subseteq> set (heap_queue h) \<and> (ev, slot) \<in> set (heap_queue h)"
proof -
  have "slot \<in> snd ` set (heap_queue h)" using delete_slot_spec [OF g, of slot] d by (auto split: if_splits)
  then have s: "(e, slot) \<in> set (heap_queue h)" "good_heap h'"
      "heap_queue h' = filter (\<lambda>x. snd x \<noteq> slot) (heap_queue h)"
    using delete_slot_spec [OF g, of slot] d by (auto split: if_splits)
  have "ev_event (ev_nodes h3 ! i) = ev_event (ev_nodes h ! i)"
    if "set_next p n h = Ok h2" "set_prev q m h2 = Ok h3" for p n q m h2 h3 i
    using that by (cases "i = p"; cases "i = q") (auto simp: set_next_def set_prev_def res_simps nth_list_update)
  then have "e = ev"
    using d a by (auto simp: delete_slot_def heap_at_slot_def Let_def res_simps split: if_splits)
  then show ?thesis
    using s sum_list_filter_neq [OF heap_slots_distinct [OF g], of e slot f] by (auto simp: events_total_def)
qed

lemma consume_slot_claims:
  assumes c: "consume_slot slot x = Ok y" and rd: "events_ready (triple_accounts x)"
  shows "slack t (triple_accounts y) = slack t (triple_accounts x) \<and> events_ready (triple_accounts y)"
proof -
  obtain m h accs where x: "x = (m, h, accs)" by (cases x)
  obtain ev a where ev: "heap_at_slot h slot = Some ev" and a: "apply_event ev m accs = Ok a"
    using c x by (auto simp: consume_slot_def res_simps)
  show ?thesis
  proof (cases a)
    case None
    then show ?thesis using c x ev a rd by (simp add: consume_slot_def)
  next
    case (Some ma)
    obtain m' accs' where ma: "ma = (m', accs')" by (cases ma)
    obtain e h' where d: "delete_slot slot h = Ok (e, h')" and y: "y = (m', h', accs')"
      using c x ev a Some ma by (auto simp: consume_slot_def res_simps)
    let ?ac = "triple_accounts x" and ?ac' = "triple_accounts (m', h, accs')"
    have g: "good_heap h" using rd x by (simp add: events_ready_def triple_accounts_def)
    note ds = delete_slot_claims [OF g d ev]
    have ok: "event_ok accs ev" using rd ds x by (force simp: events_ready_def triple_accounts_def)
    have e: "?ac\<lparr>ac_market := m', ac_remaining := accs'\<rparr> = ?ac'" by (simp add: x triple_accounts_def)
    have "claims t ?ac' = claims t ?ac + event_claim t m ev \<and> events_ready ?ac' \<and> same_terms m m'"
      using apply_event_claims [of ev ?ac m' accs' t] a Some ma rd ok unfolding e
      by (simp add: x triple_accounts_def)
    moreover have "claims t (triple_accounts y) = claims t ?ac' - event_claim t m' ev"
      using ds by (simp add: y triple_accounts_def claims_def)
    moreover have "events_ready (triple_accounts y)" if "events_ready ?ac'"
      using that ds subsetD [of "set (heap_queue h')" "set (heap_queue h)"]
      by (simp add: y triple_accounts_def events_ready_def)
    moreover have "deposit_total t m' = deposit_total t m" if "same_terms m m'"
      using that by (cases t) (simp_all add: same_terms_def deposit_total_def)
    ultimately show ?thesis
      using same_terms_claims(2) [of m m' t] by (simp add: slack_def x y triple_accounts_def)
  qed
qed

lemma consume_slots_claims:
  "consume_slots slots x = Ok y \<Longrightarrow> events_ready (triple_accounts x) \<Longrightarrow>
   slack t (triple_accounts y) = slack t (triple_accounts x) \<and> events_ready (triple_accounts y)"
proof (induction slots arbitrary: x)
  case (Cons slot slots)
  then obtain z where z: "consume_slot slot x = Ok z" "consume_slots slots z = Ok y" by (auto simp: res_simps)
  show ?case using consume_slot_claims [OF z(1) Cons.prems(2), of t] Cons.IH [OF z(2)] by simp
qed simp

lemma consume_events_slack:
  assumes "consume_events lim slots w = Ok w'" and "events_ready (market_accounts w)"
  shows "slack t (market_accounts w') = slack t (market_accounts w) \<and> events_ready (market_accounts w')"
proof -
  obtain ss m h accs where "consume_slots ss (w_market w, w_heap w, w_remaining w) = Ok (m, h, accs)"
      and w': "w' = w\<lparr>w_market := m, w_heap := h, w_remaining := accs\<rparr>"
    using assms(1) by (auto simp: consume_events_def res_simps)
  from consume_slots_claims [OF this(1), of t] show ?thesis
    using assms(2) by (simp add: w' market_accounts_def triple_accounts_def)
qed

section \<open>Funds\<close>

lemma deposit_steps:
  assumes "deposit rt ck cx b q w = Ok w'"
  obtains tok1 tok2 where
    "\<not> market_is_expired (w_market w) (ck_unix_timestamp ck)"
    and "token_transfer rt b (ta_key (dp_user_base_account cx)) (ta_key (dp_market_base_vault cx))
      (dp_owner cx) (w_tokens w) = Ok tok1"
    and "token_transfer rt q (ta_key (dp_user_quote_account cx)) (ta_key (dp_market_quote_vault cx))
      (dp_owner cx) tok1 = Ok tok2"
    and "w' = w\<lparr>w_market := (w_market w)\<lparr>base_deposit_total := base_deposit_total (w_market w) + b,
        quote_deposit_total := quote_deposit_total (w_market w) + q\<rparr>,
      w_ooa := (w_ooa w)\<lparr>oo_position := (oo_position (w_ooa w))\<lparr>
        base_free_native := base_free_native (oo_position (w_ooa w)) + b,
        quote_free_native := quote_free_native (oo_position (w_ooa w)) + q\<rparr>\<rparr>,
      w_tokens := tok2\<rparr>"
  using assms unfolding deposit_def Let_def by (auto simp: res_simps)

text \<open>Only the market and the open-orders account matter for a move of funds.\<close>

lemma funds_slack:
  assumes m: "same_rates (w_market w) (w_market w')" and h: "w_heap w' = w_heap w"
    and r: "w_remaining w' = w_remaining w"
    and d: "deposit_total t (w_market w') - deposit_total t (w_market w) =
      market_claim t (w_market w') - market_claim t (w_market w) +
      holdings t (w_market w) (w_ooa w') - holdings t (w_market w) (w_ooa w)"
  shows "world_slack t k w' = world_slack t k w"
  using d same_rates_claims [OF m, of t] h r
  by (simp add: world_slack_def slack_def world_accounts_def claims_def)

lemma deposit_slack:
  assumes "deposit rt ck cx b q w = Ok w'"
  shows "world_slack t k w' = world_slack t k w"
  using assms
  by (elim deposit_steps; intro funds_slack; cases t)
    (simp_all add: same_rates_def deposit_total_def market_claim_def holdings_def quote_holdings_def
      base_holdings_def)

lemma settle_market_ok:
  assumes "settle_market has rebate pa m = Ok m'"
  shows "same_rates m m'"
    and "market_base_vault m' = market_base_vault m" and "market_quote_vault m' = market_quote_vault m"
    and "base_deposit_total m' = base_deposit_total m - base_free_native pa"
    and "quote_deposit_total m' = quote_deposit_total m - quote_free_native pa - (if has then rebate else 0)"
    and "market_claim Bid m' = market_claim Bid m - referrer_rebates_available pa + (if has then 0 else rebate)"
    and "0 \<le> quote_deposit_total m'" and "0 \<le> base_deposit_total m'"
  using assms
  by (cases has; auto simp: settle_market_def res_simps same_rates_def market_claim_def is_u64_def)+

lemma settle_funds_steps:
  assumes "settle_funds rt cx w = Ok w'"
  obtains roundoff pa m pa1 tok1 tok2 where
    "roundoff_maker_fees (w_market w) (oo_position (w_ooa w)) = (roundoff, pa)"
    and "is_u64 (referrer_rebates_available pa + roundoff)"
    and "settle_market (sf_referrer_account cx \<noteq> None) (referrer_rebates_available pa + roundoff) pa
      (w_market w) = Ok m"
    and "settle_penalty rt cx pa (w_tokens w) = Ok (pa1, tok1)"
    and "settle_transfers rt cx (market_seeds m (sf_market cx)) (referrer_rebates_available pa + roundoff)
      pa1 tok1 = Ok tok2"
    and "w' = w\<lparr>w_market := m, w_ooa := (w_ooa w)\<lparr>oo_position := pa1\<lparr>base_free_native := 0,
      quote_free_native := 0, referrer_rebates_available := 0\<rparr>\<rparr>, w_tokens := tok2\<rparr>"
  using assms unfolding settle_funds_def Let_def by (auto simp: res_simps split: prod.splits)

lemma roundoff_ok:
  assumes "roundoff_maker_fees m pa0 = (roundoff, pa)"
  shows "locked_maker_fees pa = locked_maker_fees pa0 - roundoff"
    and "pa = pa0\<lparr>locked_maker_fees := locked_maker_fees pa\<rparr>"
  using assms by (auto simp: roundoff_maker_fees_def split: if_splits)

lemma settle_penalty_ok:
  "settle_penalty rt cx pa tok = Ok (pa1, tok1) \<Longrightarrow> pa1 = pa\<lparr>penalty_heap_count := penalty_heap_count pa1\<rparr>"
  by (auto simp: settle_penalty_def res_simps split: if_splits)

lemma settle_funds_slack:
  assumes "settle_funds rt cx w = Ok w'"
  shows "world_slack t k w' = world_slack t k w"
proof (rule settle_funds_steps [OF assms])
  let ?pa0 = "oo_position (w_ooa w)"
  fix roundoff pa m pa1 tok1 tok2
  assume r: "roundoff_maker_fees (w_market w) ?pa0 = (roundoff, pa)"
    and m: "settle_market (sf_referrer_account cx \<noteq> None) (referrer_rebates_available pa + roundoff) pa
      (w_market w) = Ok m"
    and p: "settle_penalty rt cx pa (w_tokens w) = Ok (pa1, tok1)"
    and w': "w' = w\<lparr>w_market := m, w_ooa := (w_ooa w)\<lparr>oo_position := pa1\<lparr>base_free_native := 0,
      quote_free_native := 0, referrer_rebates_available := 0\<rparr>\<rparr>, w_tokens := tok2\<rparr>"
  have f: "base_free_native pa = base_free_native ?pa0" "quote_free_native pa = quote_free_native ?pa0"
      "referrer_rebates_available pa = referrer_rebates_available ?pa0"
      "bids_quote_lots pa1 = bids_quote_lots ?pa0" "asks_base_lots pa1 = asks_base_lots ?pa0"
      "locked_maker_fees pa1 = locked_maker_fees ?pa0 - roundoff"
    using roundoff_ok [OF r] settle_penalty_ok [OF p]
    by (metis position.select_convs position.surjective position.update_convs)+
  note s = settle_market_ok [OF m]
  show ?thesis
  proof (rule funds_slack)
    show "same_rates (w_market w) (w_market w')" using s(1) by (simp add: w')
    show "deposit_total t (w_market w') - deposit_total t (w_market w) =
        market_claim t (w_market w') - market_claim t (w_market w) +
        holdings t (w_market w) (w_ooa w') - holdings t (w_market w) (w_ooa w)"
    proof (cases t)
      case Bid
      then show ?thesis using s(5,6) f
        by (simp add: w' deposit_total_def holdings_def quote_holdings_def split: if_splits)
    next
      case Ask
      then show ?thesis using s(4) f
        by (simp add: w' deposit_total_def holdings_def base_holdings_def market_claim_def)
    qed
  qed (simp_all add: w')
qed

lemma sweep_fees_steps:
  assumes "sweep_fees rt cx w = Ok w'"
  obtains tok where
    "token_transfer_signed rt (fees_available (w_market w)) (ta_key (sw_market_quote_vault cx))
      (ta_key (sw_token_receiver_account cx)) (sw_market_authority cx)
      (market_seeds (w_market w) (sw_market cx)) (w_tokens w) = Ok tok"
    and "w' = w\<lparr>w_market := (w_market w)\<lparr>fees_available := 0,
      quote_deposit_total := quote_deposit_total (w_market w) - fees_available (w_market w)\<rparr>, w_tokens := tok\<rparr>"
  using assms unfolding sweep_fees_def Let_def by (auto simp: res_simps market_seeds_def)

lemma sweep_fees_slack:
  assumes "sweep_fees rt cx w = Ok w'"
  shows "world_slack t k w' = world_slack t k w"
  using assms
  by (elim sweep_fees_steps; intro funds_slack; cases t)
    (simp_all add: same_rates_def deposit_total_def market_claim_def)

end
