(* ===== verification/Cancelling.thy ===== *)
theory Cancelling
  imports Solvency
begin

text \<open>
  Cancelling one order or all of an account: the order leaves the book, its slot is freed, the
  book stays sound and the holdings of the account stay what they were.
\<close>

text \<open>\<open>cancel_order\<close> on a sound book: by whether the order is there and whose it is.\<close>

lemma cancel_order_cases:
  assumes b: "sound_book ob"
  obtains
    (absent) "find_order k (side_orders (bookside ob (sat_side sat)) (sat_order_tree sat)) = None"
      "cancel_order ob oo k sat m eo = Inl (Err OrderIdNotFound)"
  | (present) leaf b' where
      "find_order k (side_orders (bookside ob (sat_side sat)) (sat_order_tree sat)) = Some leaf"
      "side_step (bookside ob (sat_side sat)) (sat_order_tree sat)
        (delete_order k (side_orders (bookside ob (sat_side sat)) (sat_order_tree sat))) b'"
      "sound_step (bookside ob (sat_side sat)) b'"
      "cancel_order ob oo k sat m eo =
        (if \<exists>w. eo = Some w \<and> leaf_owner leaf \<noteq> w then Inl (AnchorErr RequireKeysEqViolated)
         else bnd (cancel_slot (owner_slot leaf) (quantity leaf) m oo)
           (\<lambda>oo'. Ok (leaf, set_bookside (sat_side sat) b' ob, oo')))"
proof -
  let ?b = "bookside ob (sat_side sat)" and ?c = "sat_order_tree sat"
  have s: "sound_side ?b" using b by (simp add: sound_book_def)
  obtain l b' where r: "book_remove_by_key ?b ?c k = Ok (l, b')" "l = find_order k (side_orders ?b ?c)"
      "side_step ?b ?c (delete_order k (side_orders ?b ?c)) b'"
    using book_remove_by_key_spec [OF sound_sideD(1) [OF s], of ?c k] by auto
  show thesis
  proof (cases l)
    case None
    then show thesis using r absent by (simp add: cancel_order_def Let_def)
  next
    case (Some leaf)
    have "cancel_order ob oo k sat m eo =
        (if \<exists>w. eo = Some w \<and> leaf_owner leaf \<noteq> w then Inl (AnchorErr RequireKeysEqViolated)
         else bnd (cancel_slot (owner_slot leaf) (quantity leaf) m oo)
           (\<lambda>oo'. Ok (leaf, set_bookside (sat_side sat) b' ob, oo')))"
      using r(1) Some by (cases eo) (auto simp: cancel_order_def Let_def require_anchor_def)
    then show thesis using r Some present remove_by_key_sound [OF s r(1)] by metis
  qed
qed

lemma find_order_in: "find_order k os = Some l \<Longrightarrow> l \<in> set os \<and> leaf_key l = k"
  by (auto simp: find_order_def find_Some_iff)

definition cancels :: "market \<Rightarrow> orderbook \<times> open_orders_account \<Rightarrow> orderbook \<times> open_orders_account \<Rightarrow> bool" where
  \<comment> \<open>what cancellations keep\<close>
  "cancels m x y \<longleftrightarrow> sound_book (fst y) \<and> account_ok (snd y) \<and>
     (\<forall>t. holdings t m (snd y) = holdings t m (snd x)) \<and>
     (\<forall>s. leaves_of (bookside (fst y) s) \<subseteq> leaves_of (bookside (fst x) s))"

lemma cancels_refl: "sound_book ob \<Longrightarrow> account_ok oo \<Longrightarrow> cancels m (ob, oo) (ob, oo)"
  by (simp add: cancels_def)

lemma cancels_trans: "cancels m x y \<Longrightarrow> cancels m y z \<Longrightarrow> cancels m x z"
  unfolding cancels_def by (simp, blast)

lemma delete_step_leaves:
  assumes "side_step b c (delete_order k (side_orders b c)) b'"
  shows "leaves_of b' \<subseteq> leaves_of b"
  using assms delete_order_subset [of k "side_orders b c"]
  by (cases c) (auto simp: side_step_def leaves_of_def)

lemma cancel_order_cancels:
  assumes c: "cancel_order ob oo k sat m eo = Ok (leaf, ob', oo')"
    and b: "sound_book ob" and a: "account_ok oo" and mk: "market_ok m"
  shows "cancels m (ob, oo) (ob', oo') \<and> 0 \<le> quantity leaf"
  using b
proof (cases rule: cancel_order_cases [of ob k sat oo m eo])
  case absent
  then show ?thesis using c by simp
next
  case (present l b')
  then have cs: "cancel_slot (owner_slot l) (quantity l) m oo = Ok oo'" and e: "leaf = l"
      "ob' = set_bookside (sat_side sat) b' ob"
    using c [unfolded present(4)] by (auto simp: res_simps split: if_splits)
  have q: "0 \<le> quantity l"
    using find_order_in [OF present(1)] b by (intro sound_quantity) (auto simp: sound_book_def)
  note ch = cancel_slot_claims [OF cs a mk q]
  then have "account_ok oo'" using freed_ok [OF _ a] by blast
  moreover have "leaves_of (bookside ob' s) \<subseteq> leaves_of (bookside ob s)" for s
    using side_or_other [of s "sat_side sat"] delete_step_leaves [OF present(2)] by (auto simp: e)
  ultimately show ?thesis
    using sound_book_update [OF b present(3)] ch q by (simp add: cancels_def e)
qed

lemma cancel_all_loop_cancels:
  assumes "cancel_all_loop i m lim so co tot ob oo = Ok (tot', ob', oo')"
    and "sound_book ob" and "account_ok oo" and "market_ok m"
  shows "cancels m (ob, oo) (ob', oo')"
  using assms
proof (induction i m lim so co tot ob oo rule: cancel_all_loop.induct)
  case (1 i m lim so co tot ob oo)
  note step = "1.prems"(1) [unfolded cancel_all_loop.simps [of i]]
  show ?case
  proof (cases "i \<ge> MAX_OPEN_ORDERS")
    case True
    then show ?thesis using step "1.prems" cancels_refl by simp
  next
    case i: False
    then obtain o1 where o1: "arr_get (open_orders oo) i = Ok o1" using step by (auto simp: res_simps)
    let ?skip = "oo_is_free o1 \<or>
      (case so of Some s \<Rightarrow> s \<noteq> sat_side (oo_side_and_tree o1) | None \<Rightarrow> False) \<or>
      (case co of Some c \<Rightarrow> c \<noteq> oo_client_id o1 | None \<Rightarrow> False)"
    show ?thesis
    proof (cases "?skip \<or> lim = 0")
      case True
      then show ?thesis
        using step i o1 "1.IH"(1) [OF i o1] "1.prems"(2-4) cancels_refl by (cases ?skip) simp_all
    next
      case False
      then have sk: "\<not> ?skip" "lim \<noteq> 0" by simp_all
      show ?thesis
      proof (cases "cancel_order ob oo (oo_id o1) (oo_side_and_tree o1) m None")
        case (Inl e)
        then have "e = Err OrderIdNotFound" using step i o1 sk by (simp split: if_splits)
        then show ?thesis
          using step i o1 sk Inl "1.IH"(2) [OF i o1 sk Inl] "1.prems"(2-4) by simp
      next
        case (Inr x)
        obtain leaf ob1 oo1 where x: "x = (leaf, ob1, oo1)" by (cases x)
        then obtain tot1 where t: "chk_i64 (tot + quantity leaf) = Ok tot1"
            "cancel_all_loop (Suc i) m (lim - 1) so co tot1 ob1 oo1 = Ok (tot', ob', oo')"
          using step i o1 sk Inr by (auto simp: res_simps)
        have c: "cancels m (ob, oo) (ob1, oo1)"
          using cancel_order_cancels [OF Inr [unfolded x] "1.prems"(2-4)] by simp
        then have "cancels m (ob1, oo1) (ob', oo')"
          using "1.IH"(3) [OF i o1 sk Inr x [symmetric] refl t] "1.prems"(4) c by (simp add: cancels_def)
        then show ?thesis by (rule cancels_trans [OF c])
      qed
    qed
  qed
qed

lemmas cancel_all_orders_cancels = cancel_all_loop_cancels [of 0 _ _ _ _ 0, folded cancel_all_orders_def]

section \<open>The cancelling instructions\<close>

text \<open>Each of them replaces the book and the account by what cancellations leave.\<close>

definition cancel_step :: "'s world \<Rightarrow> 's world \<Rightarrow> bool" where
  "cancel_step w w' \<longleftrightarrow> (\<exists>ob oo. w' = w\<lparr>w_book := ob, w_ooa := oo\<rparr> \<and>
     cancels (w_market w) (w_book w, w_ooa w) (ob, oo))"

definition book_ready :: "'s world \<Rightarrow> bool" where
  "book_ready w \<longleftrightarrow> sound_book (w_book w) \<and> account_ok (w_ooa w) \<and> market_ok (w_market w)"

lemma cancel_instr_steps:
  assumes "book_ready w"
  shows "cancel_order_instr cx k w = Ok w' \<Longrightarrow> cancel_step w w'"
    and "cancel_all_orders_instr so lim w = Ok w' \<Longrightarrow> cancel_step w w'"
    and "cancel_order_by_client_order_id cid w = Ok (n, w') \<Longrightarrow> cancel_step w w'"
    and "prune_orders ck lim w = Ok w' \<Longrightarrow> cancel_step w w'"
  using assms cancel_all_orders_cancels
  by (fastforce simp: cancel_order_instr_def cancel_all_orders_instr_def cancel_order_by_client_order_id_def
      prune_orders_def res_simps book_ready_def cancel_step_def dest: cancel_order_cancels)+

lemma cancel_step_slack:
  assumes "cancel_step w w'"
  shows "world_slack t k w' = world_slack t k w"
  using assms by (auto simp: cancel_step_def cancels_def same_rates_def intro!: funds_slack)

lemma cancel_step_ready:
  assumes c: "cancel_step w w'" and r: "trade_ready (w_book w) order k (world_accounts k w)"
  shows "trade_ready (w_book w') order k (world_accounts k w')"
proof -
  obtain ob oo where w': "w' = w\<lparr>w_book := ob, w_ooa := oo\<rparr>" and
      cs: "cancels (w_market w) (w_book w, w_ooa w) (ob, oo)"
    using c by (auto simp: cancel_step_def)
  let ?s = "invert_side (o_side order)"
  have sub: "l \<in> leaves_of (bookside (w_book w) ?s)" if "l \<in> leaves_of (bookside ob ?s)" for l
    using cs that by (auto simp: cancels_def)
  have "sound_book ob" "account_ok oo" using cs by (simp_all add: cancels_def)
  then show ?thesis
    using r sub unfolding trade_ready_def w' world_accounts_def ac_fine_def by simp
qed

text \<open>Editing an order cancels it, and places it again by what has been filled of it in the
  meantime.\<close>

lemma edit_order_slack:
  assumes e: "edit_order rt ck opl cx cid expected order lim w = Ok (oid, w')"
    and rd: "trade_ready (w_book w) order (po_open_orders_account cx) (world_accounts (po_open_orders_account cx) w)"
  shows "world_slack t (po_open_orders_account cx) w' = world_slack t (po_open_orders_account cx) w"
proof -
  let ?k = "po_open_orders_account cx"
  obtain n w1 where c: "cancel_order_by_client_order_id cid w = Ok (n, w1)"
      and rest: "(if expected - n > 0 \<and> o_max_base_lots order > expected - n then
          bnd (chk_i64 (o_max_base_lots order - (expected - n))) (\<lambda>mb.
          place_order rt ck opl cx (order\<lparr>o_max_base_lots := mb\<rparr>) lim w1)
        else Ok (None, w1)) = Ok (oid, w')"
    using e by (auto simp: edit_order_def res_simps)
  have "book_ready w" using rd by (simp add: book_ready_def trade_ready_def world_accounts_def ac_fine_def)
  then have cs: "cancel_step w w1" using cancel_instr_steps(3) c by blast
  show ?thesis
  proof (cases "expected - n > 0 \<and> o_max_base_lots order > expected - n")
    case False
    then have "w' = w1" using rest by (auto split: if_splits)
    then show ?thesis using cancel_step_slack [OF cs] by simp
  next
    case True
    let ?order = "order\<lparr>o_max_base_lots := o_max_base_lots order - (expected - n)\<rparr>"
    have p: "place_order rt ck opl cx ?order lim w1 = Ok (oid, w')" using rest True by (auto simp: res_simps)
    have "trade_ready (w_book w1) ?order ?k (world_accounts ?k w1)"
      using cancel_step_ready [OF cs rd] True by (simp add: trade_ready_def order_ok_def order_peg_limit_def)
    from place_order_slack [OF p this, of t] show ?thesis using cancel_step_slack [OF cs] by simp
  qed
qed

end
