(* ===== verification/Termination.thy ===== *)
theory Termination
  imports Cancelling
begin

text \<open>
  The loops of the code that walk trees and iterators are recursions with fuel in the model. On a
  sound book the fuel is enough: no operation ends by running out of it, so every loop of the code
  ends, whatever the orders are, also when the merging iterator skips orders.
\<close>

definition ends :: "'a res \<Rightarrow> bool" where
  "ends r \<longleftrightarrow> r \<noteq> Inl OutOfFuel"

named_theorems ends_intro "operations that end"

lemma ends_Ok [simp, ends_intro]: "ends (Ok x)"
  by (simp add: ends_def)

lemma ends_Inl [simp]: "ends (Inl e) \<longleftrightarrow> e \<noteq> OutOfFuel"
  by (simp add: ends_def)

lemma ends_bnd [ends_intro]: "ends m \<Longrightarrow> (\<And>x. m = Ok x \<Longrightarrow> ends (f x)) \<Longrightarrow> ends (bnd m f)"
  by (cases m) (simp_all add: ends_def)

lemma ends_basic [simp, ends_intro]:
  "ends (require b e)" "ends (require_anchor b a)" "ends (assert_that b)" "ends (unwrap x)"
  "ends (ok_or x e)" "ends (chk P n)" "ends (arr_get xs i)" "ends (arr_set xs i y)" "ends (div_chk P n d)"
  by (simp_all add: require_def require_anchor_def assert_that_def unwrap_def ok_or_def chk_def
      arr_get_def arr_set_def div_chk_def split: option.split)

section \<open>Accounts, events and fees\<close>

lemma ends_fees [ends_intro]:
  "ends (maker_fees_floor m n)" "ends (maker_fees_ceil P m n)" "ends (maker_rebate_floor m n)"
  "ends (taker_fees_ceil P m n)" "ends (subtract_taker_fees m n)"
  by (auto simp: maker_fees_floor_def maker_fees_ceil_def maker_rebate_floor_def taker_fees_ceil_def
      subtract_taker_fees_def ceil_fee_division_def unsigned_maker_fees_floor_def Let_def intro!: ends_intro)

lemma ends_slots [ends_intro]:
  "ends (remove_order slot q lp oo)" "ends (add_order side c l cid lp oo)" "ends (next_order_slot oo)"
  by (auto simp: remove_order_def add_order_def next_order_slot_def Let_def intro!: ends_intro split: side.split)

lemma ends_cancel_slot [ends_intro]: "ends (cancel_slot slot q m oo)"
  by (auto simp: cancel_slot_def Let_def intro!: ends_intro split: side.split)

lemma ends_execute_taker [ends_intro]: "ends (execute_taker s b q f r m oo)"
  by (auto simp: execute_taker_def Let_def intro!: ends_intro split: side.split)

lemma ends_maker_parts [ends_intro]:
  "ends (maker_locked m fill side qn f)" "ends (maker_fee_and_rebate m fill qn)"
  "ends (credit_maker m fill side qn f r lf abv pa)" "ends (account_maker_volume qn f m pa)"
  "ends (release_maker_lots fill side lp oo)"
  by (auto simp: maker_locked_def maker_fee_and_rebate_def credit_maker_def account_maker_volume_def
      release_maker_lots_def Let_def intro!: ends_intro split: side.split)

lemma ends_execute_maker [ends_intro]: "ends (execute_maker fill m oo)"
  by (auto simp: execute_maker_def Let_def intro!: ends_intro split: prod.split)

lemma ends_heap [ends_intro]:
  "ends (push_back v h)" "ends (delete_slot slot h)" "ends (set_next i x h)" "ends (set_prev i x h)"
  by (auto simp: push_back_def delete_slot_def set_next_def set_prev_def Let_def intro!: ends_intro
      split: prod.split)

lemma ends_load [ends_intro]: "ends (load_mut a)"
  by (simp add: load_mut_def split: remaining_acc.split)

lemma ends_events [ends_intro]:
  "ends (queue_out_event ev ac)" "ends (process_out_event ev owner ac)" "ends (process_fill_event fe n ac)"
  by (auto simp: queue_out_event_def process_out_event_def process_fill_event_def intro!: ends_intro
      split: option.split prod.split)

lemma ends_match_parts [ends_intro]:
  "ends (drop_invalid order owner now_ts best st)" "ends (rebate_step m mq st)"
  "ends (fill_order order owner now_ts best mb mq st)"
  by (auto simp: drop_invalid_def rebate_step_def fill_order_def Let_def intro!: ends_intro split: prod.split)

lemma ends_self_trade [ends_intro]: "ends (self_trade_step order owner best mq st)"
  by (auto simp: self_trade_step_def Let_def intro!: ends_intro split: option.split self_trade_behavior.split)

lemma ends_match_step [ends_intro]: "ends (match_step order owner now_ts price_lots best st)"
  by (auto simp: match_step_def Let_def intro!: ends_intro split: self_trade.split)

lemma ends_take_step [ends_intro]: "ends (take_step order mq st)"
  by (auto simp: take_step_def taker_fees_step_def Let_def intro!: ends_intro
      split: option.split side.split prod.split)

section \<open>The merging iterator, with orders it skips\<close>

definition iter_within :: "nat \<Rightarrow> order_tree \<Rightarrow> book_iter \<Rightarrow> bool" where
  \<comment> \<open>at most \<open>n\<close> orders are left in the two iterators\<close>
  "iter_within n T bi \<longleftrightarrow> (\<exists>fs ps. iter_rest T (fixed_iter bi) fs \<and> iter_rest T (pegged_iter bi) ps \<and>
     length fs + length ps \<le> n \<and> length ps < tree_fuel T)"

lemma skip_loop_ends:
  assumes "iter_rest T it ps" and "length ps + 2 \<le> fuel"
  shows "\<exists>x it' ps'. skip_loop fuel T opl side o_peek it = Ok (x, it') \<and> iter_rest T it' ps' \<and>
    length ps' \<le> length ps \<and> (x \<noteq> None \<longrightarrow> x = o_peek \<and> it' = it \<or> length ps' < length ps)"
  using assms
proof (induction fuel arbitrary: it ps o_peek)
  case (Suc fuel)
  show ?case
  proof (cases "case o_peek of None \<Rightarrow> True | Some (h, l) \<Rightarrow> fst (oracle_pegged_price opl l side) \<noteq> SkippedState")
    case True
    then show ?thesis using Suc.prems by (auto split: option.splits)
  next
    case False
    then obtain h l where p: "o_peek = Some (h, l)" "fst (oracle_pegged_price opl l side) = SkippedState"
      by (auto split: option.splits)
    obtain it1 where n: "iter_next T it = Ok (case ps of [] \<Rightarrow> None | x # _ \<Rightarrow> Some x, it1)"
        "iter_rest T it1 (tl ps)"
      using iter_next_ok [OF Suc.prems(1)] by blast
    show ?thesis
    proof (cases ps)
      case Nil
      then show ?thesis using n p Suc.prems(2) by (cases fuel) auto
    next
      case (Cons y ys)
      have "length ys + 2 \<le> fuel" using Suc.prems(2) Cons by simp
      from Suc.IH [OF _ this, of it1 "Some y"] n Cons
      obtain x it' ps' where "skip_loop fuel T opl side (Some y) it1 = Ok (x, it')" "iter_rest T it' ps'"
          "length ps' \<le> length ys" by auto
      then show ?thesis using n p Cons by (intro exI [of _ x] exI [of _ it'] exI [of _ ps']) simp
    qed
  qed
qed simp

lemma ends_prices [ends_intro]:
  "ends (is_expired l now_ts)" "ends (fixed_price_data p)" "ends (fixed_price_lots w)"
  "ends (key_for_fixed_price k p)"
  by (auto simp: is_expired_def fixed_price_data_def fixed_price_lots_def key_for_fixed_price_def Let_def
      intro!: ends_intro split: sum.split)

lemma ends_results [ends_intro]:
  "ends (fixed_to_result f now_ts)" "ends (oracle_pegged_to_result p now_ts)"
  by (auto simp: fixed_to_result_def oracle_pegged_to_result_def intro!: ends_intro split: prod.split)

lemma ends_rank_orders [ends_intro]: "ends (rank_orders side f p w now_ts opl)"
  by (auto simp: rank_orders_def Let_def intro!: ends_intro split: option.split prod.split)

lemma rank_orders_source:
  assumes "rank_orders side f p w now_ts opl = Ok (Some i)"
  shows "item_tree i = Fixed \<Longrightarrow> f \<noteq> None" and "item_tree i = OraclePegged \<Longrightarrow> p \<noteq> None"
  using assms by (cases f; cases p; cases opl;
      auto simp: rank_orders_def fixed_to_result_def oracle_pegged_to_result_def Let_def res_simps
      split: prod.splits if_splits)+

lemma book_iter_next_ends:
  assumes "iter_within n T bi"
  shows "ends (book_iter_next T bi)"
    and "book_iter_next T bi = Ok (Some best, bi') \<Longrightarrow> 0 < n \<and> iter_within (n - 1) T bi'"
proof -
  obtain fs ps where fs: "iter_rest T (fixed_iter bi) fs" and ps: "iter_rest T (pegged_iter bi) ps"
    and le: "length fs + length ps \<le> n" "length ps < tree_fuel T"
    using assms by (auto simp: iter_within_def)
  let ?side = "iter_side (fixed_iter bi)"
  obtain x it' ps' where sk: "(case bi_oracle_price_lots bi of
        Some opl \<Rightarrow> skip_loop (side_fuel T) T opl ?side (iter_peek (pegged_iter bi)) (pegged_iter bi)
      | None \<Rightarrow> Ok (None, pegged_iter bi)) = Ok (x, it')"
    and ps': "iter_rest T it' ps'" "length ps' \<le> length ps"
      "x \<noteq> None \<longrightarrow> x = iter_peek (pegged_iter bi) \<and> it' = pegged_iter bi \<or> length ps' < length ps"
  proof (cases "bi_oracle_price_lots bi")
    case None
    then show thesis using that ps by simp
  next
    case (Some opl)
    have "length ps + 2 \<le> side_fuel T" using le(2) by (simp add: side_fuel_def)
    from skip_loop_ends [OF ps this, of opl ?side "iter_peek (pegged_iter bi)"] show thesis
      using that Some by auto
  qed
  obtain f1 where f1: "iter_next T (fixed_iter bi) = Ok (case fs of [] \<Rightarrow> None | x # _ \<Rightarrow> Some x, f1)"
      "iter_rest T f1 (tl fs)" using iter_next_ok [OF fs] by blast
  obtain p1 where p1: "iter_next T it' = Ok (case ps' of [] \<Rightarrow> None | x # _ \<Rightarrow> Some x, p1)"
      "iter_rest T p1 (tl ps')" using iter_next_ok [OF ps'(1)] by blast
  show "ends (book_iter_next T bi)"
    using f1 p1 by (auto simp: book_iter_next_def Let_def sk intro!: ends_intro split: option.split book_tree.split)
  assume nx: "book_iter_next T bi = Ok (Some best, bi')"
  then obtain rr where rr: "rank_orders ?side (iter_peek (fixed_iter bi)) x False (bi_now_ts bi)
      (bi_oracle_price_lots bi) = Ok rr"
    by (auto simp: book_iter_next_def Let_def sk res_simps)
  then have "rr = Some best"
    using nx f1 p1
    by (cases rr) (auto simp: book_iter_next_def Let_def sk res_simps split: book_tree.splits)
  then have r: "rank_orders ?side (iter_peek (fixed_iter bi)) x False (bi_now_ts bi)
      (bi_oracle_price_lots bi) = Ok (Some best)" using rr by simp
  show "0 < n \<and> iter_within (n - 1) T bi'"
  proof (cases "item_tree best")
    case Fixed
    then have "fs \<noteq> []" using rank_orders_source(1) [OF r] iter_peek_ok [OF fs] by (auto split: list.splits)
    then have "length (tl fs) < length fs" by (cases fs) auto
    moreover have "bi' = bi\<lparr>pegged_iter := it', fixed_iter := f1\<rparr>"
      using nx r f1 Fixed by (auto simp: book_iter_next_def Let_def sk)
    ultimately show ?thesis
      unfolding iter_within_def using f1(2) ps'(1,2) le
      by (intro conjI exI [of _ "tl fs"] exI [of _ ps']) auto
  next
    case OraclePegged
    then have x: "x \<noteq> None" using rank_orders_source(2) [OF r] by simp
    have "length (tl ps') < length ps"
    proof (cases "length ps' < length ps")
      case False
      then have "iter_peek (pegged_iter bi) \<noteq> None" "length ps' = length ps" using x ps' by auto
      then have "ps \<noteq> []" using iter_peek_ok [OF ps] by (auto split: list.splits)
      then show ?thesis using \<open>length ps' = length ps\<close> by (cases ps) auto
    qed simp
    moreover have "bi' = bi\<lparr>pegged_iter := p1\<rparr>"
      using nx r p1 OraclePegged by (auto simp: book_iter_next_def Let_def sk)
    ultimately show ?thesis
      unfolding iter_within_def using p1(2) fs le
      by (intro conjI exI [of _ fs] exI [of _ "tl ps'"]) auto
  qed
qed

lemma book_iter_new_ends:
  assumes "good_side b"
  shows "\<exists>bi n. book_iter_new b now_ts opl = Ok bi \<and> iter_within n (side_nodes b) bi \<and> n < side_fuel (side_nodes b)"
proof -
  obtain F1 F2 where "good_tree (side_nodes b) (book_root b Fixed) F1"
      "good_tree (side_nodes b) (book_root b OraclePegged) F2"
    using good_side_tree [OF assms] by metis
  then obtain f fs p ps where
      "iter_new (side_nodes b) (book_root b Fixed) = Ok f" "iter_rest (side_nodes b) f fs"
      "length fs < tree_fuel (side_nodes b)"
      "iter_new (side_nodes b) (book_root b OraclePegged) = Ok p" "iter_rest (side_nodes b) p ps"
      "length ps < tree_fuel (side_nodes b)"
    using iter_spec by meson
  then show ?thesis
    by (intro exI [of _ "\<lparr>fixed_iter = f, pegged_iter = p, bi_now_ts = now_ts, bi_oracle_price_lots = opl\<rparr>"]
        exI [of _ "length fs + length ps"])
      (auto simp: book_iter_new_def iter_within_def side_fuel_def)
qed

lemma match_loop_ends:
  "iter_within n T bi \<Longrightarrow> n < fuel \<Longrightarrow> ends (match_loop fuel order owner now_ts price_lots T bi st)"
proof (induction fuel arbitrary: n bi st)
  case (Suc fuel)
  note nx = book_iter_next_ends [OF Suc.prems(1)]
  show ?case
    unfolding match_loop.simps
  proof (rule ends_bnd [OF nx(1)])
    fix y assume y: "book_iter_next T bi = Ok y"
    obtain x bi' where yx: "y = (x, bi')" by (cases y)
    show "ends (case y of (x, bi') \<Rightarrow> case x of None \<Rightarrow> Ok st
      | Some best \<Rightarrow> bnd (match_step order owner now_ts price_lots best st) (\<lambda>r. case r of
          Break st' \<Rightarrow> Ok st'
        | Continue st' \<Rightarrow> match_loop fuel order owner now_ts price_lots T bi' st'))"
    proof (cases x)
      case (Some best)
      have "0 < n \<and> iter_within (n - 1) T bi'" using nx(2) y yx Some by simp
      then have "ends (match_loop fuel order owner now_ts price_lots T bi' st')" for st'
        using Suc.IH [of "n - 1" bi'] Suc.prems(2) by auto
      then show ?thesis using yx Some by (auto intro!: ends_intro split: flow.split)
    qed (use yx in simp)
  qed
qed simp

lemma match_order_ends:
  "good_side b \<Longrightarrow> ends (match_order order owner now_ts opl price_lots b st)"
  using book_iter_new_ends [of b now_ts opl] match_loop_ends by (fastforce simp: match_order_def)

lemma valid_iter_next_ends:
  "iter_within n T bi \<Longrightarrow> n < fuel \<Longrightarrow> ends (valid_iter_next fuel T bi)"
proof (induction fuel arbitrary: n bi)
  case (Suc fuel)
  note nx = book_iter_next_ends [OF Suc.prems(1)]
  show ?case
    unfolding valid_iter_next.simps
  proof (rule ends_bnd [OF nx(1)])
    fix y assume y: "book_iter_next T bi = Ok y"
    obtain x bi' where yx: "y = (x, bi')" by (cases y)
    show "ends (case y of (x, bi') \<Rightarrow> case x of None \<Rightarrow> Ok (None, bi')
      | Some it \<Rightarrow> if item_is_valid it then Ok (Some it, bi') else valid_iter_next fuel T bi')"
    proof (cases x)
      case (Some best)
      have "0 < n \<and> iter_within (n - 1) T bi'" using nx(2) y yx Some by simp
      then show ?thesis using Suc.IH [of "n - 1" bi'] Suc.prems(2) yx Some by auto
    qed (use yx in simp)
  qed
qed simp

lemma best_price_ends: "good_side b \<Longrightarrow> ends (best_price b now_ts opl)"
  using book_iter_new_ends [of b now_ts opl] valid_iter_next_ends
  by (fastforce simp: best_price_def intro!: ends_intro)

section \<open>Orders\<close>

lemma order_price_ends:
  assumes "sound_book ob"
  shows "ends (order_price order now_ts opl ob)"
proof -
  have g: "good_side (bookside ob s)" for s using assms sound_sideD(1) by (simp add: sound_book_def)
  show ?thesis
    using best_price_ends [OF g]
    by (auto simp: order_price_def order_price_lots_def price_for_order_type_def post_only_slide_limit_def
        intro!: ends_intro split: order_params.split option.split side.split)
qed

lemma ends_remove_by_key:
  "good_side b \<Longrightarrow> ends (book_remove_by_key b c k)"
  using book_remove_by_key_spec [of b c k] by auto

lemma ends_set_quantity [ends_intro]: "ends (set_quantity b h q)"
  by (auto simp: set_quantity_def get_node_def intro!: ends_intro)

lemma ends_apply_changes [ends_intro]: "ends (apply_changes xs b)"
  by (induction xs arbitrary: b) (auto intro!: ends_intro)

lemma ends_apply_deletes:
  "sound_side b \<Longrightarrow> ends (apply_deletes xs b)"
proof (induction xs arbitrary: b)
  case (Cons x xs)
  obtain c k where x: "x = (c, k)" by (cases x)
  have "sound_side b'" if "book_remove_by_key b c k = Ok (l, b')" for l b'
    using remove_by_key_sound [OF Cons.prems that] by (simp add: sound_step_def)
  then show ?case
    using Cons ends_remove_by_key [OF sound_sideD(1) [OF Cons.prems]] by (auto simp: x intro!: ends_intro)
qed simp

lemma ends_amounts [ends_intro]:
  "ends (gen_order_id m s d)" "ends (order_max_quote_lots order m)" "ends (max_base_lots m)"
  "ends (max_quote_lots m)" "ends (postable_base_lots order m q tk p)"
  by (auto simp: gen_order_id_def order_max_quote_lots_def max_base_lots_def max_quote_lots_def
      postable_base_lots_def intro!: ends_intro)

text \<open>Insertion fails, if at all, for want of room.\<close>

lemma insert_leaf_total:
  assumes inv: "tree_inv T root ot fl F" and ok: "leaf_ok new"
  shows "(\<exists>r. insert_leaf T root new = Ok r) \<or> insert_leaf T root new = Inl (Err SomeError)"
proof (cases ot)
  case None
  have ar: "arena T fl F" using inv None by (simp add: tree_inv_def)
  show ?thesis
  proof (cases "card F = length (nodes T)")
    case True
    then have "insert_node T (LeafNode new) = Inl (Err SomeError)"
      by (rule insert_node_full [OF ar]) simp
    then show ?thesis using inv None by (simp add: insert_leaf_def tree_inv_def root_node_def)
  next
    case False
    then have "card F < length (nodes T)" using arena_card(2) [OF ar] ar by (simp add: arena_def)
    then obtain h T1 where "insert_node T (LeafNode new) = Ok (h, T1)"
      by - (rule insert_node_ok [OF ar, of "LeafNode new"], auto)
    then show ?thesis using inv None by (simp add: insert_leaf_def tree_inv_def root_node_def)
  qed
next
  case (Some ct)
  note inv' = inv [unfolded Some]
  have lk: "linked ct" and st: "stored (nodes T) ct" and wk: "wf_keys ct"
    and rn: "root_node root = Some (root_handle ct)"
    using inv' tree_inv_count(2) [OF inv'] by (simp_all add: tree_inv_def root_node_def)
  obtain c t where d: "descend [] ct (leaf_key new) = (c, t)" by (cases "descend [] ct (leaf_key new)")
  have pl: "plug c t = ct" using descend_plug [OF d] by simp
  have adm: "admits c (leaf_key new)" using descend_admits [OF d] by simp
  have run: "insert_leaf T root new = insert_end T root new t c"
    using insert_leaf_loop_descend [OF lk st wk tree_fuel_enough [OF inv'] d, of root] rn
    by (simp add: insert_leaf_def)
  note i = inv' [folded pl]
  show ?thesis
  proof (cases "shares_prefix t (leaf_key new)")
    case True
    then obtain h l where t: "t = CLeaf h l" "leaf_key l = leaf_key new"
      using descend_end [OF d] by auto
    show ?thesis by (rule replace_ok [OF i [unfolded t(1)] t(2) ok]) (simp add: run t(1))
  next
    case False
    show ?thesis
    proof (cases "card (set (handles (plug c t)) \<union> F) + 2 \<le> length (nodes T)")
      case True
      show ?thesis by (rule split_ok [OF i False adm ok True]) (simp add: run)
    next
      case no: False
      then show ?thesis using split_no_room [OF i False] by (simp add: run)
    qed
  qed
qed

lemma ends_insert:
  assumes "good_side b" and "leaf_ok l"
  shows "ends (book_insert_leaf b c l)"
proof -
  obtain ot fl where "side_inv b ot fl" using assms(1) by (auto simp: good_side_def)
  then obtain F where "tree_inv (side_nodes b) (book_root b c) (ot c) fl F"
    by (auto simp: side_inv_def)
  from insert_leaf_total [OF this assms(2)] show ?thesis
    by (auto simp: book_insert_leaf_def intro!: ends_intro)
qed

lemma ends_make_room:
  assumes b: "sound_side b"
  shows "ends (make_room order owner now_ts orc p tgt b ac)"
proof -
  obtain r b1 where e: "book_remove_one_expired b tgt now_ts = Ok (r, b1)"
    using book_remove_one_expired_spec [OF sound_sideD(1) [OF b], of tgt now_ts] by auto
  have "sound_side b1" using remove_expired_room [OF b e, of Bid 0 None] by (simp add: room_step_def sound_step_def)
  then obtain w b2 where "book_remove_worst b1 now_ts orc = Ok (w, b2)"
    using book_remove_worst_spec [OF sound_sideD(1,3), of b1 now_ts orc] by auto
  then show ?thesis
    using e by (auto simp: make_room_def Let_def intro!: ends_intro split: option.split)
qed

lemma ends_post_order:
  assumes b: "sound_side b" "book_side_of b = o_side order"
    and t: "0 \<le> now_ts" "0 \<le> o_time_in_force order" "now_ts + o_time_in_force order \<le> U64_MAX"
  shows "ends (post_order order owner now_ts orc price_lots order_id base_lots price tgt b ac)"
proof -
  have "sound_side b1" if "make_room order owner now_ts orc price_lots tgt b ac1 = Ok (b1, ac2)" for b1 ac1 ac2
    using make_room_spec [OF b that] by (simp add: room_step_def sound_step_def)
  then show ?thesis
    using ends_make_room [OF b(1)] t
    by (auto simp: post_order_def Let_def intro!: ends_intro ends_insert sound_sideD(1) split: side.split prod.split)
qed

lemma new_order_ends:
  assumes s: "sound_book ob" and t: "times_ok order now_ts"
  shows "ends (new_order ob order owner now_ts lim opl ac)"
proof -
  have g: "good_side (bookside ob s)" "sound_side (bookside ob s)" for s
    using s sound_sideD(1) by (simp_all add: sound_book_def)
  have own: "bookside (set_bookside (invert_side (o_side order)) x ob) (o_side order) = bookside ob (o_side order)" for x
    by simp
  have b: "book_side_of (bookside ob (o_side order)) = o_side order" using s by (simp add: sound_book_def)
  let ?B = "bookside ob (invert_side (o_side order))"
  define change where "change st1 = bnd (apply_changes (mt_changes st1) ?B) (apply_deletes (mt_deletes st1))" for st1 :: match_state
  have ch: "ends (change st1)"
    if tk: "take_step order mq st = Ok (tk, st1)"
      and mo: "match_order order owner now_ts opl price_lots ?B (start_match order mq lim ac1) = Ok st"
    for price_lots mq ac1 st tk st1
  proof -
    have "\<forall>(c, h, q) \<in> set (mt_changes st1). 1 \<le> q"
      using match_order_collects [OF mo] take_step_changes [OF tk] by (simp add: changes_ok_def)
    then have "sound_side b'" if "apply_changes (mt_changes st1) ?B = Ok b'" for b'
      using apply_changes_sound [OF that g(2)] by (simp add: sound_step_def)
    then show ?thesis unfolding change_def by (intro ends_intro ends_apply_deletes) simp_all
  qed
  have po: "ends (post_order order owner now_ts opl p k n pr c (bookside ob (o_side order)) a)" for p k n pr c a
    using ends_post_order [OF g(2) b] t by (simp add: times_ok_def)
  show ?thesis
    unfolding new_order_def Let_def own change_def [symmetric]
    using order_price_ends [OF s] match_order_ends [OF g(1)]
    by (auto intro!: ends_intro po dest: ch split: option.split prod.split)
qed

section \<open>Cancellations\<close>

lemma cancel_order_ends:
  assumes "sound_book ob"
  shows "ends (cancel_order ob oo k sat m eo)"
    and "cancel_order ob oo k sat m eo = Ok (leaf, ob', oo') \<Longrightarrow> sound_book ob'"
  using assms
proof -
  show "ends (cancel_order ob oo k sat m eo)"
    using assms by (cases rule: cancel_order_cases [of ob k sat oo m eo]) (auto intro!: ends_intro)
  assume c: "cancel_order ob oo k sat m eo = Ok (leaf, ob', oo')"
  show "sound_book ob'"
    using assms
  proof (cases rule: cancel_order_cases [of ob k sat oo m eo])
    case absent
    then show ?thesis using c by simp
  next
    case (present l b')
    then show ?thesis
      using c [unfolded present(4)] sound_book_update [OF assms present(3)]
      by (auto simp: res_simps split: if_splits)
  qed
qed

lemma cancel_all_loop_ends:
  "sound_book ob \<Longrightarrow> ends (cancel_all_loop i m lim so co tot ob oo)"
proof (induction i m lim so co tot ob oo rule: cancel_all_loop.induct)
  case (1 i m lim so co tot ob oo)
  show ?case
  proof (cases "i \<ge> MAX_OPEN_ORDERS")
    case i: False
    show ?thesis
      unfolding cancel_all_loop.simps [of i] if_not_P [OF i]
    proof (rule ends_bnd [OF ends_basic(7)])
      fix o1 assume o1: "arr_get (open_orders oo) i = Ok o1"
      let ?skip = "oo_is_free o1 \<or>
        (case so of Some s \<Rightarrow> s \<noteq> sat_side (oo_side_and_tree o1) | None \<Rightarrow> False) \<or>
        (case co of Some c \<Rightarrow> c \<noteq> oo_client_id o1 | None \<Rightarrow> False)"
      let ?c = "cancel_order ob oo (oo_id o1) (oo_side_and_tree o1) m None"
      have c: "ends ?c" "\<And>leaf ob' oo'. ?c = Ok (leaf, ob', oo') \<Longrightarrow> sound_book ob'"
        using cancel_order_ends [OF "1.prems"] by blast+
      show "ends (if ?skip then cancel_all_loop (Suc i) m lim so co tot ob oo
        else if lim = 0 then Ok (tot, ob, oo)
        else case ?c of Inl e \<Rightarrow> if e = Err OrderIdNotFound
              then cancel_all_loop (Suc i) m (lim - 1) so co tot ob oo else Inl e
          | Inr (leaf, ob', oo') \<Rightarrow> bnd (chk_i64 (tot + quantity leaf)) (\<lambda>tot'.
              cancel_all_loop (Suc i) m (lim - 1) so co tot' ob' oo'))"
      proof (cases ?skip)
        case True
        then show ?thesis using "1.IH"(1) [OF i o1 True "1.prems"] by simp
      next
        case sk: False
        show ?thesis
        proof (cases "lim = 0")
          case lim: False
          show ?thesis
          proof (cases ?c)
            case (Inl e)
            then show ?thesis using "1.IH"(2) [OF i o1 sk lim Inl] "1.prems" sk lim c(1) by auto
          next
            case (Inr x)
            obtain leaf ob1 oo1 where x: "x = (leaf, ob1, oo1)" by (cases x)
            have "ends (bnd (chk_i64 (tot + quantity leaf)) (\<lambda>tot'.
                cancel_all_loop (Suc i) m (lim - 1) so co tot' ob1 oo1))"
              using "1.IH"(3) [OF i o1 sk lim Inr x [symmetric] refl _ c(2) [OF Inr [unfolded x]]]
              by (intro ends_intro)
            then show ?thesis using sk lim Inr x by simp
          qed
        qed (use sk in simp)
      qed
    qed
  qed (simp add: cancel_all_loop.simps [of i])
qed

lemma cancel_all_orders_ends:
  "sound_book ob \<Longrightarrow> ends (cancel_all_orders ob oo m lim so co)"
  unfolding cancel_all_orders_def by (rule cancel_all_loop_ends)

end
