(* ===== verification/Vaults.thy ===== *)
theory Vaults
  imports Cancelling
begin

text \<open>
  The vaults of a market back the claims on it. What the token program is relied on for is stated
  as \<open>token_laws\<close>: a successful transfer moves the amount, and the system program does not touch
  token balances. The backing of a market is what its vault holds above all claims on it; the
  instructions that move tokens, as they are entered, never lower it.
\<close>

section \<open>Token transfers\<close>

definition moved :: "pubkey \<Rightarrow> pubkey \<Rightarrow> int \<Rightarrow> pubkey \<Rightarrow> int" where
  "moved src dst n k = (if k = dst then n else 0) - (if k = src then n else 0)"

definition token_laws :: "'s runtime \<Rightarrow> ('s \<Rightarrow> pubkey \<Rightarrow> int) \<Rightarrow> bool" where
  "token_laws rt bal \<longleftrightarrow>
     (\<forall>sd src dst auth n s s'. token_cpi rt sd src dst auth n s = Ok s' \<longrightarrow>
        (\<forall>k. bal s' k = bal s k + moved src dst n k)) \<and>
     (\<forall>src dst n s s'. system_cpi rt src dst n s = Ok s' \<longrightarrow> (\<forall>k. bal s' k = bal s k))"

lemma moved_zero [simp]: "moved src dst 0 k = 0"
  by (simp add: moved_def)

lemma token_transfer_moves:
  assumes "token_laws rt bal" and "0 \<le> n"
  shows "token_transfer rt n src dst auth s = Ok s' \<Longrightarrow> bal s' k = bal s k + moved src dst n k"
    and "token_transfer_signed rt n src dst auth sd s = Ok s' \<Longrightarrow> bal s' k = bal s k + moved src dst n k"
  using assms
  by (auto simp: token_laws_def token_transfer_def token_transfer_signed_def split: if_splits)

lemma system_transfer_keeps:
  assumes "token_laws rt bal" and "system_program_transfer rt n src dst s = Ok s'"
  shows "bal s' k = bal s k"
  using assms by (auto simp: token_laws_def system_program_transfer_def split: if_splits)

section \<open>Backing\<close>

definition vault_of :: "side \<Rightarrow> market \<Rightarrow> pubkey" where
  "vault_of t m = (case t of Bid \<Rightarrow> market_quote_vault m | Ask \<Rightarrow> market_base_vault m)"

definition vaults_ok :: "market \<Rightarrow> bool" where
  "vaults_ok m \<longleftrightarrow> market_base_vault m \<noteq> market_quote_vault m"

definition not_vault :: "market \<Rightarrow> pubkey \<Rightarrow> bool" where
  "not_vault m k \<longleftrightarrow> k \<noteq> market_base_vault m \<and> k \<noteq> market_quote_vault m"

definition surplus :: "('s \<Rightarrow> pubkey \<Rightarrow> int) \<Rightarrow> side \<Rightarrow> 's world \<Rightarrow> int" where
  \<comment> \<open>what the vault holds above the recorded deposits\<close>
  "surplus bal t w = bal (w_tokens w) (vault_of t (w_market w)) - deposit_total t (w_market w)"

definition backing :: "('s \<Rightarrow> pubkey \<Rightarrow> int) \<Rightarrow> side \<Rightarrow> pubkey \<Rightarrow> 's world \<Rightarrow> int" where
  \<comment> \<open>what the vault holds above all claims, for an instruction on the account \<open>k\<close>\<close>
  "backing bal t k w =
     bal (w_tokens w) (vault_of t (w_market w)) - claims t (world_accounts k w)"

lemma backing_split: "backing bal t k w = surplus bal t w + world_slack t k w"
  by (simp add: backing_def surplus_def world_slack_def slack_def world_accounts_def)

definition taker_backing :: "('s \<Rightarrow> pubkey \<Rightarrow> int) \<Rightarrow> side \<Rightarrow> 's world \<Rightarrow> int" where
  \<comment> \<open>the same for an instruction without an open-orders account\<close>
  "taker_backing bal t w =
     bal (w_tokens w) (vault_of t (w_market w)) - claims t (market_accounts w)"

lemma taker_backing_split: "taker_backing bal t w = surplus bal t w + slack t (market_accounts w)"
  by (simp add: taker_backing_def surplus_def slack_def market_accounts_def)

lemma same_vaults:
  "market_base_vault m' = market_base_vault m \<Longrightarrow> market_quote_vault m' = market_quote_vault m \<Longrightarrow>
   vault_of t m' = vault_of t m"
  by (cases t) (simp_all add: vault_of_def)

lemma vault_by_side: "get_vault_by_side m s = vault_of s m"
  by (cases s) (simp_all add: get_vault_by_side_def vault_of_def)

section \<open>The instructions that take tokens in\<close>

lemma place_order_surplus:
  assumes laws: "token_laws rt bal" and p: "place_order rt ck opl_res cx order lim w = Ok (oid, w')"
    and rd: "trade_ready (w_book w) order (po_open_orders_account cx) (world_accounts (po_open_orders_account cx) w)"
    and v: "vaults_ok (w_market w)" and u: "not_vault (w_market w) (ta_key (po_user_token_account cx))"
  shows "surplus bal t w' = surplus bal t w"
proof (rule place_order_steps [OF p])
  let ?k = "po_open_orders_account cx"
  fix now_ts opl r ob ac oo cost d pa m pa' tok
  assume vs: "get_vault_by_side (w_market w) (o_side order) = ta_key (po_market_vault cx)"
    and n: "new_order (w_book w) order ?k now_ts lim opl (world_accounts ?k w) = Ok (r, ob, ac)"
    and pay: "pay_for_order (o_side order) cost (oo_position oo) (ac_market ac) = Ok (d, pa, m)"
    and tr: "token_transfer rt d (ta_key (po_user_token_account cx)) (ta_key (po_market_vault cx))
      (po_signer cx) (w_tokens w) = Ok tok"
    and w': "w' = \<lparr>w_market = m, w_book = ob, w_heap = ac_heap ac, w_ooa = oo\<lparr>oo_position := pa'\<rparr>,
      w_remaining = give_back ?k (oo\<lparr>oo_position := pa'\<rparr>) (ac_remaining ac), w_tokens = tok\<rparr>"
  note po = pay_for_order_ok [OF pay]
  have tm: "same_terms (w_market w) (ac_market ac)"
    using new_order_claims [OF n rd, of Bid] by (simp add: world_accounts_def)
  have vk: "vault_of t m = vault_of t (w_market w)"
    using po(5,6) tm by (intro same_vaults) (simp_all add: same_terms_def)
  have dt: "deposit_total t (ac_market ac) = deposit_total t (w_market w)"
    using tm by (cases t) (simp_all add: same_terms_def deposit_total_def)
  have "moved (ta_key (po_user_token_account cx)) (ta_key (po_market_vault cx)) d (vault_of t (w_market w)) =
      (if t = o_side order then d else 0)"
    using v u unfolding vs [symmetric] vault_by_side
    by (cases t; cases "o_side order") (auto simp: moved_def vault_of_def vaults_ok_def not_vault_def)
  then show ?thesis
    using token_transfer_moves(1) [OF laws po(7) tr, of "vault_of t (w_market w)"] po(1) [of t] vk dt
    by (simp add: surplus_def w')
qed

lemma deposit_surplus:
  assumes laws: "token_laws rt bal" and d: "deposit rt ck cx b q w = Ok w'" and pos: "0 \<le> b" "0 \<le> q"
    and v: "vaults_ok (w_market w)" and u: "not_vault (w_market w) (ta_key (dp_user_base_account cx))"
      "not_vault (w_market w) (ta_key (dp_user_quote_account cx))"
    and ck: "check_deposit cx (w_market w) (w_ooa w) = Ok ()"
  shows "surplus bal t w' = surplus bal t w"
proof (rule deposit_steps [OF d])
  fix tok1 tok2
  assume t1: "token_transfer rt b (ta_key (dp_user_base_account cx)) (ta_key (dp_market_base_vault cx))
      (dp_owner cx) (w_tokens w) = Ok tok1"
    and t2: "token_transfer rt q (ta_key (dp_user_quote_account cx)) (ta_key (dp_market_quote_vault cx))
      (dp_owner cx) tok1 = Ok tok2"
    and w': "w' = w\<lparr>w_market := (w_market w)\<lparr>base_deposit_total := base_deposit_total (w_market w) + b,
        quote_deposit_total := quote_deposit_total (w_market w) + q\<rparr>,
      w_ooa := (w_ooa w)\<lparr>oo_position := (oo_position (w_ooa w))\<lparr>
        base_free_native := base_free_native (oo_position (w_ooa w)) + b,
        quote_free_native := quote_free_native (oo_position (w_ooa w)) + q\<rparr>\<rparr>,
      w_tokens := tok2\<rparr>"
  have k: "ta_key (dp_market_base_vault cx) = market_base_vault (w_market w)"
      "ta_key (dp_market_quote_vault cx) = market_quote_vault (w_market w)"
    using ck by (simp_all add: check_deposit_def all_ok_eq_Inr res_simps)
  show ?thesis
    using token_transfer_moves(1) [OF laws pos(1) t1] token_transfer_moves(1) [OF laws pos(2) t2] u v
    unfolding k by (cases t) (auto simp: surplus_def w' vault_of_def deposit_total_def moved_def
        vaults_ok_def not_vault_def)
qed

section \<open>Taking without an account\<close>

lemma take_transfers_moves:
  assumes laws: "token_laws rt bal" and pos: "0 \<le> d" "0 \<le> wd"
    and tr: "take_transfers rt cx side sds d wd tok = Ok tok'"
    and v: "vaults_ok m" and ck: "check_place_take_order cx m = Ok ()"
    and u: "not_vault m (ta_key (pt_user_base_account cx))" "not_vault m (ta_key (pt_user_quote_account cx))"
  shows "bal tok' (vault_of t m) = bal tok (vault_of t m) + (if t = side then d else - wd)"
proof -
  have k: "ta_key (pt_market_base_vault cx) = market_base_vault m"
      "ta_key (pt_market_quote_vault cx) = market_quote_vault m"
    using ck by (simp_all add: check_place_take_order_def all_ok_eq_Inr res_simps)
  show ?thesis
  proof (cases side)
    case Bid
    then obtain tok1 where
        t1: "token_transfer rt d (ta_key (pt_user_quote_account cx)) (market_quote_vault m) (pt_signer cx) tok = Ok tok1"
        and t2: "token_transfer_signed rt wd (market_base_vault m) (ta_key (pt_user_base_account cx))
          (pt_market_authority cx) sds tok1 = Ok tok'"
      using tr by (auto simp: take_transfers_def k res_simps)
    show ?thesis
      using token_transfer_moves(1) [OF laws pos(1) t1] token_transfer_moves(2) [OF laws pos(2) t2] u v Bid
      by (cases t) (auto simp: vault_of_def moved_def vaults_ok_def not_vault_def)
  next
    case Ask
    then obtain tok1 where
        t1: "token_transfer rt d (ta_key (pt_user_base_account cx)) (market_base_vault m) (pt_signer cx) tok = Ok tok1"
        and t2: "token_transfer_signed rt wd (market_quote_vault m) (ta_key (pt_user_quote_account cx))
          (pt_market_authority cx) sds tok1 = Ok tok'"
      using tr by (auto simp: take_transfers_def k res_simps)
    show ?thesis
      using token_transfer_moves(1) [OF laws pos(1) t1] token_transfer_moves(2) [OF laws pos(2) t2] u v Ask
      by (cases t) (auto simp: vault_of_def moved_def vaults_ok_def not_vault_def)
  qed
qed

lemma taken_nonneg:
  assumes n: "new_order ob order owner now_ts lim opl ac = Ok (r, ob', ac')"
    and rd: "trade_ready ob order owner ac"
  shows "0 \<le> oa_total_base_taken_native r"
proof -
  have s: "sound_side (bookside ob (invert_side (o_side order)))" and ok: "order_ok order" "market_ok (ac_market ac)"
    using rd by (auto simp: trade_ready_def sound_book_def)
  from new_order_taken [OF n ok sound_sideD(1,2) [OF s]] show ?thesis
    using ok(2) by (fastforce simp: market_ok_def)
qed

lemma take_amounts_nonneg:
  assumes "take_amounts side r m = Ok (d, wd, m')" and "0 \<le> oa_total_base_taken_native r"
  shows "0 \<le> d" and "0 \<le> wd"
  using assms by (cases side; auto simp: take_amounts_def res_simps is_u64_def)+

lemma place_take_order_surplus:
  assumes laws: "token_laws rt bal" and p: "place_take_order rt ck opl_res cx order lim w = Ok w'"
    and rd: "trade_ready (w_book w) order (pt_signer cx) (market_accounts w)"
    and ckd: "check_place_take_order cx (w_market w) = Ok ()"
    and v: "vaults_ok (w_market w)" and u: "not_vault (w_market w) (ta_key (pt_user_base_account cx))"
      "not_vault (w_market w) (ta_key (pt_user_quote_account cx))"
  shows "surplus bal t w' = surplus bal t w"
proof (rule place_take_order_steps [OF p])
  fix now_ts opl r ob ac d wd m tok tok'
  assume n: "new_order (w_book w) order (pt_signer cx) now_ts lim opl (market_accounts w) = Ok (r, ob, ac)"
    and ta: "take_amounts (o_side order) r (ac_market ac) = Ok (d, wd, m)"
    and pe: "(if heap_len (ac_heap ac) > heap_len (w_heap w)
          then system_program_transfer rt PENALTY_EVENT_HEAP (pt_penalty_payer cx) (pt_market cx) (w_tokens w)
          else Ok (w_tokens w)) = Ok tok"
    and tr: "take_transfers rt cx (o_side order) (market_seeds m (pt_market cx)) d wd tok = Ok tok'"
    and w': "w' = w\<lparr>w_market := m, w_book := ob, w_heap := ac_heap ac, w_remaining := ac_remaining ac,
      w_tokens := tok'\<rparr>"
  note a = take_amounts_ok [OF ta]
  note nn = take_amounts_nonneg [OF ta taken_nonneg [OF n rd]]
  have tm: "same_terms (w_market w) (ac_market ac)"
    using new_order_claims [OF n rd, of Bid] by (simp add: market_accounts_def)
  have vk: "vault_of t m = vault_of t (w_market w)"
    using a(4,5) tm by (intro same_vaults) (simp_all add: same_terms_def)
  have dt: "deposit_total t (ac_market ac) = deposit_total t (w_market w)"
    using tm by (cases t) (simp_all add: same_terms_def deposit_total_def)
  have pk: "bal tok j = bal (w_tokens w) j" for j
    using pe system_transfer_keeps [OF laws] by (auto split: if_splits)
  show ?thesis
    using take_transfers_moves [OF laws nn tr v ckd u, of t] a(6) [of t] vk dt pk
    by (simp add: surplus_def w')
qed

section \<open>The instructions that pay out\<close>

lemma settle_transfers_moves:
  assumes laws: "token_laws rt bal" and pos: "0 \<le> rebate" "0 \<le> base_free_native pa" "0 \<le> quote_free_native pa"
    and tr: "settle_transfers rt cx sds rebate pa tok = Ok tok'"
    and v: "vaults_ok m" and k: "ta_key (sf_market_base_vault cx) = market_base_vault m"
      "ta_key (sf_market_quote_vault cx) = market_quote_vault m"
  shows "bal tok (vault_of t m) - (case t of
      Bid \<Rightarrow> quote_free_native pa + (if sf_referrer_account cx = None then 0 else rebate)
    | Ask \<Rightarrow> base_free_native pa) \<le> bal tok' (vault_of t m)"
proof -
  obtain tok1 tok2 where
      t0: "(case sf_referrer_account cx of
            Some r \<Rightarrow> token_transfer_signed rt rebate (market_quote_vault m)
              (ta_key r) (sf_market_authority cx) sds tok
          | None \<Rightarrow> Ok tok) = Ok tok1"
    and t1: "token_transfer_signed rt (base_free_native pa) (market_base_vault m)
            (ta_key (sf_user_base_account cx)) (sf_market_authority cx) sds tok1 = Ok tok2"
    and t2: "token_transfer_signed rt (quote_free_native pa) (market_quote_vault m)
       (ta_key (sf_user_quote_account cx)) (sf_market_authority cx) sds tok2 = Ok tok'"
    using tr unfolding settle_transfers_def k by (auto simp: res_simps)
  have m0: "bal tok (vault_of t m) - (if t = Bid \<and> sf_referrer_account cx \<noteq> None then rebate else 0)
      \<le> bal tok1 (vault_of t m)"
  proof (cases "sf_referrer_account cx")
    case (Some r)
    then show ?thesis
      using token_transfer_moves(2) [OF laws pos(1) t0 [unfolded Some option.case]] v pos(1)
      by (cases t) (auto simp: moved_def vault_of_def vaults_ok_def)
  qed (use t0 in simp)
  show ?thesis
    using m0 token_transfer_moves(2) [OF laws pos(2) t1] token_transfer_moves(2) [OF laws pos(3) t2] v pos
    by (cases t) (auto simp: moved_def vault_of_def vaults_ok_def split: if_splits)
qed

lemma settle_penalty_keeps:
  assumes "token_laws rt bal" and "settle_penalty rt cx pa tok = Ok (pa1, tok1)"
  shows "bal tok1 k = bal tok k"
  using assms system_transfer_keeps [OF assms(1)] by (auto simp: settle_penalty_def res_simps split: if_splits)

lemma settle_funds_surplus:
  assumes laws: "token_laws rt bal" and s: "settle_funds rt cx w = Ok w'"
    and pos: "0 \<le> base_free_native (oo_position (w_ooa w))" "0 \<le> quote_free_native (oo_position (w_ooa w))"
    and v: "vaults_ok (w_market w)" and k: "ta_key (sf_market_base_vault cx) = market_base_vault (w_market w)"
      "ta_key (sf_market_quote_vault cx) = market_quote_vault (w_market w)"
  shows "surplus bal t w \<le> surplus bal t w'"
proof (rule settle_funds_steps [OF s])
  let ?pa0 = "oo_position (w_ooa w)"
  fix roundoff pa m pa1 tok1 tok2
  assume r: "roundoff_maker_fees (w_market w) ?pa0 = (roundoff, pa)"
    and u: "is_u64 (referrer_rebates_available pa + roundoff)"
    and m: "settle_market (sf_referrer_account cx \<noteq> None) (referrer_rebates_available pa + roundoff) pa
      (w_market w) = Ok m"
    and p: "settle_penalty rt cx pa (w_tokens w) = Ok (pa1, tok1)"
    and tr: "settle_transfers rt cx (market_seeds m (sf_market cx)) (referrer_rebates_available pa + roundoff)
      pa1 tok1 = Ok tok2"
    and w': "w' = w\<lparr>w_market := m, w_ooa := (w_ooa w)\<lparr>oo_position := pa1\<lparr>base_free_native := 0,
      quote_free_native := 0, referrer_rebates_available := 0\<rparr>\<rparr>, w_tokens := tok2\<rparr>"
  have f: "base_free_native pa = base_free_native ?pa0" "quote_free_native pa = quote_free_native ?pa0"
      "base_free_native pa1 = base_free_native ?pa0" "quote_free_native pa1 = quote_free_native ?pa0"
    using roundoff_ok [OF r] settle_penalty_ok [OF p]
    by (metis position.select_convs position.surjective position.update_convs)+
  note sm = settle_market_ok [OF m]
  have vk: "vault_of t m = vault_of t (w_market w)" using sm(2,3) by (rule same_vaults)
  have "0 \<le> referrer_rebates_available pa + roundoff" using u by (simp add: is_u64_def)
  note mv = settle_transfers_moves [OF laws this, of pa1 cx _ tok1 tok2 "w_market w" t]
  show ?thesis
    using mv [OF _ _ tr v k] pos f settle_penalty_keeps [OF laws p] vk sm(4,5)
    by (cases t) (auto simp: surplus_def w' deposit_total_def)
qed

lemma sweep_fees_surplus:
  assumes laws: "token_laws rt bal" and s: "sweep_fees rt cx w = Ok w'"
    and pos: "0 \<le> fees_available (w_market w)" and v: "vaults_ok (w_market w)"
    and ck: "check_sweep_fees cx (w_market w) = Ok ()"
  shows "surplus bal t w \<le> surplus bal t w'"
proof (rule sweep_fees_steps [OF s])
  fix tok
  assume tr: "token_transfer_signed rt (fees_available (w_market w)) (ta_key (sw_market_quote_vault cx))
      (ta_key (sw_token_receiver_account cx)) (sw_market_authority cx)
      (market_seeds (w_market w) (sw_market cx)) (w_tokens w) = Ok tok"
    and w': "w' = w\<lparr>w_market := (w_market w)\<lparr>fees_available := 0,
      quote_deposit_total := quote_deposit_total (w_market w) - fees_available (w_market w)\<rparr>, w_tokens := tok\<rparr>"
  have k: "ta_key (sw_market_quote_vault cx) = market_quote_vault (w_market w)"
    using ck by (simp add: check_sweep_fees_def all_ok_eq_Inr res_simps)
  show ?thesis
    using token_transfer_moves(2) [OF laws pos tr] pos v unfolding k
    by (cases t) (auto simp: surplus_def w' vault_of_def deposit_total_def moved_def vaults_ok_def)
qed

end
