(* ===== verification/Readiness.thy ===== *)
theory Readiness
  imports Vaults
begin

text \<open>
  Several orders in one instruction. What an order needs of the book and the accounts to be placed
  is kept by placing an order, so the books stay balanced over a whole list of orders, as
  \<open>place_orders\<close> and \<open>cancel_all_and_place_orders\<close> place them.
\<close>

section \<open>Order slots only get free\<close>

definition freeds :: "open_orders_account \<Rightarrow> open_orders_account \<Rightarrow> bool" where
  "freeds oo oo' \<longleftrightarrow> length (open_orders oo') = length (open_orders oo) \<and>
     (\<forall>i < length (open_orders oo). open_orders oo' ! i = open_orders oo ! i \<or>
        open_orders oo' ! i = open_order_default)"

lemma freeds_refl [simp]: "freeds oo oo"
  by (simp add: freeds_def)

lemma freeds_trans: "freeds a b \<Longrightarrow> freeds b c \<Longrightarrow> freeds a c"
  unfolding freeds_def by metis

lemma freeds_slot: "freeds oo oo' \<Longrightarrow> slot_side s i oo \<Longrightarrow> slot_side s i oo'"
  unfolding freeds_def slot_side_def by (metis open_order_default_simps(1))

lemma freeds_ok: "freeds oo oo' \<Longrightarrow> account_ok oo \<Longrightarrow> account_ok oo'"
  unfolding freeds_def account_ok_def
  by (metis (no_types, lifting) in_set_conv_nth open_order_default_simps(2) order_refl)

lemma freeds_position [simp]: "freeds oo (oo'\<lparr>oo_position := pa\<rparr>) = freeds oo oo'"
  by (simp add: freeds_def)

lemma freeds_update:
  "open_orders oo' = (open_orders oo)[slot := open_order_default] \<Longrightarrow> freeds oo oo'"
  unfolding freeds_def by (metis length_list_update nth_list_update_eq nth_list_update_neq)

lemma remove_order_freeds: "remove_order slot q lp oo = Ok oo' \<Longrightarrow> freeds oo oo'"
  by (rule freeds_update [of _ _ slot]) (auto simp: remove_order_def Let_def bnd_eq_Inr)

lemma cancel_slot_freeds: "cancel_slot slot q m oo = Ok oo' \<Longrightarrow> freeds oo oo'"
  unfolding cancel_slot_def Let_def bnd_eq_Inr
  by (auto dest!: remove_order_freeds simp: freeds_def)

lemma execute_maker_freeds:
  assumes "execute_maker fill m oo = Ok (oo', m')"
  shows "freeds oo oo'"
proof -
  obtain lp pa where "release_maker_lots fill (invert_side (fe_taker_side fill)) lp (oo\<lparr>oo_position := pa\<rparr>) = Ok oo'"
    using assms unfolding execute_maker_def Let_def bnd_eq_Inr by (auto simp: bnd_eq_Inr)
  then have "remove_order (fe_maker_slot fill) (fe_quantity fill) lp (oo\<lparr>oo_position := pa\<rparr>) = Ok oo' \<or>
      open_orders oo' = open_orders oo"
    by (auto simp: release_maker_lots_def Let_def bnd_eq_Inr split: if_splits side.splits)
  then show ?thesis using remove_order_freeds by (fastforce simp: freeds_def)
qed

definition evolves :: "accounts \<Rightarrow> accounts \<Rightarrow> bool" where
  \<comment> \<open>the same accounts are loaded, and their slots only got free\<close>
  "evolves ac ac' \<longleftrightarrow> (\<forall>k oo'. map_of (ac_remaining ac') k = Some (OpenOrdersAcc oo') \<longrightarrow>
     (\<exists>oo. map_of (ac_remaining ac) k = Some (OpenOrdersAcc oo) \<and> freeds oo oo')) \<and>
     (\<forall>k oo. map_of (ac_remaining ac) k = Some (OpenOrdersAcc oo) \<longrightarrow>
     (\<exists>oo'. map_of (ac_remaining ac') k = Some (OpenOrdersAcc oo')))"

lemma evolves_refl [simp]: "evolves ac ac"
  by (auto simp: evolves_def)

lemma evolves_trans: "evolves a b \<Longrightarrow> evolves b c \<Longrightarrow> evolves a c"
  unfolding evolves_def by (meson freeds_trans)

lemma evolves_same: "ac_remaining ac' = ac_remaining ac \<Longrightarrow> evolves ac ac'"
  by (auto simp: evolves_def)

lemma evolves_store:
  assumes "map_of (ac_remaining ac) k = Some (OpenOrdersAcc oo)" and "freeds oo oo'"
    and "ac_remaining ac' = store_acc k oo' (ac_remaining ac)"
  shows "evolves ac ac'"
  using assms by (auto simp: evolves_def map_of_store split: if_splits)

lemma ac_fine_evolves:
  assumes "ac_fine s L ac" and "evolves ac ac'" and "heap_fine (ac_heap ac')"
    and "\<And>oo. ac_ooa ac' = Some oo \<Longrightarrow> account_ok oo"
  shows "ac_fine s L ac'"
  using assms unfolding ac_fine_def evolves_def by (meson freeds_ok freeds_slot)

lemma process_out_event_evolves:
  "process_out_event ev owner ac = Ok ac' \<Longrightarrow> evolves ac ac'"
  by (auto simp: process_out_event_def queue_out_event_def load_mut_def bnd_eq_Inr
      split: option.splits if_splits remaining_acc.splits
      intro: evolves_same evolves_store dest: cancel_slot_freeds)

lemma process_fill_event_evolves:
  "process_fill_event fill n ac = Ok (n', ac') \<Longrightarrow> evolves ac ac'"
  by (auto simp: process_fill_event_def load_mut_def bnd_eq_Inr
      split: option.splits if_splits remaining_acc.splits
      intro: evolves_same evolves_store dest: execute_maker_freeds)

lemma match_step_evolves:
  assumes "match_step order owner now_ts price_lots best st = Ok r"
  shows "evolves (mt_acc st) (mt_acc (flow_state r))"
  using assms
proof (cases rule: match_step_cases)
  case stop
  then show ?thesis by auto
next
  case (drop st')
  have "evolves (mt_acc st) (mt_acc st')"
    using drop(1) by (auto simp: drop_invalid_def bnd_eq_Inr intro: process_out_event_evolves split: if_splits)
  then show ?thesis using drop by simp
next
  case (trade q mb s)
  show ?thesis
  proof (cases s)
    case (SkipMatch st')
    from trade(8) [unfolded SkipMatch] have "evolves (mt_acc st) (mt_acc st')"
      by (cases rule: self_trade_cases) (auto intro: evolves_same)
    then show ?thesis using trade(9) SkipMatch by simp
  next
    case (Proceed st')
    from trade(8) [unfolded Proceed] have e: "mt_acc st' = mt_acc st"
      by (cases rule: self_trade_cases) auto
    have "fill_order order owner now_ts best mb (mb * item_price_lots best) st' = Ok (flow_state r)"
      using trade(9) Proceed by simp
    then show ?thesis by (rule fill_order_steps) (use e process_fill_event_evolves in auto)
  qed
qed

lemma match_order_evolves:
  assumes "match_order order owner now_ts opl price_lots b st = Ok st'"
  shows "evolves (mt_acc st) (mt_acc st')"
  by (rule match_order_invariant [OF assms, of "\<lambda>x. evolves (mt_acc st) (mt_acc x)"])
    (auto intro: evolves_trans match_step_evolves)

lemma make_room_evolves:
  assumes "make_room order owner now_ts orc price_lots tgt b ac = Ok (b', ac')"
  shows "evolves ac ac'"
proof -
  obtain expired b1 ac1 where
      1: "(case expired of Some l \<Rightarrow> process_out_event (out_event_of (o_side order) l now_ts (ac_heap ac)) owner ac
        | None \<Rightarrow> Ok ac) = Ok ac1"
    and 2: "ac' = ac1 \<or> (\<exists>ev. process_out_event ev owner ac1 = Ok ac')"
    using assms by (auto simp: make_room_def Let_def bnd_eq_Inr split: if_splits)
  have "evolves ac ac1" using 1 process_out_event_evolves by (auto split: option.splits)
  moreover have "evolves ac1 ac'" using 2 process_out_event_evolves by auto
  ultimately show ?thesis by (rule evolves_trans)
qed

lemma new_order_evolves:
  assumes "new_order ob order owner now_ts lim opl ac = Ok (r, ob', ac')"
  shows "evolves ac ac'"
proof -
  have m: "evolves ac (mt_acc st1)" if
      "match_order order owner now_ts opl price_lots b (start_match order mq lim (ac\<lparr>ac_market := m1\<rparr>)) = Ok st"
      "take_step order mq st = Ok (tk, st1)" for price_lots b mq m1 st st1 tk
    using match_order_evolves [OF that(1)] take_step_remaining [OF that(2)]
    by (simp add: start_match_def evolves_def)
  from assms show ?thesis
  proof (cases rule: new_order_book)
    case unposted
    then show ?thesis using m by blast
  next
    case (posted price_lots p_data order_id m1 max_quote st tk st1 opposing base_lots c mf pb pq b ac2)
    have "evolves (mt_acc st1) ac2"
    proof (rule post_order_accounts [OF posted(7)])
      fix oo1 b1 ac1 oo3
      assume "make_room order owner now_ts opl price_lots c
          (bookside (set_bookside (invert_side (o_side order)) opposing ob) (o_side order))
          (mt_acc st1\<lparr>ac_ooa := Some oo1\<rparr>) = Ok (b1, ac1)" and e: "ac2 = ac1\<lparr>ac_ooa := Some oo3\<rparr>"
      then have "evolves (mt_acc st1) ac1" using make_room_evolves by (fastforce simp: evolves_def)
      then show "evolves (mt_acc st1) ac2" by (simp add: e evolves_def)
    qed
    then show ?thesis using m [OF posted(3,4)] posted(11) evolves_trans by blast
  qed
qed

section \<open>The orders of a book\<close>

definition kin :: "leaf_node set \<Rightarrow> leaf_node set \<Rightarrow> bool" where
  \<comment> \<open>each order on the right has the owner, the slot and the peg limit of one on the left\<close>
  "kin L L' \<longleftrightarrow> (\<forall>l' \<in> L'. \<exists>l \<in> L. leaf_owner l = leaf_owner l' \<and> owner_slot l = owner_slot l' \<and>
     peg_limit l = peg_limit l')"

lemma kin_subset: "L' \<subseteq> L \<Longrightarrow> kin L L'"
  by (auto simp: kin_def)

lemma kin_trans: "kin L L' \<Longrightarrow> kin L' L'' \<Longrightarrow> kin L L''"
  unfolding kin_def by metis

lemma set_quantity_kin:
  assumes "sound_side b" and "set_quantity b h q = Ok b'"
  shows "kin (leaves_of b) (leaves_of b')"
proof -
  have "requantified q (side_orders b c) (side_orders b' c)" for c
    using set_quantity_spec [OF sound_sideD(1) [OF assms(1)] assms(2)] by blast
  then have "\<exists>l0 \<in> set (side_orders b c). l = l0 \<or> l = l0\<lparr>quantity := q\<rparr>" if "l \<in> set (side_orders b' c)" for c l
    using requantified_mem that by fast
  then show ?thesis unfolding kin_def leaves_of_def by fastforce
qed

lemma apply_changes_kin:
  "apply_changes xs b = Ok b' \<Longrightarrow> sound_side b \<Longrightarrow> \<forall>(c, h, q) \<in> set xs. 1 \<le> q \<Longrightarrow>
   kin (leaves_of b) (leaves_of b')"
proof (induction xs arbitrary: b)
  case Nil
  then show ?case by (simp add: kin_subset)
next
  case (Cons x xs)
  obtain c h q where x: "x = (c, h, q)" by (cases x)
  then obtain b1 where b1: "set_quantity b h q = Ok b1" "apply_changes xs b1 = Ok b'"
    using Cons.prems(1) by (auto simp: res_simps)
  have "sound_side b1"
    using set_quantity_sound [OF b1(1) Cons.prems(2)] Cons.prems(3) x by (simp add: sound_step_def)
  then have "kin (leaves_of b1) (leaves_of b')" using Cons.IH [OF b1(2)] Cons.prems(3) by simp
  then show ?case using kin_trans set_quantity_kin [OF Cons.prems(2) b1(1)] by blast
qed

lemma apply_deletes_subset:
  "apply_deletes xs b = Ok b' \<Longrightarrow> sound_side b \<Longrightarrow> leaves_of b' \<subseteq> leaves_of b"
proof (induction xs arbitrary: b)
  case (Cons x xs)
  obtain c k where x: "x = (c, k)" by (cases x)
  then obtain l b1 where b1: "book_remove_by_key b c k = Ok (l, b1)" "apply_deletes xs b1 = Ok b'"
    using Cons.prems(1) by (auto simp: res_simps)
  have "side_step b c (delete_order k (side_orders b c)) b1"
    using book_remove_by_key_spec [OF sound_sideD(1) [OF Cons.prems(2)], of c k] b1(1) by auto
  then have "leaves_of b1 \<subseteq> leaves_of b" by (rule delete_step_leaves)
  moreover have "sound_side b1" using remove_by_key_sound [OF Cons.prems(2) b1(1)] by (simp add: sound_step_def)
  ultimately show ?case using Cons.IH [OF b1(2)] by blast
qed simp

lemma matched_kin:
  assumes c: "bnd (apply_changes (mt_changes st1) b) (apply_deletes (mt_deletes st1)) = Ok b'"
    and b: "sound_side b" and ok: "\<forall>(c, h, q) \<in> set (mt_changes st1). 1 \<le> q"
  shows "kin (leaves_of b) (leaves_of b')"
proof -
  obtain b1 where b1: "apply_changes (mt_changes st1) b = Ok b1" "apply_deletes (mt_deletes st1) b1 = Ok b'"
    using c by (auto simp: res_simps)
  have "sound_side b1" using apply_changes_sound [OF b1(1) b ok] by (simp add: sound_step_def)
  then show ?thesis
    using kin_trans [OF apply_changes_kin [OF b1(1) b ok] kin_subset [OF apply_deletes_subset [OF b1(2)]]]
    by blast
qed

lemma post_order_leaves:
  assumes p: "post_order order owner now_ts orc price_lots order_id base_lots price tgt b ac =
      Ok (mf, pb, pq, b', ac')"
    and b: "sound_side b" "book_side_of b = o_side order" and t: "times_ok order now_ts"
    and l: "l \<in> leaves_of b'"
  shows "l \<in> leaves_of b \<or> leaf_owner l = owner \<and> peg_limit l = order_peg_limit order"
proof (rule post_order_steps [OF p])
  fix ac0 b1 ac1 slot h old
  assume m: "make_room order owner now_ts orc price_lots tgt b ac0 = Ok (b1, ac1)"
  let ?l = "leaf_new slot order_id owner base_lots now_ts (o_time_in_force order)
      (order_peg_limit order) (o_client_order_id order)"
  assume i: "book_insert_leaf b1 tgt ?l = Ok (h, old, b')"
  have r: "room_step (o_side order) price_lots now_ts orc b b1" by (rule make_room_spec [OF b m])
  then have b1: "sound_side b1" and sub: "leaves_of b1 \<subseteq> leaves_of b"
    by (auto simp: room_step_def sound_step_def leaves_of_def)
  have st: "side_step b1 tgt (insert_order ?l (side_orders b1 tgt)) b'"
    using book_insert_leaf_spec [OF sound_sideD(1) [OF b1], of ?l tgt "(h, old, b')"] i t
    by (auto simp: times_ok_def)
  have "l \<in> insert ?l (leaves_of b1)"
    using l st by (cases tgt) (auto simp: side_step_def leaves_of_def set_insert_order)
  then show ?thesis using sub by (auto simp: leaf_new_def)
qed

text \<open>On either side, an order after \<open>new_order\<close> stems from one before, or it is the new one.\<close>

lemma new_order_leaves:
  assumes n: "new_order ob order owner now_ts lim opl ac = Ok (r, ob', ac')" and s: "sound_book ob"
    and t: "times_ok order now_ts" and l: "l \<in> leaves_of (bookside ob' s)"
  shows "(\<exists>l0 \<in> leaves_of (bookside ob s). leaf_owner l0 = leaf_owner l \<and> owner_slot l0 = owner_slot l \<and>
      peg_limit l0 = peg_limit l) \<or>
    leaf_owner l = owner \<and> peg_limit l = order_peg_limit order"
proof -
  let ?o = "invert_side (o_side order)"
  have sd: "sound_side (bookside ob s)" "book_side_of (bookside ob s) = s" for s
    using s by (simp_all add: sound_book_def)
  have op: "kin (leaves_of (bookside ob ?o)) (leaves_of opposing)"
    if "match_order order owner now_ts opl price_lots (bookside ob ?o)
        (start_match order max_quote lim (ac\<lparr>ac_market := m1\<rparr>)) = Ok st"
      "take_step order max_quote st = Ok (tk, st1)"
      "bnd (apply_changes (mt_changes st1) (bookside ob ?o)) (apply_deletes (mt_deletes st1)) = Ok opposing"
    for price_lots max_quote m1 st tk st1 opposing
    using matched_kin [OF that(3) sd(1)] match_order_collects [OF that(1)] take_step_changes [OF that(2)]
    by (simp add: changes_ok_def)
  from n show ?thesis
  proof (cases rule: new_order_book)
    case (unposted price_lots p_data order_id m1 max_quote st tk st1 opposing)
    then show ?thesis
      using op [OF unposted(3,4,5)] l side_or_other [of s "o_side order"] by (auto simp: kin_def)
  next
    case (posted price_lots p_data order_id m1 max_quote st tk st1 opposing base_lots c mf pb pq b ac2)
    show ?thesis
    proof (cases "s = o_side order")
      case True
      then have "l \<in> leaves_of b" using l posted(9) by simp
      from post_order_leaves [OF posted(7) _ _ t this] show ?thesis
        using sd True by auto
    next
      case False
      then have "s = ?o" using side_or_other by blast
      then have "l \<in> leaves_of opposing" using l posted(9) by simp
      then show ?thesis using op [OF posted(3,4,5)] \<open>s = ?o\<close> by (auto simp: kin_def)
    qed
  qed
qed

section \<open>Ready for any order\<close>

definition traders_ready :: "pubkey \<Rightarrow> orderbook \<Rightarrow> accounts \<Rightarrow> bool" where
  "traders_ready k ob ac \<longleftrightarrow> sound_book ob \<and> market_ok (ac_market ac) \<and> ac_ooa ac \<noteq> None \<and> shut k ac \<and>
     (\<forall>s. (\<forall>l \<in> leaves_of (bookside ob s). peg_limit l = -1 \<or> 0 \<le> peg_limit l) \<and>
       ac_fine s (leaves_of (bookside ob s)) ac)"

definition order_typed :: "order \<Rightarrow> bool" where
  "order_typed order \<longleftrightarrow> is_i64 (o_max_quote_lots_including_fees order) \<and>
     0 \<le> o_time_in_force order \<and> o_time_in_force order \<le> U16_MAX \<and> price_param_ok order \<and>
     (order_peg_limit order = -1 \<or> 0 \<le> order_peg_limit order)"

lemma traders_ready_trade:
  assumes r: "traders_ready k ob ac" and o: "order_ok order" "order_typed order"
  shows "trade_ready ob order k ac"
proof -
  have "maker_leaf_ok False k l" if "l \<in> leaves_of (bookside ob s)" for s l
  proof -
    have "sound_side (bookside ob s)" using r by (simp add: traders_ready_def sound_book_def)
    then have "1 \<le> quantity l" using that by (auto simp: sound_side_def leaves_of_def)
    then show ?thesis using r that by (auto simp: maker_leaf_ok_def traders_ready_def)
  qed
  then show ?thesis using r o by (auto simp: trade_ready_def traders_ready_def order_typed_def)
qed

lemma traders_ready_step:
  assumes n: "new_order ob order k now_ts lim opl ac = Ok (r, ob', ac')" and rd: "traders_ready k ob ac"
    and o: "order_ok order" "order_typed order" and t: "times_ok order now_ts"
  shows "traders_ready k ob' ac'"
proof -
  note cl = new_order_claims [OF n traders_ready_trade [OF rd o], of Bid]
  have sh: "shut k ac" using rd by (simp add: traders_ready_def)
  have sound: "sound_book ob" and mk: "market_ok (ac_market ac)" and own: "ac_ooa ac \<noteq> None"
    using rd by (simp_all add: traders_ready_def)
  have pp: "price_param_ok order" using o by (simp add: order_typed_def)
  have sh': "shut k ac'" by (rule new_order_shut [OF n sh])
  have fine': "ac_fine s (leaves_of (bookside ob s)) ac'" for s
  proof (rule ac_fine_evolves [OF _ new_order_evolves [OF n]])
    show "ac_fine s (leaves_of (bookside ob s)) ac" using rd by (simp add: traders_ready_def)
  qed (use cl in \<open>auto simp: ac_fine_def\<close>)
  have "ac_fine s (leaves_of (bookside ob' s)) ac'" for s
  proof -
    have "slot_side s (owner_slot l) oo"
      if l: "l \<in> leaves_of (bookside ob' s)" and m: "map_of (ac_remaining ac') (leaf_owner l) = Some (OpenOrdersAcc oo)"
      for l oo
    proof -
      have "leaf_owner l \<noteq> k" using sh' m by (auto simp: shut_def)
      then obtain l0 where "l0 \<in> leaves_of (bookside ob s)" "leaf_owner l0 = leaf_owner l" "owner_slot l0 = owner_slot l"
        using new_order_leaves [OF n sound t l] by blast
      then show ?thesis using fine' [of s] m unfolding ac_fine_def by metis
    qed
    then show ?thesis using fine' [of s] by (auto simp: ac_fine_def)
  qed
  moreover have "peg_limit l = -1 \<or> 0 \<le> peg_limit l" if "l \<in> leaves_of (bookside ob' s)" for s l
    using new_order_leaves [OF n sound t that] rd o(2) unfolding traders_ready_def order_typed_def by metis
  moreover have "sound_book ob'" using new_order_sound [OF n sound t pp] by simp
  ultimately show ?thesis
    using cl sh' own same_terms_market_ok [OF _ mk] by (auto simp: traders_ready_def)
qed

section \<open>A list of orders\<close>

lemma div_chk_nonneg: "div_chk P a b = Ok c \<Longrightarrow> 0 \<le> a \<Longrightarrow> 0 \<le> b \<Longrightarrow> 0 \<le> c"
  by (cases "b = 0") (simp_all add: div_chk_def sdiv_nonneg pos_imp_zdiv_nonneg_iff chk_eq_Inr)

lemma lamports_nonneg:
  assumes n: "is_u64 n"
  shows "max_base_lots_from_lamports m n = Ok l \<Longrightarrow> 0 \<le> l"
    and "max_quote_lots_from_lamports m n = Ok l \<Longrightarrow> 0 \<le> l"
proof -
  have nn: "0 \<le> as_u64 x" for x by (simp add: as_u64_def int_limits)
  have d: "0 \<le> c" if "div_chk is_u64 n (as_u64 x) = Ok c" for x c
    by (rule div_chk_nonneg [OF that]) (use n nn in \<open>simp_all add: is_u64_def\<close>)
  have m: "0 \<le> l" if "chk_i64 (min (as_u64 mx) c) = Ok l" "0 \<le> c" for mx c
    using that nn [of mx] by (simp add: chk_eq_Inr)
  show "max_base_lots_from_lamports m n = Ok l \<Longrightarrow> 0 \<le> l"
    and "max_quote_lots_from_lamports m n = Ok l \<Longrightarrow> 0 \<le> l"
    unfolding max_base_lots_from_lamports_def max_quote_lots_from_lamports_def bnd_eq_Inr
    using d m by blast+
qed

lemma max_base_lots_nonneg: "market_ok m \<Longrightarrow> max_base_lots m = Ok l \<Longrightarrow> 0 \<le> l"
  unfolding max_base_lots_def by (erule div_chk_nonneg) (simp_all add: market_ok_def int_limits)

lemma bound_order_ok:
  assumes b: "bound_order cx b q m pa order = Ok order'" and mk: "market_ok m" and t: "order_typed order"
  shows "order_ok order' \<and> order_typed order' \<and> o_side order' = o_side order \<and>
    o_time_in_force order' = o_time_in_force order"
proof -
  have e: "order\<lparr>o_max_base_lots := x, o_max_quote_lots_including_fees := o_max_quote_lots_including_fees order\<rparr> =
      order\<lparr>o_max_base_lots := x\<rparr>" for x by (cases order) simp
  obtain mb mq where o: "order' = order\<lparr>o_max_base_lots := mb, o_max_quote_lots_including_fees := mq\<rparr>"
    and "0 \<le> mb" "0 \<le> mq" "mq \<le> o_max_quote_lots_including_fees order"
  proof (cases "o_side order")
    case Ask
    then obtain mxb n l where "max_base_lots m = Ok mxb" "0 \<le> o_max_quote_lots_including_fees order"
        "is_u64 n" "max_base_lots_from_lamports m n = Ok l" "order' = order\<lparr>o_max_base_lots := min mxb l\<rparr>"
      using b by (auto simp: bound_order_def res_simps)
    then show thesis
      using that [where mb = "min mxb l" and mq = "o_max_quote_lots_including_fees order"] e [of "min mxb l"] lamports_nonneg(1) max_base_lots_nonneg [OF mk]
      by simp
  next
    case Bid
    then obtain mxb n l where "max_base_lots m = Ok mxb" "0 \<le> o_max_quote_lots_including_fees order"
        "is_u64 n" "max_quote_lots_from_lamports m n = Ok l"
        "order' = order\<lparr>o_max_base_lots := mxb,
           o_max_quote_lots_including_fees := min (o_max_quote_lots_including_fees order) l\<rparr>"
      using b by (auto simp: bound_order_def res_simps)
    then show thesis
      using that [where mb = mxb and mq = "min (o_max_quote_lots_including_fees order) l"] lamports_nonneg(2)
        max_base_lots_nonneg [OF mk] by simp
  qed
  then show ?thesis
    using t by (simp add: order_ok_def order_typed_def is_i64_def price_param_ok_def order_peg_limit_def int_limits)
qed

lemma add_cost_adds:
  assumes "add_cost side r b q = Ok (b', q')"
  shows "order_adds t side False r = (case t of Bid \<Rightarrow> q' - q | Ask \<Rightarrow> b' - b)"
proof -
  obtain cost where c: "order_cost side r = Ok cost" and
      e: "(b', q') = (case side of Bid \<Rightarrow> (b, q + cost) | Ask \<Rightarrow> (b + cost, q))"
    using assms by (cases side) (auto simp: add_cost_def res_simps split: if_splits)
  show ?thesis using order_cost_adds [OF c, of t] e by (cases side; cases t) auto
qed

lemma place_each_claims:
  assumes "place_each cx now_ts lim opl orders b q ids ob ac = Ok (b', q', ids', ob', ac')"
    and "traders_ready (pa_open_orders_account cx) ob ac" and "\<forall>order \<in> set orders. order_typed order"
    and "0 \<le> now_ts" and "now_ts + U16_MAX \<le> U64_MAX"
  shows "claims t ac' = claims t ac + (case t of Bid \<Rightarrow> q' - q | Ask \<Rightarrow> b' - b) \<and>
    traders_ready (pa_open_orders_account cx) ob' ac' \<and> same_terms (ac_market ac) (ac_market ac')"
  using assms
proof (induction cx now_ts lim opl orders b q ids ob ac rule: place_each.induct)
  case (1 cx now_ts lim opl b q ids ob ac)
  then show ?case by (cases t) simp_all
next
  case (2 cx now_ts lim opl order orders b q ids ob ac)
  obtain oo order1 r ob1 ac1 b1 q1 where u: "unwrap (ac_ooa ac) = Ok oo"
      and o1: "bound_order cx b q (ac_market ac) (oo_position oo) order = Ok order1"
      and n: "new_order ob order1 (pa_open_orders_account cx) now_ts lim opl ac = Ok (r, ob1, ac1)"
      and a: "add_cost (o_side order1) r b q = Ok (b1, q1)"
      and rest: "place_each cx now_ts lim opl orders b1 q1 (ids @ [oa_order_id r]) ob1 ac1 =
        Ok (b', q', ids', ob', ac')"
    using "2.prems"(1) by (auto simp: bnd_eq_Inr)
  note rd = "2.prems"(2)
  have mk: "market_ok (ac_market ac)" "ac_ooa ac \<noteq> None" using rd by (simp_all add: traders_ready_def)
  have o: "order_ok order1" "order_typed order1" using bound_order_ok [OF o1 mk(1)] "2.prems"(3) by auto
  have t1: "times_ok order1 now_ts" using "2.prems"(4,5) o(2) by (simp add: times_ok_def order_typed_def)
  have cl: "claims t ac1 = claims t ac + (case t of Bid \<Rightarrow> q1 - q | Ask \<Rightarrow> b1 - b)"
    and st: "same_terms (ac_market ac) (ac_market ac1)"
    using new_order_claims [OF n traders_ready_trade [OF rd o], of t] add_cost_adds [OF a, of t] mk(2) by simp_all
  have "claims t ac' = claims t ac1 + (case t of Bid \<Rightarrow> q' - q1 | Ask \<Rightarrow> b' - b1) \<and>
      traders_ready (pa_open_orders_account cx) ob' ac' \<and> same_terms (ac_market ac1) (ac_market ac')"
    using "2.IH" [OF u o1 n refl refl a refl rest traders_ready_step [OF n rd o t1]] "2.prems"(3-5) by simp
  then show ?case using cl same_terms_trans [OF st] by (cases t) simp_all
qed

lemma pay_slack:
  assumes own: "ac_ooa ac = Some oo" and pos: "oo_position oo = pa"
    and pay: "pay_for_order side cost pa (ac_market ac) = Ok (d, pa', m)"
  shows "slack t (ac\<lparr>ac_ooa := Some (oo\<lparr>oo_position := pa'\<rparr>), ac_market := m\<rparr>) =
    slack t ac + (if t = side then cost else 0)"
proof -
  note p = pay_for_order_ok [OF pay]
  let ?oo = "oo\<lparr>oo_position := pa'\<rparr>"
  let ?ac = "ac\<lparr>ac_ooa := Some ?oo\<rparr>"
  have "claims t (?ac\<lparr>ac_market := m\<rparr>) = claims t ?ac"
    using claims_market [of ?ac m t] p(2) p(3) [of t] by simp
  also have "\<dots> = claims t ac - (if t = side then cost - d else 0)"
    using claims_own [OF own, of t ?oo] p(4) [OF pos, of t "ac_market ac"] by simp
  finally show ?thesis using p(1) [of t] by (simp add: slack_def)
qed

definition placing_ready :: "place_all_ctx \<Rightarrow> 's world \<Rightarrow> bool" where
  "placing_ready cx w \<longleftrightarrow> traders_ready (pa_open_orders_account cx) (w_book w)
     (world_accounts (pa_open_orders_account cx) w)"

lemma cancels_ready:
  assumes cs: "cancels (w_market w) (w_book w, w_ooa w) (ob, oo)"
    and rd: "traders_ready k (w_book w) (world_accounts k w)"
  shows "traders_ready k ob (world_accounts k (w\<lparr>w_ooa := oo\<rparr>)) \<and>
    claims t (world_accounts k (w\<lparr>w_ooa := oo\<rparr>)) = claims t (world_accounts k w)"
proof -
  have sub: "l \<in> leaves_of (bookside (w_book w) s)" if "l \<in> leaves_of (bookside ob s)" for l s
    using cs that by (auto simp: cancels_def)
  have kept: "sound_book ob" "account_ok oo" "holdings t (w_market w) oo = holdings t (w_market w) (w_ooa w)"
    using cs by (simp_all add: cancels_def)
  let ?a = "world_accounts k w" and ?b = "world_accounts k (w\<lparr>w_ooa := oo\<rparr>)"
  have ab: "?b = ?a\<lparr>ac_ooa := Some oo\<rparr>" by (simp add: world_accounts_def)
  have "ac_ooa ?a = Some (w_ooa w)" by (simp add: world_accounts_def)
  then have cl: "claims t ?b = claims t ?a"
    using kept by (simp add: ab claims_def world_accounts_def)
  have "ac_fine s (leaves_of (bookside ob s)) ?b" for s
  proof -
    have f: "ac_fine s (leaves_of (bookside (w_book w) s)) ?a" using rd by (simp add: traders_ready_def)
    show ?thesis using f sub [of _ s] kept(2) unfolding ab ac_fine_def by simp
  qed
  moreover have "peg_limit l = -1 \<or> 0 \<le> peg_limit l" if "l \<in> leaves_of (bookside ob s)" for l s
    using rd sub [OF that] unfolding traders_ready_def by blast
  ultimately have "traders_ready k ob ?b"
    using rd kept(1) by (simp add: traders_ready_def ab shut_def)
  then show ?thesis using cl by simp
qed

lemma cancel_all_ready:
  assumes c: "cancel_all_orders (w_book w) (w_ooa w) (w_market w) lim None None = Ok (n, ob, oo)"
    and rd: "traders_ready k (w_book w) (world_accounts k w)"
  shows "traders_ready k ob (world_accounts k (w\<lparr>w_ooa := oo\<rparr>)) \<and>
    claims t (world_accounts k (w\<lparr>w_ooa := oo\<rparr>)) = claims t (world_accounts k w)"
proof -
  have "sound_book (w_book w)" "account_ok (w_ooa w)" "market_ok (w_market w)"
    using rd by (auto simp: traders_ready_def world_accounts_def ac_fine_def)
  from cancels_ready [OF cancel_all_orders_cancels [OF c this] rd] show ?thesis .
qed

lemma cancel_all_and_place_steps:
  assumes "cancel_all_and_place_orders rt ck opl_res cx cancel orders lim w = Ok (ids, w')"
  obtains now_ts opl n ob0 oo0 b q ob ac oo db pa1 m1 dq pa2 m2 pa3 tok1 tok2 where
    "clock_u64 ck = Ok now_ts" and "opl_res = Ok opl"
    and "(if cancel then cancel_all_orders (w_book w) (w_ooa w) (w_market w) U8_MAX None None
           else Ok (0, w_book w, w_ooa w)) = Ok (n, ob0, oo0)"
    and "place_each cx now_ts lim opl orders 0 0 [] ob0
      (world_accounts (pa_open_orders_account cx) (w\<lparr>w_ooa := oo0\<rparr>)) = Ok (b, q, ids, ob, ac)"
    and "ac_ooa ac = Some oo"
    and "pay_for_order Ask b (oo_position oo) (ac_market ac) = Ok (db, pa1, m1)"
    and "pay_for_order Bid q pa1 m1 = Ok (dq, pa2, m2)"
    and "penalize (w_heap w) (ac_heap ac) pa2 = Ok pa3"
    and "token_transfer rt dq (ta_key (pa_user_quote_account cx))
             (ta_key (pa_market_quote_vault cx)) (pa_signer cx) (w_tokens w) = Ok tok1"
    and "token_transfer rt db (ta_key (pa_user_base_account cx))
             (ta_key (pa_market_base_vault cx)) (pa_signer cx) tok1 = Ok tok2"
    and "w' = \<lparr>w_market = m2, w_book = ob, w_heap = ac_heap ac, w_ooa = oo\<lparr>oo_position := pa3\<rparr>,
         w_remaining = give_back (pa_open_orders_account cx) (oo\<lparr>oo_position := pa3\<rparr>) (ac_remaining ac),
         w_tokens = tok2\<rparr>"
  using assms unfolding cancel_all_and_place_orders_def Let_def world_accounts_def
  by (auto simp: bnd_eq_Inr unwrap_def split: option.splits)

lemma cancel_all_and_place_slack:
  assumes c: "cancel_all_and_place_orders rt ck opl_res cx cancel orders lim w = Ok (ids, w')"
    and rd: "placing_ready cx w" and ty: "\<forall>order \<in> set orders. order_typed order"
    and ck: "ck_unix_timestamp ck \<le> I64_MAX"
  shows "world_slack t (pa_open_orders_account cx) w' = world_slack t (pa_open_orders_account cx) w"
proof (rule cancel_all_and_place_steps [OF c])
  let ?k = "pa_open_orders_account cx"
  fix now_ts opl n ob0 oo0 b q ob ac oo db pa1 m1 dq pa2 m2 pa3 tok1 tok2
  assume now: "clock_u64 ck = Ok now_ts"
    and ca: "(if cancel then cancel_all_orders (w_book w) (w_ooa w) (w_market w) U8_MAX None None
           else Ok (0, w_book w, w_ooa w)) = Ok (n, ob0, oo0)"
    and pl: "place_each cx now_ts lim opl orders 0 0 [] ob0 (world_accounts ?k (w\<lparr>w_ooa := oo0\<rparr>)) =
      Ok (b, q, ids, ob, ac)"
    and own: "ac_ooa ac = Some oo"
    and p1: "pay_for_order Ask b (oo_position oo) (ac_market ac) = Ok (db, pa1, m1)"
    and p2: "pay_for_order Bid q pa1 m1 = Ok (dq, pa2, m2)"
    and pen: "penalize (w_heap w) (ac_heap ac) pa2 = Ok pa3"
    and w': "w' = \<lparr>w_market = m2, w_book = ob, w_heap = ac_heap ac, w_ooa = oo\<lparr>oo_position := pa3\<rparr>,
         w_remaining = give_back ?k (oo\<lparr>oo_position := pa3\<rparr>) (ac_remaining ac), w_tokens = tok2\<rparr>"
  let ?w0 = "world_accounts ?k (w\<lparr>w_ooa := oo0\<rparr>)"
  have r0: "traders_ready ?k ob0 ?w0 \<and> claims t ?w0 = claims t (world_accounts ?k w)"
    using ca cancel_all_ready [of w U8_MAX n ob0 oo0 ?k t] rd by (cases cancel) (auto simp: placing_ready_def)
  have ts: "0 \<le> now_ts" "now_ts + U16_MAX \<le> U64_MAX"
    using now ck by (auto simp: clock_u64_def res_simps is_u64_def int_limits)
  have pe: "claims t ac = claims t ?w0 + (case t of Bid \<Rightarrow> q | Ask \<Rightarrow> b)" "traders_ready ?k ob ac"
      "same_terms (w_market w) (ac_market ac)"
    using place_each_claims [OF pl _ ty ts, of t] r0 by (cases t; simp add: world_accounts_def)+
  have sh: "shut ?k ac" using pe(2) by (simp add: traders_ready_def)
  let ?oo1 = "oo\<lparr>oo_position := pa1\<rparr>"
  let ?ac1 = "ac\<lparr>ac_ooa := Some ?oo1, ac_market := m1\<rparr>"
  have s1: "slack t ?ac1 = slack t ac + (if t = Ask then b else 0)" by (rule pay_slack [OF own refl p1])
  have s2: "slack t (?ac1\<lparr>ac_ooa := Some (?oo1\<lparr>oo_position := pa2\<rparr>), ac_market := m2\<rparr>) =
      slack t ?ac1 + (if t = Bid then q else 0)"
    by (rule pay_slack) (use p2 in simp_all)
  have e: "?ac1\<lparr>ac_ooa := Some (?oo1\<lparr>oo_position := pa2\<rparr>), ac_market := m2\<rparr> =
      ac\<lparr>ac_ooa := Some (oo\<lparr>oo_position := pa2\<rparr>), ac_market := m2\<rparr>" by (cases ac) simp
  have "world_slack t ?k w' = slack t (ac\<lparr>ac_ooa := Some (oo\<lparr>oo_position := pa3\<rparr>), ac_market := m2\<rparr>)"
    unfolding world_slack_def slack_def w' world_accounts_back [OF sh] by (simp add: world_accounts_def)
  also have "\<dots> = slack t (ac\<lparr>ac_ooa := Some (oo\<lparr>oo_position := pa2\<rparr>), ac_market := m2\<rparr>)"
    by (rule slack_penalized [OF pen])
  also have "\<dots> = slack t ac + (case t of Bid \<Rightarrow> q | Ask \<Rightarrow> b)" using s1 s2 e by (cases t) simp_all
  also have "deposit_total t (ac_market ac) = deposit_total t (w_market w)"
    using pe(3) by (cases t) (simp_all add: same_terms_def deposit_total_def)
  then have "slack t ac + (case t of Bid \<Rightarrow> q | Ask \<Rightarrow> b) = world_slack t ?k w"
    using pe(1) r0 by (simp add: slack_def world_slack_def world_accounts_def)
  finally show "world_slack t ?k w' = world_slack t ?k w" .
qed

end
