(* ===== verification/Book_Fresh.thy ===== *)
theory Book_Fresh
  imports Termination Readiness
begin

text \<open>
  Every order of a side is matched at most once: the merging iterator never yields an order again,
  whether or not it skips orders. So the match loop deletes an order at most once, and what it
  deletes and changes can be told apart by component and key.
\<close>

section \<open>What the iterators still hold\<close>

lemma skip_loop_rest:
  "skip_loop fuel T opl side o_peek it = Ok (x, it') \<Longrightarrow> iter_rest T it ps \<Longrightarrow>
   \<exists>n. iter_rest T it' (drop n ps) \<and>
     (x = None \<or> x = o_peek \<and> n = 0 \<or> 0 < n \<and> n \<le> length ps \<and> x = Some (ps ! (n - 1)))"
proof (induction fuel arbitrary: it ps o_peek)
  case (Suc fuel)
  show ?case
  proof (cases "case o_peek of None \<Rightarrow> True | Some (h, l) \<Rightarrow> fst (oracle_pegged_price opl l side) \<noteq> SkippedState")
    case True
    then show ?thesis using Suc.prems by (intro exI [of _ 0]) (auto split: option.splits)
  next
    case False
    then obtain h l where p: "o_peek = Some (h, l)" "fst (oracle_pegged_price opl l side) = SkippedState"
      by (auto split: option.splits)
    obtain it1 where n: "iter_next T it = Ok (case ps of [] \<Rightarrow> None | x # _ \<Rightarrow> Some x, it1)"
        "iter_rest T it1 (tl ps)"
      using iter_next_ok [OF Suc.prems(2)] by blast
    have sk: "skip_loop fuel T opl side (case ps of [] \<Rightarrow> None | x # _ \<Rightarrow> Some x) it1 = Ok (x, it')"
      using Suc.prems(1) p n(1) by simp
    from Suc.IH [OF this n(2)] obtain m where m: "iter_rest T it' (drop m (tl ps))"
        "x = None \<or> x = (case ps of [] \<Rightarrow> None | x # _ \<Rightarrow> Some x) \<and> m = 0 \<or>
         0 < m \<and> m \<le> length (tl ps) \<and> x = Some (tl ps ! (m - 1))" by blast
    show ?thesis
      using m by (intro exI [of _ "Suc m"]) (cases ps; auto simp: drop_Suc nth_Cons split: nat.splits)
  qed
qed simp

lemma rank_orders_item_node:
  assumes "rank_orders side f p w now_ts opl = Ok (Some i)"
  shows "item_tree i = Fixed \<Longrightarrow> map_option snd f = Some (item_node i)"
    and "item_tree i = OraclePegged \<Longrightarrow> map_option snd p = Some (item_node i)"
  using assms by (cases f; cases p; cases opl;
      auto simp: rank_orders_def fixed_to_result_def oracle_pegged_to_result_def Let_def res_simps
      split: prod.splits if_splits)+

definition fresh_list :: "(book_tree \<times> key128) set \<Rightarrow> book_tree \<Rightarrow> item list \<Rightarrow> bool" where
  "fresh_list seen c xs \<longleftrightarrow> distinct (map (\<lambda>x. leaf_key (snd x)) xs) \<and>
     (\<forall>x \<in> set xs. (c, leaf_key (snd x)) \<notin> seen)"

definition iter_fresh :: "(book_tree \<times> key128) set \<Rightarrow> order_tree \<Rightarrow> book_iter \<Rightarrow> bool" where
  \<comment> \<open>no order with a component and key in \<open>seen\<close> is left\<close>
  "iter_fresh seen T bi \<longleftrightarrow> (\<exists>fs ps. iter_rest T (fixed_iter bi) fs \<and> iter_rest T (pegged_iter bi) ps \<and>
     fresh_list seen Fixed fs \<and> fresh_list seen OraclePegged ps)"

lemma fresh_list_drop: "fresh_list seen c xs \<Longrightarrow> fresh_list seen c (drop n xs)"
  by (auto simp: fresh_list_def drop_map [symmetric] distinct_drop dest: in_set_dropD)

lemma fresh_list_other: "fresh_list seen c xs \<Longrightarrow> c \<noteq> c' \<Longrightarrow> fresh_list (insert (c', k) seen) c xs"
  by (simp add: fresh_list_def)

lemma fresh_list_used:
  assumes f: "fresh_list seen c xs" and i: "i < n" "i < length xs"
  shows "fresh_list (insert (c, leaf_key (snd (xs ! i))) seen) c (drop n xs)"
proof -
  have "leaf_key (snd x) \<noteq> leaf_key (snd (xs ! i))" if x: "x \<in> set (drop n xs)" for x
  proof -
    obtain j where j: "j < length xs - n" "x = xs ! (n + j)" using x by (auto simp: in_set_conv_nth)
    then show ?thesis
      using f i nth_eq_iff_index_eq [of "map (\<lambda>x. leaf_key (snd x)) xs" "n + j" i] by (auto simp: fresh_list_def)
  qed
  then show ?thesis using fresh_list_drop [OF f, of n] by (auto simp: fresh_list_def)
qed

lemma book_iter_next_fresh:
  assumes n: "book_iter_next T bi = Ok (Some best, bi')" and f: "iter_fresh seen T bi"
  shows "(item_tree best, leaf_key (item_node best)) \<notin> seen \<and>
    iter_fresh (insert (item_tree best, leaf_key (item_node best)) seen) T bi'"
proof -
  let ?side = "iter_side (fixed_iter bi)"
  obtain fs ps where fs: "iter_rest T (fixed_iter bi) fs" "fresh_list seen Fixed fs"
      and ps: "iter_rest T (pegged_iter bi) ps" "fresh_list seen OraclePegged ps"
    using f by (auto simp: iter_fresh_def)
  obtain x it' where sk: "(case bi_oracle_price_lots bi of
        Some opl \<Rightarrow> skip_loop (side_fuel T) T opl ?side (iter_peek (pegged_iter bi)) (pegged_iter bi)
      | None \<Rightarrow> Ok (None, pegged_iter bi)) = Ok (x, it')"
    using n by (auto simp: book_iter_next_def Let_def res_simps)
  obtain m where m: "iter_rest T it' (drop m ps)"
      "x = None \<or> x = iter_peek (pegged_iter bi) \<and> m = 0 \<or> 0 < m \<and> m \<le> length ps \<and> x = Some (ps ! (m - 1))"
  proof (cases "bi_oracle_price_lots bi")
    case None
    then show thesis using that [of 0] sk ps(1) by simp
  next
    case (Some opl)
    from skip_loop_rest [OF _ ps(1), of "side_fuel T" opl ?side "iter_peek (pegged_iter bi)" x it'] sk Some
    show thesis using that by auto
  qed
  obtain rr where rr: "rank_orders ?side (iter_peek (fixed_iter bi)) x False (bi_now_ts bi)
      (bi_oracle_price_lots bi) = Ok rr"
    using n by (auto simp: book_iter_next_def Let_def sk res_simps)
  then have "rr = Some best"
    using n by (cases rr) (auto simp: book_iter_next_def Let_def sk res_simps split: book_tree.splits)
  then have r: "rank_orders ?side (iter_peek (fixed_iter bi)) x False (bi_now_ts bi)
      (bi_oracle_price_lots bi) = Ok (Some best)" using rr by simp
  show ?thesis
  proof (cases "item_tree best")
    case Fixed
    obtain f1 where f1: "iter_next T (fixed_iter bi) = Ok (case fs of [] \<Rightarrow> None | x # _ \<Rightarrow> Some x, f1)"
        "iter_rest T f1 (tl fs)" using iter_next_ok [OF fs(1)] by blast
    have "map_option snd (iter_peek (fixed_iter bi)) = Some (item_node best)"
      by (rule rank_orders_item_node(1) [OF r Fixed])
    then have h: "fs \<noteq> []" "snd (fs ! 0) = item_node best"
      using iter_peek_ok [OF fs(1)] by (cases fs; simp)+
    have bi': "bi' = bi\<lparr>pegged_iter := it', fixed_iter := f1\<rparr>"
      using n r f1 Fixed by (auto simp: book_iter_next_def Let_def sk)
    have "fresh_list (insert (Fixed, leaf_key (item_node best)) seen) Fixed (drop 1 fs)"
      using fresh_list_used [OF fs(2), of 0 1] h by simp
    moreover have "fresh_list (insert (Fixed, leaf_key (item_node best)) seen) OraclePegged (drop m ps)"
      by (rule fresh_list_other [OF fresh_list_drop [OF ps(2)]]) simp
    moreover have "(Fixed, leaf_key (item_node best)) \<notin> seen"
      using fs(2) h by (cases fs) (auto simp: fresh_list_def)
    ultimately show ?thesis
      using Fixed f1(2) m(1) bi' by (auto simp: iter_fresh_def drop_Suc)
  next
    case OraclePegged
    obtain p1 where p1: "iter_next T it' = Ok (case drop m ps of [] \<Rightarrow> None | x # _ \<Rightarrow> Some x, p1)"
        "iter_rest T p1 (tl (drop m ps))" using iter_next_ok [OF m(1)] by blast
    have x: "map_option snd x = Some (item_node best)" by (rule rank_orders_item_node(2) [OF r OraclePegged])
    obtain i where i: "i < Suc m" "i < length ps" "snd (ps ! i) = item_node best"
    proof (cases "x = iter_peek (pegged_iter bi) \<and> m = 0")
      case True
      then show thesis using x that [of 0] iter_peek_ok [OF ps(1)] by (cases ps) auto
    next
      case False
      then have "0 < m \<and> m \<le> length ps \<and> x = Some (ps ! (m - 1))" using m(2) x by auto
      then show thesis using x that [of "m - 1"] by auto
    qed
    have bi': "bi' = bi\<lparr>pegged_iter := p1\<rparr>"
      using n r p1 OraclePegged by (auto simp: book_iter_next_def Let_def sk)
    have "fresh_list (insert (OraclePegged, leaf_key (item_node best)) seen) OraclePegged (drop (Suc m) ps)"
      using fresh_list_used [OF ps(2) i(1,2)] i(3) by simp
    moreover have "fresh_list (insert (OraclePegged, leaf_key (item_node best)) seen) Fixed fs"
      by (rule fresh_list_other [OF fs(2)]) simp
    moreover have "(OraclePegged, leaf_key (item_node best)) \<notin> seen"
      using ps(2) i(3) nth_mem [OF i(2)] unfolding fresh_list_def by metis
    ultimately show ?thesis
      using OraclePegged p1(2) fs(1) bi' by (auto simp: iter_fresh_def drop_Suc tl_drop)
  qed
qed

lemma book_iter_new_fresh:
  assumes g: "good_side b" and n: "book_iter_new b now_ts opl = Ok bi"
  shows "iter_fresh {} (side_nodes b) bi"
proof -
  have "\<exists>it xs. iter_new (side_nodes b) (book_root b c) = Ok it \<and> iter_rest (side_nodes b) it xs \<and>
      fresh_list {} c xs" for c
  proof -
    obtain F where "good_tree (side_nodes b) (book_root b c) F" using good_side_tree [OF g] by blast
    then obtain it xs where it: "iter_new (side_nodes b) (book_root b c) = Ok it" "iter_rest (side_nodes b) it xs"
        "map snd xs = book_order (order_tree_type (side_nodes b)) (side_orders b c)"
      using iter_spec by (metis side_orders_def)
    have "distinct (map leaf_key (side_orders b c))"
      using side_orders_sorted [OF g, of c] strict_sorted_iff by blast
    then have "distinct (map leaf_key (map snd xs))"
      unfolding it(3) by (simp add: book_order_def rev_map [symmetric] split: order_tree_type.split)
    then have "fresh_list {} c xs" by (simp add: fresh_list_def comp_def)
    then show ?thesis using it(1,2) by blast
  qed
  from this [of Fixed] this [of OraclePegged] show ?thesis
    using n by (auto simp: book_iter_new_def iter_fresh_def res_simps) blast
qed

section \<open>The match loop\<close>

lemma match_loop_fresh_invariant:
  assumes "match_loop fuel order owner now_ts price_lots (side_nodes b) bi st = Ok st'"
    and "book_iter_in b bi" and "iter_fresh seen (side_nodes b) bi" and "P seen st"
    and step: "\<And>best seen st r. item_of_book b best \<Longrightarrow> (item_tree best, leaf_key (item_node best)) \<notin> seen \<Longrightarrow>
      P seen st \<Longrightarrow> match_step order owner now_ts price_lots best st = Ok r \<Longrightarrow>
      P (insert (item_tree best, leaf_key (item_node best)) seen) (flow_state r)"
  shows "\<exists>seen'. P seen' st'"
  using assms(1-4)
proof (induction fuel arbitrary: seen bi st)
  case (Suc fuel)
  obtain x bi' where n: "book_iter_next (side_nodes b) bi = Ok (x, bi')"
    using Suc.prems(1) by (auto simp: res_simps)
  show ?case
  proof (cases x)
    case None
    then show ?thesis using Suc.prems n by auto
  next
    case (Some best)
    obtain r where r: "match_step order owner now_ts price_lots best st = Ok r"
        "(case r of Break st'' \<Rightarrow> Ok st'' | Continue st'' \<Rightarrow>
           match_loop fuel order owner now_ts price_lots (side_nodes b) bi' st'') = Ok st'"
      using Suc.prems(1) n Some by (auto simp: res_simps)
    note i = book_iter_next_in [OF n Suc.prems(2)]
    note f = book_iter_next_fresh [OF n [unfolded Some] Suc.prems(3)]
    have p: "P (insert (item_tree best, leaf_key (item_node best)) seen) (flow_state r)"
      using step [OF _ _ Suc.prems(4) r(1)] i f Some by blast
    show ?thesis
    proof (cases r)
      case (Break st'')
      then show ?thesis using r(2) p by auto
    next
      case (Continue st'')
      then show ?thesis using Suc.IH [of bi' st''] r(2) p i f by auto
    qed
  qed
qed simp

lemma match_order_fresh_invariant:
  assumes m: "match_order order owner now_ts opl price_lots b st = Ok st'" and g: "good_side b"
    and p: "P {} st"
    and step: "\<And>best seen st r. item_of_book b best \<Longrightarrow> (item_tree best, leaf_key (item_node best)) \<notin> seen \<Longrightarrow>
      P seen st \<Longrightarrow> match_step order owner now_ts price_lots best st = Ok r \<Longrightarrow>
      P (insert (item_tree best, leaf_key (item_node best)) seen) (flow_state r)"
  shows "\<exists>seen. P seen st'"
proof -
  obtain bi where bi: "book_iter_new b now_ts opl = Ok bi"
      and l: "match_loop (side_fuel (side_nodes b)) order owner now_ts price_lots (side_nodes b) bi st = Ok st'"
    using m by (auto simp: match_order_def res_simps)
  show ?thesis
    by (rule match_loop_fresh_invariant [OF l book_iter_new_in [OF g bi] book_iter_new_fresh [OF g bi] p step])
qed

end
