(* ===== verification/Slot_Machine.thy ===== *)
theory Slot_Machine
  imports Book_Fresh "HOL-Library.Multiset"
begin

text \<open>
  What the program promises of its order slots, as a machine of its own. A slot of an open-orders
  account that an order uses is held by that order while it rests on the book, and by the event of
  its leaving until the event is consumed; then the slot is free. The ids in the slots come from the
  market's counter, so no two slots of a side have the same.
\<close>

section \<open>Slots and their holders\<close>

datatype place = At (at_key: pubkey) (at_slot: nat)

type_synonym slot_map = "place \<Rightarrow> open_order option"

datatype holder =
    Resting (place_of: place) (side_of: side) book_tree key128
  | Leaving (place_of: place) (side_of: side)

fun fits_in :: "open_order \<Rightarrow> holder \<Rightarrow> bool" where
  "fits_in x (Resting p s c k) \<longleftrightarrow> oo_side_and_tree x = side_and_tree_new s c \<and> oo_id x = k"
| "fits_in x (Leaving p s) \<longleftrightarrow> sat_side (oo_side_and_tree x) = s"

definition held :: "slot_map \<Rightarrow> holder multiset \<Rightarrow> bool" where
  \<comment> \<open>every holder holds a slot in use that fits_in it, and no slot has two holders\<close>
  "held V H \<longleftrightarrow> (\<forall>h \<in># H. \<exists>x. V (place_of h) = Some x \<and> fits_in x h) \<and>
     (\<forall>p. count (image_mset place_of H) p \<le> 1)"

definition issued :: "int \<Rightarrow> side \<Rightarrow> key128 \<Rightarrow> bool" where
  "issued n s k \<longleftrightarrow> (\<exists>q i. 0 \<le> i \<and> i \<le> n \<and> k = new_node_key s q (word_of_int i))"

definition ids_unique :: "int \<Rightarrow> slot_map \<Rightarrow> bool" where
  "ids_unique n V \<longleftrightarrow> is_u64 n \<and>
     (\<forall>p x. V p = Some x \<longrightarrow> issued n (sat_side (oo_side_and_tree x)) (oo_id x)) \<and>
     (\<forall>p q x y. V p = Some x \<and> V q = Some y \<and> oo_id x = oo_id y \<and>
        sat_side (oo_side_and_tree x) = sat_side (oo_side_and_tree y) \<longrightarrow> p = q)"

lemma ids_uniqueD:
  assumes "ids_unique n V" and "V p = Some x" and "V q = Some y" and "oo_id x = oo_id y"
    and "sat_side (oo_side_and_tree x) = sat_side (oo_side_and_tree y)"
  shows "p = q"
  using assms unfolding ids_unique_def by blast

type_synonym machine = "int \<times> slot_map \<times> holder multiset"

inductive slot_step :: "machine \<Rightarrow> machine \<Rightarrow> bool" where
  leave: "slot_step (n, V, add_mset h H) (n, V, add_mset (Leaving (place_of h) (side_of h)) H)"
| free: "slot_step (n, V, add_mset h H) (n, V(place_of h := None), H)"
| forget: "H' \<subseteq># H \<Longrightarrow> slot_step (n, V, H) (n, V, H')"
| tick: "n \<le> n' \<Longrightarrow> is_u64 n' \<Longrightarrow> slot_step (n, V, H) (n', V, H)"
| claim: "V (place_of h) = None \<Longrightarrow> fits_in x h \<Longrightarrow> is_u64 (n + 1) \<Longrightarrow>
    oo_id x = new_node_key (side_of h) q (word_of_int (n + 1)) \<Longrightarrow>
    slot_step (n, V, H) (n + 1, V(place_of h := Some x), add_mset h H)"

abbreviation slot_steps :: "machine \<Rightarrow> machine \<Rightarrow> bool" where
  "slot_steps \<equiv> slot_step\<^sup>*\<^sup>*"

definition machine_ok :: "machine \<Rightarrow> bool" where
  "machine_ok M \<longleftrightarrow> (case M of (n, V, H) \<Rightarrow> held V H \<and> ids_unique n V)"

section \<open>The invariant\<close>

lemma fits_side: "fits_in x h \<Longrightarrow> sat_side (oo_side_and_tree x) = side_of h"
  by (cases h) auto

lemma held_subset: "held V H \<Longrightarrow> H' \<subseteq># H \<Longrightarrow> held V H'"
  unfolding held_def by (meson image_mset_subseteq_mono le_trans mset_subset_eqD mset_subset_eq_count)

lemma held_leave: "held V (add_mset h H) \<Longrightarrow> held V (add_mset (Leaving (place_of h) (side_of h)) H)"
  using fits_side by (fastforce simp: held_def)

lemma held_free:
  assumes l: "held V (add_mset h H)"
  shows "held (V(place_of h := None)) H"
proof -
  have "place_of g \<noteq> place_of h" if "g \<in># H" for g
  proof
    assume "place_of g = place_of h"
    then have "place_of h \<in># image_mset place_of H" using that by (metis in_image_mset imageI)
    then have "0 < count (image_mset place_of H) (place_of h)" by (simp only: count_greater_zero_iff)
    moreover have "count (image_mset place_of (add_mset h H)) (place_of h) =
        Suc (count (image_mset place_of H) (place_of h))" by simp
    moreover have "count (image_mset place_of (add_mset h H)) (place_of h) \<le> 1"
      using l unfolding held_def by blast
    ultimately show False by linarith
  qed
  moreover have "held V H" by (rule held_subset [OF l]) simp
  ultimately show ?thesis by (simp add: held_def)
qed

lemma held_claim:
  assumes l: "held V H" and p: "V (place_of h) = None" and f: "fits_in x h"
  shows "held (V(place_of h := Some x)) (add_mset h H)"
proof -
  have n: "place_of g \<noteq> place_of h" if "g \<in># H" for g using l p that by (force simp: held_def)
  then have "place_of h \<notin># image_mset place_of H" by (metis in_image_mset imageE)
  then have "count (image_mset place_of H) (place_of h) = 0" by (rule not_in_iff [THEN iffD1])
  then have "count (image_mset place_of (add_mset h H)) q \<le> 1" for q
    using l by (cases "q = place_of h") (simp_all add: held_def)
  moreover have "\<exists>y. (V(place_of h := Some x)) (place_of g) = Some y \<and> fits_in y g" if "g \<in># add_mset h H" for g
    using that l n f by (cases "g = h") (simp_all add: held_def)
  ultimately show ?thesis unfolding held_def by blast
qed

lemma issued_later: "issued n s k \<Longrightarrow> n \<le> n' \<Longrightarrow> issued n' s k"
  unfolding issued_def by (elim exE conjE, intro exI conjI) (assumption | simp)+

lemma issued_fresh:
  assumes "is_u64 (n + 1)"
  shows "\<not> issued n s (new_node_key s q (word_of_int (n + 1)))"
proof
  assume "issued n s (new_node_key s q (word_of_int (n + 1)))"
  then obtain i where i: "0 \<le> i" "i \<le> n" "word_of_int (n + 1) = (word_of_int i :: 64 word)"
    by (auto simp: issued_def new_node_key_inj)
  have "n + 1 < 2 ^ 64" using assms by (simp add: is_u64_def int_limits)
  then have "uint (word_of_int (n + 1) :: 64 word) = n + 1" "uint (word_of_int i :: 64 word) = i"
    using i(1,2) by (simp_all add: uint_word_of_int del: of_int_add)
  then show False using i(2,3) by simp
qed

lemma ids_unique_claim:
  assumes "ids_unique n V" and f: "fits_in x h" and n: "is_u64 (n + 1)"
    and k: "oo_id x = new_node_key (side_of h) q (word_of_int (n + 1))"
  shows "ids_unique (n + 1) (V(p := Some x))"
proof -
  have s: "sat_side (oo_side_and_tree x) = side_of h" by (rule fits_side [OF f])
  have "issued (n + 1) (sat_side (oo_side_and_tree x)) (oo_id x)"
    using n unfolding issued_def k s is_u64_def by blast
  moreover have "\<not> (oo_id y = oo_id x \<and> sat_side (oo_side_and_tree y) = sat_side (oo_side_and_tree x))"
    if "V r = Some y" for r y
    using assms(1) that issued_fresh [OF n, of "side_of h" q] unfolding k s ids_unique_def by metis
  moreover have "issued (n + 1) (sat_side (oo_side_and_tree y)) (oo_id y)" if "V r = Some y" for r y
    using assms(1) that issued_later [of n _ _ "n + 1"] unfolding ids_unique_def by (meson le_add_same_cancel1 zero_le_one)
  moreover have "r = r'" if "V r = Some y" "V r' = Some z" "oo_id y = oo_id z"
      "sat_side (oo_side_and_tree y) = sat_side (oo_side_and_tree z)" for r r' y z
    using assms(1) that unfolding ids_unique_def by blast
  ultimately show ?thesis
    using n unfolding ids_unique_def by (intro conjI allI impI; (simp split: if_splits)?) metis+
qed

lemma ids_unique_free: "ids_unique n V \<Longrightarrow> ids_unique n (V(p := None))"
  by (auto simp: ids_unique_def split: if_splits)

lemma ids_unique_tick: "ids_unique n V \<Longrightarrow> n \<le> n' \<Longrightarrow> is_u64 n' \<Longrightarrow> ids_unique n' V"
  unfolding ids_unique_def using issued_later by metis

lemma slot_step_ok: "slot_step M M' \<Longrightarrow> machine_ok M \<Longrightarrow> machine_ok M'"
proof (induction rule: slot_step.induct)
  case (claim V h x n q H)
  then show ?case using held_claim ids_unique_claim by (simp add: machine_ok_def)
next
  case (forget H' H n V)
  then show ?case unfolding machine_ok_def prod.case using held_subset by blast
next
  case (tick n n' V H)
  then show ?case unfolding machine_ok_def prod.case using ids_unique_tick by blast
qed (simp_all add: machine_ok_def held_leave held_free ids_unique_free)

lemma slot_steps_ok: "slot_steps M M' \<Longrightarrow> machine_ok M \<Longrightarrow> machine_ok M'"
  by (induction rule: rtranclp_induct) (auto intro: slot_step_ok)

text \<open>What the invariant says of an order that rests: an id in a slot in use, of the order's side,
  is the id of the order in that slot.\<close>

lemma machine_resting:
  assumes "machine_ok (n, V, H)" and "Resting p s c k \<in># H"
  obtains x where "V p = Some x" "oo_side_and_tree x = side_and_tree_new s c" "oo_id x = k"
    and "\<And>q y. V q = Some y \<Longrightarrow> oo_id y = k \<Longrightarrow> sat_side (oo_side_and_tree y) = s \<Longrightarrow> q = p"
proof -
  obtain x where x: "V p = Some x" "fits_in x (Resting p s c k)"
    using assms by (force simp: machine_ok_def held_def)
  have u: "ids_unique n V" using assms(1) by (simp add: machine_ok_def)
  have fx: "oo_id x = k" "sat_side (oo_side_and_tree x) = s" using x(2) by simp_all
  have un: "q = p" if "V q = Some y" "oo_id y = k" "sat_side (oo_side_and_tree y) = s" for q y
    using ids_uniqueD [OF u that(1) x(1)] that fx by simp
  show thesis by (rule that [OF x(1) _ fx(1)]) (use x(2) un in auto)
qed

lemma machine_holder:
  assumes "machine_ok (n, V, H)" and "h \<in># H"
  obtains x where "V (place_of h) = Some x" "sat_side (oo_side_and_tree x) = side_of h"
  using assms fits_side by (force simp: machine_ok_def held_def)

text \<open>Steps with a frame.\<close>

lemmas steps_one = r_into_rtranclp [of slot_step]
lemmas steps_trans = rtranclp_trans [of slot_step]

lemma slot_step_frame:
  assumes "slot_step (n, V, H) (n, V', H')"
  shows "slot_step (n, V, H + R) (n, V', H' + R)"
  using assms
proof (cases rule: slot_step.cases)
  case (leave h)
  then show ?thesis using slot_step.leave [of n V h] by simp
next
  case (free h)
  then show ?thesis using slot_step.free [of n V h] by simp
next
  case forget
  then show ?thesis by (simp add: slot_step.forget)
next
  case tick
  then show ?thesis by (simp add: slot_step.tick)
qed simp

end
