(* ===== verification/Dispatch.thy ===== *)
theory Dispatch
  imports Entry_Points
begin

text \<open>
  The instructions on a market that has been created, as one datatype and one function: which
  entry point runs, and the world it leaves. Results of an instruction other than the world
  (order ids, a cancelled quantity) are dropped.
\<close>

datatype instruction =
    PlaceOrder place_order_ctx place_order_args
  | PlaceOrderPegged place_order_ctx place_order_pegged_args
  | EditOrder place_order_ctx u64 i64 place_order_args
  | EditOrderPegged place_order_ctx u64 i64 place_order_pegged_args
  | PlaceOrders place_all_ctx place_order_type "place_multiple_orders_args list"
      "place_multiple_orders_args list" int
  | CancelAllAndPlaceOrders place_all_ctx place_order_type "place_multiple_orders_args list"
      "place_multiple_orders_args list" int
  | PlaceTakeOrder place_take_order_ctx place_take_order_args
  | ConsumeEvents consume_events_ctx nat
  | ConsumeGivenEvents consume_events_ctx "nat list"
  | CancelOrder cancel_order_ctx key128
  | CancelOrderByClientOrderId cancel_order_ctx u64
  | CancelAllOrders cancel_order_ctx "side option" int
  | Deposit deposit_ctx u64 u64
  | Refill deposit_ctx u64 u64
  | SettleFunds settle_funds_ctx
  | SettleFundsExpired settle_expired_ctx
  | SweepFees sweep_fees_ctx
  | PruneOrders prune_orders_ctx int
  | SetMarketExpired pubkey
  | SetDelegate pubkey "pubkey option"

definition drop_result :: "('a \<times> 's world) res \<Rightarrow> 's world res" where
  "drop_result r = bnd r (\<lambda>(_, w). Ok w)"

lemma drop_result_Ok [res_simps]: "drop_result r = Ok w \<longleftrightarrow> (\<exists>x. r = Ok (x, w))"
  by (auto simp: drop_result_def res_simps)

fun run :: "'s runtime \<Rightarrow> clock \<Rightarrow> i64 option res \<Rightarrow> instruction \<Rightarrow> 's world \<Rightarrow> 's world res" where
  "run rt ck opl (PlaceOrder cx args) w = drop_result (ix_place_order rt ck opl cx args w)"
| "run rt ck opl (PlaceOrderPegged cx args) w = drop_result (ix_place_order_pegged rt ck opl cx args w)"
| "run rt ck opl (EditOrder cx cid sz args) w = drop_result (ix_edit_order rt ck opl cx cid sz args w)"
| "run rt ck opl (EditOrderPegged cx cid sz args) w =
     drop_result (ix_edit_order_pegged rt ck opl cx cid sz args w)"
| "run rt ck opl (PlaceOrders cx ty bs as lim) w =
     drop_result (ix_place_orders rt ck opl cx ty bs as lim w)"
| "run rt ck opl (CancelAllAndPlaceOrders cx ty bs as lim) w =
     drop_result (ix_cancel_all_and_place_orders rt ck opl cx ty bs as lim w)"
| "run rt ck opl (PlaceTakeOrder cx args) w = ix_place_take_order rt ck opl cx args w"
| "run rt ck opl (ConsumeEvents cx lim) w = ix_consume_events cx lim w"
| "run rt ck opl (ConsumeGivenEvents cx slots) w = ix_consume_given_events cx slots w"
| "run rt ck opl (CancelOrder cx k) w = ix_cancel_order cx k w"
| "run rt ck opl (CancelOrderByClientOrderId cx cid) w =
     drop_result (ix_cancel_order_by_client_order_id cx cid w)"
| "run rt ck opl (CancelAllOrders cx so lim) w = ix_cancel_all_orders cx so lim w"
| "run rt ck opl (Deposit cx b q) w = ix_deposit rt ck cx b q w"
| "run rt ck opl (Refill cx b q) w = ix_refill rt ck cx b q w"
| "run rt ck opl (SettleFunds cx) w = ix_settle_funds rt cx w"
| "run rt ck opl (SettleFundsExpired cx) w = ix_settle_funds_expired rt ck cx w"
| "run rt ck opl (SweepFees cx) w = ix_sweep_fees rt cx w"
| "run rt ck opl (PruneOrders cx lim) w = ix_prune_orders ck cx lim w"
| "run rt ck opl (SetMarketExpired admin) w =
     bnd (ix_set_market_expired ck admin (w_market w)) (\<lambda>m. Ok (w\<lparr>w_market := m\<rparr>))"
| "run rt ck opl (SetDelegate owner d) w =
     bnd (ix_set_delegate owner d (w_ooa w)) (\<lambda>oo. Ok (w\<lparr>w_ooa := oo\<rparr>))"

text \<open>Who signs, of the instructions that act for the user of an open-orders account.\<close>

fun user_of :: "instruction \<Rightarrow> pubkey option" where
  "user_of (PlaceOrder cx args) = Some (po_signer cx)"
| "user_of (PlaceOrderPegged cx args) = Some (po_signer cx)"
| "user_of (EditOrder cx cid sz args) = Some (po_signer cx)"
| "user_of (EditOrderPegged cx cid sz args) = Some (po_signer cx)"
| "user_of (PlaceOrders cx ty bs as lim) = Some (pa_signer cx)"
| "user_of (CancelAllAndPlaceOrders cx ty bs as lim) = Some (pa_signer cx)"
| "user_of (CancelOrder cx k) = Some (co_signer cx)"
| "user_of (CancelOrderByClientOrderId cx cid) = Some (co_signer cx)"
| "user_of (CancelAllOrders cx so lim) = Some (co_signer cx)"
| "user_of (SettleFunds cx) = Some (sf_owner cx)"
| "user_of _ = None"

text \<open>The instructions of an admin, with the admin of the market they need.\<close>

fun admin_of :: "market \<Rightarrow> instruction \<Rightarrow> (pubkey \<times> pubkey) option" where
  "admin_of m (SweepFees cx) = Some (sw_collect_fee_admin cx, collect_fee_admin m)"
| "admin_of m (PruneOrders cx lim) = Some (pr_close_market_admin cx, close_market_admin m)"
| "admin_of m (SettleFundsExpired cx) = Some (se_close_market_admin cx, close_market_admin m)"
| "admin_of m (SetMarketExpired k) = Some (k, close_market_admin m)"
| "admin_of m _ = None"

fun trades :: "instruction \<Rightarrow> bool" where
  \<comment> \<open>makes orders or takes deposits\<close>
  "trades (PlaceOrder cx args) = True"
| "trades (PlaceOrderPegged cx args) = True"
| "trades (PlaceOrders cx ty bs as lim) = True"
| "trades (CancelAllAndPlaceOrders cx ty bs as lim) = True"
| "trades (PlaceTakeOrder cx args) = True"
| "trades (Deposit cx b q) = True"
| "trades (Refill cx b q) = True"
| "trades (SetMarketExpired k) = True"
| "trades _ = False"

end
