(* ===== verification/Guards.thy ===== *)
theory Guards
  imports Dispatch
begin

text \<open>
  Who may do what and when: the account constraints, the owner and the delegate of an open-orders
  account, the destination of settled funds, and what an expired market still allows.
\<close>

section \<open>Owner and delegate\<close>

lemma check_user:
  "check_place_order cx m oo = Ok () \<Longrightarrow> is_owner_or_delegate oo (po_signer cx)"
  "check_place_all cy m oo = Ok () \<Longrightarrow> is_owner_or_delegate oo (pa_signer cy)"
  "check_cancel_order cz m oo = Ok () \<Longrightarrow> is_owner_or_delegate oo (co_signer cz)"
  "check_settle_funds cs m oo = Ok () \<Longrightarrow> is_owner_or_delegate oo (sf_owner cs)"
  by (simp_all add: check_place_order_def check_place_all_def check_cancel_order_def
      check_settle_funds_def all_ok_eq_Inr res_simps)

lemmas ix_defs = ix_place_order_def ix_place_order_pegged_def ix_edit_order_def
  ix_edit_order_pegged_def ix_place_orders_def ix_cancel_all_and_place_orders_def
  ix_place_take_order_def ix_consume_events_def ix_consume_given_events_def ix_cancel_order_def
  ix_cancel_order_by_client_order_id_def ix_cancel_all_orders_def ix_deposit_def ix_refill_def
  ix_settle_funds_def ix_settle_funds_expired_def ix_sweep_fees_def ix_prune_orders_def
  ix_set_market_expired_def ix_set_delegate_def

lemma owner_or_delegate:
  "is_owner_or_delegate oo k \<longleftrightarrow> k = oo_owner oo \<or> nz_to_option (oo_delegate oo) = Some k"
  by (auto simp: is_owner_or_delegate_def split: option.splits)

lemma run_user:
  assumes "run rt ck opl i w = Ok w'" and "user_of i = Some k"
  shows "k = oo_owner (w_ooa w) \<or> nz_to_option (oo_delegate (w_ooa w)) = Some k"
  unfolding owner_or_delegate [symmetric]
  using assms
  by (cases i) (auto simp: ix_defs drop_result_Ok bnd_eq_Inr dest: check_user)

lemma check_admin:
  "check_sweep_fees cx m = Ok () \<Longrightarrow> sw_collect_fee_admin cx = collect_fee_admin m"
  "check_close_admin m k = Ok () \<Longrightarrow> k = close_market_admin m"
  by (simp_all add: check_sweep_fees_def check_close_admin_def nz_eq_def all_ok_eq_Inr res_simps)

lemma check_close_admins:
  "check_prune_orders cy m oo = Ok () \<Longrightarrow> check_close_admin m (pr_close_market_admin cy) = Ok ()"
  "check_settle_expired cz m oo = Ok () \<Longrightarrow> check_close_admin m (se_close_market_admin cz) = Ok ()"
  unfolding check_prune_orders_def check_settle_expired_def Let_def all_ok_eq_Inr by simp_all

lemma run_admin:
  assumes "run rt ck opl i w = Ok w'" and "admin_of (w_market w) i = Some (k, admin)"
  shows "k = admin"
proof (cases i)
  case (SweepFees cx)
  then show ?thesis using assms check_admin(1) by (auto simp: ix_sweep_fees_def bnd_eq_Inr)
next
  case (PruneOrders cx lim)
  then have "check_prune_orders cx (w_market w) (w_ooa w) = Ok ()"
    using assms(1) by (auto simp: ix_prune_orders_def bnd_eq_Inr)
  then show ?thesis using check_admin(2) [OF check_close_admins(1)] PruneOrders assms(2) by auto
next
  case (SettleFundsExpired cx)
  then have "check_settle_expired cx (w_market w) (w_ooa w) = Ok ()"
    using assms(1) by (auto simp: ix_settle_funds_expired_def bnd_eq_Inr)
  then show ?thesis using check_admin(2) [OF check_close_admins(2)] SettleFundsExpired assms(2) by auto
next
  case (SetMarketExpired k)
  then show ?thesis using assms check_admin(2)
    by (auto simp: ix_set_market_expired_def check_set_market_expired_def bnd_eq_Inr)
qed (use assms(2) in simp_all)

section \<open>Where settled funds go\<close>

lemma settle_destination:
  assumes "ix_settle_funds rt cx w = Ok w'"
  shows "sf_owner cx = oo_owner (w_ooa w) \<or>
    ta_owner (sf_user_base_account cx) = oo_owner (w_ooa w) \<and>
    ta_owner (sf_user_quote_account cx) = oo_owner (w_ooa w)"
proof -
  have "check_settle_funds cx (w_market w) (w_ooa w) = Ok ()"
    using assms by (auto simp: ix_settle_funds_def bnd_eq_Inr)
  then have "is_settle_destination_allowed (w_ooa w) (sf_owner cx) (ta_owner (sf_user_base_account cx))"
    "is_settle_destination_allowed (w_ooa w) (sf_owner cx) (ta_owner (sf_user_quote_account cx))"
    by (simp_all add: check_settle_funds_def all_ok_eq_Inr res_simps)
  then show ?thesis by (auto simp: is_settle_destination_allowed_def split: if_splits)
qed

section \<open>Expired markets\<close>

lemma expired_no_trade:
  assumes "market_is_expired (w_market w) (ck_unix_timestamp ck)"
  shows "place_order rt ck opl cx order lim w \<noteq> Ok (oid, w')"
    and "place_take_order rt ck opl ct order lim w \<noteq> Ok w'"
    and "cancel_all_and_place_orders rt ck opl ca cancel orders lim w \<noteq> Ok (ids, w')"
    and "deposit rt ck cd b q w \<noteq> Ok w'"
    and "set_market_expired ck (w_market w) = Inl (Err MarketHasExpired)"
  using assms
  by (simp_all add: place_order_def place_take_order_def cancel_all_and_place_orders_def deposit_def
      set_market_expired_def Let_def bnd_eq_Inr require_def)

lemma run_expired:
  assumes "market_is_expired (w_market w) (ck_unix_timestamp ck)" and "trades i"
    and "run rt ck opl i w = Ok w'"
  shows "w' = w"
  using assms(2,3) expired_no_trade [OF assms(1)]
  by (cases i) (auto simp: ix_defs drop_result_Ok bnd_eq_Inr refill_def Let_def split: option.splits)

lemma live_no_cleanup:
  assumes "\<not> market_is_expired (w_market w) (ck_unix_timestamp ck)"
  shows "prune_orders ck lim w = Inl (Err MarketHasNotExpired)"
    and "settle_funds_expired rt ck ex w = Inl (Err MarketHasNotExpired)"
    and "close_market ck w = Inl (Err MarketHasNotExpired)"
  using assms by (simp_all add: prune_orders_def settle_funds_expired_def close_market_def require_def)

end
