(* ===== verification/Consuming.thy ===== *)
theory Consuming
  imports Vaults
begin

text \<open>
  What \<open>consume_events\<close> does to the queue of events: which slots it works on, and that exactly the
  events among them leave whose accounts were passed.
\<close>

section \<open>The slots\<close>

lemma take_given_ok:
  assumes "take_given h n taken ss = Ok r" and "distinct taken" and "length taken \<le> n"
  shows "distinct r \<and> length r \<le> n \<and> set r \<subseteq> set taken \<union> {s \<in> set ss. heap_at_slot h s \<noteq> None}"
  using assms
proof (induction ss arbitrary: taken)
  case (Cons s ss)
  show ?case
  proof (cases "n \<le> length taken")
    case False
    let ?t = "if ev_is_free (ev_nodes h ! s) \<or> s \<in> set taken then taken else taken @ [s]"
    have r: "take_given h n ?t ss = Ok r" and s: "s < length (ev_nodes h)"
      using Cons.prems(1) False by (auto simp: res_simps)
    have "distinct ?t" "length ?t \<le> n" using Cons.prems False by auto
    from Cons.IH [OF r this] show ?thesis using s by (auto simp: heap_at_slot_def split: if_splits)
  qed (use Cons.prems in auto)
qed auto

lemma take_queued_ok:
  assumes "\<forall>(a, b) \<in> consec vs. nx h a = b" and "\<forall>i \<in> set vs. i < length (ev_nodes h)" and "distinct vs"
    and "vs \<noteq> [] \<longrightarrow> s = hd vs" and "length taken \<le> n"
  shows "take_queued (length vs) h n s taken = Ok (take n (taken @ filter (\<lambda>i. i \<notin> set taken) vs))"
  using assms
proof (induction vs arbitrary: s taken)
  case (Cons v vs)
  have c: "\<forall>(a, b) \<in> consec vs. nx h a = b" using Cons.prems(1) by (cases vs) auto
  have hd: "vs \<noteq> [] \<longrightarrow> ev_next (ev_nodes h ! v) = hd vs"
    using Cons.prems(1) by (cases vs) (auto simp: nx_def)
  let ?t = "if v \<in> set taken then taken else taken @ [v]"
  show ?case
  proof (cases "n \<le> length taken")
    case False
    then have "length ?t \<le> n" by simp
    moreover have "n - length taken = Suc (n - Suc (length taken))" using False by simp
    moreover have "filter (\<lambda>i. i \<notin> set (taken @ [v])) vs = filter (\<lambda>i. i \<notin> set taken) vs"
      using Cons.prems(3) by (intro filter_cong) auto
    ultimately show ?thesis
      using Cons.IH [OF c _ _ hd, of ?t] Cons.prems False by auto
  qed (use Cons.prems in simp)
qed simp

lemma slots_to_consume_ok:
  assumes g: "good_heap h" and s: "slots_to_consume h n slots = Ok ss"
  obtains given where "ss = take n (given @ filter (\<lambda>i. i \<notin> set given) (map snd (heap_queue h)))"
    and "distinct ss" and "set ss \<subseteq> snd ` set (heap_queue h)" and "slots = None \<Longrightarrow> given = []"
    and "set given \<subseteq> set (case slots of None \<Rightarrow> [] | Some xs \<Rightarrow> xs)"
proof -
  obtain us fs where rep: "heap_rep h us fs" using g by (auto simp: good_heap_def)
  have q: "map snd (heap_queue h) = us"
    by (simp add: heap_queue_ok [OF rep] slotted_of_def comp_def)
  obtain given where tg: "take_given h n [] (case slots of None \<Rightarrow> [] | Some xs \<Rightarrow> xs) = Ok given"
      and tq: "take_queued (heap_len h) h n (used_head h) given = Ok ss"
    using s by (auto simp: slots_to_consume_def res_simps)
  note gi = take_given_ok [OF tg]
  have used: "i \<in> set us" if "heap_at_slot h i \<noteq> None" for i
  proof -
    have "i < length (ev_nodes h)" "\<not> ev_is_free (ev_nodes h ! i)"
      using that by (auto simp: heap_at_slot_def split: if_splits)
    then show ?thesis using rep unfolding heap_rep_def
      by (metis UnE ev_is_free_def lessThan_iff pv_def)
  qed
  have du: "distinct us" and len: "heap_len h = length us"
    using rep by (simp_all add: heap_rep_def heap_len_def)
  have cs: "\<forall>(a, b) \<in> consec us. nx h a = b" using rep by (auto simp: heap_rep_def circ_def)
  have e: "ss = take n (given @ filter (\<lambda>i. i \<notin> set given) us)"
    using take_queued_ok [where vs = us and s = "used_head h" and taken = given and n = n, OF cs] du tq gi
      rep heap_rep_less [OF rep]
    by (simp add: heap_rep_def len)
  have gs: "set given \<subseteq> set us" using gi used by auto
  have "distinct (given @ filter (\<lambda>i. i \<notin> set given) us)" using gi du by auto
  then have "distinct ss" unfolding e by (rule distinct_take)
  moreover have "set ss \<subseteq> set us" using gs set_take_subset unfolding e by fastforce
  moreover have "given = []" if "slots = None" using tg that by simp
  moreover have "set us = snd ` set (heap_queue h)" by (metis q set_map)
  moreover have "set given \<subseteq> set (case slots of None \<Rightarrow> [] | Some xs \<Rightarrow> xs)" using gi by auto
  ultimately show thesis using that [of given] e by (simp add: q)
qed

section \<open>The queue afterwards\<close>

definition event_owner :: "any_event \<Rightarrow> pubkey" where
  "event_owner ev = (case ev of FillEv f \<Rightarrow> fe_maker f | OutEv out \<Rightarrow> oe_owner out)"

lemma apply_event_cases:
  assumes "apply_event ev m accs = Ok r"
  obtains "r = None" "map_of accs (event_owner ev) = None"
    | m' oo where "r = Some (m', store_acc (event_owner ev) oo accs)" "map_of accs (event_owner ev) \<noteq> None"
  using assms
  by (cases ev; cases "map_of accs (event_owner ev)")
    (auto simp: apply_event_def event_owner_def res_simps)

lemma apply_event_keys:
  assumes "apply_event ev m accs = Ok r"
  shows "r = None \<longleftrightarrow> event_owner ev \<notin> fst ` set accs"
    and "r = Some (m', accs') \<Longrightarrow> fst ` set accs' = fst ` set accs"
  using assms map_of_eq_None_iff [of accs "event_owner ev"] store_keys [of "event_owner ev" _ accs]
  by (elim apply_event_cases; simp)+

definition left_over :: "nat list \<Rightarrow> remaining_accs \<Rightarrow> slotted list \<Rightarrow> slotted list" where
  "left_over ss accs q = filter (\<lambda>x. snd x \<notin> set ss \<or> event_owner (fst x) \<notin> fst ` set accs) q"

lemma consume_slot_queue:
  assumes g: "good_heap h" and c: "consume_slot s (m, h, accs) = Ok (m', h', accs')"
  shows "good_heap h'" and "heap_queue h' = left_over [s] accs (heap_queue h)"
    and "fst ` set accs' = fst ` set accs"
proof -
  obtain ev a where ev: "heap_at_slot h s = Some ev" and a: "apply_event ev m accs = Ok a"
    using c by (auto simp: consume_slot_def res_simps)
  have ev_at: "fst x = ev" if "x \<in> set (heap_queue h)" "snd x = s" for x
    using ev that g by (auto simp: good_heap_def heap_queue_ok slotted_of_def heap_at_slot_def split: if_splits)
  have "good_heap h' \<and> heap_queue h' = left_over [s] accs (heap_queue h) \<and> fst ` set accs' = fst ` set accs"
  proof (cases a)
    case None
    then have e: "h' = h" "accs' = accs" using c ev a by (simp_all add: consume_slot_def)
    have "event_owner ev \<notin> fst ` set accs" using apply_event_keys(1) [OF a] None by simp
    then have "left_over [s] accs (heap_queue h) = heap_queue h"
      using ev_at by (auto simp: left_over_def filter_id_conv)
    then show ?thesis using e g by simp
  next
    case (Some y)
    obtain m1 accs1 where y: "y = (m1, accs1)" by (cases y)
    obtain e where d: "delete_slot s h = Ok (e, h')" and acc: "accs' = accs1"
      using c ev a Some y by (auto simp: consume_slot_def res_simps)
    have o: "event_owner ev \<in> fst ` set accs" using apply_event_keys(1) [OF a] Some by simp
    have "left_over [s] accs (heap_queue h) = filter (\<lambda>x. snd x \<noteq> s) (heap_queue h)"
      unfolding left_over_def using ev_at o by (intro filter_cong) auto
    then show ?thesis
      using delete_slot_spec [OF g, of s] d apply_event_keys(2) [OF a, of m1 accs1] Some y acc
      by (auto split: if_splits)
  qed
  then show "good_heap h'" "heap_queue h' = left_over [s] accs (heap_queue h)"
    "fst ` set accs' = fst ` set accs" by auto
qed

lemma consume_slots_queue:
  assumes "good_heap h" and "consume_slots ss (m, h, accs) = Ok (m', h', accs')"
  shows "good_heap h' \<and> heap_queue h' = left_over ss accs (heap_queue h)"
  using assms
proof (induction ss arbitrary: m h accs)
  case Nil
  then show ?case by (simp add: left_over_def)
next
  case (Cons s ss)
  obtain m1 h1 accs1 where z: "consume_slot s (m, h, accs) = Ok (m1, h1, accs1)"
      "consume_slots ss (m1, h1, accs1) = Ok (m', h', accs')"
    using Cons.prems(2) by (auto simp: res_simps)
  note q = consume_slot_queue [OF Cons.prems(1) z(1)]
  have "left_over ss accs (left_over [s] accs (heap_queue h)) = left_over (s # ss) accs (heap_queue h)"
    by (auto simp: left_over_def intro!: filter_cong)
  then show ?case using Cons.IH [OF q(1) z(2)] q(2,3) by (simp add: left_over_def)
qed

lemma consume_events_queue:
  assumes g: "good_heap (w_heap w)" and c: "consume_events lim slots w = Ok w'"
  obtains ss where "slots_to_consume (w_heap w) (min lim MAX_EVENTS_CONSUME) slots = Ok ss"
    and "good_heap (w_heap w')"
    and "heap_queue (w_heap w') = left_over ss (w_remaining w) (heap_queue (w_heap w))"
proof -
  obtain ss m h accs where "slots_to_consume (w_heap w) (min lim MAX_EVENTS_CONSUME) slots = Ok ss"
      "consume_slots ss (w_market w, w_heap w, w_remaining w) = Ok (m, h, accs)"
      "w' = w\<lparr>w_market := m, w_heap := h, w_remaining := accs\<rparr>"
    using c by (auto simp: consume_events_def res_simps)
  then show thesis using that consume_slots_queue [OF g] by simp
qed

text \<open>Without given slots, the events consumed are the oldest.\<close>

lemma left_over_oldest:
  assumes "distinct (map snd q)" and "ss = take n (map snd q)"
  shows "left_over ss accs q =
    filter (\<lambda>x. event_owner (fst x) \<notin> fst ` set accs) (take n q) @ drop n q"
proof -
  have "left_over ss accs q = left_over ss accs (take n q) @ left_over ss accs (drop n q)"
    unfolding left_over_def filter_append [symmetric] by simp
  moreover have "left_over ss accs (take n q) = filter (\<lambda>x. event_owner (fst x) \<notin> fst ` set accs) (take n q)"
    unfolding left_over_def assms(2) take_map by (rule filter_cong) auto
  moreover have "snd x \<notin> set ss" if "x \<in> set (drop n q)" for x
  proof -
    have "snd x \<in> set (drop n (map snd q))" using that by (simp add: drop_map)
    then show ?thesis
      using assms set_take_disj_set_drop_if_distinct [of "map snd q" n n] by auto
  qed
  then have "left_over ss accs (drop n q) = drop n q" by (simp add: left_over_def filter_id_conv)
  ultimately show ?thesis by simp
qed

lemma consume_oldest:
  assumes g: "good_heap (w_heap w)" and c: "consume_events lim None w = Ok w'"
  shows "heap_queue (w_heap w') =
    filter (\<lambda>x. event_owner (fst x) \<notin> fst ` set (w_remaining w)) (take (min lim 8) (heap_queue (w_heap w))) @
    drop (min lim 8) (heap_queue (w_heap w))"
proof (rule consume_events_queue [OF g c])
  fix ss
  assume s: "slots_to_consume (w_heap w) (min lim MAX_EVENTS_CONSUME) None = Ok ss"
    and q: "heap_queue (w_heap w') = left_over ss (w_remaining w) (heap_queue (w_heap w))"
  have "ss = take (min lim 8) (map snd (heap_queue (w_heap w)))"
    by (rule slots_to_consume_ok [OF g s]) (auto simp add: MAX_EVENTS_CONSUME_def)
  from left_over_oldest [OF heap_slots_distinct [OF g] this] q show ?thesis by simp
qed

end
