(* ===== verification/Typed.thy ===== *)
theory Typed
  imports Dispatch Accounting_Order
begin

text \<open>
  The model computes in unbounded integers and checks ranges where the code can overflow. Here it is
  shown that nothing escapes the checks: every stored number of the market and of an open-orders
  account stays within its machine type, whatever instruction runs.
\<close>

section \<open>Types\<close>

definition position_typed :: "position \<Rightarrow> bool" where
  "position_typed pa \<longleftrightarrow> is_i64 (bids_base_lots pa) \<and> is_i64 (asks_base_lots pa) \<and>
     is_i64 (bids_quote_lots pa) \<and> is_u64 (base_free_native pa) \<and> is_u64 (quote_free_native pa) \<and>
     is_u64 (locked_maker_fees pa) \<and> is_u64 (referrer_rebates_available pa) \<and>
     is_u64 (penalty_heap_count pa) \<and> is_u128 (p_maker_volume pa) \<and> is_u128 (p_taker_volume pa)"

definition account_typed :: "open_orders_account \<Rightarrow> bool" where
  "account_typed oo \<longleftrightarrow> position_typed (oo_position oo) \<and> length (open_orders oo) = MAX_OPEN_ORDERS"

definition market_typed :: "market \<Rightarrow> bool" where
  "market_typed m \<longleftrightarrow> is_i64 (time_expiry m) \<and> is_i64 (quote_lot_size m) \<and> is_i64 (base_lot_size m) \<and>
     is_u64 (seq_num m) \<and> is_i64 (maker_fee m) \<and> is_i64 (taker_fee m) \<and> is_u128 (fees_accrued m) \<and>
     is_u128 (fees_to_referrers m) \<and> is_u64 (referrer_rebates_accrued m) \<and> is_u64 (fees_available m) \<and>
     is_u128 (m_maker_volume m) \<and> is_u128 (taker_volume_wo_oo m) \<and> is_u64 (base_deposit_total m) \<and>
     is_u64 (quote_deposit_total m)"

definition accs_typed :: "remaining_accs \<Rightarrow> bool" where
  "accs_typed accs \<longleftrightarrow> (\<forall>(k, a) \<in> set accs. case a of OpenOrdersAcc oo \<Rightarrow> account_typed oo | _ \<Rightarrow> True)"

definition accounts_typed :: "accounts \<Rightarrow> bool" where
  "accounts_typed ac \<longleftrightarrow> market_typed (ac_market ac) \<and> accs_typed (ac_remaining ac) \<and>
     (\<forall>oo. ac_ooa ac = Some oo \<longrightarrow> account_typed oo)"

definition world_typed :: "'s world \<Rightarrow> bool" where
  "world_typed w \<longleftrightarrow> market_typed (w_market w) \<and> account_typed (w_ooa w) \<and> accs_typed (w_remaining w)"

named_theorems typed "preservation of machine types"

lemma account_typed_position [simp]:
  "account_typed (oo\<lparr>oo_position := pa\<rparr>) \<longleftrightarrow> position_typed pa \<and> length (open_orders oo) = MAX_OPEN_ORDERS"
  by (simp add: account_typed_def)

lemma accounts_typed_simps [simp]:
  "accounts_typed (ac\<lparr>ac_heap := h\<rparr>) \<longleftrightarrow> accounts_typed ac"
  "accounts_typed ac \<Longrightarrow> accounts_typed (ac\<lparr>ac_market := m\<rparr>) \<longleftrightarrow> market_typed m"
  "accounts_typed ac \<Longrightarrow> accounts_typed (ac\<lparr>ac_ooa := Some oo\<rparr>) \<longleftrightarrow> account_typed oo"
  by (auto simp: accounts_typed_def)

lemma accs_typed_map_of:
  "accs_typed accs \<Longrightarrow> map_of accs k = Some (OpenOrdersAcc oo) \<Longrightarrow> account_typed oo"
  by (fastforce simp: accs_typed_def dest: map_of_SomeD)

lemma accs_typed_store [typed]:
  "accs_typed accs \<Longrightarrow> account_typed oo \<Longrightarrow> accs_typed (store_acc k oo accs)"
  by (induction accs) (auto simp: accs_typed_def split: if_splits)

lemma accs_typed_borrow [typed]:
  "accs_typed accs \<Longrightarrow> accs_typed (borrow_out k accs)"
  "accs_typed accs \<Longrightarrow> account_typed oo \<Longrightarrow> accs_typed (give_back k oo accs)"
  by (auto simp: accs_typed_def borrow_out_def give_back_def)

section \<open>The operations of an account\<close>

lemma remove_order_typed [typed]:
  "remove_order slot q lp oo = Ok oo' \<Longrightarrow> account_typed oo \<Longrightarrow> account_typed oo'"
  by (cases "sat_side (oo_side_and_tree (open_orders oo ! slot))")
    (auto simp: remove_order_def Let_def res_simps account_typed_def position_typed_def)

lemma add_order_typed [typed]:
  "add_order side c l cid lp oo = Ok oo' \<Longrightarrow> account_typed oo \<Longrightarrow> account_typed oo'"
  by (cases side) (auto simp: add_order_def Let_def res_simps account_typed_def position_typed_def)

lemma cancel_slot_typed [typed]:
  assumes "cancel_slot slot q m oo = Ok oo'" and "account_typed oo"
  shows "account_typed oo'"
proof -
  obtain pa where "remove_order slot q (oo_locked_price (open_orders oo ! slot)) (oo\<lparr>oo_position := pa\<rparr>) = Ok oo'"
      "position_typed pa"
    using assms by (cases "sat_side (oo_side_and_tree (open_orders oo ! slot))")
      (auto simp: cancel_slot_def Let_def res_simps account_typed_def position_typed_def)
  then show ?thesis using remove_order_typed assms(2) by (auto simp: account_typed_def)
qed

lemma execute_taker_typed [typed]:
  assumes "execute_taker side b q f r m oo = Ok (oo', m')" and "account_typed oo" and "market_typed m"
  shows "account_typed oo' \<and> market_typed m'"
  using assms
  by (cases side) (auto simp: execute_taker_def Let_def res_simps account_typed_def position_typed_def
      market_typed_def)

lemma credit_maker_typed:
  "credit_maker m fill side qn f r lf abv pa = Ok pa' \<Longrightarrow> position_typed pa \<Longrightarrow> position_typed pa'"
  by (cases side) (auto simp: credit_maker_def res_simps position_typed_def)

lemma account_maker_volume_typed:
  "account_maker_volume qn f m pa = Ok (pa', m') \<Longrightarrow> position_typed pa \<Longrightarrow> market_typed m \<Longrightarrow>
   position_typed pa' \<and> market_typed m'"
  by (auto simp: account_maker_volume_def res_simps position_typed_def market_typed_def)

lemma release_maker_lots_typed:
  "release_maker_lots fill side lp oo = Ok oo' \<Longrightarrow> account_typed oo \<Longrightarrow> account_typed oo'"
  using remove_order_typed
  by (cases side) (auto simp: release_maker_lots_def Let_def res_simps account_typed_def position_typed_def
      split: if_splits)

lemma execute_maker_typed [typed]:
  assumes "execute_maker fill m oo = Ok (oo', m')" and "account_typed oo" and "market_typed m"
  shows "account_typed oo' \<and> market_typed m'"
proof -
  obtain qn f r lf abv lp pa1 pa2 where
    "credit_maker m fill (invert_side (fe_taker_side fill)) qn f r lf abv (oo_position oo) = Ok pa1"
    "account_maker_volume qn f m pa1 = Ok (pa2, m')"
    "release_maker_lots fill (invert_side (fe_taker_side fill)) lp (oo\<lparr>oo_position := pa2\<rparr>) = Ok oo'"
    using assms(1) unfolding execute_maker_def Let_def bnd_eq_Inr by (auto simp: bnd_eq_Inr)
  then show ?thesis
    using assms(2,3) credit_maker_typed account_maker_volume_typed release_maker_lots_typed
    by (fastforce simp: account_typed_def)
qed

section \<open>Events and matching\<close>

lemma queue_out_event_typed:
  "queue_out_event ev ac = Ok ac' \<Longrightarrow> accounts_typed ac \<Longrightarrow> accounts_typed ac'"
  by (auto simp: queue_out_event_def load_mut_def res_simps accounts_typed_def
      split: option.splits remaining_acc.splits
      intro!: accs_typed_store dest: accs_typed_map_of cancel_slot_typed)

lemma process_out_event_typed [typed]:
  "process_out_event ev owner ac = Ok ac' \<Longrightarrow> accounts_typed ac \<Longrightarrow> accounts_typed ac'"
  by (auto simp: process_out_event_def bnd_eq_Inr accounts_typed_def split: option.splits if_splits
      dest: cancel_slot_typed queue_out_event_typed [unfolded accounts_typed_def])

lemma process_fill_event_typed [typed]:
  assumes "process_fill_event ev n ac = Ok (n', ac')" and "accounts_typed ac"
  shows "accounts_typed ac'"
proof -
  have "accounts_typed ac'"
    if "load_mut a = Ok oo" "map_of (ac_remaining ac) k = Some a" "execute_maker ev (ac_market ac) oo = Ok (oo', m')"
      "ac' = ac\<lparr>ac_market := m', ac_remaining := store_acc k oo' (ac_remaining ac)\<rparr>" for a k oo oo' m'
    using that assms(2) execute_maker_typed [OF that(3)] accs_typed_map_of [of "ac_remaining ac" k oo]
      accs_typed_store
    by (auto simp: accounts_typed_def load_mut_def split: remaining_acc.splits)
  then show ?thesis
    using assms by (auto simp: process_fill_event_def res_simps split: option.splits if_splits)
qed

lemma fill_order_typed:
  "fill_order order owner now_ts best mb mq st = Ok st' \<Longrightarrow> accounts_typed (mt_acc st) \<Longrightarrow>
   accounts_typed (mt_acc st')"
  by (auto simp: fill_order_def Let_def res_simps dest: process_fill_event_typed split: if_splits)

lemma self_trade_typed:
  "self_trade_step order owner best mq st = Ok r \<Longrightarrow> accounts_typed (mt_acc st) \<Longrightarrow>
   accounts_typed (mt_acc (case r of Proceed st' \<Rightarrow> st' | SkipMatch st' \<Rightarrow> st'))"
  by (auto simp: self_trade_step_def rebate_step_def Let_def res_simps accounts_typed_def
      split: option.splits if_splits self_trade_behavior.splits dest: cancel_slot_typed)

lemma match_step_typed:
  assumes "match_step order owner now_ts price_lots best st = Ok r" and t: "accounts_typed (mt_acc st)"
  shows "accounts_typed (mt_acc (flow_state r))"
  using assms(1)
proof (cases rule: match_step_cases)
  case stop
  then show ?thesis using t by auto
next
  case (drop st')
  have "accounts_typed (mt_acc st')"
    using drop(1) t by (auto simp: drop_invalid_def res_simps dest: process_out_event_typed split: if_splits)
  then show ?thesis using drop(2) by simp
next
  case (trade q mb s)
  have "accounts_typed (mt_acc (case s of Proceed st' \<Rightarrow> st' | SkipMatch st' \<Rightarrow> st'))"
    by (rule self_trade_typed [OF trade(8) t])
  then show ?thesis using trade(9) fill_order_typed by (cases s) auto
qed

lemma match_order_typed:
  "match_order order owner now_ts opl price_lots b st = Ok st' \<Longrightarrow> accounts_typed (mt_acc st) \<Longrightarrow>
   accounts_typed (mt_acc st')"
  by (erule match_order_invariant [where P = "\<lambda>st. accounts_typed (mt_acc st)"])
    (auto intro: match_step_typed)

lemma take_step_typed:
  assumes "take_step order mq st = Ok (tk, st1)" and t: "accounts_typed (mt_acc st)"
  shows "accounts_typed (mt_acc st1)"
proof -
  have f: "market_typed m1" if "taker_fees_step ql d rb (ac_market (mt_acc st)) = Ok (f, r, m1)" for ql d rb f r m1
    using that t
    by (auto simp: taker_fees_step_def Let_def res_simps accounts_typed_def market_typed_def split: if_splits)
  show ?thesis
    using assms execute_taker_typed
    apply (auto simp: take_step_def Let_def res_simps accounts_typed_def split: if_splits option.splits dest!: f)
    apply (auto simp: market_typed_def)
    done
qed

section \<open>New orders and cancellations\<close>

lemma make_room_typed:
  assumes "make_room order owner now_ts orc p tgt b ac = Ok (b', ac')" and "accounts_typed ac"
  shows "accounts_typed ac'"
  using assms
  by (auto simp: make_room_def Let_def res_simps dest!: process_out_event_typed split: option.splits if_splits)

lemma post_order_typed:
  assumes p: "post_order order owner now_ts orc price_lots order_id base_lots price tgt b ac =
      Ok (mf, pb, pq, b', ac')"
    and t: "accounts_typed ac"
  shows "accounts_typed ac'"
  using p
proof (rule post_order_accounts)
  fix oo oo1 b1 ac1 oo2 slot oo3
  let ?leaf = "leaf_new slot order_id owner base_lots now_ts (o_time_in_force order)
      (order_peg_limit order) (o_client_order_id order)"
  assume own: "ac_ooa ac = Some oo"
    and o1: "case o_side order of
        Bid \<Rightarrow> oo1 = oo\<lparr>oo_position := (oo_position oo)\<lparr>locked_maker_fees := locked_maker_fees (oo_position oo) + mf\<rparr>\<rparr>
      | Ask \<Rightarrow> mf = 0 \<and> oo1 = oo"
    and mr: "make_room order owner now_ts orc price_lots tgt b (ac\<lparr>ac_ooa := Some oo1\<rparr>) = Ok (b1, ac1)"
    and own2: "ac_ooa ac1 = Some oo2"
    and ad: "add_order (o_side order) tgt ?leaf (o_client_order_id order) price oo2 = Ok oo3"
    and e: "ac' = ac1\<lparr>ac_ooa := Some oo3\<rparr>"
    and u: "o_side order = Bid \<Longrightarrow> is_u64 (locked_maker_fees (oo_position oo) + mf)"
  have "account_typed oo1"
    using t own o1 u by (auto simp: accounts_typed_def account_typed_def position_typed_def split: side.splits)
  then have "accounts_typed ac1" using make_room_typed [OF mr] t by simp
  then show ?thesis using add_order_typed [OF ad] own2 by (auto simp: e accounts_typed_def)
qed

lemma new_order_typed:
  assumes n: "new_order ob order owner now_ts lim opl ac = Ok (r, ob', ac')" and t: "accounts_typed ac"
  shows "accounts_typed ac'"
proof -
  have st: "accounts_typed (mt_acc st1)"
    if g: "gen_order_id (ac_market ac) (o_side order) p_data = Ok (order_id, m1)"
      and mo: "match_order order owner now_ts opl price_lots b (start_match order mq lim (ac\<lparr>ac_market := m1\<rparr>)) = Ok st"
      and tk: "take_step order mq st = Ok (tk, st1)" for p_data order_id m1 price_lots b mq st tk st1
  proof -
    have "market_typed m1"
      using g t by (auto simp: gen_order_id_def res_simps accounts_typed_def market_typed_def)
    then have "accounts_typed (mt_acc (start_match order mq lim (ac\<lparr>ac_market := m1\<rparr>)))"
      using t by (simp add: start_match_def)
    then show ?thesis by (rule take_step_typed [OF tk match_order_typed [OF mo]])
  qed
  show ?thesis
    using n
  proof (cases rule: new_order_book)
    case unposted
    then show ?thesis using st [OF unposted(2,3,4)] by simp
  next
    case posted
    then show ?thesis using st [OF posted(2,3,4)] post_order_typed by blast
  qed
qed

lemma cancel_order_typed:
  "cancel_order ob oo k sat m eo = Ok (leaf, ob', oo') \<Longrightarrow> account_typed oo \<Longrightarrow> account_typed oo'"
  by (auto simp: cancel_order_def Let_def bnd_eq_Inr dest: cancel_slot_typed)

lemma cancel_all_loop_typed:
  "cancel_all_loop i m lim so co tot ob oo = Ok (tot', ob', oo') \<Longrightarrow> account_typed oo \<Longrightarrow> account_typed oo'"
proof (induction i m lim so co tot ob oo rule: cancel_all_loop.induct)
  case (1 i m lim so co tot ob oo)
  note step = "1.prems"(1) [unfolded cancel_all_loop.simps [of i]]
  show ?case
  proof (cases "i \<ge> MAX_OPEN_ORDERS")
    case i: False
    then obtain o1 where o1: "arr_get (open_orders oo) i = Ok o1" using step by (auto simp: res_simps)
    let ?skip = "oo_is_free o1 \<or>
      (case so of Some s \<Rightarrow> s \<noteq> sat_side (oo_side_and_tree o1) | None \<Rightarrow> False) \<or>
      (case co of Some c \<Rightarrow> c \<noteq> oo_client_id o1 | None \<Rightarrow> False)"
    show ?thesis
    proof (cases "?skip \<or> lim = 0")
      case True
      then show ?thesis
        using step i o1 "1.IH"(1) [OF i o1] "1.prems"(2) by (cases ?skip) simp_all
    next
      case False
      then have sk: "\<not> ?skip" "lim \<noteq> 0" by simp_all
      show ?thesis
      proof (cases "cancel_order ob oo (oo_id o1) (oo_side_and_tree o1) m None")
        case (Inl e)
        then have "e = Err OrderIdNotFound" using step i o1 sk by (simp split: if_splits)
        then show ?thesis
          using step i o1 sk Inl "1.IH"(2) [OF i o1 sk Inl] "1.prems"(2) by simp
      next
        case (Inr x)
        obtain leaf ob1 oo1 where x: "x = (leaf, ob1, oo1)" by (cases x)
        then obtain tot1 where t: "chk_i64 (tot + quantity leaf) = Ok tot1"
            "cancel_all_loop (Suc i) m (lim - 1) so co tot1 ob1 oo1 = Ok (tot', ob', oo')"
          using step i o1 sk Inr by (auto simp: res_simps)
        show ?thesis
          using "1.IH"(3) [OF i o1 sk Inr x [symmetric] refl t] cancel_order_typed [OF Inr [unfolded x] "1.prems"(2)]
          by simp
      qed
    qed
  qed (use step "1.prems" in simp)
qed

lemma cancel_all_orders_typed:
  "cancel_all_orders ob oo m lim so co = Ok (tot', ob', oo') \<Longrightarrow> account_typed oo \<Longrightarrow> account_typed oo'"
  unfolding cancel_all_orders_def by (rule cancel_all_loop_typed)

section \<open>Instructions\<close>

lemma pay_for_order_typed:
  "pay_for_order side cost pa m = Ok (d, pa', m') \<Longrightarrow> position_typed pa \<Longrightarrow> market_typed m \<Longrightarrow>
   position_typed pa' \<and> market_typed m'"
  by (cases side) (auto simp: pay_for_order_def Let_def res_simps position_typed_def market_typed_def)

lemma penalize_typed:
  "penalize h h' pa = Ok pa' \<Longrightarrow> position_typed pa \<Longrightarrow> position_typed pa'"
  by (auto simp: penalize_def res_simps position_typed_def split: if_splits)

lemma world_accounts_typed: "world_typed w \<Longrightarrow> accounts_typed (world_accounts k w)"
  by (auto simp: world_typed_def accounts_typed_def world_accounts_def intro: accs_typed_borrow)

lemma world_back_typed:
  assumes "accounts_typed ac" and "ac_ooa ac = Some oo" and "position_typed pa" and "market_typed m"
  shows "world_typed \<lparr>w_market = m, w_book = ob, w_heap = h, w_ooa = oo\<lparr>oo_position := pa\<rparr>,
    w_remaining = give_back k (oo\<lparr>oo_position := pa\<rparr>) (ac_remaining ac), w_tokens = tok\<rparr>"
  using assms by (auto simp: world_typed_def accounts_typed_def account_typed_def intro!: accs_typed_borrow)

lemma place_order_typed:
  assumes "place_order rt ck opl cx order lim w = Ok (oid, w')" and t: "world_typed w"
  shows "world_typed w'"
proof -
  let ?k = "po_open_orders_account cx"
  obtain now_ts o1 r ob ac oo cost d pa m pa' tok where
      n: "new_order (w_book w) order ?k now_ts lim o1 (world_accounts ?k w) = Ok (r, ob, ac)"
    and own: "ac_ooa ac = Some oo"
    and pay: "pay_for_order (o_side order) cost (oo_position oo) (ac_market ac) = Ok (d, pa, m)"
    and pen: "penalize (w_heap w) (ac_heap ac) pa = Ok pa'"
    and w': "w' = \<lparr>w_market = m, w_book = ob, w_heap = ac_heap ac, w_ooa = oo\<lparr>oo_position := pa'\<rparr>,
      w_remaining = give_back ?k (oo\<lparr>oo_position := pa'\<rparr>) (ac_remaining ac), w_tokens = tok\<rparr>"
    using assms(1) unfolding place_order_def Let_def by (auto simp: bnd_eq_Inr unwrap_def split: option.splits)
  have ac: "accounts_typed ac" by (rule new_order_typed [OF n world_accounts_typed [OF t]])
  then have "position_typed (oo_position oo)" "market_typed (ac_market ac)"
    using own by (simp_all add: accounts_typed_def account_typed_def)
  then have "position_typed pa' \<and> market_typed m"
    using pay_for_order_typed [OF pay] penalize_typed [OF pen] by blast
  then show ?thesis unfolding w' by (intro world_back_typed [OF ac own]) simp_all
qed

lemma place_take_order_typed:
  assumes "place_take_order rt ck opl cx order lim w = Ok w'" and t: "world_typed w"
  shows "world_typed w'"
proof -
  obtain now_ts o1 r ob ac d wd m tok where
      n: "new_order (w_book w) order (pt_signer cx) now_ts lim o1 \<lparr>ac_market = w_market w, ac_heap = w_heap w,
        ac_ooa = None, ac_remaining = w_remaining w\<rparr> = Ok (r, ob, ac)"
    and ta: "take_amounts (o_side order) r (ac_market ac) = Ok (d, wd, m)"
    and w': "w' = w\<lparr>w_market := m, w_book := ob, w_heap := ac_heap ac, w_remaining := ac_remaining ac,
      w_tokens := tok\<rparr>"
    using assms(1) unfolding place_take_order_def Let_def by (auto simp: bnd_eq_Inr)
  have "accounts_typed ac" by (rule new_order_typed [OF n]) (use t in \<open>simp add: world_typed_def accounts_typed_def\<close>)
  moreover have "market_typed m" if "market_typed (ac_market ac)"
    using ta that by (cases "o_side order") (auto simp: take_amounts_def res_simps market_typed_def)
  ultimately show ?thesis using t by (simp add: w' world_typed_def accounts_typed_def)
qed

lemma place_each_typed:
  "place_each cx now_ts lim opl orders b q ids ob ac = Ok (b', q', ids', ob', ac') \<Longrightarrow>
   accounts_typed ac \<Longrightarrow> accounts_typed ac'"
proof (induction cx now_ts lim opl orders b q ids ob ac rule: place_each.induct)
  case (2 cx now_ts lim opl order orders b q ids ob ac)
  obtain oo order1 r ob1 ac1 b1 q1 where u: "unwrap (ac_ooa ac) = Ok oo"
      and o1: "bound_order cx b q (ac_market ac) (oo_position oo) order = Ok order1"
      and n: "new_order ob order1 (pa_open_orders_account cx) now_ts lim opl ac = Ok (r, ob1, ac1)"
      and a: "add_cost (o_side order1) r b q = Ok (b1, q1)"
      and rest: "place_each cx now_ts lim opl orders b1 q1 (ids @ [oa_order_id r]) ob1 ac1 =
        Ok (b', q', ids', ob', ac')"
    using "2.prems"(1) by (auto simp: bnd_eq_Inr)
  show ?case by (rule "2.IH" [OF u o1 n refl refl a refl rest new_order_typed [OF n "2.prems"(2)]])
qed simp

lemma cancel_all_and_place_typed:
  assumes "cancel_all_and_place_orders rt ck opl cx cancel orders lim w = Ok (ids, w')" and t: "world_typed w"
  shows "world_typed w'"
proof -
  let ?k = "pa_open_orders_account cx" and ?m = "w_market w"
  obtain n ob0 oo0 now_ts o1 b q ob ac oo db pa1 m1 dq pa2 m2 pa3 tok where
      c: "(if cancel then cancel_all_orders (w_book w) (w_ooa w) ?m U8_MAX None None
           else Ok (0, w_book w, w_ooa w)) = Ok (n, ob0, oo0)"
    and pl: "place_each cx now_ts lim o1 orders 0 0 [] ob0 \<lparr>ac_market = ?m, ac_heap = w_heap w,
        ac_ooa = Some oo0, ac_remaining = borrow_out ?k (w_remaining w)\<rparr> = Ok (b, q, ids, ob, ac)"
    and own: "ac_ooa ac = Some oo"
    and p1: "pay_for_order Ask b (oo_position oo) (ac_market ac) = Ok (db, pa1, m1)"
    and p2: "pay_for_order Bid q pa1 m1 = Ok (dq, pa2, m2)"
    and pen: "penalize (w_heap w) (ac_heap ac) pa2 = Ok pa3"
    and w': "w' = \<lparr>w_market = m2, w_book = ob, w_heap = ac_heap ac, w_ooa = oo\<lparr>oo_position := pa3\<rparr>,
         w_remaining = give_back ?k (oo\<lparr>oo_position := pa3\<rparr>) (ac_remaining ac), w_tokens = tok\<rparr>"
    using assms(1) unfolding cancel_all_and_place_orders_def Let_def
    by (auto simp: bnd_eq_Inr unwrap_def split: option.splits)
  have "account_typed oo0"
    using c t cancel_all_orders_typed by (auto simp: world_typed_def split: if_splits)
  then have "accounts_typed ac"
    by (intro place_each_typed [OF pl]) (use t accs_typed_borrow in \<open>auto simp: accounts_typed_def world_typed_def\<close>)
  moreover from this have "position_typed (oo_position oo)" "market_typed (ac_market ac)"
    using own by (simp_all add: accounts_typed_def account_typed_def)
  then have "position_typed pa3 \<and> market_typed m2"
    using pay_for_order_typed [OF p1] pay_for_order_typed [OF p2] penalize_typed [OF pen] by blast
  ultimately show ?thesis unfolding w' by (intro world_back_typed [OF _ own]) simp_all
qed

lemma consume_slots_typed:
  "consume_slots ss (m, h, accs) = Ok (m', h', accs') \<Longrightarrow> market_typed m \<Longrightarrow> accs_typed accs \<Longrightarrow>
   market_typed m' \<and> accs_typed accs'"
proof (induction ss arbitrary: m h accs)
  case (Cons s ss)
  obtain m1 h1 accs1 where z: "consume_slot s (m, h, accs) = Ok (m1, h1, accs1)"
      "consume_slots ss (m1, h1, accs1) = Ok (m', h', accs')"
    using Cons.prems(1) by (auto simp: res_simps)
  have ap: "market_typed m2 \<and> accs_typed accs2" if "apply_event ev m accs = Ok (Some (m2, accs2))" for ev m2 accs2
    using that Cons.prems(2,3)
    by (auto simp: apply_event_def load_mut_def bnd_eq_Inr dest!: execute_maker_typed cancel_slot_typed
        split: any_event.splits option.splits remaining_acc.splits intro!: accs_typed_store
        dest: accs_typed_map_of)
  have "market_typed m1 \<and> accs_typed accs1"
    using z(1) Cons.prems(2,3) ap by (auto simp: consume_slot_def bnd_eq_Inr split: option.splits)
  then show ?case using Cons.IH [OF z(2)] by blast
qed simp

lemma consume_events_typed:
  "consume_events lim slots w = Ok w' \<Longrightarrow> world_typed w \<Longrightarrow> world_typed w'"
  by (auto simp: consume_events_def bnd_eq_Inr world_typed_def dest!: consume_slots_typed)

lemma deposit_typed:
  assumes "deposit rt ck cx b q w = Ok w'" and "world_typed w"
  shows "world_typed w'"
  using assms
  by (auto simp: deposit_def Let_def res_simps world_typed_def account_typed_def position_typed_def
      market_typed_def)

lemma settle_market_typed:
  "settle_market has rebate pa m = Ok m' \<Longrightarrow> market_typed m \<Longrightarrow> market_typed m'"
  by (cases has) (auto simp: settle_market_def res_simps market_typed_def)

lemma settle_funds_typed:
  assumes "settle_funds rt cx w = Ok w'" and t: "world_typed w"
  shows "world_typed w'"
proof -
  obtain ro pa rebate m pa1 tok1 tok2 where
      r: "roundoff_maker_fees (w_market w) (oo_position (w_ooa w)) = (ro, pa)"
    and m: "settle_market (sf_referrer_account cx \<noteq> None) rebate pa (w_market w) = Ok m"
    and p: "settle_penalty rt cx pa (w_tokens w) = Ok (pa1, tok1)"
    and w': "w' = w\<lparr>w_market := m, w_ooa := (w_ooa w)\<lparr>oo_position := pa1\<lparr>base_free_native := 0,
      quote_free_native := 0, referrer_rebates_available := 0\<rparr>\<rparr>, w_tokens := tok2\<rparr>"
    using assms(1) unfolding settle_funds_def Let_def by (auto simp: bnd_eq_Inr split: prod.splits)
  have z: "is_u64 0" by (simp add: is_u64_def int_limits)
  have "position_typed pa"
    using r t z by (auto simp: roundoff_maker_fees_def world_typed_def account_typed_def position_typed_def
        split: if_splits)
  then have "position_typed pa1"
    using p z by (auto simp: settle_penalty_def bnd_eq_Inr position_typed_def split: if_splits)
  then show ?thesis
    using t z settle_market_typed [OF m] by (simp add: w' world_typed_def account_typed_def position_typed_def)
qed

lemma sweep_fees_typed:
  "sweep_fees rt cx w = Ok w' \<Longrightarrow> world_typed w \<Longrightarrow> world_typed w'"
  by (auto simp: sweep_fees_def Let_def res_simps world_typed_def market_typed_def is_u64_def int_limits)

lemma cancel_instr_typed:
  "cancel_order_instr cx k w = Ok w' \<Longrightarrow> world_typed w \<Longrightarrow> world_typed w'"
  "cancel_all_orders_instr so lim w = Ok w' \<Longrightarrow> world_typed w \<Longrightarrow> world_typed w'"
  "cancel_order_by_client_order_id cid w = Ok (n, w') \<Longrightarrow> world_typed w \<Longrightarrow> world_typed w'"
  "prune_orders ck lim w = Ok w' \<Longrightarrow> world_typed w \<Longrightarrow> world_typed w'"
  by (auto simp: cancel_order_instr_def cancel_all_orders_instr_def cancel_order_by_client_order_id_def
      prune_orders_def bnd_eq_Inr world_typed_def dest: cancel_order_typed cancel_all_orders_typed)

lemma edit_order_typed:
  "edit_order rt ck opl cx cid sz order lim w = Ok (oid, w') \<Longrightarrow> world_typed w \<Longrightarrow> world_typed w'"
  by (auto simp: edit_order_def bnd_eq_Inr dest: cancel_instr_typed(3) place_order_typed split: if_splits)

lemma run_typed:
  assumes "run rt ck opl i w = Ok w'" and t: "world_typed w"
  shows "world_typed w'"
proof (cases i)
  case (SetMarketExpired admin)
  have "is_i64 (-1)" by (simp add: is_i64_def int_limits)
  then show ?thesis using assms SetMarketExpired
    by (auto simp: ix_set_market_expired_def set_market_expired_def bnd_eq_Inr world_typed_def market_typed_def)
next
  case (SetDelegate owner d)
  then show ?thesis using assms
    by (auto simp: ix_set_delegate_def set_delegate_def bnd_eq_Inr world_typed_def account_typed_def)
next
  case (Refill cx b q)
  then show ?thesis using assms(1) deposit_typed [OF _ t] by (auto simp: ix_refill_def refill_def Let_def bnd_eq_Inr)
next
  case (SettleFundsExpired cx)
  then show ?thesis using assms(1) settle_funds_typed [OF _ t]
    by (auto simp: ix_settle_funds_expired_def settle_funds_expired_def bnd_eq_Inr)
qed (use assms(1) t place_order_typed [OF _ t] place_take_order_typed [OF _ t] cancel_all_and_place_typed [OF _ t]
    consume_events_typed [OF _ t] deposit_typed [OF _ t] settle_funds_typed [OF _ t] sweep_fees_typed [OF _ t]
    cancel_instr_typed [OF _ t] edit_order_typed [OF _ t] in
  \<open>auto simp: ix_place_order_def ix_place_order_pegged_def ix_edit_order_def ix_edit_order_pegged_def
    ix_place_orders_def ix_cancel_all_and_place_orders_def ix_place_take_order_def ix_consume_events_def
    ix_consume_given_events_def ix_cancel_order_def ix_cancel_order_by_client_order_id_def
    ix_cancel_all_orders_def ix_deposit_def ix_settle_funds_def ix_sweep_fees_def ix_prune_orders_def
    drop_result_Ok bnd_eq_Inr split: option.splits\<close>)

end
