(* ===== verification/Handlers.thy ===== *)
theory Handlers
  imports Guards Consuming Typed
begin

text \<open>
  What the handlers do: the state a market starts in, editing an order that has not been filled,
  cancelling one order, what settling pays, and what a time in force and a sliding price
  amount to.
\<close>

section \<open>A new market\<close>

definition zeroed_book :: "order_tree_type \<Rightarrow> nat \<Rightarrow> orderbook" where
  \<comment> \<open>two zeroed accounts; the tag of a zeroed tree is the same for both\<close>
  "zeroed_book ty n = \<lparr>bids = empty_side ty n, asks = empty_side ty n\<rparr>"

lemma zeroed_book_sound:
  assumes "int n < U32_MAX"
  shows "sound_book (orderbook_init (zeroed_book ty n))"
    and "side_orders (bookside (orderbook_init (zeroed_book ty n)) s) c = []"
proof -
  have e: "orderbook_init (zeroed_book ty n) = \<lparr>bids = empty_side Bids n, asks = empty_side Asks n\<rparr>"
    by (simp add: orderbook_init_def zeroed_book_def empty_side_def zeroed_tree_def)
  have o: "side_orders (empty_side ty' n) c = []" for ty' c
    by (cases c) (simp_all add: side_orders_def tree_orders_def empty_side_def zeroed_tree_def
        book_root_def zeroed_root_def root_node_def tree_fuel_def)
  have g: "sound_side (empty_side ty' n)" for ty'
    using empty_side_good [OF assms] by (simp add: sound_side_def o)
  have t: "book_side_of (bookside \<lparr>bids = empty_side Bids n, asks = empty_side Asks n\<rparr> s) = s" for s
    by (cases s) (simp_all add: bookside_def book_side_of_def empty_side_def zeroed_tree_def)
  show "sound_book (orderbook_init (zeroed_book ty n))"
    unfolding e sound_book_def using t g by (metis (mono_tags) bookside_def orderbook.select_convs side.exhaust side.simps(3,4))
  show "side_orders (bookside (orderbook_init (zeroed_book ty n)) s) c = []"
    unfolding e by (cases s) (simp_all add: bookside_def o)
qed

lemma check_fees_ok: "check_fees mk tk = Ok () \<Longrightarrow> 0 \<le> tk \<and> tk \<le> FEES_SCALE_FACTOR \<and>
    \<bar>mk\<bar> \<le> FEES_SCALE_FACTOR \<and> 0 \<le> mk + tk"
  by (auto simp: check_fees_def res_simps split: if_splits)

lemma create_market_sound:
  assumes c: "ix_create_market widen kind ck cx name cfg ql bl mk tk expiry ob h = Ok (m, ob', h')"
    and ob: "ob = zeroed_book ty n" and n: "int n < U32_MAX"
    and h: "0 < length (ev_nodes h)" "length (ev_nodes h) < NO_NODE"
  shows "market_ok m \<and> vaults_ok m = (cr_market_base_vault cx \<noteq> cr_market_quote_vault cx) \<and>
    base_mint m \<noteq> quote_mint m \<and> \<not> market_is_expired m (ck_unix_timestamp ck) \<and> market_is_empty m \<and>
    sound_book ob' \<and> (\<forall>s c. side_orders (bookside ob' s) c = []) \<and> good_heap h' \<and> heap_queue h' = []"
proof -
  have f: "check_fees mk tk = Ok ()" and e: "expiry = 0 \<or> expiry > ck_unix_timestamp ck"
    and l: "ql > 0" "bl > 0" and mints: "cr_base_mint cx \<noteq> cr_quote_mint cx"
    and o: "ob' = orderbook_init ob" "h' = heap_init h"
    and m: "maker_fee m = mk" "taker_fee m = tk" "time_expiry m = expiry" "quote_lot_size m = ql"
      "base_lot_size m = bl" "base_mint m = cr_base_mint cx" "quote_mint m = cr_quote_mint cx"
      "market_base_vault m = cr_market_base_vault cx" "market_quote_vault m = cr_market_quote_vault cx"
      "base_deposit_total m = 0" "quote_deposit_total m = 0" "fees_available m = 0"
      "referrer_rebates_accrued m = 0"
    using c by (auto simp: ix_create_market_def check_create_market_def create_market_def res_simps)
  have "market_ok m" using check_fees_ok [OF f] l by (simp add: market_ok_def fee_ok_def m)
  then show ?thesis
    using zeroed_book_sound [OF n, of ty] heap_init_good [OF h] e mints
    by (auto simp: o ob m vaults_ok_def market_is_expired_def market_is_empty_def)
qed

section \<open>Editing an order that has not been filled\<close>

text \<open>When as much was cancelled as was expected, nothing has been filled, and nothing is placed.\<close>

lemma edit_unfilled:
  assumes "0 \<le> expected"
    and "cancel_order_by_client_order_id cid w = Ok (expected, w1)"
  shows "edit_order rt ck opl cx cid expected order lim w = Ok (None, w1)"
  using assms by (simp add: edit_order_def require_def chk_def is_i64_def int_limits)

section \<open>Time in force and sliding prices\<close>

lemma tif_bounds:
  assumes "0 \<le> now_ts"
  shows "case tif_from_expiry now_ts e of
      None \<Rightarrow> e \<noteq> 0 \<and> e \<le> now_ts
    | Some t \<Rightarrow> 0 \<le> t \<and> t \<le> U16_MAX \<and> (if e = 0 then t = 0 else 0 < t \<and> now_ts + t \<le> e)"
  by (auto simp: tif_from_expiry_def Let_def int_limits)

lemma slide_no_cross:
  assumes o: "order_price order now_ts opl ob = Ok (p, d)" and ps: "o_params order = FixedParams lim PostOnlySlide"
    and b: "best_price (bookside ob (invert_side (o_side order))) now_ts opl = Ok (Some best)"
  shows "1 \<le> p \<and> (case o_side order of
      Bid \<Rightarrow> p < best \<and> p \<le> lim \<and> (lim < best \<longrightarrow> p = lim)
    | Ask \<Rightarrow> best < p \<and> lim \<le> p \<and> (best < lim \<longrightarrow> p = lim))"
  using assms
  by (cases "o_side order")
    (auto simp: order_price_def order_price_lots_def price_for_order_type_def post_only_slide_limit_def res_simps)

section \<open>What settling pays\<close>

text \<open>The accounts tokens go to, none of them a vault or another.\<close>

definition payees_ok :: "settle_funds_ctx \<Rightarrow> market \<Rightarrow> bool" where
  "payees_ok cx m \<longleftrightarrow>
     distinct ([market_base_vault m, market_quote_vault m, ta_key (sf_user_base_account cx),
       ta_key (sf_user_quote_account cx)] @
       (case sf_referrer_account cx of None \<Rightarrow> [] | Some r \<Rightarrow> [ta_key r]))"

lemma settle_transfers_pays:
  assumes laws: "token_laws rt bal" and pos: "0 \<le> rebate" "0 \<le> base_free_native pa" "0 \<le> quote_free_native pa"
    and tr: "settle_transfers rt cx sds rebate pa tok = Ok tok'"
    and k: "ta_key (sf_market_base_vault cx) = market_base_vault m"
      "ta_key (sf_market_quote_vault cx) = market_quote_vault m"
    and p: "payees_ok cx m"
  shows "bal tok' (ta_key (sf_user_base_account cx)) =
      bal tok (ta_key (sf_user_base_account cx)) + base_free_native pa"
    and "bal tok' (ta_key (sf_user_quote_account cx)) =
      bal tok (ta_key (sf_user_quote_account cx)) + quote_free_native pa"
    and "sf_referrer_account cx = Some r \<Longrightarrow> bal tok' (ta_key r) = bal tok (ta_key r) + rebate"
proof -
  obtain tok1 tok2 where
      t0: "(case sf_referrer_account cx of
            Some r \<Rightarrow> token_transfer_signed rt rebate (market_quote_vault m)
              (ta_key r) (sf_market_authority cx) sds tok
          | None \<Rightarrow> Ok tok) = Ok tok1"
    and t1: "token_transfer_signed rt (base_free_native pa) (market_base_vault m)
            (ta_key (sf_user_base_account cx)) (sf_market_authority cx) sds tok1 = Ok tok2"
    and t2: "token_transfer_signed rt (quote_free_native pa) (market_quote_vault m)
       (ta_key (sf_user_quote_account cx)) (sf_market_authority cx) sds tok2 = Ok tok'"
    using tr unfolding settle_transfers_def k by (auto simp: res_simps)
  have m0: "bal tok1 j = bal tok j + (case sf_referrer_account cx of None \<Rightarrow> 0
      | Some r \<Rightarrow> moved (market_quote_vault m) (ta_key r) rebate j)" for j
  proof (cases "sf_referrer_account cx")
    case (Some r)
    then show ?thesis
      using token_transfer_moves(2) [OF laws pos(1) t0 [unfolded Some option.case]] by simp
  qed (use t0 in simp)
  note mv = m0 token_transfer_moves(2) [OF laws pos(2) t1] token_transfer_moves(2) [OF laws pos(3) t2]
  show "bal tok' (ta_key (sf_user_base_account cx)) =
      bal tok (ta_key (sf_user_base_account cx)) + base_free_native pa"
    and "bal tok' (ta_key (sf_user_quote_account cx)) =
      bal tok (ta_key (sf_user_quote_account cx)) + quote_free_native pa"
    and "sf_referrer_account cx = Some r \<Longrightarrow> bal tok' (ta_key r) = bal tok (ta_key r) + rebate"
    using mv p by (auto simp: moved_def payees_ok_def split: option.splits)
qed

lemma settle_funds_pays:
  assumes laws: "token_laws rt bal" and s: "ix_settle_funds rt cx w = Ok w'"
    and typed: "world_typed w"
    and p: "payees_ok cx (w_market w)"
  shows "bal (w_tokens w') (ta_key (sf_user_base_account cx)) =
      bal (w_tokens w) (ta_key (sf_user_base_account cx)) + base_free_native (oo_position (w_ooa w)) \<and>
    bal (w_tokens w') (ta_key (sf_user_quote_account cx)) =
      bal (w_tokens w) (ta_key (sf_user_quote_account cx)) + quote_free_native (oo_position (w_ooa w)) \<and>
    base_free_native (oo_position (w_ooa w')) = 0 \<and> quote_free_native (oo_position (w_ooa w')) = 0 \<and>
    referrer_rebates_available (oo_position (w_ooa w')) = 0 \<and> penalty_heap_count (oo_position (w_ooa w')) = 0"
proof -
  have c: "check_settle_funds cx (w_market w) (w_ooa w) = Ok ()" and sf: "settle_funds rt cx w = Ok w'"
    using s by (auto simp: ix_settle_funds_def bnd_eq_Inr)
  have k: "ta_key (sf_market_base_vault cx) = market_base_vault (w_market w)"
      "ta_key (sf_market_quote_vault cx) = market_quote_vault (w_market w)"
    using c by (simp_all add: check_settle_funds_def all_ok_eq_Inr res_simps)
  show ?thesis
  proof (rule settle_funds_steps [OF sf])
    let ?pa0 = "oo_position (w_ooa w)"
    fix roundoff pa m pa1 tok1 tok2
    assume r: "roundoff_maker_fees (w_market w) ?pa0 = (roundoff, pa)"
      and u: "is_u64 (referrer_rebates_available pa + roundoff)"
      and pe: "settle_penalty rt cx pa (w_tokens w) = Ok (pa1, tok1)"
      and tr: "settle_transfers rt cx (market_seeds m (sf_market cx)) (referrer_rebates_available pa + roundoff)
        pa1 tok1 = Ok tok2"
      and w': "w' = w\<lparr>w_market := m, w_ooa := (w_ooa w)\<lparr>oo_position := pa1\<lparr>base_free_native := 0,
        quote_free_native := 0, referrer_rebates_available := 0\<rparr>\<rparr>, w_tokens := tok2\<rparr>"
    have f: "base_free_native pa1 = base_free_native ?pa0" "quote_free_native pa1 = quote_free_native ?pa0"
      using roundoff_ok [OF r] settle_penalty_ok [OF pe]
      by (metis position.select_convs position.surjective position.update_convs)+
    have pos: "0 \<le> base_free_native ?pa0" "0 \<le> quote_free_native ?pa0" "0 \<le> penalty_heap_count ?pa0"
      using typed by (simp_all add: world_typed_def account_typed_def position_typed_def is_u64_def)
    have "penalty_heap_count pa = penalty_heap_count ?pa0"
      using r by (auto simp: roundoff_maker_fees_def split: if_splits)
    then have pn: "penalty_heap_count pa1 = 0"
      using pe pos(3) by (auto simp: settle_penalty_def res_simps split: if_splits)
    have ref: "0 \<le> referrer_rebates_available pa + roundoff" using u by (simp add: is_u64_def)
    show ?thesis
      using settle_transfers_pays(1,2) [OF laws ref _ _ tr k p] settle_penalty_keeps [OF laws pe] f pos pn
      by (simp add: w')
  qed
qed

section \<open>Cancelling one order\<close>

text \<open>On the owner's request: either there is no order with the key in the component the slot
  names, or the order leaves that component, all other orders stay as they are, and the slot is
  free again.\<close>

lemma remove_order_frees: "remove_order slot q lp oo = Ok oo' \<Longrightarrow>
    open_orders oo' = (open_orders oo)[slot := open_order_default]"
  by (auto simp: remove_order_def Let_def bnd_eq_Inr)

lemma cancel_slot_removes:
  "cancel_slot slot q m oo = Ok oo' \<Longrightarrow> \<exists>pa lp. remove_order slot q lp (oo\<lparr>oo_position := pa\<rparr>) = Ok oo'"
  unfolding cancel_slot_def Let_def bnd_eq_Inr by blast

lemma cancel_slot_frees: "cancel_slot slot q m oo = Ok oo' \<Longrightarrow>
    open_orders oo' = (open_orders oo)[slot := open_order_default]"
  using cancel_slot_removes remove_order_frees by fastforce

lemma cancel_order_exact:
  assumes b: "sound_book ob" and c: "cancel_order ob oo k sat m eo = Ok (leaf, ob', oo')"
  shows "find_order k (side_orders (bookside ob (sat_side sat)) (sat_order_tree sat)) = Some leaf \<and>
    (\<forall>s t. side_orders (bookside ob' s) t =
      (if s = sat_side sat \<and> t = sat_order_tree sat then delete_order k (side_orders (bookside ob s) t)
       else side_orders (bookside ob s) t)) \<and>
    sound_book ob' \<and> (\<forall>w. eo = Some w \<longrightarrow> leaf_owner leaf = w) \<and>
    open_orders oo' = (open_orders oo)[owner_slot leaf := open_order_default]"
  using b
proof (cases rule: cancel_order_cases [of ob k sat oo m eo])
  case absent
  then show ?thesis using c by simp
next
  case (present l b')
  then have cs: "cancel_slot (owner_slot l) (quantity l) m oo = Ok oo'" and e: "leaf = l"
      "ob' = set_bookside (sat_side sat) b' ob" and ow: "\<forall>w. eo = Some w \<longrightarrow> leaf_owner l = w"
    using c [unfolded present(4)] by (auto simp: res_simps split: if_splits)
  have "side_orders (bookside ob' s) t =
      (if s = sat_side sat \<and> t = sat_order_tree sat then delete_order k (side_orders (bookside ob s) t)
       else side_orders (bookside ob s) t)" for s t
    using present(2) component_cases [of t "sat_order_tree sat"] side_or_other [of s "sat_side sat"]
    by (auto simp: e side_step_def)
  then show ?thesis
    using present(1) sound_book_update [OF b present(3)] cancel_slot_frees [OF cs] ow by (simp add: e)
qed

end
