(* ===== verification/Slots.thy ===== *)
theory Slots
  imports Slot_Machine Handlers
begin

text \<open>
  The order slots of the program refine the machine of slots: what the event handlers, the match
  loop and the posting of an order do to the accounts, the book and the heap are steps of the
  machine. All accounts are looked at through one map, those an instruction has loaded and those
  it has not.
\<close>

section \<open>The slots in use\<close>

type_synonym account_map = "pubkey \<Rightarrow> open_orders_account option"

definition acc_slot :: "open_orders_account \<Rightarrow> nat \<Rightarrow> open_order option" where
  "acc_slot oo i = (if i < length (open_orders oo) \<and> \<not> oo_is_free (open_orders oo ! i)
     then Some (open_orders oo ! i) else None)"

definition slots_in :: "account_map \<Rightarrow> slot_map" where
  "slots_in A p = (case A (at_key p) of None \<Rightarrow> None | Some oo \<Rightarrow> acc_slot oo (at_slot p))"

definition account_at :: "account_map \<Rightarrow> pubkey \<Rightarrow> accounts \<Rightarrow> account_map" where
  \<comment> \<open>the account with a key: the one the instruction is for, a remaining one, or one not loaded\<close>
  "account_at base k ac k' = (if k' = k \<and> ac_ooa ac \<noteq> None then ac_ooa ac
     else case map_of (ac_remaining ac) k' of Some (OpenOrdersAcc oo) \<Rightarrow> Some oo | _ \<Rightarrow> base k')"

lemma acc_slot_free:
  "open_orders oo' = (open_orders oo)[i := open_order_default] \<Longrightarrow> acc_slot oo' = (acc_slot oo)(i := None)"
  by (auto simp: acc_slot_def fun_eq_iff nth_list_update)

lemma acc_slot_same: "open_orders oo' = open_orders oo \<Longrightarrow> acc_slot oo' = acc_slot oo"
  by (simp add: acc_slot_def fun_eq_iff)

lemma account_at_own:
  "ac_ooa ac \<noteq> None \<Longrightarrow> account_at base k (ac\<lparr>ac_ooa := Some oo\<rparr>) = (account_at base k ac)(k := Some oo)"
  by (auto simp: account_at_def fun_eq_iff)

lemma account_at_store:
  assumes "map_of (ac_remaining ac) k' = Some (OpenOrdersAcc oo)" and "k' = k \<Longrightarrow> ac_ooa ac = None"
  shows "account_at base k (ac\<lparr>ac_remaining := store_acc k' oo' (ac_remaining ac)\<rparr>) =
    (account_at base k ac)(k' := Some oo')"
  using assms by (auto simp: account_at_def map_of_store fun_eq_iff)

lemma account_at_frame [simp]:
  "account_at base k (ac\<lparr>ac_market := m\<rparr>) = account_at base k ac"
  "account_at base k (ac\<lparr>ac_heap := h\<rparr>) = account_at base k ac"
  by (auto simp: account_at_def fun_eq_iff)

lemma account_at_cong:
  "ac_ooa ac' = ac_ooa ac \<Longrightarrow> ac_remaining ac' = ac_remaining ac \<Longrightarrow> account_at base k ac' = account_at base k ac"
  by (cases "ac_ooa ac") (simp_all add: account_at_def fun_eq_iff)

lemma account_at_here: "ac_ooa ac = Some oo \<Longrightarrow> account_at base k ac k = Some oo"
  by (simp add: account_at_def)

lemma account_at_other:
  "map_of (ac_remaining ac) k' = Some (OpenOrdersAcc oo) \<Longrightarrow> (k' = k \<Longrightarrow> ac_ooa ac = None) \<Longrightarrow>
   account_at base k ac k' = Some oo"
  by (auto simp: account_at_def)

lemma slots_in_free:
  "A k = Some oo \<Longrightarrow> acc_slot oo' = (acc_slot oo)(i := None) \<Longrightarrow>
   slots_in (A(k := Some oo')) = (slots_in A)(At k i := None)"
  by (auto simp: slots_in_def fun_eq_iff place.expand)

lemma slots_in_same:
  "A k = Some oo \<Longrightarrow> acc_slot oo' = acc_slot oo \<Longrightarrow> slots_in (A(k := Some oo')) = slots_in A"
  by (auto simp: slots_in_def fun_eq_iff)

section \<open>The holders in the heap\<close>

definition event_holders :: "any_event \<Rightarrow> holder multiset" where
  "event_holders ev = (case ev of
     OutEv out \<Rightarrow> {#Leaving (At (oe_owner out) (oe_owner_slot out)) (oe_side out)#}
   | FillEv f \<Rightarrow> if fe_maker_out f
       then {#Leaving (At (fe_maker f) (fe_maker_slot f)) (invert_side (fe_taker_side f))#} else {#})"

definition heap_holders :: "event_heap \<Rightarrow> holder multiset" where
  "heap_holders h = (\<Sum>x\<leftarrow>heap_queue h. event_holders (fst x))"

lemma heap_holders_push:
  "good_heap h \<Longrightarrow> push_back ev h = Ok h' \<Longrightarrow> heap_holders h' = heap_holders h + event_holders ev"
  using push_back_queue [of h ev h'] by (auto simp: heap_holders_def)

definition conf :: "int \<Rightarrow> account_map \<Rightarrow> pubkey \<Rightarrow> accounts \<Rightarrow> holder multiset \<Rightarrow> machine" where
  \<comment> \<open>what the accounts are to the machine, the book's holders being \<open>R\<close>\<close>
  "conf n base k ac R = (n, slots_in (account_at base k ac), R + heap_holders (ac_heap ac))"

definition own_ok :: "pubkey \<Rightarrow> pubkey \<Rightarrow> accounts \<Rightarrow> bool" where
  \<comment> \<open>the account of the instruction is not among the loaded ones\<close>
  "own_ok k owner ac \<longleftrightarrow> good_heap (ac_heap ac) \<and> (ac_ooa ac \<noteq> None \<longrightarrow> owner = k \<and> shut k ac)"

lemma conf_free:
  assumes "account_at base k ac (at_key (place_of h)) = Some oo"
    and "open_orders oo' = (open_orders oo)[at_slot (place_of h) := open_order_default]"
    and "account_at base k ac' = (account_at base k ac)(at_key (place_of h) := Some oo')"
    and "ac_heap ac' = ac_heap ac"
  shows "slot_steps (conf n base k ac (add_mset h R)) (conf n base k ac' R)"
proof -
  have "slots_in (account_at base k ac') = (slots_in (account_at base k ac))(place_of h := None)"
    unfolding assms(3)
    using slots_in_free [of "account_at base k ac" "at_key (place_of h)" oo oo' "at_slot (place_of h)"]
      assms(1) acc_slot_free [OF assms(2)] by simp
  then show ?thesis
    using assms(4) slot_step.free [of n _ h "R + heap_holders (ac_heap ac)"] steps_one by (simp add: conf_def)
qed

lemma conf_queue:
  assumes "good_heap (ac_heap ac)" and "push_back ev (ac_heap ac) = Ok h'"
    and "event_holders ev = {#Leaving (place_of h) (side_of h)#}"
  shows "slot_steps (conf n base k ac (add_mset h R)) (conf n base k (ac\<lparr>ac_heap := h'\<rparr>) R)"
  using slot_step.leave [of n _ h "R + heap_holders (ac_heap ac)"] heap_holders_push [OF assms(1,2)] assms(3) steps_one
  by (simp add: conf_def)

section \<open>The event handlers\<close>

lemma cancel_slot_orders:
  "cancel_slot slot q m oo = Ok oo' \<Longrightarrow> open_orders oo' = (open_orders oo)[slot := open_order_default]"
  by (erule cancel_slot_steps) (auto dest: remove_order_ok(3))

lemma execute_maker_orders:
  assumes "execute_maker fill m oo = Ok (oo', m')"
  shows "open_orders oo' = (if fe_maker_out fill
    then (open_orders oo)[fe_maker_slot fill := open_order_default] else open_orders oo)"
proof -
  obtain lp pa where r: "release_maker_lots fill (invert_side (fe_taker_side fill)) lp (oo\<lparr>oo_position := pa\<rparr>) = Ok oo'"
    using assms unfolding execute_maker_def Let_def bnd_eq_Inr by (auto simp: bnd_eq_Inr)
  show ?thesis
  proof (cases "fe_maker_out fill")
    case True
    then have "remove_order (fe_maker_slot fill) (fe_quantity fill) lp (oo\<lparr>oo_position := pa\<rparr>) = Ok oo'"
      using r by (simp add: release_maker_lots_def)
    from remove_order_ok(3) [OF this] show ?thesis using True by simp
  next
    case False
    then show ?thesis
      using r by (auto simp: release_maker_lots_def Let_def bnd_eq_Inr split: side.splits)
  qed
qed

lemma process_out_event_slots:
  assumes p: "process_out_event ev owner ac = Ok ac'" and o: "own_ok k owner ac"
    and h: "place_of h = At (oe_owner ev) (oe_owner_slot ev)" "side_of h = oe_side ev"
  shows "slot_steps (conf n base k ac (add_mset h R)) (conf n base k ac' R) \<and> own_ok k owner ac'"
proof (cases "ac_ooa ac \<noteq> None \<and> owner = oe_owner ev")
  case True
  then obtain oo oo' where a: "ac_ooa ac = Some oo"
      "cancel_slot (oe_owner_slot ev) (oe_quantity ev) (ac_market ac) oo = Ok oo'" "ac' = ac\<lparr>ac_ooa := Some oo'\<rparr>"
    using p by (auto simp: process_out_event_def res_simps)
  have k: "oe_owner ev = k" using o True by (simp add: own_ok_def)
  show ?thesis
    using conf_free [of base k ac h oo oo' ac'] account_at_here [OF a(1)] cancel_slot_orders [OF a(2)] a k h o
      account_at_own [of ac base k oo']
    by (simp add: own_ok_def shut_def)
next
  case False
  then have q: "queue_out_event ev ac = Ok ac'"
    using p by (auto simp: process_out_event_def split: option.splits if_splits)
  show ?thesis
  proof (cases "map_of (ac_remaining ac) (oe_owner ev)")
    case None
    then obtain h' where h': "push_back (OutEv ev) (ac_heap ac) = Ok h'" "ac' = ac\<lparr>ac_heap := h'\<rparr>"
      using q by (auto simp: queue_out_event_def res_simps)
    have g: "good_heap (ac_heap ac)" using o by (simp add: own_ok_def)
    then show ?thesis
      using conf_queue [OF g h'(1), of h] push_back_queue [OF g h'(1)] h'(2) h o
      by (simp add: event_holders_def own_ok_def shut_def)
  next
    case (Some x)
    then obtain oo oo' where a: "map_of (ac_remaining ac) (oe_owner ev) = Some (OpenOrdersAcc oo)"
        "cancel_slot (oe_owner_slot ev) (oe_quantity ev) (ac_market ac) oo = Ok oo'"
        "ac' = ac\<lparr>ac_remaining := store_acc (oe_owner ev) oo' (ac_remaining ac)\<rparr>"
      using q by (auto simp: queue_out_event_def res_simps)
    have k: "oe_owner ev = k \<Longrightarrow> ac_ooa ac = None" using o a(1) by (auto simp: own_ok_def shut_def)
    show ?thesis
      using conf_free [of base k ac h oo oo' ac'] account_at_other [OF a(1) k] cancel_slot_orders [OF a(2)] a(1,3) h o
        account_at_store [OF a(1) k] process_out_event_shut [OF p]
      by (simp add: own_ok_def)
  qed
qed

lemma process_fill_event_slots:
  assumes p: "process_fill_event f i ac = Ok (i', ac')" and o: "own_ok k owner ac"
    and h: "place_of h = At (fe_maker f) (fe_maker_slot f)" "side_of h = invert_side (fe_taker_side f)"
  shows "slot_steps (conf n base k ac (add_mset h R))
      (conf n base k ac' (if fe_maker_out f then R else add_mset h R)) \<and> own_ok k owner ac'"
proof (cases "if i < FILL_EVENT_REMAINING_LIMIT then map_of (ac_remaining ac) (fe_maker f) else None")
  case None
  then obtain h' where h': "push_back (FillEv f) (ac_heap ac) = Ok h'" "ac' = ac\<lparr>ac_heap := h'\<rparr>"
    using p by (auto simp: process_fill_event_def res_simps)
  have g: "good_heap (ac_heap ac)" using o by (simp add: own_ok_def)
  have "own_ok k owner ac'" using push_back_queue [OF g h'(1)] h'(2) o by (simp add: own_ok_def shut_def)
  moreover have "conf n base k ac' (add_mset h R) = conf n base k ac (add_mset h R)" if "\<not> fe_maker_out f"
    using heap_holders_push [OF g h'(1)] that h'(2) by (simp add: conf_def event_holders_def)
  ultimately show ?thesis using conf_queue [OF g h'(1), of h] h'(2) h by (simp add: event_holders_def)
next
  case (Some x)
  then obtain oo oo' m' where a: "map_of (ac_remaining ac) (fe_maker f) = Some (OpenOrdersAcc oo)"
      "execute_maker f (ac_market ac) oo = Ok (oo', m')"
      "ac' = ac\<lparr>ac_market := m', ac_remaining := store_acc (fe_maker f) oo' (ac_remaining ac)\<rparr>"
    using p by (auto simp: process_fill_event_def res_simps split: if_splits)
  have k: "fe_maker f = k \<Longrightarrow> ac_ooa ac = None" using o a(1) by (auto simp: own_ok_def shut_def)
  have own: "own_ok k owner ac'" using process_fill_event_shut [OF p] o a(3) by (simp add: own_ok_def)
  let ?ac = "ac\<lparr>ac_remaining := store_acc (fe_maker f) oo' (ac_remaining ac)\<rparr>"
  have at: "account_at base k ac' = (account_at base k ac)(fe_maker f := Some oo')"
    using account_at_store [OF a(1) k]  account_at_cong [of ac' ?ac] a(3) by simp
  show ?thesis
  proof (cases "fe_maker_out f")
    case True
    then show ?thesis
      using conf_free [of base k ac h oo oo' ac'] account_at_other [OF a(1) k] execute_maker_orders [OF a(2)] at h own a(3)
      by simp
  next
    case False
    have "slots_in (account_at base k ac') = slots_in (account_at base k ac)"
      unfolding at
    proof (rule slots_in_same)
      show "account_at base k ac (fe_maker f) = Some oo" by (rule account_at_other [OF a(1)]) (rule k)
      show "acc_slot oo' = acc_slot oo"
        by (rule acc_slot_same) (use execute_maker_orders [OF a(2)] False in simp)
    qed
    then show ?thesis using own False a(3) by (simp add: conf_def)
  qed
qed

end
