(* ===== verification/Slots_Book.thy ===== *)
theory Slots_Book
  imports Slots
begin

text \<open>
  The holders on the book. Matching, dropping, evicting and posting orders are steps of the machine
  of slots, and so is a new order as a whole.
\<close>

section \<open>The orders of a side\<close>

definition leaf_holder :: "side \<Rightarrow> book_tree \<Rightarrow> leaf_node \<Rightarrow> holder" where
  "leaf_holder s c l = Resting (At (leaf_owner l) (owner_slot l)) s c (leaf_key l)"

definition tree_holders :: "side \<Rightarrow> (book_tree \<times> key128) set \<Rightarrow> book_tree \<Rightarrow> leaf_node list \<Rightarrow> holder multiset" where
  "tree_holders s D c os = image_mset (leaf_holder s c) (mset (filter (\<lambda>l. (c, leaf_key l) \<notin> D) os))"

definition side_holders :: "side \<Rightarrow> book_side \<Rightarrow> (book_tree \<times> key128) set \<Rightarrow> holder multiset" where
  \<comment> \<open>of a side, but for the orders in \<open>D\<close>\<close>
  "side_holders s b D = tree_holders s D Fixed (side_orders b Fixed) +
     tree_holders s D OraclePegged (side_orders b OraclePegged)"

definition book_holders :: "orderbook \<Rightarrow> holder multiset" where
  "book_holders ob = side_holders Bid (bids ob) {} + side_holders Ask (asks ob) {}"

lemma leaf_holder_simps [simp]:
  "place_of (leaf_holder s c l) = At (leaf_owner l) (owner_slot l)" "side_of (leaf_holder s c l) = s"
  by (simp_all add: leaf_holder_def)

lemma side_holders_other:
  "side_holders s b D = tree_holders s D c (side_orders b c) +
     tree_holders s D (other_component c) (side_orders b (other_component c))"
  by (cases c) (simp_all add: side_holders_def)

lemma book_holders_split:
  "book_holders ob = side_holders s (bookside ob s) {} + side_holders (invert_side s) (bookside ob (invert_side s)) {}"
  by (cases s) (simp_all add: book_holders_def bookside_def)

lemma tree_holders_insert_other: "c \<noteq> c' \<Longrightarrow> tree_holders s (insert (c', k) D) c os = tree_holders s D c os"
  by (simp add: tree_holders_def)

lemma distinct_key: "distinct (map f (x # xs)) \<Longrightarrow> y \<in> set xs \<Longrightarrow> f y \<noteq> f x"
  by (auto simp: image_iff)

lemma tree_holders_take:
  assumes "distinct (map leaf_key os)" and "l \<in> set os" and "(c, leaf_key l) \<notin> D"
  shows "tree_holders s D c os = add_mset (leaf_holder s c l) (tree_holders s (insert (c, leaf_key l) D) c os)"
  using assms
proof (induction os)
  case (Cons x os)
  show ?case
  proof (cases "x = l")
    case True
    have "leaf_key y \<noteq> leaf_key l" if "y \<in> set os" for y
      using distinct_key [OF Cons.prems(1) that] True by simp
    then have "filter (\<lambda>y. (c, leaf_key y) \<notin> insert (c, leaf_key l) D) os = filter (\<lambda>y. (c, leaf_key y) \<notin> D) os"
      by (intro filter_cong) auto
    then show ?thesis using True Cons.prems(3) by (simp add: tree_holders_def)
  next
    case False
    then have l: "l \<in> set os" using Cons.prems(2) by simp
    then have "leaf_key x \<noteq> leaf_key l"
      using distinct_key [OF Cons.prems(1)] by metis
    then show ?thesis using Cons.IH [OF _ l Cons.prems(3)] Cons.prems(1) by (auto simp: tree_holders_def)
  qed
qed simp

lemma side_keys_distinct: "good_side b \<Longrightarrow> distinct (map leaf_key (side_orders b c))"
  using side_orders_sorted strict_sorted_iff by blast

lemma side_holders_take:
  assumes "good_side b" and "l \<in> set (side_orders b c)" and "(c, leaf_key l) \<notin> D"
  shows "side_holders s b D = add_mset (leaf_holder s c l) (side_holders s b (insert (c, leaf_key l) D))"
  unfolding side_holders_other [of s b _ c]
  by (simp add: tree_holders_take [OF side_keys_distinct [OF assms(1)] assms(2,3)] tree_holders_insert_other)

lemma tree_holders_delete: "tree_holders s D c (delete_order k os) = tree_holders s (insert (c, k) D) c os"
  by (simp add: tree_holders_def delete_order_def conj_commute)

lemma side_holders_delete:
  assumes "side_step b c (delete_order k (side_orders b c)) b'"
  shows "side_holders s b' D = side_holders s b (insert (c, k) D)"
  using assms unfolding side_holders_other [of s _ _ c]
  by (simp add: side_step_def tree_holders_delete tree_holders_insert_other)

lemma tree_holders_insert: "tree_holders s {} c (insert_order l os) \<subseteq># add_mset (leaf_holder s c l) (tree_holders s {} c os)"
proof -
  have "mset (filter (\<lambda>x. leaf_key x < leaf_key l) os) + mset (filter (\<lambda>x. leaf_key l < leaf_key x) os) \<subseteq># mset os"
    by (induction os) (auto intro: subset_mset.order_trans)
  then have "image_mset (leaf_holder s c) (mset (filter (\<lambda>x. leaf_key x < leaf_key l) os) +
      mset (filter (\<lambda>x. leaf_key l < leaf_key x) os)) \<subseteq># image_mset (leaf_holder s c) (mset os)"
    by (rule image_mset_subseteq_mono)
  then show ?thesis by (simp add: tree_holders_def insert_order_def)
qed

lemma side_holders_insert:
  assumes "side_step b c (insert_order l (side_orders b c)) b'"
  shows "side_holders s b' {} \<subseteq># add_mset (leaf_holder s c l) (side_holders s b {})"
  using assms tree_holders_insert [of s c l "side_orders b c"] unfolding side_holders_other [of s _ _ c]
  by (simp add: side_step_def subset_mset.add_right_mono flip: add_mset_add_single)

lemma set_quantity_holders:
  assumes "good_side b" and "set_quantity b h q = Ok b'"
  shows "side_holders s b' D = side_holders s b D"
proof -
  have "tree_holders s D c os' = tree_holders s D c os" if "requantified q os os'" for c os os'
    using that unfolding requantified_def
    by (induction rule: list_all2_induct) (auto simp: tree_holders_def leaf_holder_def)
  from this [of "side_orders b Fixed" "side_orders b' Fixed"] this [of "side_orders b OraclePegged" "side_orders b' OraclePegged"]
  show ?thesis using set_quantity_spec [OF assms] by (simp add: side_holders_def)
qed

lemma apply_changes_holders:
  "apply_changes xs b = Ok b' \<Longrightarrow> good_side b \<Longrightarrow> side_holders s b' D = side_holders s b D \<and> good_side b'"
proof (induction xs arbitrary: b)
  case (Cons x xs)
  obtain c h q where x: "x = (c, h, q)" by (cases x)
  then obtain b1 where b1: "set_quantity b h q = Ok b1" "apply_changes xs b1 = Ok b'"
    using Cons.prems(1) by (auto simp: res_simps)
  show ?case
    using Cons.IH [OF b1(2)] set_quantity_spec [OF Cons.prems(2) b1(1)] set_quantity_holders [OF Cons.prems(2) b1(1)]
    by simp
qed simp

lemma apply_deletes_holders:
  "apply_deletes xs b = Ok b' \<Longrightarrow> good_side b \<Longrightarrow> side_holders s b' D = side_holders s b (D \<union> set xs)"
proof (induction xs arbitrary: b)
  case (Cons x xs)
  obtain c k where x: "x = (c, k)" by (cases x)
  then obtain l b1 where b1: "book_remove_by_key b c k = Ok (l, b1)" "apply_deletes xs b1 = Ok b'"
    using Cons.prems(1) by (auto simp: res_simps)
  have st: "side_step b c (delete_order k (side_orders b c)) b1"
    using book_remove_by_key_spec [OF Cons.prems(2), of c k] b1(1) by auto
  then have "good_side b1" by (simp add: side_step_def)
  from Cons.IH [OF b1(2) this] show ?case
    using side_holders_delete [OF st] by (simp add: x)
qed simp

section \<open>Matching\<close>

lemma out_event_of_simps [simp]:
  "oe_owner (out_event_of s l now_ts h) = leaf_owner l" "oe_owner_slot (out_event_of s l now_ts h) = owner_slot l"
  "oe_side (out_event_of s l now_ts h) = s"
  by (simp_all add: out_event_of_def out_event_new_def)

lemma drop_invalid_slots:
  assumes d: "drop_invalid order owner now_ts best st = Ok st'" and o: "own_ok k owner (mt_acc st)"
    and b: "good_side b" "item_of_book b best" "(item_tree best, leaf_key (item_node best)) \<notin> set (mt_deletes st)"
    and s: "s = invert_side (o_side order)"
  shows "slot_steps (conf n base k (mt_acc st) (R + side_holders s b (set (mt_deletes st))))
      (conf n base k (mt_acc st') (R + side_holders s b (set (mt_deletes st')))) \<and> own_ok k owner (mt_acc st') \<and>
    set (mt_deletes st') \<subseteq> insert (item_tree best, leaf_key (item_node best)) (set (mt_deletes st))"
proof (cases "mt_dropped st < DROP_EXPIRED_ORDER_LIMIT")
  case True
  then obtain ac where p: "process_out_event (out_event_of s (item_node best) now_ts (ac_heap (mt_acc st))) owner
        (mt_acc st) = Ok ac"
      and st': "mt_acc st' = ac" "mt_deletes st' = mt_deletes st @ [(item_tree best, leaf_key (item_node best))]"
    using d s by (auto simp: drop_invalid_def res_simps)
  have "item_node best \<in> set (side_orders b (item_tree best))" using b(2) by (simp add: item_of_book_def)
  from side_holders_take [OF b(1) this b(3), of s] show ?thesis
    using process_out_event_slots [OF p o, of "leaf_holder s (item_tree best) (item_node best)"] st' by simp
next
  case False
  then have "st' = st" using d by (simp add: drop_invalid_def)
  then show ?thesis using o by auto
qed

lemma fill_order_event:
  assumes "fill_order order owner now_ts best mb mq st = Ok st'"
  obtains out i i' f where "process_fill_event f i (mt_acc st) = Ok (i', mt_acc st')"
    and "fe_maker f = leaf_owner (item_node best)" "fe_maker_slot f = owner_slot (item_node best)"
    and "fe_taker_side f = o_side order" "fe_maker_out f = out"
    and "mt_deletes st' = (if out then mt_deletes st @ [(item_tree best, leaf_key (item_node best))] else mt_deletes st)"
proof -
  let ?e = "\<lambda>out. fill_event_new (o_side order) out (owner_slot (item_node best)) now_ts
        (seq_num (ac_market (mt_acc st))) (leaf_owner (item_node best))
        (client_order_id (item_node best)) (timestamp (item_node best)) owner (o_client_order_id order)
        (item_price_lots best) (peg_limit (item_node best)) mb"
  show thesis
  proof (cases "quantity (item_node best) = mb")
    case True
    then have "process_fill_event (?e True) (mt_fills st) (mt_acc st) = Ok (mt_fills st', mt_acc st') \<and>
        mt_deletes st' = mt_deletes st @ [(item_tree best, leaf_key (item_node best))]"
      using assms unfolding fill_order_def Let_def bnd_eq_Inr by (auto simp: bnd_eq_Inr chk_eq_Inr)
    then show thesis by (intro that [of "?e True" "mt_fills st" "mt_fills st'" True]) (simp_all add: fill_event_new_def)
  next
    case False
    then have "process_fill_event (?e False) (mt_fills st) (mt_acc st) = Ok (mt_fills st', mt_acc st') \<and>
        mt_deletes st' = mt_deletes st"
      using assms unfolding fill_order_def Let_def bnd_eq_Inr by (auto simp: bnd_eq_Inr chk_eq_Inr)
    then show thesis by (intro that [of "?e False" "mt_fills st" "mt_fills st'" False]) (simp_all add: fill_event_new_def)
  qed
qed

lemma fill_order_slots:
  assumes f: "fill_order order owner now_ts best mb mq st = Ok st'" and o: "own_ok k owner (mt_acc st)"
    and b: "good_side b" "item_of_book b best" "(item_tree best, leaf_key (item_node best)) \<notin> set (mt_deletes st)"
    and s: "s = invert_side (o_side order)"
  shows "slot_steps (conf n base k (mt_acc st) (R + side_holders s b (set (mt_deletes st))))
      (conf n base k (mt_acc st') (R + side_holders s b (set (mt_deletes st')))) \<and> own_ok k owner (mt_acc st') \<and>
    set (mt_deletes st') \<subseteq> insert (item_tree best, leaf_key (item_node best)) (set (mt_deletes st))"
proof (rule fill_order_event [OF f])
  fix out i i' ev
  assume p: "process_fill_event ev i (mt_acc st) = Ok (i', mt_acc st')"
    and ev: "fe_maker ev = leaf_owner (item_node best)" "fe_maker_slot ev = owner_slot (item_node best)"
      "fe_taker_side ev = o_side order" "fe_maker_out ev = out"
    and d: "mt_deletes st' = (if out then mt_deletes st @ [(item_tree best, leaf_key (item_node best))] else mt_deletes st)"
  have "item_node best \<in> set (side_orders b (item_tree best))" using b(2) by (simp add: item_of_book_def)
  note h = side_holders_take [OF b(1) this b(3), of s]
  show ?thesis
    using process_fill_event_slots [OF p o, of "leaf_holder s (item_tree best) (item_node best)" n base
        "R + side_holders s b (insert (item_tree best, leaf_key (item_node best)) (set (mt_deletes st)))"] ev d h s
    by (cases out) auto
qed

lemma self_trade_slots:
  assumes t: "self_trade_step order owner best mq st = Ok r" and o: "own_ok k owner (mt_acc st)"
    and b: "good_side b" "item_of_book b best" "(item_tree best, leaf_key (item_node best)) \<notin> set (mt_deletes st)"
    and s: "s = invert_side (o_side order)"
  shows "case r of Proceed st' \<Rightarrow> mt_acc st' = mt_acc st \<and> mt_deletes st' = mt_deletes st
    | SkipMatch st' \<Rightarrow> slot_steps (conf n base k (mt_acc st) (R + side_holders s b (set (mt_deletes st))))
      (conf n base k (mt_acc st') (R + side_holders s b (set (mt_deletes st')))) \<and> own_ok k owner (mt_acc st') \<and>
    set (mt_deletes st') \<subseteq> insert (item_tree best, leaf_key (item_node best)) (set (mt_deletes st))"
proof (cases r)
  case (Proceed st')
  then show ?thesis
    using t by (auto simp: self_trade_step_def rebate_step_def Let_def res_simps
        split: option.splits if_splits self_trade_behavior.splits)
next
  case (SkipMatch st')
  then obtain acc acc' where a: "ac_ooa (mt_acc st) = Some acc" "owner = leaf_owner (item_node best)"
      "cancel_slot (owner_slot (item_node best)) (quantity (item_node best)) (ac_market (mt_acc st)) acc = Ok acc'"
      "st' = st\<lparr>mt_acc := (mt_acc st)\<lparr>ac_ooa := Some acc'\<rparr>,
         mt_deletes := mt_deletes st @ [(item_tree best, leaf_key (item_node best))]\<rparr>"
    using t by (auto simp: self_trade_step_def rebate_step_def Let_def res_simps
        split: option.splits if_splits self_trade_behavior.splits)
  have k: "owner = k" "shut k (mt_acc st)" using o a(1) by (simp_all add: own_ok_def)
  have "item_node best \<in> set (side_orders b (item_tree best))" using b(2) by (simp add: item_of_book_def)
  note h = side_holders_take [OF b(1) this b(3), of s]
  show ?thesis
    using conf_free [of base k "mt_acc st" "leaf_holder s (item_tree best) (item_node best)" acc acc' "mt_acc st'"]
      account_at_here [OF a(1)] account_at_own [of "mt_acc st" base k acc'] cancel_slot_orders [OF a(3)] a k h o SkipMatch
    by (auto simp: own_ok_def shut_def)
qed

lemma match_step_slots:
  assumes m: "match_step order owner now_ts price_lots best st = Ok r" and o: "own_ok k owner (mt_acc st)"
    and b: "good_side b" "item_of_book b best" "(item_tree best, leaf_key (item_node best)) \<notin> set (mt_deletes st)"
    and s: "s = invert_side (o_side order)"
  shows "slot_steps (conf n base k (mt_acc st) (R + side_holders s b (set (mt_deletes st))))
      (conf n base k (mt_acc (flow_state r)) (R + side_holders s b (set (mt_deletes (flow_state r))))) \<and>
    own_ok k owner (mt_acc (flow_state r)) \<and>
    set (mt_deletes (flow_state r)) \<subseteq> insert (item_tree best, leaf_key (item_node best)) (set (mt_deletes st))"
  using m
proof (cases rule: match_step_cases)
  case stop
  then show ?thesis using o by auto
next
  case (drop st')
  then show ?thesis using drop_invalid_slots [OF drop(1) o b s] by simp
next
  case (trade q mb x)
  note st = self_trade_slots [OF trade(8) o b s, of n base R]
  show ?thesis
  proof (cases x)
    case (SkipMatch st')
    then show ?thesis using st trade(9) by simp
  next
    case (Proceed st')
    then have e: "mt_acc st' = mt_acc st" "mt_deletes st' = mt_deletes st" using st by simp_all
    have "fill_order order owner now_ts best mb (mb * item_price_lots best) st' = Ok (flow_state r)"
      using trade(9) Proceed by simp
    from fill_order_slots [OF this _ b(1,2) _ s, of k n base R] show ?thesis using e o b(3) by simp
  qed
qed

lemma match_order_slots:
  assumes m: "match_order order owner now_ts opl price_lots b st = Ok st'" and g: "good_side b"
    and o: "own_ok k owner (mt_acc st)" and d: "mt_deletes st = []" and s: "s = invert_side (o_side order)"
  shows "slot_steps (conf n base k (mt_acc st) (R + side_holders s b {}))
      (conf n base k (mt_acc st') (R + side_holders s b (set (mt_deletes st')))) \<and> own_ok k owner (mt_acc st')"
proof -
  let ?P = "\<lambda>seen x. set (mt_deletes x) \<subseteq> seen \<and> own_ok k owner (mt_acc x) \<and>
      slot_steps (conf n base k (mt_acc st) (R + side_holders s b {}))
        (conf n base k (mt_acc x) (R + side_holders s b (set (mt_deletes x))))"
  have "\<exists>seen. ?P seen st'"
  proof (rule match_order_fresh_invariant [OF m g])
    show "?P {} st" using o d by simp
    fix best seen x r
    assume i: "item_of_book b best" and f: "(item_tree best, leaf_key (item_node best)) \<notin> seen" and p: "?P seen x"
      and ms: "match_step order owner now_ts price_lots best x = Ok r"
    have "(item_tree best, leaf_key (item_node best)) \<notin> set (mt_deletes x)" using f p by blast
    from match_step_slots [OF ms _ g i this s, of k n base R] show
      "?P (insert (item_tree best, leaf_key (item_node best)) seen) (flow_state r)"
      using p by (blast intro: steps_trans)
  qed
  then show ?thesis by blast
qed

section \<open>Posting\<close>

lemma give_way_slots:
  assumes p: "process_out_event (out_event_of s l now_ts h) owner ac = Ok ac'" and o: "own_ok k owner ac"
    and l: "l \<in> set (side_orders b c)" and g: "good_side b"
    and st: "side_step b c (delete_order (leaf_key l) (side_orders b c)) b'"
  shows "slot_steps (conf n base k ac (R + side_holders s b {})) (conf n base k ac' (R + side_holders s b' {})) \<and>
    own_ok k owner ac'"
  using process_out_event_slots [OF p o, of "leaf_holder s c l" n base "R + side_holders s b' {}"]
    side_holders_take [OF g l, of "{}" s] side_holders_delete [OF st, of s "{}"] by simp

lemma make_room_slots:
  assumes m: "make_room order owner now_ts orc price_lots tgt b ac = Ok (b', ac')" and o: "own_ok k owner ac"
    and b: "sound_side b" "book_side_of b = o_side order"
  shows "slot_steps (conf n base k ac (R + side_holders (o_side order) b {}))
      (conf n base k ac' (R + side_holders (o_side order) b' {})) \<and> own_ok k owner ac'"
proof -
  let ?s = "o_side order"
  obtain expired b1 ac1 where e: "book_remove_one_expired b tgt now_ts = Ok (expired, b1)"
    and pe: "(case expired of Some l \<Rightarrow> process_out_event (out_event_of ?s l now_ts (ac_heap ac)) owner ac
        | None \<Rightarrow> Ok ac) = Ok ac1"
    and rest: "(if book_is_full b1 then
        bnd (book_remove_worst b1 now_ts orc) (\<lambda>(w, b2).
        bnd (unwrap w) (\<lambda>(worst_order, worst_price).
        bnd (require (is_price_better ?s price_lots worst_price) SomeError) (\<lambda>_.
        bnd (process_out_event (out_event_of ?s worst_order now_ts (ac_heap ac1)) owner ac1)
          (\<lambda>ac2. Ok (b2, ac2)))))
      else Ok (b1, ac1)) = Ok (b', ac')"
    using m by (auto simp: make_room_def Let_def res_simps)
  have b1: "sound_side b1" "book_side_of b1 = ?s"
    using remove_expired_room [OF b(1) e, of ?s price_lots orc] b(2) by (simp_all add: room_step_def sound_step_def)
  obtain c where c: "expired_choice now_ts (side_orders b c) expired"
      "side_step b c (drop_choice expired (side_orders b c)) b1"
    using book_remove_one_expired_spec [OF sound_sideD(1) [OF b(1)], of tgt now_ts] e by (auto split: if_splits)
  have 1: "slot_steps (conf n base k ac (R + side_holders ?s b {})) (conf n base k ac1 (R + side_holders ?s b1 {})) \<and>
      own_ok k owner ac1"
  proof (cases expired)
    case None
    have "side_holders ?s b1 {} = side_holders ?s b {}"
      using c(2) None unfolding side_holders_other [of ?s _ _ c] by (simp add: side_step_def drop_choice_def)
    then show ?thesis using pe None o by simp
  next
    case (Some l)
    then have l: "l \<in> set (side_orders b c)" "side_step b c (delete_order (leaf_key l) (side_orders b c)) b1"
        "process_out_event (out_event_of ?s l now_ts (ac_heap ac)) owner ac = Ok ac1"
      using pe c by (simp_all add: expired_choice_def drop_choice_def)
    show ?thesis by (rule give_way_slots [OF l(3) o l(1) sound_sideD(1) [OF b(1)] l(2)])
  qed
  show ?thesis
  proof (cases "book_is_full b1")
    case False
    then show ?thesis using rest 1 by simp
  next
    case True
    then obtain l price where w: "book_remove_worst b1 now_ts orc = Ok (Some (l, price), b')"
        and p: "process_out_event (out_event_of ?s l now_ts (ac_heap ac1)) owner ac1 = Ok ac'"
      using rest by (auto simp: res_simps)
    obtain c where c: "in_book b1 orc c l" "side_step b1 c (delete_order (leaf_key l) (side_orders b1 c)) b'"
      using book_remove_worst_spec [OF sound_sideD(1) [OF b1(1)] sound_sideD(3) [OF b1(1)], of now_ts orc] w by auto
    then have "l \<in> set (side_orders b1 c)" by (simp add: in_book_def)
    from give_way_slots [OF p _ this sound_sideD(1) [OF b1(1)] c(2), of k n base R] 1 show ?thesis
      by (blast intro: steps_trans)
  qed
qed

lemma post_order_full:
  assumes "post_order order owner now_ts orc price_lots order_id base_lots price tgt b ac =
    Ok (mf, pb, pq, b', ac')"
  obtains oo oo1 b1 ac1 oo2 slot h old oo3 where
    "ac_ooa ac = Some oo" and "open_orders oo1 = open_orders oo"
    and "make_room order owner now_ts orc price_lots tgt b (ac\<lparr>ac_ooa := Some oo1\<rparr>) = Ok (b1, ac1)"
    and "ac_ooa ac1 = Some oo2" and "next_order_slot oo2 = Ok slot"
    and "book_insert_leaf b1 tgt (leaf_new slot order_id owner base_lots now_ts (o_time_in_force order)
      (order_peg_limit order) (o_client_order_id order)) = Ok (h, old, b')"
    and "add_order (o_side order) tgt (leaf_new slot order_id owner base_lots now_ts (o_time_in_force order)
      (order_peg_limit order) (o_client_order_id order)) (o_client_order_id order) price oo2 = Ok oo3"
    and "ac' = ac1\<lparr>ac_ooa := Some oo3\<rparr>"
proof -
  obtain oo mf1 oo1 b1 ac1 oo2 slot h old oo3 where *: "ac_ooa ac = Some oo"
    "(case o_side order of
             Bid \<Rightarrow>
               bnd (maker_fees_ceil is_i64 (ac_market ac) (base_lots * price * quote_lot_size (ac_market ac))) (\<lambda>f.
               bnd (chk_u64 f) (\<lambda>fees.
               bnd (chk_u64 (locked_maker_fees (oo_position oo) + fees)) (\<lambda>lf.
               Ok (fees, oo\<lparr>oo_position := (oo_position oo)\<lparr>locked_maker_fees := lf\<rparr>\<rparr>))))
           | Ask \<Rightarrow> Ok (0, oo)) = Ok (mf1, oo1)"
    "make_room order owner now_ts orc price_lots tgt b (ac\<lparr>ac_ooa := Some oo1\<rparr>) = Ok (b1, ac1)"
    "ac_ooa ac1 = Some oo2" "next_order_slot oo2 = Ok slot"
    "book_insert_leaf b1 tgt (leaf_new slot order_id owner base_lots now_ts (o_time_in_force order)
      (order_peg_limit order) (o_client_order_id order)) = Ok (h, old, b')"
    "add_order (o_side order) tgt (leaf_new slot order_id owner base_lots now_ts (o_time_in_force order)
      (order_peg_limit order) (o_client_order_id order)) (o_client_order_id order) price oo2 = Ok oo3"
    "ac' = ac1\<lparr>ac_ooa := Some oo3\<rparr>"
    using assms unfolding post_order_def Let_def by (auto simp: bnd_eq_Inr unwrap_eq_Inr chk_eq_Inr)
  have "open_orders oo1 = open_orders oo"
    using *(2) by (cases "o_side order") (auto simp: res_simps)
  with * show thesis by (intro that)
qed

lemma post_order_slots:
  assumes p: "post_order order owner now_ts orc price_lots order_id base_lots price tgt b ac =
      Ok (mf, pb, pq, b', ac')" and o: "own_ok k owner ac"
    and b: "sound_side b" "book_side_of b = o_side order" and t: "times_ok order now_ts"
    and n: "is_u64 (n + 1)" "order_id = new_node_key (o_side order) q (word_of_int (n + 1))"
  shows "slot_steps (conf n base k ac (R + side_holders (o_side order) b {}))
      (conf (n + 1) base k ac' (R + side_holders (o_side order) b' {})) \<and> own_ok k owner ac'"
proof (rule post_order_full [OF p])
  let ?s = "o_side order"
  fix oo oo1 b1 ac1 oo2 slot h old oo3
  let ?l = "leaf_new slot order_id owner base_lots now_ts (o_time_in_force order)
      (order_peg_limit order) (o_client_order_id order)"
  assume own: "ac_ooa ac = Some oo" "open_orders oo1 = open_orders oo"
    and m: "make_room order owner now_ts orc price_lots tgt b (ac\<lparr>ac_ooa := Some oo1\<rparr>) = Ok (b1, ac1)"
    and own2: "ac_ooa ac1 = Some oo2" and sl: "next_order_slot oo2 = Ok slot"
    and i: "book_insert_leaf b1 tgt ?l = Ok (h, old, b')"
    and ad: "add_order ?s tgt ?l (o_client_order_id order) price oo2 = Ok oo3"
    and ac': "ac' = ac1\<lparr>ac_ooa := Some oo3\<rparr>"
  let ?ac = "ac\<lparr>ac_ooa := Some oo1\<rparr>"
  have k: "owner = k" "own_ok k owner ?ac" using o own(1) by (simp_all add: own_ok_def shut_def)
  have "slots_in (account_at base k ?ac) = slots_in (account_at base k ac)"
    using slots_in_same [of "account_at base k ac" k oo oo1] account_at_here [OF own(1)] acc_slot_same [OF own(2)]
      account_at_own [of ac base k oo1] own by simp
  then have c0: "conf n base k ?ac R' = conf n base k ac R'" for R' by (simp add: conf_def)
  note mr = make_room_slots [OF m k(2) b, of n base R, unfolded c0]
  have "room_step ?s price_lots now_ts orc b b1" by (rule make_room_spec [OF b m])
  then have b1: "good_side b1" by (simp add: room_step_def sound_step_def sound_side_def)
  have st: "side_step b1 tgt (insert_order ?l (side_orders b1 tgt)) b'"
    using book_insert_leaf_spec [OF b1, of ?l tgt "(h, old, b')"] i t by (auto simp: times_ok_def)
  let ?x = "\<lparr>oo_id = order_id, oo_client_id = o_client_order_id order, oo_locked_price = price,
      oo_is_free = False, oo_side_and_tree = side_and_tree_new ?s tgt\<rparr>"
  have os: "owner_slot ?l = slot" by (simp add: leaf_new_def)
  have f: "slot < length (open_orders oo2)" "oo_is_free (open_orders oo2 ! slot)"
    using sl position_of_Some [of oo_is_free "open_orders oo2" slot] by (auto simp: next_order_slot_def res_simps)
  have oo3: "open_orders oo3 = (open_orders oo2)[slot := ?x]"
    using ad os by (auto simp: add_order_def Let_def res_simps split: side.splits)
  let ?V = "slots_in (account_at base k ac1)" and ?h = "leaf_holder ?s tgt ?l"
  have at1: "account_at base k ac1 k = Some oo2" by (rule account_at_here [OF own2])
  have free: "?V (place_of ?h) = None" using at1 f k(1) os by (simp add: slots_in_def acc_slot_def)
  have "slots_in (account_at base k ac') = ?V(place_of ?h := Some ?x)"
    using at1 account_at_own [of ac1 base k oo3] own2 f(1) k(1) os
    by (auto simp: fun_eq_iff ac' slots_in_def acc_slot_def oo3 nth_list_update place.expand)
  moreover have "slot_step (n, ?V, H) (n + 1, ?V(place_of ?h := Some ?x), add_mset ?h H)" for H
    by (rule slot_step.claim [of ?V ?h ?x n q, OF free]) (use n in \<open>simp_all add: leaf_holder_def\<close>)
  ultimately have cl: "slot_step (conf n base k ac1 (R + side_holders ?s b1 {}))
      (conf (n + 1) base k ac' (add_mset ?h (R + side_holders ?s b1 {})))"
    by (simp add: conf_def ac')
  have "slot_step (conf (n + 1) base k ac' (add_mset ?h (R + side_holders ?s b1 {})))
      (conf (n + 1) base k ac' (R + side_holders ?s b' {}))"
    unfolding conf_def by (rule slot_step.forget) (use side_holders_insert [OF st, of ?s] in simp)
  then have "slot_steps (conf n base k ac (R + side_holders ?s b {})) (conf (n + 1) base k ac' (R + side_holders ?s b' {}))"
    using mr cl by (meson rtranclp.rtrancl_into_rtrancl)
  moreover have "own_ok k owner ac'" using mr own2 by (auto simp: ac' own_ok_def shut_def)
  ultimately show "slot_steps (conf n base k ac (R + side_holders ?s b {}))
      (conf (n + 1) base k ac' (R + side_holders ?s b' {})) \<and> own_ok k owner ac'" by blast
qed

section \<open>A new order\<close>

lemma execute_taker_orders:
  "execute_taker ts bn qn fees ra m oo = Ok (oo', m') \<Longrightarrow> open_orders oo' = open_orders oo"
  by (cases ts) (auto simp: execute_taker_def Let_def res_simps)

lemma take_step_slots:
  assumes t: "take_step order mq st = Ok (tk, st1)" and o: "own_ok k owner (mt_acc st)"
  shows "conf n base k (mt_acc st1) R = conf n base k (mt_acc st) R \<and> own_ok k owner (mt_acc st1) \<and>
    mt_deletes st1 = mt_deletes st \<and> mt_changes st1 = mt_changes st"
proof -
  have "mt_acc st1 = mt_acc st \<or>
      (\<exists>m. mt_acc st1 = (mt_acc st)\<lparr>ac_market := m, ac_ooa := None\<rparr>) \<and> ac_ooa (mt_acc st) = None \<or>
      (\<exists>m oo oo'. mt_acc st1 = (mt_acc st)\<lparr>ac_market := m, ac_ooa := Some oo'\<rparr> \<and> ac_ooa (mt_acc st) = Some oo \<and>
        open_orders oo' = open_orders oo)"
  proof (cases "ac_ooa (mt_acc st)")
    case None
    then show ?thesis using t unfolding take_step_def Let_def None by (auto simp: res_simps split: if_splits)
  next
    case (Some oo)
    have "mt_acc st1 = mt_acc st \<or> (\<exists>m oo' bn qn fees ra m1. execute_taker (o_side order) bn qn fees ra m1 oo = Ok (oo', m) \<and>
        mt_acc st1 = (mt_acc st)\<lparr>ac_market := m, ac_ooa := Some oo'\<rparr>)"
      using t unfolding take_step_def Let_def Some bnd_eq_Inr by (auto simp: bnd_eq_Inr split: if_splits) blast+
    then show ?thesis using execute_taker_orders Some by metis
  qed
  moreover have "mt_deletes st1 = mt_deletes st" "mt_changes st1 = mt_changes st"
    using t by (auto simp: take_step_def Let_def res_simps split: if_splits)
  moreover have ?thesis
    if "mt_acc st1 = (mt_acc st)\<lparr>ac_market := m, ac_ooa := Some oo'\<rparr>" "ac_ooa (mt_acc st) = Some oo"
      "open_orders oo' = open_orders oo" "mt_deletes st1 = mt_deletes st" "mt_changes st1 = mt_changes st" for m oo oo'
  proof -
    let ?ac = "(mt_acc st)\<lparr>ac_ooa := Some oo'\<rparr>"
    have "account_at base k (mt_acc st1) = account_at base k ?ac" by (rule account_at_cong) (simp_all add: that(1))
    then have "slots_in (account_at base k (mt_acc st1)) = slots_in (account_at base k (mt_acc st))"
      using slots_in_same [of "account_at base k (mt_acc st)" k oo oo'] account_at_here [OF that(2)] acc_slot_same [OF that(3)]
        account_at_own [of "mt_acc st" base k oo'] that(2) by simp
    then show ?thesis using that o by (simp add: conf_def own_ok_def shut_def)
  qed
  moreover have ?thesis
    if "mt_acc st1 = (mt_acc st)\<lparr>ac_market := m, ac_ooa := None\<rparr>" "ac_ooa (mt_acc st) = None"
      "mt_deletes st1 = mt_deletes st" "mt_changes st1 = mt_changes st" for m
    using that o account_at_cong [of "mt_acc st1" "mt_acc st" base k] by (simp add: conf_def own_ok_def)
  ultimately show ?thesis using o by metis
qed

lemma gen_order_id_new:
  "gen_order_id m s p = Ok (key, m') \<Longrightarrow>
   is_u64 (seq_num m + 1) \<and> key = new_node_key s p (word_of_int (seq_num m + 1)) \<and> seq_num m' = seq_num m + 1"
  by (auto simp: gen_order_id_def res_simps)

lemma new_order_slots:
  assumes nw: "new_order ob order owner now_ts lim opl ac = Ok (r, ob', ac')" and o: "own_ok k owner ac"
    and sound: "sound_book ob" and t: "times_ok order now_ts"
  shows "slot_steps (conf (seq_num (ac_market ac)) base k ac (book_holders ob))
      (conf (seq_num (ac_market ac) + 1) base k ac' (book_holders ob')) \<and> own_ok k owner ac'"
proof -
  let ?n = "seq_num (ac_market ac)" and ?s = "o_side order" and ?o = "invert_side (o_side order)"
  let ?R = "side_holders ?s (bookside ob ?s) {}"
  have sd: "sound_side (bookside ob s)" "book_side_of (bookside ob s) = s" "good_side (bookside ob s)" for s
    using sound by (simp_all add: sound_book_def sound_side_def)
  have matched: "slot_steps (conf ?n base k ac (book_holders ob)) (conf ?n base k (mt_acc st1) (?R + side_holders ?o opposing {})) \<and>
      own_ok k owner (mt_acc st1)"
    if "match_order order owner now_ts opl price_lots (bookside ob ?o)
        (start_match order max_quote lim (ac\<lparr>ac_market := m1\<rparr>)) = Ok st"
      "take_step order max_quote st = Ok (tk, st1)"
      "bnd (apply_changes (mt_changes st1) (bookside ob ?o)) (apply_deletes (mt_deletes st1)) = Ok opposing"
    for price_lots max_quote m1 st tk st1 opposing
  proof -
    note mt = that
    let ?ac = "ac\<lparr>ac_market := m1\<rparr>"
    have 1: "slot_steps (conf ?n base k ?ac (?R + side_holders ?o (bookside ob ?o) {}))
        (conf ?n base k (mt_acc st) (?R + side_holders ?o (bookside ob ?o) (set (mt_deletes st)))) \<and> own_ok k owner (mt_acc st)"
      using match_order_slots [OF mt(1) sd(3), of k ?o ?n base ?R] o
      by (simp add: start_match_def own_ok_def shut_def)
    obtain b1 where b1: "apply_changes (mt_changes st1) (bookside ob ?o) = Ok b1" "apply_deletes (mt_deletes st1) b1 = Ok opposing"
      using mt(3) by (auto simp: res_simps)
    note c = apply_changes_holders [OF b1(1) sd(3)]
    have "side_holders ?o opposing {} = side_holders ?o (bookside ob ?o) (set (mt_deletes st1))"
      using apply_deletes_holders [OF b1(2)] c by simp
    moreover have "conf ?n base k ?ac R = conf ?n base k ac R" for R by (simp add: conf_def)
    moreover have "book_holders ob = ?R + side_holders ?o (bookside ob ?o) {}" by (rule book_holders_split)
    ultimately show ?thesis
      using 1 take_step_slots [OF mt(2), of k owner ?n base "?R + side_holders ?o (bookside ob ?o) (set (mt_deletes st))"]
      by simp
  qed
  from nw show ?thesis
  proof (cases rule: new_order_book)
    case (unposted price_lots p_data order_id m1 max_quote st tk st1 opposing)
    have "book_holders ob' = ?R + side_holders ?o opposing {}"
      unfolding book_holders_split [of ob' ?s] by (simp add: unposted(7))
    moreover have "slot_step (conf ?n base k ac' H) (conf (?n + 1) base k ac' H)" for H
      unfolding conf_def using gen_order_id_new [OF unposted(2)] by (intro slot_step.tick) auto
    ultimately show ?thesis
      using matched [OF unposted(3,4,5)] unposted(9) by (auto intro: rtranclp.rtrancl_into_rtrancl)
  next
    case (posted price_lots p_data order_id m1 max_quote st tk st1 opposing base_lots c mf pb pq b ac2)
    let ?ob1 = "set_bookside ?o opposing ob"
    note m = matched [OF posted(3,4,5)]
    note g = gen_order_id_new [OF posted(2)]
    have e: "bookside ?ob1 ?s = bookside ob ?s" by (cases ?s) (simp_all add: bookside_def set_bookside_def)
    have "slot_steps (conf ?n base k (mt_acc st1) (side_holders ?o opposing {} + ?R))
        (conf (?n + 1) base k ac2 (side_holders ?o opposing {} + side_holders ?s b {})) \<and> own_ok k owner ac2"
      by (rule post_order_slots [OF posted(7) [unfolded e]]) (use m g sd t in auto)
    moreover have "book_holders ob' = side_holders ?s b {} + side_holders ?o opposing {}"
      unfolding posted(9) book_holders_split [of _ ?s] by simp
    ultimately show ?thesis using m posted(11) by (auto simp: add.commute intro: steps_trans)
  qed
qed

end
