(* ===== verification/Backing.thy ===== *)
theory Backing
  imports Readiness Handlers
begin

text \<open>
  The backing of a market over all its instructions: what each of them needs of the state it finds
  (\<open>ready\<close>), and that none of them lowers what the vaults hold above the claims on them.
\<close>

section \<open>Cancelling and placing several orders\<close>

lemma check_place_all_vaults:
  assumes "check_place_all cx m oo = Ok ()"
  shows "ta_key (pa_market_base_vault cx) = market_base_vault m"
    and "ta_key (pa_market_quote_vault cx) = market_quote_vault m"
  using assms by (simp_all add: check_place_all_def all_ok_eq_Inr res_simps)

lemma cancel_all_and_place_surplus:
  assumes laws: "token_laws rt bal"
    and c: "cancel_all_and_place_orders rt ck opl_res cx cancel orders lim w = Ok (ids, w')"
    and rd: "placing_ready cx w" and ty: "\<forall>order \<in> set orders. order_typed order"
    and ck: "ck_unix_timestamp ck \<le> I64_MAX"
    and v: "vaults_ok (w_market w)" and chk: "check_place_all cx (w_market w) (w_ooa w) = Ok ()"
    and u: "not_vault (w_market w) (ta_key (pa_user_base_account cx))"
      "not_vault (w_market w) (ta_key (pa_user_quote_account cx))"
  shows "surplus bal t w' = surplus bal t w"
proof (rule cancel_all_and_place_steps [OF c])
  let ?k = "pa_open_orders_account cx"
  fix now_ts opl n ob0 oo0 b q ob ac oo db pa1 m1 dq pa2 m2 pa3 tok1 tok2
  assume now: "clock_u64 ck = Ok now_ts"
    and ca: "(if cancel then cancel_all_orders (w_book w) (w_ooa w) (w_market w) U8_MAX None None
           else Ok (0, w_book w, w_ooa w)) = Ok (n, ob0, oo0)"
    and pl: "place_each cx now_ts lim opl orders 0 0 [] ob0 (world_accounts ?k (w\<lparr>w_ooa := oo0\<rparr>)) =
      Ok (b, q, ids, ob, ac)"
    and p1: "pay_for_order Ask b (oo_position oo) (ac_market ac) = Ok (db, pa1, m1)"
    and p2: "pay_for_order Bid q pa1 m1 = Ok (dq, pa2, m2)"
    and t1: "token_transfer rt dq (ta_key (pa_user_quote_account cx))
             (ta_key (pa_market_quote_vault cx)) (pa_signer cx) (w_tokens w) = Ok tok1"
    and t2: "token_transfer rt db (ta_key (pa_user_base_account cx))
             (ta_key (pa_market_base_vault cx)) (pa_signer cx) tok1 = Ok tok2"
    and w': "w' = \<lparr>w_market = m2, w_book = ob, w_heap = ac_heap ac, w_ooa = oo\<lparr>oo_position := pa3\<rparr>,
         w_remaining = give_back ?k (oo\<lparr>oo_position := pa3\<rparr>) (ac_remaining ac), w_tokens = tok2\<rparr>"
  have ts: "0 \<le> now_ts" "now_ts + U16_MAX \<le> U64_MAX"
    using now ck by (auto simp: clock_u64_def res_simps is_u64_def int_limits)
  have "traders_ready ?k ob0 (world_accounts ?k (w\<lparr>w_ooa := oo0\<rparr>))"
    using ca cancel_all_ready [of w U8_MAX n ob0 oo0 ?k t] rd by (cases cancel) (auto simp: placing_ready_def)
  then have tm: "same_terms (w_market w) (ac_market ac)"
    using place_each_claims [OF pl _ ty ts, of t] by (simp add: world_accounts_def)
  note po1 = pay_for_order_ok [OF p1] and po2 = pay_for_order_ok [OF p2]
  have vk: "vault_of t m2 = vault_of t (w_market w)"
    using po1(5,6) po2(5,6) tm by (intro same_vaults) (simp_all add: same_terms_def)
  have dt: "deposit_total t (ac_market ac) = deposit_total t (w_market w)"
    using tm by (cases t) (simp_all add: same_terms_def deposit_total_def)
  note vlt = check_place_all_vaults [OF chk]
  show ?thesis
    using token_transfer_moves(1) [OF laws po2(7) t1, of "vault_of t (w_market w)"]
      token_transfer_moves(1) [OF laws po1(7) t2, of "vault_of t (w_market w)"]
      po1(1) [of t] po2(1) [of t] vk dt v u
    unfolding vlt by (cases t) (auto simp: surplus_def w' moved_def vault_of_def vaults_ok_def not_vault_def)
qed

section \<open>Editing\<close>

lemma cancel_step_surplus:
  assumes "cancel_step w w'"
  shows "surplus bal t w' = surplus bal t w"
  using assms by (auto simp: cancel_step_def surplus_def)

lemma cancel_step_ready_to_trade:
  assumes c: "cancel_step w w'" and rd: "traders_ready k (w_book w) (world_accounts k w)"
  shows "traders_ready k (w_book w') (world_accounts k w')"
proof -
  obtain ob oo where w': "w' = w\<lparr>w_book := ob, w_ooa := oo\<rparr>"
      and cs: "cancels (w_market w) (w_book w, w_ooa w) (ob, oo)" using c by (auto simp: cancel_step_def)
  have "world_accounts k w' = world_accounts k (w\<lparr>w_ooa := oo\<rparr>)" by (simp add: w' world_accounts_def)
  then show ?thesis using cancels_ready [OF cs rd] by (simp add: w')
qed

lemma ready_book: "traders_ready k (w_book w) (world_accounts k w) \<Longrightarrow> book_ready w"
  by (simp add: traders_ready_def book_ready_def world_accounts_def ac_fine_def)

lemma edit_order_split:
  assumes "edit_order rt ck opl cx cid expected order lim w = Ok (oid, w')" and "book_ready w"
  obtains (cancelled) "cancel_step w w'"
    | (placed) w1 mb where "cancel_step w w1"
      "place_order rt ck opl cx (order\<lparr>o_max_base_lots := mb\<rparr>) lim w1 = Ok (oid, w')"
proof -
  obtain n w1 where c: "cancel_order_by_client_order_id cid w = Ok (n, w1)"
      and rest: "(if expected - n > 0 \<and> o_max_base_lots order > expected - n then
          bnd (chk_i64 (o_max_base_lots order - (expected - n))) (\<lambda>mb.
          place_order rt ck opl cx (order\<lparr>o_max_base_lots := mb\<rparr>) lim w1)
        else Ok (None, w1)) = Ok (oid, w')"
    using assms(1) by (auto simp: edit_order_def res_simps)
  have "cancel_step w w1" using cancel_instr_steps(3) [OF assms(2) c] .
  then show thesis using rest that by (auto simp: res_simps split: if_splits)
qed

text \<open>Placing an order keeps the backing as it is.\<close>

lemma place_order_backing:
  assumes laws: "token_laws rt bal" and p: "place_order rt ck opl cx order lim w = Ok (oid, w')"
    and rd: "traders_ready (po_open_orders_account cx) (w_book w) (world_accounts (po_open_orders_account cx) w)"
    and o: "order_typed order"
    and v: "vaults_ok (w_market w)" and u: "not_vault (w_market w) (ta_key (po_user_token_account cx))"
  shows "backing bal t (po_open_orders_account cx) w' = backing bal t (po_open_orders_account cx) w"
proof -
  have "check_order_lots order = Ok ()" using p by (auto simp: place_order_def bnd_eq_Inr)
  then have "order_ok order" using o by (auto simp: check_order_lots_def order_ok_def order_typed_def res_simps)
  note tr = traders_ready_trade [OF rd this o]
  show ?thesis
    unfolding backing_split using place_order_surplus [OF laws p tr v u] place_order_slack [OF p tr] by simp
qed

lemma edit_order_backing:
  assumes laws: "token_laws rt bal" and e: "edit_order rt ck opl cx cid expected order lim w = Ok (oid, w')"
    and rd: "traders_ready (po_open_orders_account cx) (w_book w) (world_accounts (po_open_orders_account cx) w)"
    and o: "order_typed order"
    and v: "vaults_ok (w_market w)" and u: "not_vault (w_market w) (ta_key (po_user_token_account cx))"
  shows "backing bal t (po_open_orders_account cx) w' = backing bal t (po_open_orders_account cx) w"
  using e ready_book [OF rd]
proof (cases rule: edit_order_split)
  case cancelled
  then show ?thesis unfolding backing_split using cancel_step_surplus cancel_step_slack by metis
next
  case (placed w1 mb)
  have m: "w_market w1 = w_market w" using placed(1) by (auto simp: cancel_step_def)
  have "order_typed (order\<lparr>o_max_base_lots := mb\<rparr>)"
    using o by (simp add: order_typed_def price_param_ok_def order_peg_limit_def)
  from place_order_backing [OF laws placed(2) cancel_step_ready_to_trade [OF placed(1) rd] this, of t] show ?thesis
    using m v u cancel_step_surplus [OF placed(1), of bal t] cancel_step_slack [OF placed(1), of t]
    by (simp add: backing_split)
qed

section \<open>All instructions\<close>

text \<open>The account an instruction acts for, the token accounts it draws from, and its arguments
  within their machine types.\<close>

fun account_of :: "instruction \<Rightarrow> pubkey option" where
  "account_of (PlaceOrder cx args) = Some (po_open_orders_account cx)"
| "account_of (PlaceOrderPegged cx args) = Some (po_open_orders_account cx)"
| "account_of (EditOrder cx cid sz args) = Some (po_open_orders_account cx)"
| "account_of (EditOrderPegged cx cid sz args) = Some (po_open_orders_account cx)"
| "account_of (PlaceOrders cx ty bs as lim) = Some (pa_open_orders_account cx)"
| "account_of (CancelAllAndPlaceOrders cx ty bs as lim) = Some (pa_open_orders_account cx)"
| "account_of (CancelOrder cx k) = Some (co_open_orders_account cx)"
| "account_of (CancelOrderByClientOrderId cx cid) = Some (co_open_orders_account cx)"
| "account_of (CancelAllOrders cx so lim) = Some (co_open_orders_account cx)"
| "account_of (Deposit cx b q) = Some (dp_open_orders_account cx)"
| "account_of (Refill cx b q) = Some (dp_open_orders_account cx)"
| "account_of (SettleFunds cx) = Some (sf_open_orders_account cx)"
| "account_of (SettleFundsExpired cx) = Some (sf_open_orders_account (se_accounts cx))"
| "account_of (PruneOrders cx lim) = Some (pr_open_orders_account cx)"
| "account_of _ = None"

fun pays_from :: "instruction \<Rightarrow> pubkey list" where
  "pays_from (PlaceOrder cx args) = [ta_key (po_user_token_account cx)]"
| "pays_from (PlaceOrderPegged cx args) = [ta_key (po_user_token_account cx)]"
| "pays_from (EditOrder cx cid sz args) = [ta_key (po_user_token_account cx)]"
| "pays_from (EditOrderPegged cx cid sz args) = [ta_key (po_user_token_account cx)]"
| "pays_from (PlaceOrders cx ty bs as lim) =
     [ta_key (pa_user_base_account cx), ta_key (pa_user_quote_account cx)]"
| "pays_from (CancelAllAndPlaceOrders cx ty bs as lim) =
     [ta_key (pa_user_base_account cx), ta_key (pa_user_quote_account cx)]"
| "pays_from (PlaceTakeOrder cx args) = [ta_key (pt_user_base_account cx), ta_key (pt_user_quote_account cx)]"
| "pays_from (Deposit cx b q) = [ta_key (dp_user_base_account cx), ta_key (dp_user_quote_account cx)]"
| "pays_from (Refill cx b q) = [ta_key (dp_user_base_account cx), ta_key (dp_user_quote_account cx)]"
| "pays_from _ = []"

fun args_typed :: "instruction \<Rightarrow> bool" where
  "args_typed (PlaceOrder cx args) \<longleftrightarrow>
     is_i64 (a_price_lots args) \<and> is_i64 (a_max_quote_lots_including_fees args)"
| "args_typed (EditOrder cx cid sz args) \<longleftrightarrow>
     is_i64 (a_price_lots args) \<and> is_i64 (a_max_quote_lots_including_fees args)"
| "args_typed (PlaceOrderPegged cx args) \<longleftrightarrow> is_i64 (pg_max_quote_lots_including_fees args)"
| "args_typed (EditOrderPegged cx cid sz args) \<longleftrightarrow> is_i64 (pg_max_quote_lots_including_fees args)"
| "args_typed (PlaceOrders cx ty bs as lim) \<longleftrightarrow>
     (\<forall>a \<in> set (bs @ as). is_i64 (mu_price_lots a) \<and> is_i64 (mu_max_quote_lots_including_fees a))"
| "args_typed (CancelAllAndPlaceOrders cx ty bs as lim) \<longleftrightarrow>
     (\<forall>a \<in> set (bs @ as). is_i64 (mu_price_lots a) \<and> is_i64 (mu_max_quote_lots_including_fees a))"
| "args_typed (PlaceTakeOrder cx args) \<longleftrightarrow> is_i64 (tk_max_quote_lots_including_fees args)"
| "args_typed (Deposit cx b q) \<longleftrightarrow> is_u64 b \<and> is_u64 q"
| "args_typed (Refill cx b q) \<longleftrightarrow> is_u64 b \<and> is_u64 q"
| "args_typed _ \<longleftrightarrow> True"

text \<open>The state an instruction finds. One on an open-orders account finds a sound book whose
  orders are in slots of their side, as far as their accounts are loaded; a taker without one finds
  no order of its own; the consumer of events finds the slots of the fills.\<close>

definition taker_ready :: "pubkey \<Rightarrow> 's world \<Rightarrow> bool" where
  "taker_ready k w \<longleftrightarrow> sound_book (w_book w) \<and> market_ok (w_market w) \<and>
     (\<forall>s. (\<forall>l \<in> leaves_of (bookside (w_book w) s). maker_leaf_ok True k l) \<and>
       ac_fine s (leaves_of (bookside (w_book w) s)) (market_accounts w))"

definition ready :: "instruction \<Rightarrow> 's world \<Rightarrow> bool" where
  "ready i w \<longleftrightarrow> (case account_of i of
     Some k \<Rightarrow> traders_ready k (w_book w) (world_accounts k w)
   | None \<Rightarrow> (case i of
       PlaceTakeOrder cx args \<Rightarrow> taker_ready (pt_signer cx) w
     | ConsumeEvents cx lim \<Rightarrow> events_ready (market_accounts w)
     | ConsumeGivenEvents cx slots \<Rightarrow> events_ready (market_accounts w)
     | _ \<Rightarrow> True))"

definition backs :: "('s \<Rightarrow> pubkey \<Rightarrow> int) \<Rightarrow> side \<Rightarrow> instruction \<Rightarrow> 's world \<Rightarrow> int" where
  "backs bal t i w = (case account_of i of Some k \<Rightarrow> backing bal t k w | None \<Rightarrow> taker_backing bal t w)"

text \<open>Orders built from typed arguments are typed.\<close>

lemma tif_typed: "tif_from_clock ck e = Ok (Some t) \<Longrightarrow> 0 \<le> t \<and> t \<le> U16_MAX"
  using tif_bounds [of _ e] by (fastforce simp: tif_from_clock_def clock_u64_def res_simps is_u64_def)

lemma order_of_args_typed:
  assumes o: "order_of_args args t = Ok order" and t: "0 \<le> t \<and> t \<le> U16_MAX"
    and a: "is_i64 (a_price_lots args)" "is_i64 (a_max_quote_lots_including_fees args)"
  shows "order_typed order"
proof -
  obtain p where p: "params_of_type (a_order_type args) (a_price_lots args) = Ok p"
    and e: "order = \<lparr>o_side = a_side args, o_max_base_lots = a_max_base_lots args,
         o_max_quote_lots_including_fees = a_max_quote_lots_including_fees args,
         o_client_order_id = a_client_order_id args, o_time_in_force = t,
         o_self_trade_behavior = a_self_trade_behavior args, o_params = p\<rparr>"
    using o by (auto simp: order_of_args_def bnd_eq_Inr)
  have "(case p of FixedParams q ty \<Rightarrow> is_i64 q | _ \<Rightarrow> True) \<and> (\<forall>q ty l. p \<noteq> OraclePeggedParams q ty l)"
    using p a(1) by (auto simp: params_of_type_def res_simps split: place_order_type.splits)
  then show ?thesis
    using t a(2) by (auto simp: e order_typed_def price_param_ok_def order_peg_limit_def split: order_params.splits)
qed

lemma order_of_pegged_args_typed:
  assumes "order_of_pegged_args args t = Ok order" and "0 \<le> t \<and> t \<le> U16_MAX"
    and "is_i64 (pg_max_quote_lots_including_fees args)" and "0 < pg_peg_limit args"
  shows "order_typed order"
  using assms by (auto simp: order_of_pegged_args_def bnd_eq_Inr order_typed_def price_param_ok_def order_peg_limit_def)

lemma orders_of_typed:
  assumes "orders_of ck ty n i args = Ok orders"
    and "\<forall>a \<in> set args. is_i64 (mu_price_lots a) \<and> is_i64 (mu_max_quote_lots_including_fees a)"
  shows "\<forall>order \<in> set orders. order_typed order"
  using assms
proof (induction ck ty n i args arbitrary: orders rule: orders_of.induct)
  case (1 ck ty n i)
  then show ?case by simp
next
  case (2 ck ty n i a args)
  obtain tif where r: "require (mu_price_lots a \<ge> 1) InvalidInputPriceLots = Ok ()"
      and tif: "tif_from_clock ck (mu_expiry_timestamp a) = Ok tif"
    using "2.prems"(1) by (auto simp: bnd_eq_Inr)
  show ?case
  proof (cases tif)
    case None
    then show ?thesis using "2.IH"(1) [OF r tif None] "2.prems" r tif by simp
  next
    case (Some t)
    obtain p os where p: "params_of_type ty (mu_price_lots a) = Ok p"
        and os: "orders_of ck ty n (Suc i) args = Ok os"
        and e: "orders = \<lparr>o_side = (if i < n then Bid else Ask), o_max_base_lots = I64_MIN,
              o_max_quote_lots_including_fees = mu_max_quote_lots_including_fees a,
              o_client_order_id = int i, o_time_in_force = t,
              o_self_trade_behavior = CancelProvide, o_params = p\<rparr> # os"
      using "2.prems"(1) r tif Some by (auto simp: bnd_eq_Inr)
    have "(case p of FixedParams q ty \<Rightarrow> is_i64 q | _ \<Rightarrow> True) \<and> (\<forall>q ty l. p \<noteq> OraclePeggedParams q ty l)"
      using p "2.prems"(2) by (auto simp: params_of_type_def res_simps split: place_order_type.splits)
    then have "order_typed (hd orders)"
      using tif_typed [OF tif [unfolded Some]] "2.prems"(2)
      by (auto simp: e order_typed_def price_param_ok_def order_peg_limit_def split: order_params.splits)
    then show ?thesis using "2.IH"(2) [OF r tif Some p os] "2.prems"(2) by (simp add: e)
  qed
qed

text \<open>No instruction lowers the backing of either token.\<close>

lemma cancel_step_backing: "cancel_step w w' \<Longrightarrow> backing bal t k w' = backing bal t k w"
  by (simp add: backing_split cancel_step_surplus cancel_step_slack)

lemma deposit_backing:
  assumes laws: "token_laws rt bal" and d: "ix_deposit rt ck cx b q w = Ok w' \<or> ix_refill rt ck cx b q w = Ok w'"
    and a: "is_u64 b" "is_u64 q" and v: "vaults_ok (w_market w)"
    and u: "not_vault (w_market w) (ta_key (dp_user_base_account cx))"
      "not_vault (w_market w) (ta_key (dp_user_quote_account cx))"
  shows "backing bal t k w' = backing bal t k w"
proof -
  have c: "check_deposit cx (w_market w) (w_ooa w) = Ok ()"
    using d by (auto simp: ix_deposit_def ix_refill_def bnd_eq_Inr)
  obtain b' q' where d': "deposit rt ck cx b' q' w = Ok w'" and "0 \<le> b'" "0 \<le> q'"
  proof (cases "ix_deposit rt ck cx b q w = Ok w'")
    case True
    then have "deposit rt ck cx b q w = Ok w'" by (auto simp: ix_deposit_def bnd_eq_Inr)
    then show thesis by (rule that) (use a in \<open>simp_all add: is_u64_def\<close>)
  next
    case False
    then have "refill rt ck cx b q w = Ok w'" using d by (auto simp: ix_refill_def bnd_eq_Inr)
    then show thesis unfolding refill_def Let_def by (rule that) simp_all
  qed
  then show ?thesis
    unfolding backing_split using deposit_surplus [OF laws d' _ _ v u c] deposit_slack [OF d'] by simp
qed

lemma place_many_backing:
  assumes laws: "token_laws rt bal"
    and c: "cancel_all_and_place_orders rt ck opl cx cancel orders lim w = Ok (ids, w')"
    and os: "orders_of ck ty n i args = Ok orders"
    and a: "\<forall>a \<in> set args. is_i64 (mu_price_lots a) \<and> is_i64 (mu_max_quote_lots_including_fees a)"
    and ck: "ck_unix_timestamp ck \<le> I64_MAX"
    and rd: "traders_ready (pa_open_orders_account cx) (w_book w) (world_accounts (pa_open_orders_account cx) w)"
    and v: "vaults_ok (w_market w)" and chk: "check_place_all cx (w_market w) (w_ooa w) = Ok ()"
    and u: "not_vault (w_market w) (ta_key (pa_user_base_account cx))"
      "not_vault (w_market w) (ta_key (pa_user_quote_account cx))"
  shows "backing bal t (pa_open_orders_account cx) w' = backing bal t (pa_open_orders_account cx) w"
proof -
  have r: "placing_ready cx w" using rd by (simp add: placing_ready_def)
  note ty = orders_of_typed [OF os a]
  show ?thesis
    unfolding backing_split
    using cancel_all_and_place_surplus [OF laws c r ty ck v chk u] cancel_all_and_place_slack [OF c r ty ck] by simp
qed

lemma settle_backing:
  assumes laws: "token_laws rt bal" and s: "settle_funds rt cx w = Ok w'" and typed: "world_typed w"
    and v: "vaults_ok (w_market w)"
    and c: "ta_key (sf_market_base_vault cx) = market_base_vault (w_market w)"
      "ta_key (sf_market_quote_vault cx) = market_quote_vault (w_market w)"
  shows "backing bal t k w \<le> backing bal t k w'"
proof -
  have "0 \<le> base_free_native (oo_position (w_ooa w))" "0 \<le> quote_free_native (oo_position (w_ooa w))"
    using typed by (simp_all add: world_typed_def account_typed_def position_typed_def is_u64_def)
  from settle_funds_surplus [OF laws s this v c] show ?thesis
    unfolding backing_split using settle_funds_slack [OF s] by simp
qed

lemma check_settle_vaults:
  assumes "check_settle_funds cx m oo = Ok ()"
  shows "ta_key (sf_market_base_vault cx) = market_base_vault m"
    and "ta_key (sf_market_quote_vault cx) = market_quote_vault m"
  using assms by (simp_all add: check_settle_funds_def all_ok_eq_Inr res_simps)

lemma check_settle_expired_vaults:
  assumes "check_settle_expired ex m oo = Ok ()"
  shows "ta_key (sf_market_base_vault (se_accounts ex)) = market_base_vault m"
    and "ta_key (sf_market_quote_vault (se_accounts ex)) = market_quote_vault m"
  using assms by (simp_all add: check_settle_expired_def Let_def all_ok_eq_Inr res_simps)

lemma take_backing:
  assumes laws: "token_laws rt bal" and p: "ix_place_take_order rt ck opl cx args w = Ok w'"
    and rd: "taker_ready (pt_signer cx) w" and a: "is_i64 (tk_max_quote_lots_including_fees args)"
    and v: "vaults_ok (w_market w)" and u: "not_vault (w_market w) (ta_key (pt_user_base_account cx))"
      "not_vault (w_market w) (ta_key (pt_user_quote_account cx))"
  shows "taker_backing bal t w' = taker_backing bal t w"
proof -
  obtain order where c: "check_place_take_order cx (w_market w) = Ok ()"
      and o: "order_of_take_args args = Ok order"
      and t: "place_take_order rt ck opl cx order (tk_limit args) w = Ok w'"
    using p by (auto simp: ix_place_take_order_def bnd_eq_Inr)
  have l: "check_order_lots order = Ok ()" using t by (auto simp: place_take_order_def bnd_eq_Inr)
  obtain q where q: "params_of_take_type (tk_order_type args) (tk_price_lots args) = Ok q" "o_params order = q"
      "o_max_quote_lots_including_fees order = tk_max_quote_lots_including_fees args"
    using o by (auto simp: order_of_take_args_def bnd_eq_Inr)
  have "order_ok order" using l a q(3) by (auto simp: check_order_lots_def order_ok_def res_simps)
  moreover have "order_peg_limit order = -1"
    using q(1) unfolding order_peg_limit_def q(2)
    by (auto simp: params_of_take_type_def split: place_order_type.splits)
  ultimately have "trade_ready (w_book w) order (pt_signer cx) (market_accounts w)"
    using rd by (simp add: trade_ready_def taker_ready_def market_accounts_def)
  then show ?thesis
    unfolding taker_backing_split
    using place_take_order_surplus [OF laws t _ c v u] place_take_order_slack [OF t] by simp
qed

lemma consume_slots_terms:
  "consume_slots slots (m, h, accs) = Ok (m', h', accs') \<Longrightarrow> same_terms m m'"
proof (induction slots arbitrary: m h accs)
  case (Cons slot slots)
  obtain m1 h1 accs1 where c: "consume_slot slot (m, h, accs) = Ok (m1, h1, accs1)"
      and r: "consume_slots slots (m1, h1, accs1) = Ok (m', h', accs')"
    using Cons.prems by (auto simp: bnd_eq_Inr)
  have "same_terms m m1"
    using c by (auto simp: consume_slot_def apply_event_def bnd_eq_Inr dest: execute_maker_terms
        split: option.splits any_event.splits)
  then show ?case using Cons.IH [OF r] same_terms_trans by blast
qed simp

lemma consume_backing:
  assumes c: "consume_events lim slots w = Ok w'" and rd: "events_ready (market_accounts w)"
  shows "taker_backing bal t w' = taker_backing bal t w"
proof -
  have "surplus bal t w' = surplus bal t w"
  proof -
    obtain ss m h accs where "consume_slots ss (w_market w, w_heap w, w_remaining w) = Ok (m, h, accs)"
        and w': "w' = w\<lparr>w_market := m, w_heap := h, w_remaining := accs\<rparr>"
      using c by (auto simp: consume_events_def res_simps)
    then have "same_terms (w_market w) m" using consume_slots_terms by blast
    then show ?thesis by (cases t) (simp_all add: w' surplus_def same_terms_def vault_of_def deposit_total_def)
  qed
  then show ?thesis unfolding taker_backing_split using consume_events_slack [OF c rd] by simp
qed

text \<open>The entry points that place one order: either nothing happens, or a typed order is placed or
  edited.\<close>

lemma place_entries:
  assumes "ix_place_order rt ck opl cx args w = Ok (oid, w') \<and> is_i64 (a_price_lots args) \<and>
      is_i64 (a_max_quote_lots_including_fees args) \<or>
    ix_place_order_pegged rt ck opl cx pargs w = Ok (oid, w') \<and> is_i64 (pg_max_quote_lots_including_fees pargs)"
  obtains "w' = w" | order lim where "order_typed order" "place_order rt ck opl cx order lim w = Ok (oid, w')"
  using assms
proof
  assume p: "ix_place_order rt ck opl cx args w = Ok (oid, w') \<and> is_i64 (a_price_lots args) \<and>
      is_i64 (a_max_quote_lots_including_fees args)"
  then obtain tif where t: "tif_from_clock ck (a_expiry_timestamp args) = Ok tif"
      and r: "(case tif of None \<Rightarrow> Ok (None, w) | Some t \<Rightarrow>
         bnd (order_of_args args t) (\<lambda>order. place_order rt ck opl cx order (a_limit args) w)) = Ok (oid, w')"
    by (auto simp: ix_place_order_def bnd_eq_Inr)
  show thesis
    using r that p order_of_args_typed tif_typed t by (cases tif) (auto simp: bnd_eq_Inr, blast)
next
  assume p: "ix_place_order_pegged rt ck opl cx pargs w = Ok (oid, w') \<and>
      is_i64 (pg_max_quote_lots_including_fees pargs)"
  then obtain tif where t: "tif_from_clock ck (pg_expiry_timestamp pargs) = Ok tif" and l: "0 < pg_peg_limit pargs"
      and r: "(case tif of None \<Rightarrow> Ok (None, w) | Some t \<Rightarrow>
         bnd (order_of_pegged_args pargs t) (\<lambda>order. place_order rt ck opl cx order (pg_limit pargs) w)) = Ok (oid, w')"
    by (auto simp: ix_place_order_pegged_def bnd_eq_Inr require_def split: if_splits)
  show thesis
    using r that p l order_of_pegged_args_typed tif_typed t by (cases tif) (auto simp: bnd_eq_Inr, blast)
qed

lemma edit_entries:
  assumes "ix_edit_order rt ck opl cx cid sz args w = Ok (oid, w') \<and> is_i64 (a_price_lots args) \<and>
      is_i64 (a_max_quote_lots_including_fees args) \<or>
    ix_edit_order_pegged rt ck opl cx cid sz pargs w = Ok (oid, w') \<and> is_i64 (pg_max_quote_lots_including_fees pargs)"
  obtains "w' = w" | order lim where "order_typed order" "edit_order rt ck opl cx cid sz order lim w = Ok (oid, w')"
  using assms
proof
  assume p: "ix_edit_order rt ck opl cx cid sz args w = Ok (oid, w') \<and> is_i64 (a_price_lots args) \<and>
      is_i64 (a_max_quote_lots_including_fees args)"
  then obtain tif where t: "tif_from_clock ck (a_expiry_timestamp args) = Ok tif"
      and r: "(case tif of None \<Rightarrow> Ok (None, w) | Some t \<Rightarrow>
         bnd (order_of_args args t) (\<lambda>order. edit_order rt ck opl cx cid sz order (a_limit args) w)) = Ok (oid, w')"
    by (auto simp: ix_edit_order_def bnd_eq_Inr)
  show thesis
    using r that p order_of_args_typed tif_typed t by (cases tif) (auto simp: bnd_eq_Inr, blast)
next
  assume p: "ix_edit_order_pegged rt ck opl cx cid sz pargs w = Ok (oid, w') \<and>
      is_i64 (pg_max_quote_lots_including_fees pargs)"
  then obtain tif where t: "tif_from_clock ck (pg_expiry_timestamp pargs) = Ok tif" and l: "0 < pg_peg_limit pargs"
      and r: "(case tif of None \<Rightarrow> Ok (None, w) | Some t \<Rightarrow>
         bnd (order_of_pegged_args pargs t) (\<lambda>order. edit_order rt ck opl cx cid sz order (pg_limit pargs) w)) = Ok (oid, w')"
    by (auto simp: ix_edit_order_pegged_def bnd_eq_Inr require_def split: if_splits)
  show thesis
    using r that p l order_of_pegged_args_typed tif_typed t by (cases tif) (auto simp: bnd_eq_Inr, blast)
qed

text \<open>Instructions that touch no open-orders account.\<close>

lemma market_slack:
  assumes m: "same_rates (w_market w) (w_market w')" and h: "w_heap w' = w_heap w"
    and r: "w_remaining w' = w_remaining w"
    and d: "deposit_total t (w_market w') - deposit_total t (w_market w) =
      market_claim t (w_market w') - market_claim t (w_market w)"
  shows "slack t (market_accounts w') = slack t (market_accounts w)"
  using d same_rates_claims [OF m, of t] h r by (simp add: slack_def market_accounts_def claims_def)

lemma sweep_fees_backing:
  assumes laws: "token_laws rt bal" and s: "sweep_fees rt cx w = Ok w'"
    and c: "check_sweep_fees cx (w_market w) = Ok ()"
    and typed: "world_typed w" and v: "vaults_ok (w_market w)"
  shows "taker_backing bal t w \<le> taker_backing bal t w'"
proof -
  have "0 \<le> fees_available (w_market w)"
    using typed by (simp add: world_typed_def market_typed_def is_u64_def)
  note sur = sweep_fees_surplus [OF laws s this v c, of t]
  have "slack t (market_accounts w') = slack t (market_accounts w)"
    using s by (elim sweep_fees_steps; intro market_slack; cases t)
      (simp_all add: same_rates_def deposit_total_def market_claim_def)
  then show ?thesis unfolding taker_backing_split using sur by simp
qed

lemma ready_account:
  "account_of i = Some k \<Longrightarrow> ready i w \<Longrightarrow> traders_ready k (w_book w) (world_accounts k w)"
  by (simp add: ready_def)

lemma backs_account:
  "account_of i = Some k \<Longrightarrow> backing bal t k w' = backing bal t k w \<Longrightarrow> backs bal t i w \<le> backs bal t i w'"
  by (simp add: backs_def)

lemma run_backs:
  assumes laws: "token_laws rt bal" and r: "run rt ck opl i w = Ok w'"
    and rd: "ready i w" and typed: "world_typed w" "args_typed i" "ck_unix_timestamp ck \<le> I64_MAX"
    and v: "vaults_ok (w_market w)" and u: "\<forall>k \<in> set (pays_from i). not_vault (w_market w) k"
  shows "backs bal t i w \<le> backs bal t i w'"
proof (cases i)
  case (PlaceOrder cx args)
  then obtain oid where p: "ix_place_order rt ck opl cx args w = Ok (oid, w') \<and> is_i64 (a_price_lots args) \<and>
      is_i64 (a_max_quote_lots_including_fees args)" using r typed(2) by (auto simp: res_simps)
  have k: "account_of i = Some (po_open_orders_account cx)" using PlaceOrder by simp
  from p show ?thesis
    by (elim place_entries [OF disjI1])
      (use PlaceOrder place_order_backing [OF laws _ ready_account [OF k rd] _ v] u in
        \<open>auto simp: backs_def\<close>)
next
  case (PlaceOrderPegged cx args)
  then obtain oid where p: "ix_place_order_pegged rt ck opl cx args w = Ok (oid, w') \<and>
      is_i64 (pg_max_quote_lots_including_fees args)" using r typed(2) by (auto simp: res_simps)
  have k: "account_of i = Some (po_open_orders_account cx)" using PlaceOrderPegged by simp
  from p show ?thesis
    by (elim place_entries [OF disjI2])
      (use PlaceOrderPegged place_order_backing [OF laws _ ready_account [OF k rd] _ v] u in
        \<open>auto simp: backs_def\<close>)
next
  case (EditOrder cx cid sz args)
  then obtain oid where p: "ix_edit_order rt ck opl cx cid sz args w = Ok (oid, w') \<and> is_i64 (a_price_lots args) \<and>
      is_i64 (a_max_quote_lots_including_fees args)" using r typed(2) by (auto simp: res_simps)
  have k: "account_of i = Some (po_open_orders_account cx)" using EditOrder by simp
  from p show ?thesis
    by (elim edit_entries [OF disjI1])
      (use EditOrder edit_order_backing [OF laws _ ready_account [OF k rd] _ v] u in
        \<open>auto simp: backs_def\<close>)
next
  case (EditOrderPegged cx cid sz args)
  then obtain oid where p: "ix_edit_order_pegged rt ck opl cx cid sz args w = Ok (oid, w') \<and>
      is_i64 (pg_max_quote_lots_including_fees args)" using r typed(2) by (auto simp: res_simps)
  have k: "account_of i = Some (po_open_orders_account cx)" using EditOrderPegged by simp
  from p show ?thesis
    by (elim edit_entries [OF disjI2])
      (use EditOrderPegged edit_order_backing [OF laws _ ready_account [OF k rd] _ v] u in
        \<open>auto simp: backs_def\<close>)
next
  case (PlaceOrders cx ty bs as lim)
  then obtain orders ids where chk: "check_place_all cx (w_market w) (w_ooa w) = Ok ()"
      and os: "orders_of ck ty (length bs) 0 (bs @ as) = Ok orders"
      and c: "cancel_all_and_place_orders rt ck opl cx False orders lim w = Ok (ids, w')"
    using r by (auto simp: ix_place_orders_def drop_result_Ok bnd_eq_Inr)
  have k: "account_of i = Some (pa_open_orders_account cx)" using PlaceOrders by simp
  show ?thesis
    using place_many_backing [OF laws c os _ typed(3) ready_account [OF k rd] v chk] typed(2) u PlaceOrders
    by (intro backs_account [OF k]) auto
next
  case (CancelAllAndPlaceOrders cx ty bs as lim)
  then obtain orders ids where chk: "check_place_all cx (w_market w) (w_ooa w) = Ok ()"
      and os: "orders_of ck ty (length bs) 0 (bs @ as) = Ok orders"
      and c: "cancel_all_and_place_orders rt ck opl cx True orders lim w = Ok (ids, w')"
    using r by (auto simp: ix_cancel_all_and_place_orders_def drop_result_Ok bnd_eq_Inr)
  have k: "account_of i = Some (pa_open_orders_account cx)" using CancelAllAndPlaceOrders by simp
  show ?thesis
    using place_many_backing [OF laws c os _ typed(3) ready_account [OF k rd] v chk] typed(2) u
      CancelAllAndPlaceOrders
    by (intro backs_account [OF k]) auto
next
  case (PlaceTakeOrder cx args)
  then show ?thesis
    using take_backing [OF laws, of ck opl cx args w w' t] r rd typed(2) v u by (simp add: backs_def ready_def)
next
  case (ConsumeEvents cx lim)
  then have "consume_events lim None w = Ok w'" using r by (auto simp: ix_consume_events_def bnd_eq_Inr)
  from consume_backing [OF this, of bal t] show ?thesis using rd ConsumeEvents by (simp add: backs_def ready_def)
next
  case (ConsumeGivenEvents cx slots)
  then have "consume_events (length slots) (Some slots) w = Ok w'"
    using r by (auto simp: ix_consume_given_events_def bnd_eq_Inr)
  from consume_backing [OF this, of bal t] show ?thesis using rd ConsumeGivenEvents by (simp add: backs_def ready_def)
next
  case (CancelOrder cx key)
  then have c: "cancel_order_instr cx key w = Ok w'" using r by (auto simp: ix_cancel_order_def bnd_eq_Inr)
  have k: "account_of i = Some (co_open_orders_account cx)" using CancelOrder by simp
  show ?thesis
    by (intro backs_account [OF k] cancel_step_backing cancel_instr_steps(1) [OF ready_book [OF ready_account [OF k rd]] c])
next
  case (CancelOrderByClientOrderId cx cid)
  then obtain n where c: "cancel_order_by_client_order_id cid w = Ok (n, w')"
    using r by (auto simp: ix_cancel_order_by_client_order_id_def drop_result_Ok bnd_eq_Inr)
  have k: "account_of i = Some (co_open_orders_account cx)" using CancelOrderByClientOrderId by simp
  show ?thesis
    by (intro backs_account [OF k] cancel_step_backing cancel_instr_steps(3) [OF ready_book [OF ready_account [OF k rd]] c])
next
  case (CancelAllOrders cx so lim)
  then have c: "cancel_all_orders_instr so lim w = Ok w'" using r by (auto simp: ix_cancel_all_orders_def bnd_eq_Inr)
  have k: "account_of i = Some (co_open_orders_account cx)" using CancelAllOrders by simp
  show ?thesis
    by (intro backs_account [OF k] cancel_step_backing cancel_instr_steps(2) [OF ready_book [OF ready_account [OF k rd]] c])
next
  case (PruneOrders cx lim)
  then have c: "prune_orders ck lim w = Ok w'" using r by (auto simp: ix_prune_orders_def bnd_eq_Inr)
  have k: "account_of i = Some (pr_open_orders_account cx)" using PruneOrders by simp
  show ?thesis
    by (intro backs_account [OF k] cancel_step_backing cancel_instr_steps(4) [OF ready_book [OF ready_account [OF k rd]] c])
next
  case (Deposit cx b q)
  then show ?thesis
    using deposit_backing [OF laws, of ck cx b q w w'] r typed(2) v u by (intro backs_account) auto
next
  case (Refill cx b q)
  then show ?thesis
    using deposit_backing [OF laws, of ck cx b q w w'] r typed(2) v u by (intro backs_account) auto
next
  case (SettleFunds cx)
  then have c: "check_settle_funds cx (w_market w) (w_ooa w) = Ok ()" and s: "settle_funds rt cx w = Ok w'"
    using r by (auto simp: ix_settle_funds_def bnd_eq_Inr)
  show ?thesis
    using settle_backing [OF laws s typed(1) v check_settle_vaults [OF c]] SettleFunds by (simp add: backs_def)
next
  case (SettleFundsExpired ex)
  then have c: "check_settle_expired ex (w_market w) (w_ooa w) = Ok ()"
      and s: "settle_funds rt (se_accounts ex) w = Ok w'"
    using r by (auto simp: ix_settle_funds_expired_def settle_funds_expired_def to_settle_funds_def bnd_eq_Inr)
  show ?thesis
    using settle_backing [OF laws s typed(1) v check_settle_expired_vaults [OF c]] SettleFundsExpired
    by (simp add: backs_def)
next
  case (SweepFees cx)
  then have c: "check_sweep_fees cx (w_market w) = Ok ()" and s: "sweep_fees rt cx w = Ok w'"
    using r by (auto simp: ix_sweep_fees_def bnd_eq_Inr)
  show ?thesis using sweep_fees_backing [OF laws s c typed(1) v] SweepFees by (simp add: backs_def)
next
  case (SetMarketExpired k)
  then obtain m where m: "set_market_expired ck (w_market w) = Ok m" and w': "w' = w\<lparr>w_market := m\<rparr>"
    using r by (auto simp: ix_set_market_expired_def bnd_eq_Inr)
  have e: "m = (w_market w)\<lparr>time_expiry := -1\<rparr>"
    using m by (auto simp: set_market_expired_def bnd_eq_Inr)
  have "slack t (market_accounts w') = slack t (market_accounts w)"
    by (rule market_slack; cases t) (simp_all add: w' e same_rates_def deposit_total_def market_claim_def)
  moreover have "surplus bal t w' = surplus bal t w"
    by (cases t) (simp_all add: w' e surplus_def deposit_total_def vault_of_def)
  ultimately show ?thesis using SetMarketExpired by (simp add: backs_def taker_backing_split)
next
  case (SetDelegate k d)
  then show ?thesis
    using r by (auto simp: backs_def taker_backing_def market_accounts_def res_simps)
qed

end
