(* ===== verification/Held_Orders.thy ===== *)
theory Held_Orders
  imports Slots_Book Backing
begin

text \<open>
  The invariant of a market with all its accounts, whether an instruction has loaded them or not:
  a sound book, sound events, and the machine of slots in order. It gives what an instruction needs
  of the state it finds, and new orders, cancellations and consumed events keep it.
\<close>

section \<open>The counter of orders\<close>

lemma execute_maker_seq: "execute_maker fill m oo = Ok (oo', m') \<Longrightarrow> seq_num m' = seq_num m"
  by (auto simp: execute_maker_def account_maker_volume_def Let_def res_simps)

lemma process_out_event_seq: "process_out_event ev owner ac = Ok ac' \<Longrightarrow> seq_num (ac_market ac') = seq_num (ac_market ac)"
  by (auto dest: process_out_event_terms)

lemma process_fill_event_seq:
  "process_fill_event ev n ac = Ok (n', ac') \<Longrightarrow> seq_num (ac_market ac') = seq_num (ac_market ac)"
  by (auto simp: process_fill_event_def res_simps dest: execute_maker_seq split: option.splits if_splits)

lemma match_step_seq:
  assumes "match_step order owner now_ts price_lots best st = Ok r"
  shows "seq_num (ac_market (mt_acc (flow_state r))) = seq_num (ac_market (mt_acc st))"
  using assms
proof (cases rule: match_step_cases)
  case stop
  then show ?thesis by auto
next
  case (drop st')
  have "seq_num (ac_market (mt_acc st')) = seq_num (ac_market (mt_acc st))"
    using drop(1) process_out_event_seq by (auto simp: drop_invalid_def res_simps split: if_splits)
  then show ?thesis using drop(2) by simp
next
  case (trade q mb s)
  show ?thesis
  proof (cases s)
    case (SkipMatch st')
    from trade(8) [unfolded SkipMatch] show ?thesis
      by (cases rule: self_trade_cases) (use trade(9) SkipMatch in auto)
  next
    case (Proceed st')
    have e: "mt_acc st' = mt_acc st" using trade(8) [unfolded Proceed] by (cases rule: self_trade_cases) auto
    have "fill_order order owner now_ts best mb (mb * item_price_lots best) st' = Ok (flow_state r)"
      using trade(9) Proceed by simp
    then show ?thesis by (rule fill_order_steps) (use e process_fill_event_seq in auto)
  qed
qed

lemma take_step_seq: "take_step order mq st = Ok (tk, st1) \<Longrightarrow> seq_num (ac_market (mt_acc st1)) = seq_num (ac_market (mt_acc st))"
  by (cases "ac_ooa (mt_acc st)"; cases "o_side order")
    (auto simp: take_step_def taker_fees_step_def execute_taker_def Let_def res_simps split: if_splits)

lemma make_room_seq:
  assumes "make_room order owner now_ts orc price_lots tgt b ac = Ok (b', ac')"
  shows "seq_num (ac_market ac') = seq_num (ac_market ac)"
proof -
  obtain expired ac1 where
      1: "(case expired of Some l \<Rightarrow> process_out_event (out_event_of (o_side order) l now_ts (ac_heap ac)) owner ac
        | None \<Rightarrow> Ok ac) = Ok ac1"
    and 2: "ac' = ac1 \<or> (\<exists>ev. process_out_event ev owner ac1 = Ok ac')"
    using assms by (auto simp: make_room_def Let_def bnd_eq_Inr split: if_splits)
  then show ?thesis using process_out_event_seq by (cases expired) auto
qed

lemma new_order_seq:
  assumes "new_order ob order owner now_ts lim opl ac = Ok (r, ob', ac')"
  shows "seq_num (ac_market ac') = seq_num (ac_market ac) + 1"
proof -
  have m: "seq_num (ac_market (mt_acc st1)) = seq_num m1" if
      "match_order order owner now_ts opl price_lots b (start_match order mq lim (ac\<lparr>ac_market := m1\<rparr>)) = Ok st"
      "take_step order mq st = Ok (tk, st1)" for price_lots b mq m1 st st1 tk
    using match_order_invariant [OF that(1), of "\<lambda>x. seq_num (ac_market (mt_acc x)) = seq_num m1"]
      match_step_seq take_step_seq [OF that(2)] by (simp add: start_match_def)
  from assms show ?thesis
  proof (cases rule: new_order_book)
    case unposted
    then show ?thesis using m gen_order_id_new by metis
  next
    case (posted price_lots p_data order_id m1 max_quote st tk st1 opposing base_lots c mf pb pq b ac2)
    have "seq_num (ac_market ac2) = seq_num (ac_market (mt_acc st1))"
      by (rule post_order_accounts [OF posted(7)]) (auto dest: make_room_seq)
    then show ?thesis using m [OF posted(3,4)] gen_order_id_new [OF posted(2)] posted(11) by simp
  qed
qed

section \<open>The invariant\<close>

definition pegs_ok :: "orderbook \<Rightarrow> bool" where
  "pegs_ok ob \<longleftrightarrow> (\<forall>s. \<forall>l \<in> leaves_of (bookside ob s). peg_limit l = -1 \<or> 0 \<le> peg_limit l)"

definition orders_held :: "market \<Rightarrow> orderbook \<Rightarrow> event_heap \<Rightarrow> account_map \<Rightarrow> bool" where
  "orders_held m ob h A \<longleftrightarrow> machine_ok (seq_num m, slots_in A, book_holders ob + heap_holders h)"

definition state_ok :: "market \<Rightarrow> orderbook \<Rightarrow> event_heap \<Rightarrow> account_map \<Rightarrow> bool" where
  "state_ok m ob h A \<longleftrightarrow> market_ok m \<and> sound_book ob \<and> pegs_ok ob \<and> heap_fine h \<and>
     (\<forall>k oo. A k = Some oo \<longrightarrow> account_ok oo) \<and> orders_held m ob h A"

lemma leaves_holder:
  assumes "l \<in> leaves_of (bookside ob s)"
  shows "\<exists>c. leaf_holder s c l \<in># book_holders ob"
proof -
  obtain c where "l \<in> set (side_orders (bookside ob s) c)" using assms by (auto simp: leaves_of_def)
  then have "leaf_holder s c l \<in># side_holders s (bookside ob s) {}"
    unfolding side_holders_other [of s _ _ c] by (auto simp: tree_holders_def)
  then show ?thesis unfolding book_holders_split [of ob s] by auto
qed

text \<open>The slot of an order on the book, or of one that is leaving.\<close>

lemma held_slot:
  assumes "state_ok m ob h A" and "g \<in># book_holders ob + heap_holders h"
  obtains oo where "A (at_key (place_of g)) = Some oo" "slot_side (side_of g) (at_slot (place_of g)) oo"
proof -
  have "machine_ok (seq_num m, slots_in A, book_holders ob + heap_holders h)"
    using assms(1) by (simp add: state_ok_def orders_held_def)
  from machine_holder [OF this assms(2)] obtain x where
    "slots_in A (place_of g) = Some x" "sat_side (oo_side_and_tree x) = side_of g" by blast
  then show thesis using that
    by (auto simp: slots_in_def acc_slot_def slot_side_def split: option.splits if_splits)
qed

lemma leaf_slot:
  assumes "state_ok m ob h A" and "l \<in> leaves_of (bookside ob s)"
  obtains oo where "A (leaf_owner l) = Some oo" "slot_side s (owner_slot l) oo"
proof -
  obtain c where "leaf_holder s c l \<in># book_holders ob + heap_holders h" using leaves_holder [OF assms(2)] by auto
  from held_slot [OF assms(1) this] show thesis using that by auto
qed

lemma event_holder:
  assumes "x \<in> set (heap_queue h)" and "g \<in># event_holders (fst x)"
  shows "g \<in># heap_holders h"
proof -
  have "g \<in># sum_list (map f xs)" if "x \<in> set xs" "g \<in># f x" for f :: "slotted \<Rightarrow> holder multiset" and xs
    using that by (induction xs) auto
  then show ?thesis using assms by (simp add: heap_holders_def)
qed

section \<open>What an instruction finds\<close>

lemma state_ok_loaded:
  assumes ok: "state_ok (ac_market ac) ob (ac_heap ac) (account_at base k ac)" and o: "own_ok k owner ac"
    and m: "map_of (ac_remaining ac) k' = Some (OpenOrdersAcc oo)"
  shows "account_at base k ac k' = Some oo" and "account_ok oo"
proof -
  show "account_at base k ac k' = Some oo"
    by (rule account_at_other [OF m]) (use o m in \<open>auto simp: own_ok_def shut_def\<close>)
  then show "account_ok oo" using ok by (auto simp: state_ok_def)
qed

lemma state_ok_fine:
  assumes ok: "state_ok (ac_market ac) ob (ac_heap ac) (account_at base k ac)" and o: "own_ok k owner ac"
  shows "ac_fine s (leaves_of (bookside ob s)) ac"
proof -
  have "slot_side s (owner_slot l) oo"
    if "l \<in> leaves_of (bookside ob s)" "map_of (ac_remaining ac) (leaf_owner l) = Some (OpenOrdersAcc oo)" for l oo
    using leaf_slot [OF ok that(1)] state_ok_loaded(1) [OF ok o that(2)] by auto
  moreover have "account_ok oo" if "ac_ooa ac = Some oo" for oo
    using ok account_at_here [OF that, of base k] by (auto simp: state_ok_def)
  ultimately show ?thesis
    using ok state_ok_loaded(2) [OF ok o] by (auto simp: ac_fine_def state_ok_def)
qed

lemma state_ok_traders_ready:
  assumes "state_ok (ac_market ac) ob (ac_heap ac) (account_at base k ac)" and "own_ok k owner ac" and "ac_ooa ac \<noteq> None"
  shows "traders_ready k ob ac"
  using assms state_ok_fine [OF assms(1,2)] by (auto simp: traders_ready_def state_ok_def pegs_ok_def own_ok_def)

lemma state_ok_trade_ready:
  assumes ok: "state_ok (ac_market ac) ob (ac_heap ac) (account_at base k ac)" and o: "own_ok k owner ac"
    and t: "ac_ooa ac = None \<Longrightarrow> account_at base k ac owner = None"
    and ord: "order_ok order" "order_peg_limit order = -1 \<or> 0 \<le> order_peg_limit order"
  shows "trade_ready ob order owner ac"
proof -
  have "maker_leaf_ok (ac_ooa ac = None) owner l" if l: "l \<in> leaves_of (bookside ob s)" for s l
  proof -
    have "sound_side (bookside ob s)" using ok by (simp add: state_ok_def sound_book_def)
    then have "1 \<le> quantity l" using l by (auto simp: sound_side_def leaves_of_def)
    moreover obtain oo where "account_at base k ac (leaf_owner l) = Some oo" by (rule leaf_slot [OF ok l])
    then have "ac_ooa ac = None \<longrightarrow> leaf_owner l \<noteq> owner" using t by (metis option.distinct(1))
    moreover have "peg_limit l = -1 \<or> 0 \<le> peg_limit l" using ok l unfolding state_ok_def pegs_ok_def by blast
    ultimately show ?thesis by (simp add: maker_leaf_ok_def)
  qed
  then show ?thesis using ok ord state_ok_fine [OF ok o] by (simp add: trade_ready_def state_ok_def)
qed

lemma state_ok_events_ready:
  assumes ok: "state_ok (ac_market ac) ob (ac_heap ac) (account_at base k ac)" and o: "own_ok k owner ac"
  shows "events_ready ac"
proof -
  have "event_ok (ac_remaining ac) (fst x)" if x: "x \<in> set (heap_queue (ac_heap ac))" for x
  proof -
    have fine: "event_fine (fst x)" using ok x by (simp add: state_ok_def heap_fine_def)
    show ?thesis
    proof (cases "fst x")
      case (OutEv out)
      then show ?thesis using fine by (simp add: event_ok_def event_fine_def)
    next
      case (FillEv f)
      let ?g = "Leaving (At (fe_maker f) (fe_maker_slot f)) (invert_side (fe_taker_side f))"
      have "slot_side (invert_side (fe_taker_side f)) (fe_maker_slot f) oo"
        if "fe_maker_out f" "map_of (ac_remaining ac) (fe_maker f) = Some (OpenOrdersAcc oo)" for oo
      proof -
        have "?g \<in># book_holders ob + heap_holders (ac_heap ac)"
          using event_holder [OF x, of ?g] FillEv that(1) by (simp add: event_holders_def)
        from held_slot [OF ok this] show ?thesis using state_ok_loaded(1) [OF ok o that(2)] by auto
      qed
      then show ?thesis using fine FillEv by (simp add: event_ok_def event_fine_def)
    qed
  qed
  then show ?thesis
    using ok state_ok_loaded(2) [OF ok o] by (auto simp: events_ready_def state_ok_def heap_fine_def)
qed

end
