(* ===== verification/Held_Steps.thy ===== *)
theory Held_Steps
  imports Held_Orders
begin

text \<open>
  New orders, cancellations, consumed events and moves of funds keep the invariant of the market and
  its accounts.
\<close>

section \<open>A new order\<close>

lemma evolves_unloaded:
  assumes "evolves ac ac'" and "\<forall>oo. map_of (ac_remaining ac') k \<noteq> Some (OpenOrdersAcc oo)"
  shows "map_of (ac_remaining ac) k \<noteq> Some (OpenOrdersAcc oo)"
  using assms unfolding evolves_def by blast

lemma account_at_cases:
  assumes "account_at base k ac x = Some oo"
  obtains (own) "x = k" "ac_ooa ac = Some oo"
    | (loaded) "map_of (ac_remaining ac) x = Some (OpenOrdersAcc oo)"
    | (unloaded) "x = k \<longrightarrow> ac_ooa ac = None" "\<forall>oo. map_of (ac_remaining ac) x \<noteq> Some (OpenOrdersAcc oo)" "base x = Some oo"
  using assms by (auto simp: account_at_def split: if_splits option.splits remaining_acc.splits)

lemma account_at_unloaded:
  "x = k \<longrightarrow> ac_ooa ac = None \<Longrightarrow> \<forall>oo. map_of (ac_remaining ac) x \<noteq> Some (OpenOrdersAcc oo) \<Longrightarrow>
   account_at base k ac x = base x"
  by (auto simp: account_at_def split: option.splits remaining_acc.splits)

lemma new_order_state:
  assumes n: "new_order ob order owner now_ts lim opl ac = Ok (r, ob', ac')"
    and ok: "state_ok (ac_market ac) ob (ac_heap ac) (account_at base k ac)" and o: "own_ok k owner ac"
    and t: "ac_ooa ac = None \<Longrightarrow> account_at base k ac owner = None"
    and ord: "order_ok order" "price_param_ok order" "order_peg_limit order = -1 \<or> 0 \<le> order_peg_limit order"
    and ts: "times_ok order now_ts"
  shows "state_ok (ac_market ac') ob' (ac_heap ac') (account_at base k ac') \<and> own_ok k owner ac' \<and>
    (ac_ooa ac' = None \<longleftrightarrow> ac_ooa ac = None)"
proof -
  have rd: "trade_ready ob order owner ac" by (rule state_ok_trade_ready [OF ok o t ord(1,3)])
  note cl = new_order_claims [OF n rd, of Bid]
  have sound: "sound_book ob" using ok by (simp add: state_ok_def)
  note sl = new_order_slots [OF n o sound ts, of base]
  have ev: "evolves ac ac'" by (rule new_order_evolves [OF n])
  have mk: "market_ok (ac_market ac')"
    using same_terms_market_ok [of "ac_market ac" "ac_market ac'"] cl ok by (simp add: state_ok_def)
  have sb: "sound_book ob'" using new_order_sound [OF n sound ts ord(2)] by simp
  have pegs: "pegs_ok ob'"
  proof -
    have "peg_limit l = -1 \<or> 0 \<le> peg_limit l" if "l \<in> leaves_of (bookside ob' s)" for s l
      using new_order_leaves [OF n sound ts that] ok ord(3) unfolding state_ok_def pegs_ok_def by metis
    then show ?thesis by (simp add: pegs_ok_def)
  qed
  have "ac_fine (invert_side (o_side order)) (leaves_of (bookside ob (invert_side (o_side order)))) ac'"
    using cl by simp
  then have fine: "heap_fine (ac_heap ac')" "\<And>oo. ac_ooa ac' = Some oo \<Longrightarrow> account_ok oo"
      "\<And>x oo. map_of (ac_remaining ac') x = Some (OpenOrdersAcc oo) \<Longrightarrow> account_ok oo"
    by (auto simp: ac_fine_def)
  have acc: "account_ok oo" if "account_at base k ac' x = Some oo" for x oo
    using that
  proof (cases rule: account_at_cases)
    case unloaded
    then have "account_at base k ac x = Some oo"
      using account_at_unloaded [of x k ac base] evolves_unloaded [OF ev] cl by simp
    then show ?thesis using ok by (auto simp: state_ok_def)
  qed (use fine in auto)
  have "machine_ok (conf (seq_num (ac_market ac) + 1) base k ac' (book_holders ob'))"
    by (rule slot_steps_ok [OF conjunct1 [OF sl]]) (use ok in \<open>simp add: state_ok_def orders_held_def conf_def\<close>)
  then have "orders_held (ac_market ac') ob' (ac_heap ac') (account_at base k ac')"
    using new_order_seq [OF n] by (simp add: orders_held_def conf_def)
  then show ?thesis using mk sb pegs fine(1) acc sl cl by (auto simp: state_ok_def)
qed

section \<open>Moves of funds\<close>

text \<open>What happens to funds, fees and volumes does not matter.\<close>

lemma state_ok_cong:
  assumes ok: "state_ok m ob h A" and mk: "market_ok m'" "seq_num m' = seq_num m"
    and a: "\<And>k. map_option open_orders (A' k) = map_option open_orders (A k)"
  shows "state_ok m' ob h A'"
proof -
  have "slots_in A' p = slots_in A p" for p
  proof (cases "A (at_key p)")
    case None
    then show ?thesis using a [of "at_key p"] by (simp add: slots_in_def)
  next
    case (Some oo)
    then obtain oo' where "A' (at_key p) = Some oo'" "open_orders oo' = open_orders oo"
      using a [of "at_key p"] by auto
    then show ?thesis using Some acc_slot_same [of oo' oo] by (simp add: slots_in_def)
  qed
  then have "slots_in A' = slots_in A" by (rule ext)
  moreover have "account_ok oo" if k: "A' k = Some oo" for k oo
  proof -
    obtain oo0 where "A k = Some oo0" "open_orders oo0 = open_orders oo" using a [of k] k by (cases "A k") auto
    then show ?thesis using ok by (auto simp: state_ok_def account_ok_def)
  qed
  ultimately show ?thesis using ok mk by (simp add: state_ok_def orders_held_def)
qed

lemma state_ok_steps:
  assumes ok: "state_ok m ob h A"
    and st: "slot_steps (seq_num m, slots_in A, book_holders ob + heap_holders h)
      (seq_num m', slots_in A', book_holders ob' + heap_holders h')"
    and "market_ok m'" "sound_book ob'" "pegs_ok ob'" "heap_fine h'" "\<forall>k oo. A' k = Some oo \<longrightarrow> account_ok oo"
  shows "state_ok m' ob' h' A'"
  using assms slot_steps_ok [OF st] by (simp add: state_ok_def orders_held_def)

section \<open>Cancelling\<close>

lemma pegs_ok_subset:
  "pegs_ok ob \<Longrightarrow> \<forall>s. leaves_of (bookside ob' s) \<subseteq> leaves_of (bookside ob s) \<Longrightarrow> pegs_ok ob'"
  unfolding pegs_ok_def by blast

lemma cancel_order_state:
  assumes c: "cancel_order ob oo (oo_id x) (oo_side_and_tree x) m eo = Ok (leaf, ob', oo')"
    and x: "acc_slot oo i = Some x" and ok: "state_ok m ob h (A(k := Some oo))"
  shows "state_ok m ob' h (A(k := Some oo'))"
proof -
  let ?s = "sat_side (oo_side_and_tree x)" and ?c = "sat_order_tree (oo_side_and_tree x)"
  let ?A = "A(k := Some oo)"
  have sound: "sound_book ob" and mk: "market_ok m" and ak: "account_ok oo"
    using ok by (auto simp: state_ok_def split: if_splits)
  have g: "good_side (bookside ob ?s)" using sound by (simp add: sound_book_def sound_side_def)
  note cs = cancel_order_cancels [OF c sound ak mk]
  from sound show ?thesis
  proof (cases rule: cancel_order_cases [of ob "oo_id x" "oo_side_and_tree x" oo m eo])
    case absent
    then show ?thesis using c by simp
  next
    case (present l b')
    then have sl: "cancel_slot (owner_slot l) (quantity l) m oo = Ok oo'"
        and ob': "ob' = set_bookside ?s b' ob"
      using c [unfolded present(4)] by (auto simp: res_simps split: if_splits)
    have l: "l \<in> set (side_orders (bookside ob ?s) ?c)" "leaf_key l = oo_id x"
      using find_order_in [OF present(1)] by simp_all
    let ?h = "leaf_holder ?s ?c l" and ?R = "side_holders (invert_side ?s) (bookside ob (invert_side ?s)) {} + heap_holders h"
    have take: "side_holders ?s (bookside ob ?s) {} = add_mset ?h (side_holders ?s b' {})"
      using side_holders_take [OF g l(1), of "{}" ?s] side_holders_delete [of "bookside ob ?s" ?c "leaf_key l" b' ?s "{}"]
        present(2) l(2) by simp
    have bo: "book_holders ob + heap_holders h = add_mset ?h (side_holders ?s b' {} + ?R)"
      unfolding book_holders_split [of ob ?s] take by simp
    have bo': "book_holders ob' + heap_holders h = side_holders ?s b' {} + ?R"
      unfolding book_holders_split [of ob' ?s] by (simp add: ob')
    have mo: "machine_ok (seq_num m, slots_in ?A, add_mset ?h (side_holders ?s b' {} + ?R))"
      using ok by (simp add: state_ok_def orders_held_def bo)
    have rs: "Resting (place_of ?h) ?s ?c (oo_id x) \<in># add_mset ?h (side_holders ?s b' {} + ?R)"
      using l(2) by (simp add: leaf_holder_def)
    have "At k i = place_of ?h"
    proof (rule machine_resting [OF mo rs])
      assume un: "\<And>q y. slots_in ?A q = Some y \<Longrightarrow> oo_id y = oo_id x \<Longrightarrow>
        sat_side (oo_side_and_tree y) = ?s \<Longrightarrow> q = place_of ?h"
      show ?thesis by (rule un [of _ x]) (use x in \<open>simp_all add: slots_in_def\<close>)
    qed
    then have own: "leaf_owner l = k" "owner_slot l = i" by simp_all
    have "slots_in (A(k := Some oo')) = (slots_in ?A)(place_of ?h := None)"
      using slots_in_free [of ?A k oo oo' i] acc_slot_free [OF cancel_slot_orders [OF sl]] own by simp
    then have "slot_step (seq_num m, slots_in ?A, book_holders ob + heap_holders h)
        (seq_num m, slots_in (A(k := Some oo')), book_holders ob' + heap_holders h)"
      unfolding bo bo' using slot_step.free [of "seq_num m" "slots_in ?A" ?h] by simp
    then show ?thesis
      by (intro state_ok_steps [OF ok steps_one])
        (use cs ok mk pegs_ok_subset [of ob ob'] in \<open>auto simp: cancels_def state_ok_def split: if_splits\<close>)
  qed
qed

lemma cancel_all_loop_state:
  assumes "cancel_all_loop i m lim so co tot ob oo = Ok (tot', ob', oo')"
    and "state_ok m ob h (A(k := Some oo))"
  shows "state_ok m ob' h (A(k := Some oo'))"
  using assms
proof (induction i m lim so co tot ob oo rule: cancel_all_loop.induct)
  case (1 i m lim so co tot ob oo)
  note step = "1.prems"(1) [unfolded cancel_all_loop.simps [of i]]
  show ?case
  proof (cases "i \<ge> MAX_OPEN_ORDERS")
    case True
    then show ?thesis using step "1.prems"(2) by simp
  next
    case i: False
    then obtain o1 where o1: "arr_get (open_orders oo) i = Ok o1" using step by (auto simp: res_simps)
    let ?skip = "oo_is_free o1 \<or>
      (case so of Some s \<Rightarrow> s \<noteq> sat_side (oo_side_and_tree o1) | None \<Rightarrow> False) \<or>
      (case co of Some c \<Rightarrow> c \<noteq> oo_client_id o1 | None \<Rightarrow> False)"
    show ?thesis
    proof (cases "?skip \<or> lim = 0")
      case True
      then show ?thesis using step i o1 "1.IH"(1) [OF i o1] "1.prems"(2) by (cases ?skip) simp_all
    next
      case False
      then have sk: "\<not> ?skip" "lim \<noteq> 0" by simp_all
      then have x: "acc_slot oo i = Some o1" using o1 by (auto simp: acc_slot_def res_simps)
      show ?thesis
      proof (cases "cancel_order ob oo (oo_id o1) (oo_side_and_tree o1) m None")
        case (Inl e)
        then have "e = Err OrderIdNotFound" using step i o1 sk by (simp split: if_splits)
        then show ?thesis using step i o1 sk Inl "1.IH"(2) [OF i o1 sk Inl] "1.prems"(2) by simp
      next
        case (Inr y)
        obtain leaf ob1 oo1 where y: "y = (leaf, ob1, oo1)" by (cases y)
        then obtain tot1 where t: "chk_i64 (tot + quantity leaf) = Ok tot1"
            "cancel_all_loop (Suc i) m (lim - 1) so co tot1 ob1 oo1 = Ok (tot', ob', oo')"
          using step i o1 sk Inr by (auto simp: res_simps)
        have "state_ok m ob1 h (A(k := Some oo1))"
          by (rule cancel_order_state [OF Inr [unfolded y] x "1.prems"(2)])
        then show ?thesis by (rule "1.IH"(3) [OF i o1 sk Inr y [symmetric] refl t])
      qed
    qed
  qed
qed

section \<open>Consuming events\<close>

lemma heap_holders_delete:
  assumes g: "good_heap h" and d: "delete_slot s h = Ok (e, h')" and a: "heap_at_slot h s = Some ev"
  shows "heap_holders h = event_holders ev + heap_holders h'"
proof -
  have "sum_list (map (\<lambda>x. event_holders (fst x)) xs) =
      event_holders e + sum_list (map (\<lambda>x. event_holders (fst x)) (filter (\<lambda>x. snd x \<noteq> s) xs))"
    if "distinct (map snd xs)" "(e, s) \<in> set xs" for xs
    using that
  proof (induction xs)
    case (Cons x xs)
    show ?case
    proof (cases "snd x = s")
      case True
      then have ns: "snd y \<noteq> s" if "y \<in> set xs" for y using distinct_key [OF Cons.prems(1) that] by simp
      then have "(e, s) \<notin> set xs" by force
      then have "x = (e, s)" using Cons.prems(2) by simp
      then show ?thesis using ns by (simp add: filter_id_conv)
    next
      case False
      then show ?thesis using Cons by (auto simp: add.left_commute)
    qed
  qed simp
  moreover have "inj_on snd (set (heap_queue h))" using heap_slots_distinct [OF g] by (simp add: distinct_map)
  then have "ev = e" if "(ev, s) \<in> set (heap_queue h)" "(e, s) \<in> set (heap_queue h)" for ev e
    using inj_onD [OF \<open>inj_on snd (set (heap_queue h))\<close>, of "(ev, s)" "(e, s)"] that by simp
  ultimately show ?thesis
    using delete_slot_claims [OF g d a, of "\<lambda>_. 0"] delete_slot_spec [OF g, of s] d heap_slots_distinct [OF g]
    by (auto simp: heap_holders_def split: if_splits)
qed

lemma conf_forget: "R' \<subseteq># R \<Longrightarrow> slot_steps (n, V, R) (n, V, R')"
  by (rule steps_one) (rule slot_step.forget)

lemma apply_event_slots:
  assumes ap: "apply_event ev m accs = Ok (Some (m', accs'))"
    and A: "\<And>k oo. map_of accs k = Some (OpenOrdersAcc oo) \<Longrightarrow> A k = Some oo"
  obtains k oo oo' where "map_of accs k = Some (OpenOrdersAcc oo)" "accs' = store_acc k oo' accs" "freed oo oo'"
    and "slot_steps (n, slots_in A, event_holders ev + R) (n, slots_in (A(k := Some oo')), R)"
    and "seq_num m' = seq_num m" "same_terms m m'"
proof (cases ev)
  case (OutEv out)
  then obtain oo oo' where k: "map_of accs (oe_owner out) = Some (OpenOrdersAcc oo)"
      and e: "cancel_slot (oe_owner_slot out) (oe_quantity out) m oo = Ok oo'"
      and a: "accs' = store_acc (oe_owner out) oo' accs" "m' = m"
    using ap by (auto simp: apply_event_def res_simps split: option.splits)
  note os = cancel_slot_orders [OF e]
  have "slot_steps (n, slots_in A, event_holders ev + R) (n, slots_in (A(oe_owner out := Some oo')), R)"
    using slots_in_free [of A "oe_owner out" oo oo' "oe_owner_slot out"] A [OF k] acc_slot_free [OF os] OutEv
      steps_one [OF slot_step.free [of n "slots_in A" "Leaving (At (oe_owner out) (oe_owner_slot out)) (oe_side out)" R]]
    by (simp add: event_holders_def)
  moreover have "freed oo oo'" using os by (auto simp: freed_def)
  ultimately show thesis using that k a by simp
next
  case (FillEv f)
  then obtain oo oo' where k: "map_of accs (fe_maker f) = Some (OpenOrdersAcc oo)"
      and e: "execute_maker f m oo = Ok (oo', m')" and a: "accs' = store_acc (fe_maker f) oo' accs"
    using ap by (auto simp: apply_event_def res_simps split: option.splits)
  note os = execute_maker_orders [OF e]
  have "slot_steps (n, slots_in A, event_holders ev + R) (n, slots_in (A(fe_maker f := Some oo')), R)"
  proof (cases "fe_maker_out f")
    case True
    then show ?thesis
      using slots_in_free [of A "fe_maker f" oo oo' "fe_maker_slot f"] A [OF k] acc_slot_free [of oo' oo] os FillEv
        steps_one [OF slot_step.free [of n "slots_in A"
          "Leaving (At (fe_maker f) (fe_maker_slot f)) (invert_side (fe_taker_side f))" R]]
      by (simp add: event_holders_def)
  next
    case False
    have "acc_slot oo' = acc_slot oo" by (rule acc_slot_same) (use os False in simp)
    then show ?thesis
      using slots_in_same [of A "fe_maker f" oo oo'] A [OF k] False FillEv by (simp add: event_holders_def)
  qed
  moreover have "freed oo oo'" using os by (auto simp: freed_def split: if_splits)
  ultimately show thesis using that k a execute_maker_seq [OF e] execute_maker_terms [OF e] by simp
qed

definition triple_at :: "account_map \<Rightarrow> market \<times> event_heap \<times> remaining_accs \<Rightarrow> account_map" where
  "triple_at base x = account_at base 0 (triple_accounts x)"

definition triple_ok :: "account_map \<Rightarrow> orderbook \<Rightarrow> market \<times> event_heap \<times> remaining_accs \<Rightarrow> bool" where
  "triple_ok base ob x \<longleftrightarrow> (case x of (m, h, accs) \<Rightarrow> state_ok m ob h (triple_at base x))"

lemma triple_at_loaded:
  "map_of accs k = Some (OpenOrdersAcc oo) \<Longrightarrow> triple_at base (m, h, accs) k = Some oo"
  unfolding triple_at_def by (rule account_at_other) (simp_all add: triple_accounts_def)

lemma triple_at_store:
  assumes "map_of accs k = Some (OpenOrdersAcc oo)"
  shows "triple_at base (m', h', store_acc k oo' accs) = (triple_at base (m, h, accs))(k := Some oo')"
proof -
  let ?ac = "triple_accounts (m, h, accs)"
  have "triple_at base (m', h', store_acc k oo' accs) =
      account_at base 0 (?ac\<lparr>ac_remaining := store_acc k oo' (ac_remaining ?ac)\<rparr>)"
    unfolding triple_at_def by (rule account_at_cong) (simp_all add: triple_accounts_def)
  also have "\<dots> = (account_at base 0 ?ac)(k := Some oo')"
    by (rule account_at_store) (use assms in \<open>simp_all add: triple_accounts_def\<close>)
  finally show ?thesis by (simp add: triple_at_def)
qed

lemma consume_slot_state:
  assumes c: "consume_slot slot x = Ok y" and ok: "triple_ok base ob x"
  shows "triple_ok base ob y"
proof -
  obtain m h accs where x: "x = (m, h, accs)" by (cases x)
  obtain ev a where ev: "heap_at_slot h slot = Some ev" and a: "apply_event ev m accs = Ok a"
    using c x by (auto simp: consume_slot_def res_simps)
  show ?thesis
  proof (cases a)
    case None
    then show ?thesis using c x ev a ok by (simp add: consume_slot_def)
  next
    case (Some ma)
    obtain m' accs' where ma: "ma = (m', accs')" by (cases ma)
    obtain e h' where d: "delete_slot slot h = Ok (e, h')" and y: "y = (m', h', accs')"
      using c x ev a Some ma by (auto simp: consume_slot_def res_simps)
    let ?A = "triple_at base x"
    have s: "state_ok m ob h ?A" using ok x by (simp add: triple_ok_def)
    have fine: "heap_fine h" and g: "good_heap h" using s by (simp_all add: state_ok_def heap_fine_def)
    have "\<And>k oo. map_of accs k = Some (OpenOrdersAcc oo) \<Longrightarrow> ?A k = Some oo"
      by (simp add: x triple_at_loaded)
    note ap = apply_event_slots [OF a [unfolded Some ma] this,
        where n = "seq_num m" and R = "book_holders ob + heap_holders h'"]
    show ?thesis
    proof (rule ap)
      fix k oo oo'
      assume k: "map_of accs k = Some (OpenOrdersAcc oo)" "accs' = store_acc k oo' accs" "freed oo oo'"
        and st: "slot_steps (seq_num m, slots_in ?A, event_holders ev + (book_holders ob + heap_holders h'))
          (seq_num m, slots_in (?A(k := Some oo')), book_holders ob + heap_holders h')"
        and m': "seq_num m' = seq_num m" "same_terms m m'"
      have h: "book_holders ob + heap_holders h = event_holders ev + (book_holders ob + heap_holders h')"
        using heap_holders_delete [OF g d ev] by simp
      have y_at: "triple_at base y = ?A(k := Some oo')" unfolding y k(2) x by (rule triple_at_store [OF k(1)])
      have "?A k = Some oo" using triple_at_loaded [OF k(1)] by (simp add: x)
      then have ak: "account_ok oo'" using freed_ok [OF k(3)] s by (auto simp: state_ok_def)
      have "heap_fine h'"
        using delete_slot_claims [OF g d ev, of "\<lambda>_. 0"] fine by (auto simp: heap_fine_def)
      moreover have "market_ok m'" using same_terms_market_ok [OF m'(2)] s by (simp add: state_ok_def)
      moreover have "slot_steps (seq_num m, slots_in ?A, book_holders ob + heap_holders h)
          (seq_num m', slots_in (?A(k := Some oo')), book_holders ob + heap_holders h')"
        using st unfolding h m'(1) .
      ultimately have "state_ok m' ob h' (?A(k := Some oo'))"
        by (intro state_ok_steps [OF s]) (use s ak in \<open>auto simp: state_ok_def\<close>)
      then show ?thesis using y y_at by (simp add: triple_ok_def)
    qed
  qed
qed

lemma consume_slots_state:
  "consume_slots slots x = Ok y \<Longrightarrow> triple_ok base ob x \<Longrightarrow> triple_ok base ob y"
proof (induction slots arbitrary: x)
  case (Cons slot slots)
  then obtain z where z: "consume_slot slot x = Ok z" "consume_slots slots z = Ok y" by (auto simp: bnd_eq_Inr)
  show ?case by (rule Cons.IH [OF z(2) consume_slot_state [OF z(1) Cons.prems(2)]])
qed simp

end
