(* ===== verification/Held_Run.thy ===== *)
theory Held_Run
  imports Held_Steps
begin

text \<open>
  Every instruction keeps the invariant of the market and its accounts, the accounts that are
  loaded, and the terms of the market.
\<close>

section \<open>Worlds\<close>

definition world_at :: "account_map \<Rightarrow> pubkey option \<Rightarrow> 's world \<Rightarrow> account_map" where
  \<comment> \<open>all accounts, for an instruction on one of them or on none\<close>
  "world_at base own w = (case own of
     Some k \<Rightarrow> account_at base k (world_accounts k w)
   | None \<Rightarrow> account_at base 0 (market_accounts w))"

definition world_ok :: "account_map \<Rightarrow> pubkey option \<Rightarrow> 's world \<Rightarrow> bool" where
  "world_ok base own w \<longleftrightarrow> state_ok (w_market w) (w_book w) (w_heap w) (world_at base own w)"

definition same_setup :: "market \<Rightarrow> market \<Rightarrow> bool" where
  "same_setup m m' \<longleftrightarrow> base_lot_size m' = base_lot_size m \<and> quote_lot_size m' = quote_lot_size m \<and>
     maker_fee m' = maker_fee m \<and> taker_fee m' = taker_fee m \<and>
     market_base_vault m' = market_base_vault m \<and> market_quote_vault m' = market_quote_vault m"

definition loads :: "accounts \<Rightarrow> pubkey set" where
  "loads ac = {x. \<exists>oo. map_of (ac_remaining ac) x = Some (OpenOrdersAcc oo)}"

definition accounts_of :: "pubkey option \<Rightarrow> 's world \<Rightarrow> accounts" where
  "accounts_of own w = (case own of Some k \<Rightarrow> world_accounts k w | None \<Rightarrow> market_accounts w)"

definition kept :: "account_map \<Rightarrow> pubkey option \<Rightarrow> 's world \<Rightarrow> 's world \<Rightarrow> bool" where
  "kept base own w w' \<longleftrightarrow> world_ok base own w' \<and> same_setup (w_market w) (w_market w') \<and>
     loads (accounts_of own w') = loads (accounts_of own w)"

lemma same_setup_refl [simp]: "same_setup m m"
  by (simp add: same_setup_def)

lemma same_setup_trans: "same_setup a b \<Longrightarrow> same_setup b c \<Longrightarrow> same_setup a c"
  by (simp add: same_setup_def)

lemma same_terms_setup: "same_terms m m' \<Longrightarrow> same_setup m m'"
  by (simp add: same_terms_def same_setup_def)

lemma same_setup_market_ok: "same_setup m m' \<Longrightarrow> market_ok m \<Longrightarrow> market_ok m'"
  by (simp add: same_setup_def market_ok_def fee_ok_def)

lemma evolves_loads: "evolves ac ac' \<Longrightarrow> loads ac' = loads ac"
  unfolding evolves_def loads_def by blast

lemma own_ok_world: "heap_fine (w_heap w) \<Longrightarrow> own_ok k k (world_accounts k w)"
  by (simp add: own_ok_def heap_fine_def) (simp add: world_accounts_def)

lemma own_ok_market: "heap_fine (w_heap w) \<Longrightarrow> own_ok k owner (market_accounts w)"
  by (simp add: own_ok_def heap_fine_def market_accounts_def)

lemma accounts_of_fields [simp]:
  "ac_market (world_accounts k w) = w_market w" "ac_heap (world_accounts k w) = w_heap w"
  "ac_ooa (world_accounts k w) = Some (w_ooa w)"
  "ac_market (market_accounts w) = w_market w" "ac_heap (market_accounts w) = w_heap w"
  "ac_ooa (market_accounts w) = None"
  by (simp_all add: world_accounts_def market_accounts_def)

lemma world_okD:
  assumes "world_ok base (Some k) w"
  shows "state_ok (ac_market (world_accounts k w)) (w_book w) (ac_heap (world_accounts k w))
      (account_at base k (world_accounts k w))" and "own_ok k k (world_accounts k w)"
proof -
  have s: "state_ok (w_market w) (w_book w) (w_heap w) (account_at base k (world_accounts k w))"
    using assms by (simp add: world_ok_def world_at_def)
  then show "own_ok k k (world_accounts k w)" by (intro own_ok_world) (simp add: state_ok_def)
  show "state_ok (ac_market (world_accounts k w)) (w_book w) (ac_heap (world_accounts k w))
      (account_at base k (world_accounts k w))" using s by simp
qed

lemma world_ok_ready: "world_ok base (Some k) w \<Longrightarrow> traders_ready k (w_book w) (world_accounts k w)"
  using state_ok_traders_ready [OF world_okD] by simp

lemma world_ok_taker:
  assumes "world_ok base None w"
  shows "state_ok (ac_market (market_accounts w)) (w_book w) (ac_heap (market_accounts w))
      (account_at base 0 (market_accounts w))" and "own_ok 0 owner (market_accounts w)"
proof -
  have s: "state_ok (w_market w) (w_book w) (w_heap w) (account_at base 0 (market_accounts w))"
    using assms by (simp add: world_ok_def world_at_def)
  then show "own_ok 0 owner (market_accounts w)" by (intro own_ok_market) (simp add: state_ok_def)
  show "state_ok (ac_market (market_accounts w)) (w_book w) (ac_heap (market_accounts w))
      (account_at base 0 (market_accounts w))" using s by simp
qed

text \<open>The account of an instruction can be told apart in the map.\<close>

lemma world_at_own: "world_at base (Some k) (w\<lparr>w_ooa := oo\<rparr>) = (world_at base (Some k) w)(k := Some oo)"
  by (auto simp: world_at_def account_at_def world_accounts_def fun_eq_iff)

lemma world_at_other [simp]:
  "world_at base own (w\<lparr>w_market := m\<rparr>) = world_at base own w"
  "world_at base own (w\<lparr>w_book := ob\<rparr>) = world_at base own w"
  "world_at base own (w\<lparr>w_tokens := tok\<rparr>) = world_at base own w"
  by (auto simp: world_at_def account_at_def world_accounts_def market_accounts_def fun_eq_iff split: option.split)

lemma world_at_self: "world_at base (Some k) w = (world_at base (Some k) w)(k := Some (w_ooa w))"
  by (auto simp: world_at_def account_at_def world_accounts_def fun_eq_iff)

lemma account_at_back:
  assumes "shut k ac"
  shows "account_at base k (world_accounts k \<lparr>w_market = m, w_book = ob, w_heap = h, w_ooa = oo,
      w_remaining = give_back k oo (ac_remaining ac), w_tokens = tok\<rparr>) = account_at base k (ac\<lparr>ac_ooa := Some oo\<rparr>)"
  by (auto simp: account_at_def world_accounts_def map_of_borrow_out fun_eq_iff)

lemma loads_back:
  assumes "shut k ac"
  shows "loads (world_accounts k \<lparr>w_market = m, w_book = ob, w_heap = h, w_ooa = oo,
      w_remaining = give_back k oo (ac_remaining ac), w_tokens = tok\<rparr>) = loads ac"
  using assms by (auto simp: loads_def world_accounts_def map_of_borrow_out shut_def split: if_splits)

text \<open>When an instruction on an account leaves the other accounts, the book and the heap alone and
  moves funds only, everything is kept.\<close>

lemma funds_kept:
  assumes ok: "world_ok base (Some k) w" and m: "same_setup (w_market w) m" "seq_num m = seq_num (w_market w)"
    and oo: "open_orders oo = open_orders (w_ooa w)"
    and w': "w' = w\<lparr>w_market := m, w_ooa := oo, w_tokens := tok\<rparr>"
  shows "kept base (Some k) w w'"
proof -
  have s: "state_ok (w_market w) (w_book w) (w_heap w) (world_at base (Some k) w)" using ok by (simp add: world_ok_def)
  have "world_at base (Some k) w' = (world_at base (Some k) w)(k := Some oo)"
    by (simp add: w' world_at_def account_at_def world_accounts_def fun_eq_iff)
  moreover have "map_option open_orders (((world_at base (Some k) w)(k := Some oo)) x) =
      map_option open_orders (world_at base (Some k) w x)" for x
    using oo by (subst (2) world_at_self) simp
  moreover have "market_ok m" using same_setup_market_ok [OF m(1)] s by (simp add: state_ok_def)
  ultimately have "world_ok base (Some k) w'"
    using state_ok_cong [OF s, of m] m(2) by (simp add: world_ok_def w')
  moreover have "loads (world_accounts k w') = loads (world_accounts k w)" by (simp add: w' world_accounts_def loads_def)
  ultimately show ?thesis using m(1) by (simp add: kept_def accounts_of_def w')
qed

section \<open>Placing\<close>

lemma pay_for_order_setup:
  "pay_for_order side cost pa m = Ok (d, pa', m') \<Longrightarrow> same_setup m m' \<and> seq_num m' = seq_num m"
  by (cases side) (auto simp: pay_for_order_def Let_def res_simps same_setup_def)

text \<open>An instruction that ends by paying out of the account's funds.\<close>

lemma paid_kept:
  assumes s: "state_ok (ac_market ac) ob (ac_heap ac) (account_at base k ac)" and o: "own_ok k k ac"
    and own: "ac_ooa ac = Some oo" and ev: "loads ac = loads (world_accounts k w)"
    and m: "same_setup (w_market w) (ac_market ac)" "same_setup (ac_market ac) m" "seq_num m = seq_num (ac_market ac)"
    and w': "w' = \<lparr>w_market = m, w_book = ob, w_heap = ac_heap ac, w_ooa = oo\<lparr>oo_position := pa\<rparr>,
      w_remaining = give_back k (oo\<lparr>oo_position := pa\<rparr>) (ac_remaining ac), w_tokens = tok\<rparr>"
  shows "kept base (Some k) w w'"
proof -
  have sh: "shut k ac" using o own by (simp add: own_ok_def)
  have at: "world_at base (Some k) w' = (account_at base k ac)(k := Some (oo\<lparr>oo_position := pa\<rparr>))"
    unfolding world_at_def w' using account_at_own [of ac base k] own by (simp add: account_at_back [OF sh])
  have "state_ok m ob (ac_heap ac) (world_at base (Some k) w')"
  proof (rule state_ok_cong [OF s])
    show "market_ok m" using same_setup_market_ok [OF m(2)] s by (simp add: state_ok_def)
    show "map_option open_orders (world_at base (Some k) w' x) = map_option open_orders (account_at base k ac x)" for x
      using account_at_here [OF own, of base k] by (simp add: at)
  qed (rule m(3))
  then have "world_ok base (Some k) w'" by (simp add: world_ok_def w')
  moreover have "loads (world_accounts k w') = loads (world_accounts k w)"
    using ev by (simp add: w' loads_back [OF sh])
  moreover have "w_market w' = m" by (simp add: w')
  ultimately show ?thesis using same_setup_trans [OF m(1,2)] by (simp add: kept_def accounts_of_def)
qed

lemma clock_times:
  assumes "clock_u64 ck = Ok now_ts" and "ck_unix_timestamp ck \<le> I64_MAX" and "order_typed order"
  shows "times_ok order now_ts"
  using assms by (auto simp: clock_u64_def res_simps is_u64_def times_ok_def order_typed_def int_limits)

lemma place_order_kept:
  assumes p: "place_order rt ck opl cx order lim w = Ok (oid, w')"
    and ok: "world_ok base (Some (po_open_orders_account cx)) w" and o: "order_typed order"
    and ck: "ck_unix_timestamp ck \<le> I64_MAX"
  shows "kept base (Some (po_open_orders_account cx)) w w'"
proof (rule place_order_steps [OF p])
  let ?k = "po_open_orders_account cx"
  fix now_ts opl' r ob ac oo cost d pa m pa' tok
  assume lots: "check_order_lots order = Ok ()" and now: "clock_u64 ck = Ok now_ts"
    and n: "new_order (w_book w) order ?k now_ts lim opl' (world_accounts ?k w) = Ok (r, ob, ac)"
    and own: "ac_ooa ac = Some oo"
    and pay: "pay_for_order (o_side order) cost (oo_position oo) (ac_market ac) = Ok (d, pa, m)"
    and w': "w' = \<lparr>w_market = m, w_book = ob, w_heap = ac_heap ac, w_ooa = oo\<lparr>oo_position := pa'\<rparr>,
      w_remaining = give_back ?k (oo\<lparr>oo_position := pa'\<rparr>) (ac_remaining ac), w_tokens = tok\<rparr>"
  have "order_ok order" using lots o by (auto simp: check_order_lots_def order_ok_def order_typed_def res_simps)
  then have s: "state_ok (ac_market ac) ob (ac_heap ac) (account_at base ?k ac)" "own_ok ?k ?k ac"
    using new_order_state [OF n world_okD [OF ok] _ _ _ _ clock_times [OF now ck o]] o
    by (simp_all add: order_typed_def)
  have "same_terms (w_market w) (ac_market ac)"
    using new_order_claims [OF n traders_ready_trade [OF world_ok_ready [OF ok] \<open>order_ok order\<close> o], of Bid] by simp
  then show ?thesis
    using pay_for_order_setup [OF pay] evolves_loads [OF new_order_evolves [OF n]] same_terms_setup
    by (intro paid_kept [OF s own _ _ _ _ w']) auto
qed

lemma place_each_state:
  assumes "place_each cx now_ts lim opl orders b q ids ob ac = Ok (b', q', ids', ob', ac')"
    and "state_ok (ac_market ac) ob (ac_heap ac) (account_at base (pa_open_orders_account cx) ac)"
    and "own_ok (pa_open_orders_account cx) (pa_open_orders_account cx) ac" and "ac_ooa ac \<noteq> None"
    and "\<forall>order \<in> set orders. order_typed order" and "0 \<le> now_ts" and "now_ts + U16_MAX \<le> U64_MAX"
  shows "state_ok (ac_market ac') ob' (ac_heap ac') (account_at base (pa_open_orders_account cx) ac') \<and>
    own_ok (pa_open_orders_account cx) (pa_open_orders_account cx) ac' \<and> loads ac' = loads ac"
  using assms
proof (induction cx now_ts lim opl orders b q ids ob ac rule: place_each.induct)
  case (2 cx now_ts lim opl order orders b q ids ob ac)
  obtain oo order1 r ob1 ac1 b1 q1 where u: "unwrap (ac_ooa ac) = Ok oo"
      and o1: "bound_order cx b q (ac_market ac) (oo_position oo) order = Ok order1"
      and n: "new_order ob order1 (pa_open_orders_account cx) now_ts lim opl ac = Ok (r, ob1, ac1)"
      and a: "add_cost (o_side order1) r b q = Ok (b1, q1)"
      and rest: "place_each cx now_ts lim opl orders b1 q1 (ids @ [oa_order_id r]) ob1 ac1 =
        Ok (b', q', ids', ob', ac')"
    using "2.prems"(1) by (auto simp: bnd_eq_Inr)
  have mk: "market_ok (ac_market ac)" using "2.prems"(2) by (simp add: state_ok_def)
  have o: "order_ok order1" "order_typed order1" using bound_order_ok [OF o1 mk] "2.prems"(5) by auto
  have t1: "times_ok order1 now_ts" using "2.prems"(6,7) o(2) by (simp add: times_ok_def order_typed_def)
  have s: "state_ok (ac_market ac1) ob1 (ac_heap ac1) (account_at base (pa_open_orders_account cx) ac1)"
      "own_ok (pa_open_orders_account cx) (pa_open_orders_account cx) ac1" "ac_ooa ac1 \<noteq> None"
    using new_order_state [OF n "2.prems"(2,3) _ o(1) _ _ t1] o(2) "2.prems"(4) by (auto simp: order_typed_def)
  show ?case
    using "2.IH" [OF u o1 n refl refl a refl rest s] "2.prems"(5-7) evolves_loads [OF new_order_evolves [OF n]] by simp
qed simp

section \<open>Cancelling\<close>

lemma cancelled_kept:
  assumes ok: "world_ok base (Some k) w"
    and s: "state_ok (w_market w) ob (w_heap w) ((world_at base (Some k) w)(k := Some oo))"
  shows "kept base (Some k) w (w\<lparr>w_book := ob, w_ooa := oo\<rparr>)"
proof -
  have "world_at base (Some k) (w\<lparr>w_book := ob, w_ooa := oo\<rparr>) = (world_at base (Some k) w)(k := Some oo)"
    by (simp add: world_at_def account_at_def world_accounts_def fun_eq_iff)
  then show ?thesis using s by (simp add: kept_def world_ok_def accounts_of_def loads_def world_accounts_def)
qed

lemma world_ok_self: "world_ok base (Some k) w \<Longrightarrow>
   state_ok (w_market w) (w_book w) (w_heap w) ((world_at base (Some k) w)(k := Some (w_ooa w)))"
  by (subst world_at_self [symmetric]) (simp add: world_ok_def)

lemma cancel_all_state:
  assumes "cancel_all_orders (w_book w) (w_ooa w) (w_market w) lim so co = Ok (n, ob, oo)"
    and "world_ok base (Some k) w"
  shows "kept base (Some k) w (w\<lparr>w_book := ob, w_ooa := oo\<rparr>)"
  by (rule cancelled_kept [OF assms(2) cancel_all_loop_state
        [OF assms(1) [unfolded cancel_all_orders_def] world_ok_self [OF assms(2)]]])

lemma cancel_instr_kept:
  assumes ok: "world_ok base (Some k) w"
  shows "cancel_order_instr cx key w = Ok w' \<Longrightarrow> kept base (Some k) w w'"
    and "cancel_all_orders_instr so lim w = Ok w' \<Longrightarrow> kept base (Some k) w w'"
    and "cancel_order_by_client_order_id cid w = Ok (n, w') \<Longrightarrow> kept base (Some k) w w'"
    and "prune_orders ck lim w = Ok w' \<Longrightarrow> kept base (Some k) w w'"
proof -
  assume "cancel_order_instr cx key w = Ok w'"
  then obtain o1 leaf ob oo where f: "find_order_with_order_id (w_ooa w) key = Some o1"
      and c: "cancel_order (w_book w) (w_ooa w) (oo_id o1) (oo_side_and_tree o1) (w_market w)
        (Some (co_open_orders_account cx)) = Ok (leaf, ob, oo)" and w': "w' = w\<lparr>w_book := ob, w_ooa := oo\<rparr>"
    by (auto simp: cancel_order_instr_def bnd_eq_Inr ok_or_eq_Inr)
  have "o1 \<in> set (all_orders_in_use (w_ooa w))"
    using f by (auto simp: find_order_with_order_id_def find_Some_iff)
  then obtain i where "i < length (open_orders (w_ooa w))" "open_orders (w_ooa w) ! i = o1" "\<not> oo_is_free o1"
    by (auto simp: all_orders_in_use_def in_set_conv_nth)
  then have "acc_slot (w_ooa w) i = Some o1" by (auto simp: acc_slot_def)
  from cancel_order_state [OF c this world_ok_self [OF ok]] show "kept base (Some k) w w'"
    unfolding w' by (rule cancelled_kept [OF ok])
qed (use cancel_all_state [OF _ ok] in \<open>auto simp: cancel_all_orders_instr_def
    cancel_order_by_client_order_id_def prune_orders_def bnd_eq_Inr\<close>)

lemma kept_refl: "world_ok base own w \<Longrightarrow> kept base own w w"
  by (simp add: kept_def)

lemma kept_trans: "kept base own w1 w2 \<Longrightarrow> kept base own w2 w3 \<Longrightarrow> kept base own w1 w3"
  unfolding kept_def using same_setup_trans by auto

lemma edit_order_kept:
  assumes e: "edit_order rt ck opl cx cid expected order lim w = Ok (oid, w')"
    and ok: "world_ok base (Some (po_open_orders_account cx)) w" and o: "order_typed order"
    and ck: "ck_unix_timestamp ck \<le> I64_MAX"
  shows "kept base (Some (po_open_orders_account cx)) w w'"
proof -
  obtain n w1 where c: "cancel_order_by_client_order_id cid w = Ok (n, w1)"
      and rest: "(if expected - n > 0 \<and> o_max_base_lots order > expected - n then
          bnd (chk_i64 (o_max_base_lots order - (expected - n))) (\<lambda>mb.
          place_order rt ck opl cx (order\<lparr>o_max_base_lots := mb\<rparr>) lim w1)
        else Ok (None, w1)) = Ok (oid, w')"
    using e by (auto simp: edit_order_def res_simps)
  note k1 = cancel_instr_kept(3) [OF ok c]
  have t: "order_typed (order\<lparr>o_max_base_lots := mb\<rparr>)" for mb
    using o by (simp add: order_typed_def price_param_ok_def order_peg_limit_def)
  have ok1: "world_ok base (Some (po_open_orders_account cx)) w1" using k1 by (simp add: kept_def)
  consider "w' = w1" | mb where "place_order rt ck opl cx (order\<lparr>o_max_base_lots := mb\<rparr>) lim w1 = Ok (oid, w')"
    using rest by (auto simp: bnd_eq_Inr split: if_splits)
  then show ?thesis
  proof cases
    case 1
    then show ?thesis using k1 by simp
  next
    case (2 mb)
    from place_order_kept [OF this ok1 t ck] show ?thesis by (rule kept_trans [OF k1])
  qed
qed

lemma place_many_kept:
  assumes c: "cancel_all_and_place_orders rt ck opl cx cancel orders lim w = Ok (ids, w')"
    and ok: "world_ok base (Some (pa_open_orders_account cx)) w" and ty: "\<forall>order \<in> set orders. order_typed order"
    and ck: "ck_unix_timestamp ck \<le> I64_MAX"
  shows "kept base (Some (pa_open_orders_account cx)) w w'"
proof (rule cancel_all_and_place_steps [OF c])
  let ?k = "pa_open_orders_account cx"
  fix now_ts opl' n ob0 oo0 b q ob ac oo db pa1 m1 dq pa2 m2 pa3 tok1 tok2
  assume now: "clock_u64 ck = Ok now_ts"
    and ca: "(if cancel then cancel_all_orders (w_book w) (w_ooa w) (w_market w) U8_MAX None None
           else Ok (0, w_book w, w_ooa w)) = Ok (n, ob0, oo0)"
    and pl: "place_each cx now_ts lim opl' orders 0 0 [] ob0 (world_accounts ?k (w\<lparr>w_ooa := oo0\<rparr>)) =
      Ok (b, q, ids, ob, ac)"
    and own: "ac_ooa ac = Some oo"
    and p1: "pay_for_order Ask b (oo_position oo) (ac_market ac) = Ok (db, pa1, m1)"
    and p2: "pay_for_order Bid q pa1 m1 = Ok (dq, pa2, m2)"
    and w': "w' = \<lparr>w_market = m2, w_book = ob, w_heap = ac_heap ac, w_ooa = oo\<lparr>oo_position := pa3\<rparr>,
         w_remaining = give_back ?k (oo\<lparr>oo_position := pa3\<rparr>) (ac_remaining ac), w_tokens = tok2\<rparr>"
  let ?w0 = "w\<lparr>w_book := ob0, w_ooa := oo0\<rparr>"
  have k0: "kept base (Some ?k) w ?w0"
    using ca cancel_all_state [OF _ ok] kept_refl [OF ok] by (cases cancel) auto
  then have ok0: "world_ok base (Some ?k) ?w0" by (simp add: kept_def)
  have e: "world_accounts ?k (w\<lparr>w_ooa := oo0\<rparr>) = world_accounts ?k ?w0" by (simp add: world_accounts_def)
  have ts: "0 \<le> now_ts" "now_ts + U16_MAX \<le> U64_MAX"
    using now ck by (auto simp: clock_u64_def res_simps is_u64_def int_limits)
  have s: "state_ok (ac_market ac) ob (ac_heap ac) (account_at base ?k ac)" "own_ok ?k ?k ac"
      "loads ac = loads (world_accounts ?k ?w0)"
    using place_each_state [OF pl [unfolded e], of base] world_okD [OF ok0] ty ts by simp_all
  have "same_terms (w_market w) (ac_market ac)"
    using place_each_claims [OF pl [unfolded e] _ ty ts] world_ok_ready [OF ok0] by simp
  then have "kept base (Some ?k) ?w0 w'"
    using pay_for_order_setup [OF p1] pay_for_order_setup [OF p2] same_terms_setup same_setup_trans
    by (intro paid_kept [OF s(1,2) own s(3) _ _ _ w']) auto
  then show ?thesis by (rule kept_trans [OF k0])
qed

end
