(* ===== verification/Held_All.thy ===== *)
theory Held_All
  imports Held_Run
begin

text \<open>
  The invariant over all instructions: those on an account, and those on none.
\<close>

section \<open>Funds\<close>

lemma settle_market_setup:
  "settle_market has rebate pa m = Ok m' \<Longrightarrow> same_setup m m' \<and> seq_num m' = seq_num m"
  by (cases has) (auto simp: settle_market_def res_simps same_setup_def)

lemma settle_kept:
  assumes s: "settle_funds rt cx w = Ok w'" and ok: "world_ok base (Some k) w"
  shows "kept base (Some k) w w'"
proof (rule settle_funds_steps [OF s])
  fix roundoff pa m pa1 tok1 tok2
  assume "settle_market (sf_referrer_account cx \<noteq> None) (referrer_rebates_available pa + roundoff) pa (w_market w) = Ok m"
    and w': "w' = w\<lparr>w_market := m, w_ooa := (w_ooa w)\<lparr>oo_position := pa1\<lparr>base_free_native := 0,
      quote_free_native := 0, referrer_rebates_available := 0\<rparr>\<rparr>, w_tokens := tok2\<rparr>"
  then show ?thesis using settle_market_setup by (intro funds_kept [OF ok _ _ _ w']) auto
qed

lemma deposit_kept:
  assumes d: "deposit rt ck cx b q w = Ok w'" and ok: "world_ok base (Some k) w"
  shows "kept base (Some k) w w'"
proof (rule deposit_steps [OF d])
  fix tok1 tok2
  let ?m = "(w_market w)\<lparr>base_deposit_total := base_deposit_total (w_market w) + b,
        quote_deposit_total := quote_deposit_total (w_market w) + q\<rparr>"
  assume w': "w' = w\<lparr>w_market := ?m, w_ooa := (w_ooa w)\<lparr>oo_position := (oo_position (w_ooa w))\<lparr>
        base_free_native := base_free_native (oo_position (w_ooa w)) + b,
        quote_free_native := quote_free_native (oo_position (w_ooa w)) + q\<rparr>\<rparr>, w_tokens := tok2\<rparr>"
  show ?thesis by (rule funds_kept [OF ok _ _ _ w']) (simp_all add: same_setup_def)
qed

section \<open>Instructions on no account\<close>

text \<open>When the market and the tokens change only.\<close>

lemma market_kept:
  assumes ok: "world_ok base None w" and m: "same_setup (w_market w) m" "seq_num m = seq_num (w_market w)"
  shows "kept base None w (w\<lparr>w_market := m, w_tokens := tok\<rparr>)"
proof -
  let ?w = "w\<lparr>w_market := m, w_tokens := tok\<rparr>"
  have s: "state_ok (w_market w) (w_book w) (w_heap w) (world_at base None w)" using ok by (simp add: world_ok_def)
  have "market_ok m" using same_setup_market_ok [OF m(1)] s by (simp add: state_ok_def)
  then have "state_ok m (w_book w) (w_heap w) (world_at base None w)" by (rule state_ok_cong [OF s _ m(2)]) simp
  moreover have "world_at base None ?w = world_at base None w" by simp
  ultimately have "world_ok base None ?w" by (simp add: world_ok_def)
  then show ?thesis using m(1) by (simp add: kept_def accounts_of_def market_accounts_def loads_def)
qed

lemma take_kept:
  assumes p: "place_take_order rt ck opl cx order lim w = Ok w'" and ok: "world_ok base None w"
    and a: "world_at base None w (pt_signer cx) = None" and ck: "ck_unix_timestamp ck \<le> I64_MAX"
    and o: "is_i64 (o_max_quote_lots_including_fees order)" "o_time_in_force order = 0" "price_param_ok order"
      "order_peg_limit order = -1"
  shows "kept base None w w'"
proof -
  obtain now_ts opl' r ob ac d wd m tok where lots: "check_order_lots order = Ok ()"
      and now: "clock_u64 ck = Ok now_ts"
      and n: "new_order (w_book w) order (pt_signer cx) now_ts lim opl' (market_accounts w) = Ok (r, ob, ac)"
      and ta: "take_amounts (o_side order) r (ac_market ac) = Ok (d, wd, m)"
      and w': "w' = w\<lparr>w_market := m, w_book := ob, w_heap := ac_heap ac, w_remaining := ac_remaining ac, w_tokens := tok\<rparr>"
    using p unfolding place_take_order_def Let_def market_accounts_def by (auto simp: bnd_eq_Inr)
  have oo: "order_ok order" using lots o(1) by (auto simp: check_order_lots_def order_ok_def res_simps)
  have ts: "times_ok order now_ts" using now ck o(2) by (auto simp: clock_u64_def res_simps is_u64_def times_ok_def)
  note s0 = world_ok_taker(1) [OF ok] world_ok_taker(2) [OF ok, of "pt_signer cx"]
  have a0: "account_at base 0 (market_accounts w) (pt_signer cx) = None" using a by (simp add: world_at_def)
  have pl: "order_peg_limit order = -1 \<or> 0 \<le> order_peg_limit order" using o(4) by simp
  have s: "state_ok (ac_market ac) ob (ac_heap ac) (account_at base 0 ac)" "ac_ooa ac = None"
    using new_order_state [OF n s0 a0 oo o(3) pl ts] by simp_all
  have tm: "same_terms (w_market w) (ac_market ac)"
    using new_order_claims [OF n state_ok_trade_ready [OF s0 a0 oo pl], of Bid] by simp
  have m: "same_setup (ac_market ac) m" "seq_num m = seq_num (ac_market ac)"
    using ta by (cases "o_side order"; auto simp: take_amounts_def res_simps same_setup_def)+
  have at: "world_at base None w' = account_at base 0 ac"
    unfolding world_at_def by (simp add: w' market_accounts_def s(2) account_at_def fun_eq_iff)
  have "market_ok m" using same_setup_market_ok [OF m(1)] s(1) by (simp add: state_ok_def)
  then have "state_ok m ob (ac_heap ac) (world_at base None w')"
    unfolding at by (rule state_ok_cong [OF s(1) _ m(2)]) simp
  then have "world_ok base None w'" by (simp add: world_ok_def w')
  moreover have "loads (market_accounts w') = loads (market_accounts w)"
    using evolves_loads [OF new_order_evolves [OF n]] by (simp add: w' loads_def market_accounts_def)
  moreover have "w_market w' = m" by (simp add: w')
  ultimately show ?thesis
    using same_setup_trans [OF same_terms_setup [OF tm] m(1)] by (simp add: kept_def accounts_of_def)
qed

lemma consume_slots_loads:
  "consume_slots slots (m, h, accs) = Ok (m', h', accs') \<Longrightarrow>
   (\<exists>oo. map_of accs' k = Some (OpenOrdersAcc oo)) = (\<exists>oo. map_of accs k = Some (OpenOrdersAcc oo))"
proof (induction slots arbitrary: m h accs)
  case (Cons slot slots)
  obtain m1 h1 accs1 where c: "consume_slot slot (m, h, accs) = Ok (m1, h1, accs1)"
      and r: "consume_slots slots (m1, h1, accs1) = Ok (m', h', accs')"
    using Cons.prems by (auto simp: bnd_eq_Inr)
  obtain ev a where a: "heap_at_slot h slot = Some ev" "apply_event ev m accs = Ok a"
    using c by (auto simp: consume_slot_def res_simps)
  have "(\<exists>oo. map_of accs1 k = Some (OpenOrdersAcc oo)) = (\<exists>oo. map_of accs k = Some (OpenOrdersAcc oo))"
  proof (cases a)
    case None
    then show ?thesis using c a by (simp add: consume_slot_def)
  next
    case (Some ma)
    then have ma: "ma = (fst ma, accs1)" using c a by (cases ma) (auto simp: consume_slot_def res_simps)
    have "apply_event ev m accs = Ok (Some (fst ma, accs1))" using a(2) Some ma by simp
    then show ?thesis
      by (cases ev) (auto simp: apply_event_def res_simps map_of_store split: option.splits if_splits)
  qed
  then show ?case using Cons.IH [OF r] by simp
qed simp

lemma consume_kept:
  assumes c: "consume_events lim slots w = Ok w'" and ok: "world_ok base None w"
  shows "kept base None w w'"
proof -
  obtain ss m h accs where cs: "consume_slots ss (w_market w, w_heap w, w_remaining w) = Ok (m, h, accs)"
      and w': "w' = w\<lparr>w_market := m, w_heap := h, w_remaining := accs\<rparr>"
    using c by (auto simp: consume_events_def res_simps)
  have t: "triple_at base (w_market v, w_heap v, w_remaining v) = world_at base None v" for v :: "'a world"
    by (simp add: triple_at_def triple_accounts_def world_at_def market_accounts_def)
  have "triple_ok base (w_book w) (m, h, accs)"
    by (rule consume_slots_state [OF cs]) (use ok t in \<open>simp add: triple_ok_def world_ok_def\<close>)
  then have "world_ok base None w'" using t [of w'] by (simp add: triple_ok_def world_ok_def w')
  moreover have "loads (market_accounts w') = loads (market_accounts w)"
    using consume_slots_loads [OF cs] by (simp add: loads_def w' market_accounts_def)
  moreover have "same_setup (w_market w) (w_market w')"
    using consume_slots_terms [OF cs] same_terms_setup by (simp add: w')
  ultimately show ?thesis by (simp add: kept_def accounts_of_def)
qed

section \<open>All instructions\<close>

definition acts_on :: "instruction \<Rightarrow> pubkey \<Rightarrow> bool" where
  \<comment> \<open>an instruction on an open-orders account; the delegate is set on any\<close>
  "acts_on i k \<longleftrightarrow> account_of i = Some k \<or> (\<exists>owner d. i = SetDelegate owner d)"

definition acts_alone :: "instruction \<Rightarrow> bool" where
  "acts_alone i \<longleftrightarrow> account_of i = None \<and> (\<forall>owner d. i \<noteq> SetDelegate owner d)"

lemma place_entry_kept:
  assumes p: "ix_place_order rt ck opl cx args w = Ok (oid, w') \<and> is_i64 (a_price_lots args) \<and>
      is_i64 (a_max_quote_lots_including_fees args) \<or>
    ix_place_order_pegged rt ck opl cx pargs w = Ok (oid, w') \<and> is_i64 (pg_max_quote_lots_including_fees pargs)"
    and ok: "world_ok base (Some (po_open_orders_account cx)) w" and ck: "ck_unix_timestamp ck \<le> I64_MAX"
  shows "kept base (Some (po_open_orders_account cx)) w w'"
  using p by (rule place_entries) (use kept_refl [OF ok] place_order_kept [OF _ ok _ ck] in auto)

lemma edit_entry_kept:
  assumes p: "ix_edit_order rt ck opl cx cid sz args w = Ok (oid, w') \<and> is_i64 (a_price_lots args) \<and>
      is_i64 (a_max_quote_lots_including_fees args) \<or>
    ix_edit_order_pegged rt ck opl cx cid sz pargs w = Ok (oid, w') \<and> is_i64 (pg_max_quote_lots_including_fees pargs)"
    and ok: "world_ok base (Some (po_open_orders_account cx)) w" and ck: "ck_unix_timestamp ck \<le> I64_MAX"
  shows "kept base (Some (po_open_orders_account cx)) w w'"
  using p by (rule edit_entries) (use kept_refl [OF ok] edit_order_kept [OF _ ok _ ck] in auto)

lemma set_delegate_kept:
  assumes "ix_set_delegate owner d (w_ooa w) = Ok oo" and "world_ok base (Some k) w"
  shows "kept base (Some k) w (w\<lparr>w_ooa := oo\<rparr>)"
proof -
  have "open_orders oo = open_orders (w_ooa w)"
    using assms(1) by (auto simp: ix_set_delegate_def set_delegate_def bnd_eq_Inr)
  then show ?thesis by (intro funds_kept [OF assms(2), of "w_market w" _ _ "w_tokens w"]) simp_all
qed

lemma run_on_account:
  assumes r: "run rt ck opl i w = Ok w'" and k: "acts_on i k" and ok: "world_ok base (Some k) w"
    and a: "args_typed i" and ck: "ck_unix_timestamp ck \<le> I64_MAX"
  shows "kept base (Some k) w w'"
proof (cases i)
  case (PlaceOrder cx args)
  then show ?thesis using place_entry_kept [OF disjI1, of rt ck opl cx args w _ w' base] r k ok a ck
    by (auto simp: acts_on_def res_simps)
next
  case (PlaceOrderPegged cx args)
  then show ?thesis using place_entry_kept [OF disjI2, of rt ck opl cx args w _ w' base] r k ok a ck
    by (auto simp: acts_on_def res_simps)
next
  case (EditOrder cx cid sz args)
  then show ?thesis using edit_entry_kept [OF disjI1, of rt ck opl cx cid sz args w _ w' base] r k ok a ck
    by (auto simp: acts_on_def res_simps)
next
  case (EditOrderPegged cx cid sz args)
  then show ?thesis using edit_entry_kept [OF disjI2, of rt ck opl cx cid sz args w _ w' base] r k ok a ck
    by (auto simp: acts_on_def res_simps)
next
  case (PlaceOrders cx ty bs as lim)
  then obtain orders ids where os: "orders_of ck ty (length bs) 0 (bs @ as) = Ok orders"
      and c: "cancel_all_and_place_orders rt ck opl cx False orders lim w = Ok (ids, w')"
    using r by (auto simp: ix_place_orders_def drop_result_Ok bnd_eq_Inr)
  show ?thesis using place_many_kept [OF c _ orders_of_typed [OF os] ck] PlaceOrders k ok a by (auto simp: acts_on_def)
next
  case (CancelAllAndPlaceOrders cx ty bs as lim)
  then obtain orders ids where os: "orders_of ck ty (length bs) 0 (bs @ as) = Ok orders"
      and c: "cancel_all_and_place_orders rt ck opl cx True orders lim w = Ok (ids, w')"
    using r by (auto simp: ix_cancel_all_and_place_orders_def drop_result_Ok bnd_eq_Inr)
  show ?thesis
    using place_many_kept [OF c _ orders_of_typed [OF os] ck] CancelAllAndPlaceOrders k ok a by (auto simp: acts_on_def)
next
  case (CancelOrder cx key)
  then show ?thesis using r cancel_instr_kept(1) [OF ok] by (auto simp: ix_cancel_order_def bnd_eq_Inr)
next
  case (CancelOrderByClientOrderId cx cid)
  then show ?thesis using r cancel_instr_kept(3) [OF ok]
    by (auto simp: ix_cancel_order_by_client_order_id_def drop_result_Ok bnd_eq_Inr)
next
  case (CancelAllOrders cx so lim)
  then show ?thesis using r cancel_instr_kept(2) [OF ok] by (auto simp: ix_cancel_all_orders_def bnd_eq_Inr)
next
  case (PruneOrders cx lim)
  then show ?thesis using r cancel_instr_kept(4) [OF ok] by (auto simp: ix_prune_orders_def bnd_eq_Inr)
next
  case (Deposit cx b q)
  then show ?thesis using r deposit_kept [OF _ ok] by (auto simp: ix_deposit_def bnd_eq_Inr)
next
  case (Refill cx b q)
  then show ?thesis using r deposit_kept [OF _ ok] by (auto simp: ix_refill_def refill_def Let_def bnd_eq_Inr)
next
  case (SettleFunds cx)
  then show ?thesis using r settle_kept [OF _ ok] by (auto simp: ix_settle_funds_def bnd_eq_Inr)
next
  case (SettleFundsExpired ex)
  then show ?thesis using r settle_kept [OF _ ok]
    by (auto simp: ix_settle_funds_expired_def settle_funds_expired_def bnd_eq_Inr)
next
  case (SetDelegate owner d)
  then show ?thesis using r set_delegate_kept [OF _ ok] by (auto simp: bnd_eq_Inr)
qed (use k in \<open>simp_all add: acts_on_def\<close>)

lemma run_on_none:
  assumes r: "run rt ck opl i w = Ok w'" and al: "acts_alone i" and ok: "world_ok base None w"
    and a: "args_typed i" and ck: "ck_unix_timestamp ck \<le> I64_MAX"
    and t: "\<And>cx args. i = PlaceTakeOrder cx args \<Longrightarrow> world_at base None w (pt_signer cx) = None"
  shows "kept base None w w'"
proof (cases i)
  case (PlaceTakeOrder cx args)
  obtain order p where o: "order_of_take_args args = Ok order"
      and tk: "place_take_order rt ck opl cx order (tk_limit args) w = Ok w'"
      and q: "params_of_take_type (tk_order_type args) (tk_price_lots args) = Ok p" "o_params order = p"
        "o_max_quote_lots_including_fees order = tk_max_quote_lots_including_fees args" "o_time_in_force order = 0"
    using r PlaceTakeOrder by (auto simp: ix_place_take_order_def order_of_take_args_def bnd_eq_Inr)
  have "price_param_ok order" "order_peg_limit order = -1"
    using q(1) unfolding price_param_ok_def order_peg_limit_def q(2)
    by (auto simp: params_of_take_type_def split: place_order_type.splits)
  then show ?thesis using take_kept [OF tk ok t [OF PlaceTakeOrder] ck] q a PlaceTakeOrder by simp
next
  case (ConsumeEvents cx lim)
  then show ?thesis using r consume_kept [OF _ ok] by (auto simp: ix_consume_events_def bnd_eq_Inr)
next
  case (ConsumeGivenEvents cx slots)
  then show ?thesis using r consume_kept [OF _ ok] by (auto simp: ix_consume_given_events_def bnd_eq_Inr)
next
  case (SweepFees cx)
  then obtain tok where "w' = w\<lparr>w_market := (w_market w)\<lparr>fees_available := 0,
      quote_deposit_total := quote_deposit_total (w_market w) - fees_available (w_market w)\<rparr>, w_tokens := tok\<rparr>"
    using r by (auto simp: ix_sweep_fees_def bnd_eq_Inr elim!: sweep_fees_steps)
  then show ?thesis by (auto intro!: market_kept [OF ok] simp: same_setup_def)
next
  case (SetMarketExpired k)
  then have "w' = w\<lparr>w_market := (w_market w)\<lparr>time_expiry := -1\<rparr>\<rparr>"
    using r by (auto simp: ix_set_market_expired_def set_market_expired_def bnd_eq_Inr)
  then show ?thesis
    using market_kept [OF ok, of "(w_market w)\<lparr>time_expiry := -1\<rparr>" "w_tokens w"] by (simp add: same_setup_def)
qed (use al in \<open>simp_all add: acts_alone_def\<close>)

end
