(* ===== verification/Ledger.thy ===== *)
theory Ledger
  imports Held_All
begin

text \<open>
  A market over its whole life: it is created, open-orders accounts are opened and closed, users,
  crank operators and admins run instructions in any order, and other programs move tokens. In
  every state it can reach the invariant of the market and its accounts holds, and the vaults hold
  at least all the claims on them.
\<close>

section \<open>States and steps\<close>

record 's ledger =
  lg_market :: market
  lg_book :: orderbook
  lg_heap :: event_heap
  lg_accounts :: account_map
  lg_tokens :: 's

definition loaded :: "'s ledger \<Rightarrow> 's world \<Rightarrow> bool" where
  \<comment> \<open>what an instruction loads: the market's accounts, and any open-orders accounts as remaining ones\<close>
  "loaded L w \<longleftrightarrow> w_market w = lg_market L \<and> w_book w = lg_book L \<and> w_heap w = lg_heap L \<and>
     w_tokens w = lg_tokens L \<and>
     (\<forall>k oo. (k, OpenOrdersAcc oo) \<in> set (w_remaining w) \<longrightarrow> lg_accounts L k = Some oo)"

definition stored :: "'s ledger \<Rightarrow> pubkey option \<Rightarrow> 's world \<Rightarrow> 's ledger" where
  \<comment> \<open>what it leaves, for an instruction on an account or on none\<close>
  "stored L own w = \<lparr>lg_market = w_market w, lg_book = w_book w, lg_heap = w_heap w,
     lg_accounts = world_at (lg_accounts L) own w, lg_tokens = w_tokens w\<rparr>"

definition sent_well :: "clock \<Rightarrow> instruction \<Rightarrow> market \<Rightarrow> bool" where
  \<comment> \<open>arguments within their types, a clock within its type, and no transfer out of a vault that is
    not signed by the market\<close>
  "sent_well ck i m \<longleftrightarrow> args_typed i \<and> ck_unix_timestamp ck \<le> I64_MAX \<and> (\<forall>k \<in> set (pays_from i). not_vault m k)"

fun taker_of :: "instruction \<Rightarrow> pubkey option" where
  "taker_of (PlaceTakeOrder cx args) = Some (pt_signer cx)"
| "taker_of _ = None"

inductive reachable :: "'s runtime \<Rightarrow> ('s \<Rightarrow> pubkey \<Rightarrow> int) \<Rightarrow> 's ledger \<Rightarrow> bool" for rt bal where
  created: "ix_create_market widen kind ck cx name cfg ql bl mk tk expiry (zeroed_book ty n) h = Ok (m, ob, h') \<Longrightarrow>
     int n < U32_MAX \<Longrightarrow> 0 < length (ev_nodes h) \<Longrightarrow> length (ev_nodes h) < NO_NODE \<Longrightarrow>
     \<forall>x \<in> {ql, bl, mk, tk, expiry}. is_i64 x \<Longrightarrow> cr_market_base_vault cx \<noteq> cr_market_quote_vault cx \<Longrightarrow>
     \<forall>t. 0 \<le> bal s (vault_of t m) \<Longrightarrow>
     reachable rt bal \<lparr>lg_market = m, lg_book = ob, lg_heap = h', lg_accounts = Map.empty, lg_tokens = s\<rparr>"
| opened: "reachable rt bal L \<Longrightarrow> ix_create_open_orders_account cx name ix acc = Ok (oo, ix') \<Longrightarrow>
     oo_position acc = position_default \<Longrightarrow> lg_accounts L (cc_open_orders_account cx) = None \<Longrightarrow>
     reachable rt bal (L\<lparr>lg_accounts := (lg_accounts L)(cc_open_orders_account cx \<mapsto> oo)\<rparr>)"
| closed: "reachable rt bal L \<Longrightarrow> lg_accounts L k = Some oo \<Longrightarrow> ix_close_open_orders_account owner k oo ix = Ok ix' \<Longrightarrow>
     all_orders_in_use oo = [] \<Longrightarrow> oo_version oo \<noteq> 0 \<Longrightarrow>
     reachable rt bal (L\<lparr>lg_accounts := (lg_accounts L)(k := None)\<rparr>)"
| elsewhere: "reachable rt bal L \<Longrightarrow>
     \<forall>t. bal (lg_tokens L) (vault_of t (lg_market L)) \<le> bal s (vault_of t (lg_market L)) \<Longrightarrow>
     reachable rt bal (L\<lparr>lg_tokens := s\<rparr>)"
| on_account: "reachable rt bal L \<Longrightarrow> loaded L w \<Longrightarrow> acts_on i k \<Longrightarrow> lg_accounts L k = Some (w_ooa w) \<Longrightarrow>
     sent_well ck i (lg_market L) \<Longrightarrow> run rt ck opl i w = Ok w' \<Longrightarrow> reachable rt bal (stored L (Some k) w')"
| on_none: "reachable rt bal L \<Longrightarrow> loaded L w \<Longrightarrow> acts_alone i \<Longrightarrow> account_typed (w_ooa w) \<Longrightarrow>
     sent_well ck i (lg_market L) \<Longrightarrow> (\<And>k. taker_of i = Some k \<Longrightarrow> lg_accounts L k = None) \<Longrightarrow>
     run rt ck opl i w = Ok w' \<Longrightarrow> reachable rt bal (stored L None w')"

definition all_claims :: "side \<Rightarrow> 's ledger \<Rightarrow> int" where
  \<comment> \<open>of all accounts, of the market itself and of the events\<close>
  "all_claims t L = market_claim t (lg_market L) +
     (\<Sum>k \<in> dom (lg_accounts L). holdings t (lg_market L) (the (lg_accounts L k))) +
     events_total (event_claim t (lg_market L)) (lg_heap L)"

definition ledger_ok :: "('s \<Rightarrow> pubkey \<Rightarrow> int) \<Rightarrow> 's ledger \<Rightarrow> bool" where
  "ledger_ok bal L \<longleftrightarrow> state_ok (lg_market L) (lg_book L) (lg_heap L) (lg_accounts L) \<and>
     finite (dom (lg_accounts L)) \<and> market_typed (lg_market L) \<and> vaults_ok (lg_market L) \<and>
     (\<forall>k oo. lg_accounts L k = Some oo \<longrightarrow> account_typed oo) \<and>
     (\<forall>t. all_claims t L \<le> bal (lg_tokens L) (vault_of t (lg_market L)))"

section \<open>All claims, and those in sight of an instruction\<close>

definition in_sight :: "pubkey \<Rightarrow> accounts \<Rightarrow> pubkey set" where
  "in_sight k ac = loads ac \<union> (if ac_ooa ac = None then {} else {k})"

lemma account_at_sight:
  "x \<notin> in_sight k ac \<Longrightarrow> account_at base k ac x = base x"
  "x \<in> in_sight k ac \<Longrightarrow> \<exists>oo. account_at base k ac x = Some oo"
  by (auto simp: in_sight_def loads_def account_at_def split: option.splits remaining_acc.splits if_splits)

lemma account_at_dom: "in_sight k ac \<subseteq> dom base \<Longrightarrow> dom (account_at base k ac) = dom base"
  using account_at_sight by (fastforce simp: dom_def)

lemma loads_finite [simp]: "finite (loads ac)"
  by (rule finite_subset [of _ "fst ` set (ac_remaining ac)"])
    (auto simp: loads_def dest!: map_of_SomeD intro: rev_image_eqI)

lemma accs_total_loads:
  "accs_total f (ac_remaining ac) = (\<Sum>x \<in> loads ac. acc_value f (map_of (ac_remaining ac) x))"
  unfolding accs_total_def
proof (rule sum.mono_neutral_right)
  show "loads ac \<subseteq> fst ` set (ac_remaining ac)"
    by (auto simp: loads_def dest!: map_of_SomeD intro: rev_image_eqI)
  show "\<forall>x \<in> fst ` set (ac_remaining ac) - loads ac. acc_value f (map_of (ac_remaining ac) x) = 0"
    by (auto simp: loads_def acc_value_def split: option.splits remaining_acc.splits)
qed simp

lemma accounts_total:
  assumes fin: "finite (dom base)" and sub: "in_sight k ac \<subseteq> dom base" and sh: "ac_ooa ac \<noteq> None \<longrightarrow> shut k ac"
  shows "(\<Sum>x \<in> dom (account_at base k ac). f (the (account_at base k ac x))) =
    own_value f (ac_ooa ac) + accs_total f (ac_remaining ac) + (\<Sum>x \<in> dom base - in_sight k ac. f (the (base x)))"
proof -
  let ?g = "\<lambda>x. f (the (account_at base k ac x))" and ?S = "in_sight k ac"
  have fS: "finite ?S" using finite_subset [OF sub fin] .
  have "(\<Sum>x \<in> dom base. ?g x) = (\<Sum>x \<in> ?S. ?g x) + (\<Sum>x \<in> dom base - ?S. ?g x)"
    using sum.subset_diff [OF sub fin, of ?g] by simp
  moreover have "(\<Sum>x \<in> dom base - ?S. ?g x) = (\<Sum>x \<in> dom base - ?S. f (the (base x)))"
    by (rule sum.cong) (simp_all add: account_at_sight(1))
  moreover have l: "(\<Sum>x \<in> loads ac. ?g x) = accs_total f (ac_remaining ac)"
    unfolding accs_total_loads
    by (rule sum.cong) (use sh in \<open>auto simp: loads_def account_at_def shut_def\<close>)
  moreover have "(\<Sum>x \<in> ?S. ?g x) = own_value f (ac_ooa ac) + (\<Sum>x \<in> loads ac. ?g x)"
  proof (cases "ac_ooa ac")
    case (Some oo)
    then have "k \<notin> loads ac" using sh by (simp add: loads_def shut_def)
    then show ?thesis using Some by (simp add: in_sight_def account_at_here)
  qed (simp add: in_sight_def)
  ultimately show ?thesis by (simp add: account_at_dom [OF sub])
qed

definition own_key :: "pubkey option \<Rightarrow> pubkey" where
  "own_key own = (case own of Some k \<Rightarrow> k | None \<Rightarrow> 0)"

lemma world_at_accounts: "world_at base own w = account_at base (own_key own) (accounts_of own w)"
  by (simp add: world_at_def accounts_of_def own_key_def split: option.split)

lemma accounts_of_market [simp]: "ac_market (accounts_of own w) = w_market w" "ac_heap (accounts_of own w) = w_heap w"
  by (simp_all add: accounts_of_def split: option.split)

lemma accounts_of_shut: "ac_ooa (accounts_of own w) \<noteq> None \<longrightarrow> shut (own_key own) (accounts_of own w)"
  by (simp add: accounts_of_def own_key_def split: option.split)

lemma accounts_of_ooa: "(ac_ooa (accounts_of own w) = None) = (own = None)"
  by (simp add: accounts_of_def split: option.split)

lemma stored_claims:
  assumes "finite (dom (lg_accounts L))" and "in_sight (own_key own) (accounts_of own w) \<subseteq> dom (lg_accounts L)"
  shows "all_claims t (stored L own w) = claims t (accounts_of own w) +
    (\<Sum>x \<in> dom (lg_accounts L) - in_sight (own_key own) (accounts_of own w).
      holdings t (w_market w) (the (lg_accounts L x)))"
  using accounts_total [OF assms accounts_of_shut]
  by (simp add: all_claims_def stored_def claims_def world_at_accounts)

lemma stored_claims_step:
  assumes fin: "finite (dom (lg_accounts L))"
    and sub: "in_sight (own_key own) (accounts_of own w) \<subseteq> dom (lg_accounts L)"
    and k: "kept base own w w'"
  shows "all_claims t (stored L own w') - claims t (accounts_of own w') =
    all_claims t (stored L own w) - claims t (accounts_of own w)"
    and "dom (lg_accounts (stored L own w')) = dom (lg_accounts L)"
proof -
  have s: "in_sight (own_key own) (accounts_of own w') = in_sight (own_key own) (accounts_of own w)"
    using k by (simp add: in_sight_def kept_def accounts_of_ooa)
  have "same_rates (w_market w) (w_market w')" using k by (simp add: kept_def same_setup_def same_rates_def)
  then have "holdings t (w_market w') = holdings t (w_market w)" by (rule same_rates_claims)
  then show "all_claims t (stored L own w') - claims t (accounts_of own w') =
      all_claims t (stored L own w) - claims t (accounts_of own w)"
    using stored_claims [OF fin sub] stored_claims [OF fin, of own w'] sub by (simp add: s)
  show "dom (lg_accounts (stored L own w')) = dom (lg_accounts L)"
    using account_at_dom [of "own_key own" "accounts_of own w'"] sub s by (simp add: stored_def world_at_accounts)
qed

section \<open>What an instruction loads\<close>

lemma loaded_map_of:
  "loaded L w \<Longrightarrow> map_of (w_remaining w) k = Some (OpenOrdersAcc oo) \<Longrightarrow> lg_accounts L k = Some oo"
  by (auto simp: loaded_def dest: map_of_SomeD)

definition own_loaded :: "'s ledger \<Rightarrow> pubkey option \<Rightarrow> 's world \<Rightarrow> bool" where
  "own_loaded L own w \<longleftrightarrow> loaded L w \<and> (\<forall>k. own = Some k \<longrightarrow> lg_accounts L k = Some (w_ooa w))"

lemma loaded_at:
  assumes "own_loaded L own w"
  shows "world_at (lg_accounts L) own w = lg_accounts L"
proof
  fix x
  show "world_at (lg_accounts L) own w x = lg_accounts L x"
    using assms loaded_map_of [of L w x]
    by (auto simp: own_loaded_def world_at_def account_at_def world_accounts_def market_accounts_def map_of_borrow_out
        split: option.splits remaining_acc.splits if_splits)
qed

lemma loaded_stored: "own_loaded L own w \<Longrightarrow> stored L own w = L"
  by (simp add: stored_def loaded_at) (simp add: own_loaded_def loaded_def)

lemma loaded_sight: "own_loaded L own w \<Longrightarrow> in_sight (own_key own) (accounts_of own w) \<subseteq> dom (lg_accounts L)"
  using account_at_sight(2) [of _ "own_key own" "accounts_of own w" "lg_accounts L"] loaded_at
  by (fastforce simp: world_at_accounts)

lemma loaded_ok:
  assumes l: "own_loaded L own w" and ok: "ledger_ok bal L"
  shows "world_ok (lg_accounts L) own w" and "accs_typed (w_remaining w)" and "market_typed (w_market w)"
proof -
  show "world_ok (lg_accounts L) own w"
    using l ok loaded_at [OF l] by (simp add: world_ok_def ledger_ok_def own_loaded_def loaded_def)
  have "account_typed oo" if "(k, OpenOrdersAcc oo) \<in> set (w_remaining w)" for k oo
    using that l ok unfolding own_loaded_def loaded_def ledger_ok_def by blast
  then show "accs_typed (w_remaining w)"
    by (auto simp: accs_typed_def split: remaining_acc.splits)
  show "market_typed (w_market w)" using l ok by (simp add: own_loaded_def loaded_def ledger_ok_def)
qed

section \<open>A step of a market\<close>

definition covered :: "('s \<Rightarrow> pubkey \<Rightarrow> int) \<Rightarrow> side \<Rightarrow> pubkey option \<Rightarrow> 's world \<Rightarrow> int" where
  "covered bal t own w = bal (w_tokens w) (vault_of t (w_market w)) - claims t (accounts_of own w)"

lemma kept_vaults: "kept base own w w' \<Longrightarrow> vaults_ok (w_market w') = vaults_ok (w_market w)"
  by (simp add: kept_def same_setup_def vaults_ok_def)

lemma world_typed_accounts:
  assumes t: "world_typed w" and b: "\<And>k oo. base k = Some oo \<Longrightarrow> account_typed oo" and x: "world_at base own w x = Some oo"
  shows "account_typed oo"
proof -
  have "account_typed oo" if "map_of (w_remaining w) x = Some (OpenOrdersAcc oo)"
    using that t accs_typed_map_of by (auto simp: world_typed_def)
  then show ?thesis
    using x t b by (auto simp: world_at_def account_at_def world_accounts_def market_accounts_def map_of_borrow_out
        world_typed_def split: option.splits remaining_acc.splits if_splits)
qed

lemma step_ok:
  assumes l: "own_loaded L own w" and ok: "ledger_ok bal L" and k: "kept (lg_accounts L) own w w'"
    and t: "world_typed w'" and c: "\<And>t. covered bal t own w \<le> covered bal t own w'"
  shows "ledger_ok bal (stored L own w')"
proof -
  have fin: "finite (dom (lg_accounts L))" using ok by (simp add: ledger_ok_def)
  note step = stored_claims_step [OF fin loaded_sight [OF l] k]
  have lw: "w_market w = lg_market L" "w_tokens w = lg_tokens L" using l by (simp_all add: own_loaded_def loaded_def)
  have "all_claims t (stored L own w') \<le> bal (w_tokens w') (vault_of t (w_market w'))" for t
  proof -
    have "all_claims t L \<le> bal (lg_tokens L) (vault_of t (lg_market L))" using ok by (simp add: ledger_ok_def)
    then show ?thesis using step(1) [of t] c [of t] loaded_stored [OF l] by (simp add: covered_def lw)
  qed
  moreover have "account_typed oo" if "world_at (lg_accounts L) own w' x = Some oo" for x oo
    by (rule world_typed_accounts [OF t _ that]) (use ok in \<open>auto simp: ledger_ok_def\<close>)
  moreover have "market_typed (w_market w')" using t by (simp add: world_typed_def)
  moreover have "vaults_ok (w_market w')" using kept_vaults [OF k] ok by (simp add: lw ledger_ok_def)
  moreover have "state_ok (w_market w') (w_book w') (w_heap w') (world_at (lg_accounts L) own w')"
    using k by (simp add: kept_def world_ok_def)
  moreover have "finite (dom (world_at (lg_accounts L) own w'))" using step(2) fin by (simp add: stored_def)
  ultimately show ?thesis by (simp add: ledger_ok_def stored_def)
qed

text \<open>The state before an instruction is as it needs it.\<close>

lemma world_ok_taker_ready:
  assumes ok: "world_ok base None w" and k: "world_at base None w k = None"
  shows "taker_ready k w"
proof -
  have "sound_book (w_book w) \<and> market_ok (w_market w) \<and>
      (\<forall>l \<in> leaves_of (bookside (w_book w) t). maker_leaf_ok True k l) \<and>
      ac_fine t (leaves_of (bookside (w_book w) t)) (market_accounts w)" for t
  proof -
    let ?o = "\<lparr>o_side = invert_side t, o_max_base_lots = 0, o_max_quote_lots_including_fees = 0,
      o_client_order_id = 0, o_time_in_force = 0, o_self_trade_behavior = DecrementTake, o_params = MarketParams\<rparr>"
    have a: "account_at base 0 (market_accounts w) k = None" using k by (simp add: world_at_def)
    have "trade_ready (w_book w) ?o k (market_accounts w)"
      by (rule state_ok_trade_ready [OF world_ok_taker [OF ok] a])
        (simp_all add: order_ok_def order_peg_limit_def is_i64_def int_limits)
    then show ?thesis by (simp add: trade_ready_def)
  qed
  then show ?thesis by (simp add: taker_ready_def)
qed

lemma loaded_ready:
  assumes l: "own_loaded L own w" and ok: "ledger_ok bal L"
    and i: "own = account_of i" "acts_alone i \<or> account_of i = Some k"
    and t: "\<And>k. taker_of i = Some k \<Longrightarrow> lg_accounts L k = None"
  shows "ready i w"
proof (cases "account_of i")
  case (Some k)
  then show ?thesis using world_ok_ready loaded_ok(1) [OF l ok] i by (simp add: ready_def)
next
  case None
  then have w: "world_ok (lg_accounts L) None w" and a: "world_at (lg_accounts L) None w = lg_accounts L"
    using loaded_ok(1) [OF l ok] loaded_at [OF l] i by simp_all
  have "events_ready (market_accounts w)"
    using state_ok_events_ready [OF world_ok_taker [OF w]] .
  then show ?thesis
    using None world_ok_taker_ready [OF w] a t by (auto simp: ready_def split: instruction.split)
qed

lemma covered_backs:
  assumes "own = account_of i"
  shows "covered bal t own w = backs bal t i w"
  using assms by (simp add: covered_def backs_def accounts_of_def backing_def taker_backing_def split: option.split)

lemma run_step:
  assumes laws: "token_laws rt bal" and l: "own_loaded L own w" and ok: "ledger_ok bal L"
    and i: "own = account_of i" "acts_alone i \<or> account_of i = Some k" and w: "account_typed (w_ooa w)"
    and s: "sent_well ck i (lg_market L)" and t: "\<And>k. taker_of i = Some k \<Longrightarrow> lg_accounts L k = None"
    and r: "run rt ck opl i w = Ok w'"
  shows "ledger_ok bal (stored L own w')"
proof (rule step_ok [OF l ok])
  note lw = loaded_ok [OF l ok]
  have m: "w_market w = lg_market L" using l by (simp add: own_loaded_def loaded_def)
  have ty: "world_typed w" using lw w by (simp add: world_typed_def)
  then show "world_typed w'" by (rule run_typed [OF r])
  have v: "vaults_ok (w_market w)" using ok by (simp add: m ledger_ok_def)
  show "covered bal t own w \<le> covered bal t own w'" for t
    unfolding covered_backs [OF i(1)]
    by (rule run_backs [OF laws r loaded_ready [OF l ok i t] ty _ _ v]) (use s m in \<open>auto simp: sent_well_def\<close>)
  show "kept (lg_accounts L) own w w'"
  proof (cases "account_of i")
    case (Some k)
    then show ?thesis
      using run_on_account [OF r, of k "lg_accounts L"] lw(1) i(1) s by (simp add: acts_on_def sent_well_def)
  next
    case None
    have "world_at (lg_accounts L) None w (pt_signer cx) = None" if "i = PlaceTakeOrder cx args" for cx args
      using t that loaded_at [OF l] None i(1) by simp
    then show ?thesis
      using run_on_none [OF r _ _ _ _ ] lw(1) i None s by (auto simp: sent_well_def)
  qed
qed

text \<open>The delegate of an account.\<close>

lemma delegate_step:
  assumes l: "own_loaded L (Some k) w" and ok: "ledger_ok bal L"
    and r: "run rt ck opl (SetDelegate owner d) w = Ok w'" and ck: "ck_unix_timestamp ck \<le> I64_MAX"
  shows "ledger_ok bal (stored L (Some k) w')"
proof (rule step_ok [OF l ok])
  note lw = loaded_ok [OF l ok]
  have "lg_accounts L k = Some (w_ooa w)" using l by (simp add: own_loaded_def)
  then have "account_typed (w_ooa w)" using ok by (simp add: ledger_ok_def)
  then have ty: "world_typed w" using lw by (simp add: world_typed_def)
  then show "world_typed w'" by (rule run_typed [OF r])
  show "kept (lg_accounts L) (Some k) w w'"
    by (rule run_on_account [OF r _ lw(1)]) (simp_all add: acts_on_def ck)
  have "w' = w\<lparr>w_ooa := set_delegate d (w_ooa w)\<rparr>" using r by (auto simp: ix_set_delegate_def res_simps)
  moreover have "holdings t m (set_delegate d oo) = holdings t m oo" for t m oo
    by (cases t) (simp_all add: holdings_def quote_holdings_def base_holdings_def set_delegate_def)
  ultimately show "covered bal t (Some k) w \<le> covered bal t (Some k) w'" for t
    by (simp add: covered_def accounts_of_def world_accounts_def claims_def)
qed

section \<open>Creation, opening and closing\<close>

lemma position_default_holdings [simp]: "oo_position oo = position_default \<Longrightarrow> holdings t m oo = 0"
  by (cases t) (simp_all add: holdings_def quote_holdings_def base_holdings_def position_default_def)

lemma created_ok:
  assumes c: "ix_create_market widen kind ck cx name cfg ql bl mk tk expiry (zeroed_book ty n) h = Ok (m, ob, h')"
    and n: "int n < U32_MAX" and h: "0 < length (ev_nodes h)" "length (ev_nodes h) < NO_NODE"
    and a: "\<forall>x \<in> {ql, bl, mk, tk, expiry}. is_i64 x" and v: "cr_market_base_vault cx \<noteq> cr_market_quote_vault cx"
    and b: "\<forall>t. 0 \<le> bal s (vault_of t m)"
  shows "ledger_ok bal \<lparr>lg_market = m, lg_book = ob, lg_heap = h', lg_accounts = Map.empty, lg_tokens = s\<rparr>"
proof -
  note snd = create_market_sound [OF c refl n h]
  have m: "seq_num m = 0" "market_typed m" "fees_available m = 0" "referrer_rebates_accrued m = 0"
    using c a by (auto simp: ix_create_market_def create_market_def res_simps market_typed_def is_i64_def is_u64_def is_u128_def int_limits)
  have "leaves_of (bookside ob t) = {}" for t using snd by (simp add: leaves_of_def)
  then have p: "pegs_ok ob" by (simp add: pegs_ok_def)
  have "side_orders (bids ob) c = [] \<and> side_orders (asks ob) c = []" for c
    using snd by (metis bookside_def side.simps(3,4))
  then have bh: "book_holders ob = {#}" by (simp add: book_holders_def side_holders_def tree_holders_def)
  have q: "good_heap h'" "heap_queue h' = []" using snd by simp_all
  then have hh: "heap_holders h' = {#}" by (simp add: heap_holders_def)
  have "orders_held m ob h' Map.empty"
    unfolding orders_held_def machine_ok_def bh hh
    by (simp add: held_def ids_unique_def slots_in_def m is_u64_def int_limits)
  then show ?thesis
    using snd p q b m by (auto simp: ledger_ok_def state_ok_def heap_fine_def all_claims_def market_claim_def
        events_total_def v split: side.split)
qed

lemma opened_ok:
  assumes ok: "ledger_ok bal L" and c: "ix_create_open_orders_account cx name ix acc = Ok (oo, ix')"
    and p: "oo_position acc = position_default" and f: "lg_accounts L k = None"
  shows "ledger_ok bal (L\<lparr>lg_accounts := (lg_accounts L)(k \<mapsto> oo)\<rparr>)"
proof -
  have oo: "open_orders oo = replicate MAX_OPEN_ORDERS open_order_default" "oo_position oo = position_default"
    using c p by (auto simp: ix_create_open_orders_account_def create_open_orders_account_def res_simps)
  have "acc_slot oo = Map.empty" by (auto simp: acc_slot_def oo(1) fun_eq_iff)
  then have sl: "slots_in ((lg_accounts L)(k \<mapsto> oo)) = slots_in (lg_accounts L)"
    using f by (auto simp: slots_in_def fun_eq_iff)
  have ty: "account_typed oo" by (simp add: account_typed_def oo position_typed_def position_default_def is_i64_def is_u64_def is_u128_def int_limits)
  have ak: "account_ok oo" by (simp add: account_ok_def oo)
  have "(\<Sum>x \<in> insert k (dom (lg_accounts L)). holdings t m (the (((lg_accounts L)(k \<mapsto> oo)) x))) =
      (\<Sum>x \<in> dom (lg_accounts L). holdings t m (the (lg_accounts L x)))" for t m
  proof -
    have "k \<notin> dom (lg_accounts L)" using f by auto
    moreover have "finite (dom (lg_accounts L))" using ok by (simp add: ledger_ok_def)
    ultimately show ?thesis
      using oo(2) by (subst sum.insert) (auto intro!: sum.cong)
  qed
  then have "all_claims t (L\<lparr>lg_accounts := (lg_accounts L)(k \<mapsto> oo)\<rparr>) = all_claims t L" for t
    by (simp add: all_claims_def)
  then show ?thesis
    using ok ty ak sl by (auto simp: ledger_ok_def state_ok_def orders_held_def)
qed

lemma closed_ok:
  assumes ok: "ledger_ok bal L" and k: "lg_accounts L k = Some oo"
    and c: "ix_close_open_orders_account owner k oo ix = Ok ix'" and f: "all_orders_in_use oo = []"
    and v: "oo_version oo \<noteq> 0"
  shows "ledger_ok bal (L\<lparr>lg_accounts := (lg_accounts L)(k := None)\<rparr>)"
proof -
  have e: "position_is_empty (oo_position oo) (oo_version oo)"
    using c by (auto simp: ix_close_open_orders_account_def close_open_orders_account_def res_simps)
  have h0: "holdings t m oo = 0" for t m
    using e v by (cases t) (simp_all add: position_is_empty_def holdings_def quote_holdings_def base_holdings_def)
  have "oo_is_free (open_orders oo ! i)" if "i < length (open_orders oo)" for i
    using f that by (auto simp: all_orders_in_use_def filter_empty_conv)
  then have "acc_slot oo = Map.empty" by (auto simp: acc_slot_def fun_eq_iff)
  then have sl: "slots_in ((lg_accounts L)(k := None)) = slots_in (lg_accounts L)"
    using k by (auto simp: slots_in_def fun_eq_iff)
  have "(\<Sum>x \<in> dom (lg_accounts L) - {k}. holdings t m (the (((lg_accounts L)(k := None)) x))) =
      (\<Sum>x \<in> dom (lg_accounts L). holdings t m (the (lg_accounts L x)))" for t m
  proof -
    have "k \<in> dom (lg_accounts L)" using k by auto
    moreover have "finite (dom (lg_accounts L))" using ok by (simp add: ledger_ok_def)
    ultimately show ?thesis
      using h0 k by (subst (2) sum.remove [of _ k]) (auto intro!: sum.cong)
  qed
  then have "all_claims t (L\<lparr>lg_accounts := (lg_accounts L)(k := None)\<rparr>) = all_claims t L" for t
    by (simp add: all_claims_def)
  then show ?thesis
    using ok sl by (auto simp: ledger_ok_def state_ok_def orders_held_def)
qed

section \<open>Every reachable state\<close>

lemma reachable_ok:
  assumes "reachable rt bal L" and laws: "token_laws rt bal"
  shows "ledger_ok bal L"
  using assms(1)
proof induction
  case created
  show ?case by (rule created_ok) (fact created)+
next
  case (opened L cx name ix acc oo ix')
  then show ?case by (intro opened_ok)
next
  case (closed L k oo owner ix ix')
  then show ?case by (intro closed_ok)
next
  case (elsewhere L s)
  then have "all_claims t (L\<lparr>lg_tokens := s\<rparr>) \<le> bal s (vault_of t (lg_market L))" for t
    by (auto simp: ledger_ok_def all_claims_def intro: order_trans)
  then show ?case using elsewhere by (simp add: ledger_ok_def)
next
  case (on_account L w i k ck opl w')
  have l: "own_loaded L (Some k) w" using on_account by (simp add: own_loaded_def)
  show ?case
  proof (cases "account_of i")
    case None
    then obtain ow d where "i = SetDelegate ow d" using on_account by (auto simp: acts_on_def)
    then show ?thesis using delegate_step [OF l] on_account by (auto simp: sent_well_def)
  next
    case (Some k')
    then have k: "account_of i = Some k" using on_account by (auto simp: acts_on_def)
    have "account_typed (w_ooa w)" using on_account by (auto simp: ledger_ok_def)
    moreover have "taker_of i = None" using k by (cases i) auto
    ultimately show ?thesis
      using run_step [OF laws l, of i k ck opl w'] on_account k by simp
  qed
next
  case (on_none L w i ck opl w')
  have l: "own_loaded L None w" using on_none by (simp add: own_loaded_def)
  show ?case
    by (rule run_step [OF laws l, of i 0 ck opl w']) (use on_none in \<open>auto simp: acts_alone_def\<close>)
qed

section \<open>What it means\<close>

text \<open>An order on the book, and its slot.\<close>

lemma reachable_order_slot:
  assumes r: "reachable rt bal L" and laws: "token_laws rt bal"
    and l: "l \<in> set (side_orders (bookside (lg_book L) s) c)"
  obtains oo x where "lg_accounts L (leaf_owner l) = Some oo" "acc_slot oo (owner_slot l) = Some x"
    "oo_id x = leaf_key l" "oo_side_and_tree x = side_and_tree_new s c"
proof -
  have "machine_ok (seq_num (lg_market L), slots_in (lg_accounts L), book_holders (lg_book L) + heap_holders (lg_heap L))"
    using reachable_ok [OF r laws] by (simp add: ledger_ok_def state_ok_def orders_held_def)
  moreover have "leaf_holder s c l \<in># book_holders (lg_book L)"
    unfolding book_holders_split [of _ s] side_holders_other [of s _ _ c] using l by (auto simp: tree_holders_def)
  ultimately show thesis
    unfolding leaf_holder_def
    by (elim machine_resting [where p = "At (leaf_owner l) (owner_slot l)"])
      (use that in \<open>auto simp: slots_in_def split: option.splits\<close>)
qed

lemma reachable_ids:
  assumes r: "reachable rt bal L" and laws: "token_laws rt bal"
    and a: "lg_accounts L k = Some oo" "acc_slot oo i = Some x" "lg_accounts L k' = Some oo'" "acc_slot oo' i' = Some y"
    and e: "oo_id x = oo_id y" "sat_side (oo_side_and_tree x) = sat_side (oo_side_and_tree y)"
  shows "k = k' \<and> i = i'"
proof -
  have "ids_unique (seq_num (lg_market L)) (slots_in (lg_accounts L))"
    using reachable_ok [OF r laws] by (simp add: ledger_ok_def state_ok_def orders_held_def machine_ok_def)
  from ids_uniqueD [OF this, of "At k i" x "At k' i'" y] show ?thesis using a e by (simp add: slots_in_def)
qed

end
