(* ===== verification/Examples.thy ===== *)
theory Examples
  imports Orderbook_Invariant Event_Heap_Correct
begin

text \<open>
  Small concrete states on which the properties of the development are run: a market, a side
  with one or two orders, an empty event heap, open-orders accounts, and orders against them.
\<close>

definition ex_market :: market where
  "ex_market = \<lparr>m_bump = 0, base_decimals = 6, quote_decimals = 6, market_authority = 1,
     time_expiry = 0, collect_fee_admin = 2, open_orders_admin = 0, consume_events_admin = 0,
     close_market_admin = 0, m_name = replicate 16 0, m_bids = 3, m_asks = 4, m_event_heap = 5,
     oracle_a = 0, oracle_b = 0, m_oracle_config = \<lparr>conf_filter = 0, max_staleness_slots = 100\<rparr>,
     quote_lot_size = 10, base_lot_size = 100, seq_num = 0, registration_time = 0,
     maker_fee = -200, taker_fee = 400, fees_accrued = 0, fees_to_referrers = 0,
     referrer_rebates_accrued = 0, fees_available = 0, m_maker_volume = 0,
     taker_volume_wo_oo = 0, base_mint = 6, quote_mint = 7, market_base_vault = 8,
     base_deposit_total = 5000, market_quote_vault = 9, quote_deposit_total = 5000\<rparr>"

definition ex_leaf :: "side \<Rightarrow> i64 \<Rightarrow> i64 \<Rightarrow> leaf_node" where
  \<comment> \<open>an order of account 11 at a fixed price, from slot 0 of that account\<close>
  "ex_leaf s price qty = leaf_new 0 (new_node_key s (word_of_int price) 1) 11 qty 10 0 (-1) 77"

definition one_order_side :: "order_tree_type \<Rightarrow> leaf_node \<Rightarrow> book_side" where
  "one_order_side ty l = \<lparr>roots = (\<lparr>maybe_node = 0, leaf_count = 1\<rparr>, zeroed_root),
     side_nodes = \<lparr>order_tree_type = ty, bump_index = 1, free_list_len = 0, free_list_head = 0,
       nodes = [LeafNode l, Uninitialized, Uninitialized, Uninitialized]\<rparr>\<rparr>"

definition ex_ask :: leaf_node where "ex_ask = ex_leaf Ask 20 5"

definition ex_book :: orderbook where
  "ex_book = \<lparr>bids = empty_side Bids 4, asks = one_order_side Asks ex_ask\<rparr>"

definition ex_account :: open_orders_account where
  "ex_account = default_for_tests\<lparr>oo_owner := 30, oo_market := 31\<rparr>"

definition ex_heap :: event_heap where
  "ex_heap = heap_init \<lparr>free_head = 0, used_head = 0, ev_count = 0, ev_seq_num = 0,
     ev_nodes = replicate 3 \<lparr>ev_next = 0, ev_prev = 0,
       ev_event = OutEv (out_event_new Bid 0 0 0 0 0)\<rparr>\<rparr>"

definition ex_accounts :: accounts where
  "ex_accounts = \<lparr>ac_market = ex_market, ac_heap = ex_heap, ac_ooa = Some ex_account, ac_remaining = []\<rparr>"

definition ex_order :: "side \<Rightarrow> order_params \<Rightarrow> order" where
  "ex_order s p = \<lparr>o_side = s, o_max_base_lots = 3, o_max_quote_lots_including_fees = 200,
     o_client_order_id = 5, o_time_in_force = 0, o_self_trade_behavior = DecrementTake, o_params = p\<rparr>"


text \<open>What evaluating the operations on these states takes.\<close>

lemmas ex_defs = ex_book_def ex_order_def ex_accounts_def ex_heap_def ex_account_def
  one_order_side_def empty_side_def ex_ask_def ex_leaf_def leaf_new_def ex_market_def zeroed_root_def
  zeroed_tree_def default_for_tests_def position_default_def open_order_default_def MAX_OPEN_ORDERS_def

lemmas int_defs = int_limits is_u64_def is_i64_def is_u128_def is_i128_def is_u8_def is_u16_def is_u32_def
  chk_def as_u64_def as_i64_def div_chk_def FEES_SCALE_FACTOR_def require_def require_anchor_def
  assert_that_def unwrap_def ok_or_def arr_get_def arr_set_def

lemmas heap_run_defs = push_back_def heap_init_def NO_NODE_def heap_is_full_def heap_len_def
  heap_is_empty_def set_next_def set_prev_def upt_rec numeral_3_eq_3

lemmas order_run_defs = new_order_def price_for_order_type_def order_price_def order_price_lots_def fixed_price_data_def
  gen_order_id_def order_max_quote_lots_def subtract_taker_fees_def is_post_only_def
  max_base_lots_def max_quote_lots_def match_order_def start_match_def bookside_def set_bookside_def
  book_iter_new_def iter_new_def book_root_def root_node_def tree_fuel_def side_fuel_def ref_at_def
  get_node_def post_target_def take_step_def taker_fees_step_def taker_fees_ceil_def
  ceil_fee_division_def execute_taker_def postable_base_lots_def maker_fees_ceil_def
  locked_order_price_def order_peg_limit_def final_target_def is_fill_or_kill_def

lemmas match_run_defs = book_iter_next_def iter_peek_def iter_next_def iter_side_def rank_orders_def
  fixed_to_result_def is_expired_def price_data_def fixed_price_lots_def match_step_def
  item_is_valid_def stop_posting_def self_trade_step_def rebate_step_def maker_rebate_floor_def
  unsigned_maker_fees_floor_def fill_order_def fill_event_new_def process_fill_event_def
  FILL_EVENT_REMAINING_LIMIT_def set_quantity_def as_leaf_def new_node_key_def

lemma one_order_inv:
  "leaf_ok l \<Longrightarrow> tree_inv (side_nodes (one_order_side ty l)) (book_root (one_order_side ty l) c)
     (if c = Fixed then Some (CLeaf 0 l) else None) [] (if c = Fixed then {} else {0})"
  by (cases c) (auto simp: one_order_side_def tree_inv_def arena_def book_root_def zeroed_root_def
      int_limits)

lemma one_order_good: "leaf_ok l \<Longrightarrow> good_side (one_order_side ty l)"
proof -
  assume l: "leaf_ok l"
  let ?ot = "\<lambda>c. if c = Fixed then Some (CLeaf 0 l) else None"
  have "tree_inv (side_nodes (one_order_side ty l)) (book_root (one_order_side ty l) c) (?ot c) []
      (ot_handles (?ot (other_component c)))" for c
    using one_order_inv [OF l, of ty c] by (cases c) simp_all
  then have "side_inv (one_order_side ty l) ?ot []" by (simp add: side_inv_def)
  then show ?thesis by (auto simp: good_side_def)
qed

lemma one_order_orders [simp]:
  "side_orders (one_order_side ty l) Fixed = [l]"
  "side_orders (one_order_side ty l) OraclePegged = []"
  by (simp_all add: side_orders_def tree_orders_def one_order_side_def book_root_def zeroed_root_def
      root_node_def tree_fuel_def)

lemma ex_ask_ok [simp]: "leaf_ok ex_ask" "quantity ex_ask = 5"
  by (simp_all add: ex_ask_def ex_leaf_def leaf_new_def leaf_ok_def int_limits)

lemma ex_market_fees [simp]: "fee_ok ex_market" "market_ok ex_market"
  by (simp_all add: ex_market_def fee_ok_def market_ok_def FEES_SCALE_FACTOR_def)

lemma ex_book_asks: "asks ex_book = one_order_side Asks ex_ask"
  by (simp add: ex_book_def)

lemma ex_book_asks_ok: "good_side (asks ex_book)" "quantities_ok (asks ex_book)"
proof -
  show "good_side (asks ex_book)" using one_order_good by (simp add: ex_book_asks)
  have "\<forall>l \<in> set (side_orders (asks ex_book) c). 0 \<le> quantity l" for c
    by (cases c) (simp_all add: ex_book_asks)
  then show "quantities_ok (asks ex_book)" by (simp add: quantities_ok_def)
qed

lemma ex_order_ok [simp]: "order_ok (ex_order s p)"
  by (simp add: order_ok_def ex_order_def is_i64_def int_limits)

lemma ex_simps [simp]:
  "o_side (ex_order s p) = s" "o_max_base_lots (ex_order s p) = 3" "o_params (ex_order s p) = p"
  "o_max_quote_lots_including_fees (ex_order s p) = 200"
  "ac_market ex_accounts = ex_market" "base_lot_size ex_market = 100" "quote_lot_size ex_market = 10"
  "bookside ex_book Ask = asks ex_book"
  by (simp_all add: ex_order_def ex_accounts_def ex_market_def bookside_def)

definition ex_event :: any_event where "ex_event = OutEv (out_event_new Bid 0 1 2 3 4)"

text \<open>A maker with one order for 5 base lots at 20 and a fill of 3 of them.\<close>

definition ex_maker :: "side_and_tree \<Rightarrow> open_orders_account" where
  "ex_maker sat = ex_account\<lparr>
     oo_position := position_default\<lparr>bids_base_lots := 5, asks_base_lots := 5, bids_quote_lots := 100\<rparr>,
     open_orders := \<lparr>oo_id = 1, oo_client_id = 1, oo_locked_price = 20, oo_is_free = False,
       oo_side_and_tree = sat\<rparr> # replicate 23 open_order_default\<rparr>"

definition ex_fill :: "side \<Rightarrow> fill_event" where
  "ex_fill taker_side = fill_event_new taker_side False 0 100 1 11 0 10 12 5 20 (-1) 3"

lemma ex_fill_simps [simp]:
  "fe_taker_side (ex_fill s) = s" "fe_maker_out (ex_fill s) = False" "fe_quantity (ex_fill s) = 3"
  "fe_price (ex_fill s) = 20" "fe_peg_limit (ex_fill s) = -1" "fe_maker (ex_fill s) = 11"
  "fe_taker (ex_fill s) = 12"
  by (simp_all add: ex_fill_def fill_event_new_def)

lemmas account_run_defs = execute_maker_def maker_fee_and_rebate_def maker_locked_def credit_maker_def
  account_maker_volume_def release_maker_lots_def maker_fees_floor_def cancel_slot_def
  remove_order_def ex_maker_def ex_fill_def

lemma ex_execute_maker:
  "\<exists>oo' m'. execute_maker (ex_fill Ask) ex_market (ex_maker BidFixed) = Ok (oo', m')"
  by (simp add: Let_def ex_defs int_defs order_run_defs match_run_defs account_run_defs)

lemma ex_execute_maker_ask:
  "\<exists>oo' m'. execute_maker (ex_fill Bid) ex_market (ex_maker AskFixed) = Ok (oo', m')"
  by (simp add: Let_def ex_defs int_defs order_run_defs match_run_defs account_run_defs)

lemma ex_add_order:
  "\<exists>oo1. add_order Bid Fixed ex_ask 5 20 ex_account = Ok oo1 \<and>
     bids_quote_lots (oo_position oo1) = 100"
  by (simp add: Let_def ex_defs int_defs add_order_def)

lemma ex_cancel:
  "\<exists>oo'. cancel_slot 0 5 ex_market (ex_maker BidFixed) = Ok oo' \<and>
     quote_free_native (oo_position oo') = 1000"
  by (simp add: Let_def ex_defs int_defs order_run_defs match_run_defs account_run_defs)

lemma ex_heap_ok:
  "good_heap ex_heap" "heap_queue ex_heap = []" "\<not> heap_is_full ex_heap" "is_u64 (ev_seq_num ex_heap + 1)"
proof -
  let ?h = "\<lparr>free_head = 0, used_head = 0, ev_count = 0, ev_seq_num = 0,
     ev_nodes = replicate 3 \<lparr>ev_next = 0, ev_prev = 0, ev_event = OutEv (out_event_new Bid 0 0 0 0 0)\<rparr>\<rparr>"
  have "good_heap (heap_init ?h) \<and> heap_queue (heap_init ?h) = []"
    by (rule heap_init_good) (simp_all add: NO_NODE_def)
  then show "good_heap ex_heap" "heap_queue ex_heap = []" by (simp_all add: ex_heap_def)
  show "\<not> heap_is_full ex_heap" "is_u64 (ev_seq_num ex_heap + 1)"
    by (simp_all add: ex_heap_def heap_init_def Let_def heap_is_full_def heap_len_def is_u64_def int_limits)
qed

text \<open>A fill-or-kill bid for 3 of the 5 base lots on offer at 20.\<close>

lemma ex_fill_or_kill:
  "\<exists>r ob ac. new_order ex_book (ex_order Bid (FillOrKillParams 20)) 12 100 10 None ex_accounts =
     Ok (r, ob, ac) \<and> oa_total_base_taken_native r = 300 \<and> oa_total_quote_taken_native r = 600 \<and>
     oa_taker_fees r = 1"
  by (simp add: Let_def ex_defs int_defs heap_run_defs order_run_defs match_run_defs)

text \<open>A post-only bid above the best ask.\<close>

lemma ex_post_only:
  "\<exists>r ob ac. new_order ex_book (ex_order Bid (FixedParams 25 PostOnly)) 12 100 10 None ex_accounts =
     Ok (r, ob, ac) \<and> oa_order_id r = None"
  by (simp add: Let_def ex_defs int_defs heap_run_defs order_run_defs match_run_defs)

end
