(* ===== verification/Crowded.thy ===== *)
theory Crowded
  imports Examples
begin

text \<open>
  A full side on which evicting the worst order does not make room. A fixed order needs two nodes,
  a leaf and an inner node, but when the worst order is the only pegged one its removal gives back
  one node. The side here has four nodes; with the 1024 of the program the same happens with 512
  fixed orders and one pegged order.
\<close>

definition pegged_bid :: leaf_node where
  \<comment> \<open>40 below the oracle, of account 11\<close>
  "pegged_bid = leaf_new 0 (new_node_key Bid (oracle_pegged_price_data (-40)) 3) 11 5 10 0 (-1) 79"

definition fixed_bid :: "price_word \<Rightarrow> 64 word \<Rightarrow> leaf_node" where
  "fixed_bid price seq = leaf_new 1 (new_node_key Bid price seq) 13 5 10 0 (-1) 78"

definition crowded_bids :: "book_side res" where
  "crowded_bids =
     bnd (book_insert_leaf (empty_side Bids 4) Fixed (fixed_bid 20 1)) (\<lambda>(_, _, b1).
     bnd (book_insert_leaf b1 Fixed (fixed_bid 25 2)) (\<lambda>(_, _, b2).
     bnd (book_insert_leaf b2 OraclePegged pegged_bid) (\<lambda>(_, _, b3). Ok b3)))"

text \<open>A bid at 30 evicts the pegged order, which is at 10 with the oracle at 50, and then cannot be
  inserted.\<close>

definition crowded_insert :: "(i64 option \<times> bool \<times> bool) res" where
  "crowded_insert =
     bnd crowded_bids (\<lambda>b.
     bnd (book_remove_worst b 100 (Some 50)) (\<lambda>(w, b1).
     Ok (map_option snd w, book_is_full b1,
       book_insert_leaf b1 Fixed (fixed_bid 30 4) = Inl (Err SomeError))))"

lemma crowded_insert_fails: "crowded_insert = Ok (Some 10, True, True)"
  by code_simp

end
