(* ===== verification/World_Examples.thy ===== *)
theory World_Examples
  imports Backing Termination Crowded Consuming
begin

text \<open>
  Concrete worlds for the instructions: a token program that moves any amount between any two
  accounts, the market of \<open>Examples\<close>, and the accounts the instructions load.
\<close>

section \<open>Token program and clock\<close>

definition ex_runtime :: "(pubkey \<Rightarrow> int) runtime" where
  "ex_runtime = \<lparr>token_cpi = (\<lambda>_ src dst _ n s. Ok (\<lambda>k. s k + moved src dst n k)),
     system_cpi = (\<lambda>_ _ _ s. Ok s)\<rparr>"

definition ex_bal :: "(pubkey \<Rightarrow> int) \<Rightarrow> pubkey \<Rightarrow> int" where
  "ex_bal s = s"

lemma ex_token_laws: "token_laws ex_runtime ex_bal"
  by (simp add: token_laws_def ex_runtime_def ex_bal_def)

definition ex_clock :: clock where
  "ex_clock = \<lparr>ck_unix_timestamp = 100, ck_slot = 7\<rparr>"

definition token_acc :: "pubkey \<Rightarrow> pubkey \<Rightarrow> pubkey \<Rightarrow> token_account" where
  "token_acc k mint ow = \<lparr>ta_key = k, ta_mint = mint, ta_owner = ow, ta_amount = 9000\<rparr>"

section \<open>Worlds\<close>

definition ex_world :: "(pubkey \<Rightarrow> int) world" where
  "ex_world = \<lparr>w_market = ex_market, w_book = ex_book, w_heap = ex_heap, w_ooa = ex_account,
     w_remaining = [], w_tokens = (\<lambda>_. 9000)\<rparr>"

definition ex_place_ctx :: place_order_ctx where
  \<comment> \<open>owner 30, account 12, market 31; a bid pays from the quote account 40\<close>
  "ex_place_ctx = \<lparr>po_signer = 30, po_open_orders_account = 12, po_open_orders_admin = None,
     po_user_token_account = token_acc 40 7 30, po_market = 31, po_bids = 3, po_asks = 4,
     po_event_heap = 5, po_market_vault = token_acc 9 7 1, po_oracle_a = None, po_oracle_b = None\<rparr>"

definition ex_bid_args :: place_order_args where
  "ex_bid_args = \<lparr>a_side = Bid, a_price_lots = 20, a_max_base_lots = 3,
     a_max_quote_lots_including_fees = 200, a_client_order_id = 5, a_order_type = PlaceFillOrKill,
     a_expiry_timestamp = 0, a_self_trade_behavior = DecrementTake, a_limit = 10\<rparr>"

definition ex_take_ctx :: place_take_order_ctx where
  "ex_take_ctx = \<lparr>pt_signer = 30, pt_penalty_payer = 30, pt_market = 31, pt_market_authority = 1,
     pt_bids = 3, pt_asks = 4, pt_market_base_vault = token_acc 8 6 1,
     pt_market_quote_vault = token_acc 9 7 1, pt_event_heap = 5,
     pt_user_base_account = token_acc 41 6 30, pt_user_quote_account = token_acc 40 7 30,
     pt_oracle_a = None, pt_oracle_b = None, pt_open_orders_admin = None\<rparr>"

definition ex_take_args :: place_take_order_args where
  "ex_take_args = \<lparr>tk_side = Bid, tk_price_lots = 20, tk_max_base_lots = 3,
     tk_max_quote_lots_including_fees = 200, tk_order_type = PlaceFillOrKill, tk_limit = 10\<rparr>"

definition ex_settle_ctx :: settle_funds_ctx where
  "ex_settle_ctx = \<lparr>sf_owner = 30, sf_penalty_payer = 30, sf_open_orders_account = 12, sf_market = 31,
     sf_market_authority = 1, sf_market_base_vault = token_acc 8 6 1,
     sf_market_quote_vault = token_acc 9 7 1, sf_user_base_account = token_acc 41 6 30,
     sf_user_quote_account = token_acc 40 7 30, sf_referrer_account = None\<rparr>"

definition ex_rich :: open_orders_account where
  \<comment> \<open>with 200 base and 300 quote free\<close>
  "ex_rich = ex_account\<lparr>oo_position := position_default\<lparr>base_free_native := 200, quote_free_native := 300\<rparr>\<rparr>"

lemmas world_run_defs = ex_world_def ex_place_ctx_def ex_bid_args_def ex_take_ctx_def ex_take_args_def
  ex_settle_ctx_def ex_rich_def ex_clock_def ex_runtime_def token_acc_def

lemmas handler_run_defs = check_place_order_def check_place_take_order_def check_settle_funds_def
  is_owner_or_delegate_def nz_to_option_def nz_of_option_def non_zero_key_def is_market_vault_def get_vault_by_side_def
  tif_from_clock_def clock_u64_def tif_from_expiry_def order_of_args_def params_of_type_def
  order_of_take_args_def params_of_take_type_def check_order_lots_def market_is_expired_def
  world_accounts_def borrow_out_def give_back_def order_cost_def pay_for_order_def penalize_def
  token_transfer_def token_transfer_signed_def system_program_transfer_def take_amounts_def
  take_transfers_def is_settle_destination_allowed_def referrer_mint_ok_def settle_market_def
  settle_penalty_def settle_transfers_def roundoff_maker_fees_def

lemma ex_place_runs:
  "\<exists>oid w'. ix_place_order ex_runtime ex_clock (Ok None) ex_place_ctx ex_bid_args ex_world = Ok (oid, w') \<and>
     w_tokens w' 9 = 9601"
  by (simp add: ix_place_order_def place_order_def handler_run_defs world_run_defs Let_def ex_defs int_defs
      heap_run_defs order_run_defs match_run_defs moved_def)

lemma ex_take_runs:
  "\<exists>w'. ix_place_take_order ex_runtime ex_clock (Ok None) ex_take_ctx ex_take_args ex_world = Ok w'"
  by (simp add: ix_place_take_order_def place_take_order_def handler_run_defs world_run_defs Let_def ex_defs int_defs
      heap_run_defs order_run_defs match_run_defs moved_def)

lemma ex_settle_runs:
  "\<exists>w'. ix_settle_funds ex_runtime ex_settle_ctx (ex_world\<lparr>w_ooa := ex_rich\<rparr>) = Ok w'"
  by (simp add: ix_settle_funds_def settle_funds_def handler_run_defs world_run_defs Let_def ex_defs int_defs
      heap_run_defs order_run_defs match_run_defs moved_def)

section \<open>Their state is as the properties ask\<close>

lemma ex_leaf_facts [simp]:
  "leaves_of (asks ex_book) = {ex_ask}" "leaves_of (bids ex_book) = {}"
  "peg_limit ex_ask = -1" "leaf_owner ex_ask = 11" "owner_slot ex_ask = 0"
  by (auto simp: leaves_of_def ex_book_def)
    (simp_all add: ex_ask_def ex_leaf_def leaf_new_def side_orders_def tree_orders_def empty_side_def
      zeroed_tree_def book_root_def zeroed_root_def root_node_def tree_fuel_def)

lemma ex_book_sound: "sound_book ex_book"
proof -
  have f: "fixed_priced ex_ask"
    by (simp add: fixed_priced_def price_data_key ex_ask_def ex_leaf_def leaf_new_def int_limits)
  have "sound_side (asks ex_book)"
    unfolding sound_side_def ex_book_asks using one_order_good [OF ex_ask_ok(1), of Asks] f
    by (metis book_tree.exhaust empty_iff empty_set ex_ask_ok(2) list.set_intros(1) one_order_orders
        set_ConsD one_le_numeral)
  moreover have "sound_side (bids ex_book)"
    using empty_side_good [of 4 Bids] ex_leaf_facts(2)
    by (auto simp: sound_side_def ex_book_def leaves_of_def int_limits) (case_tac c; simp)
  moreover have "book_side_of (asks ex_book) = Ask" "book_side_of (bids ex_book) = Bid"
    by (simp_all add: ex_book_def book_side_of_def one_order_side_def empty_side_def zeroed_tree_def)
  ultimately show ?thesis
    unfolding sound_book_def by (metis bookside_def side.exhaust side.simps(3,4))
qed

lemma ex_account_facts [simp]: "account_ok ex_account" "account_ok ex_rich" "account_typed ex_account"
    "account_typed ex_rich"
  by (simp_all add: account_ok_def account_typed_def position_typed_def ex_rich_def ex_defs int_defs)

lemma ex_world_typed: "world_typed ex_world" "world_typed (ex_world\<lparr>w_ooa := ex_rich\<rparr>)"
proof -
  have "market_typed ex_market" by (simp add: market_typed_def ex_market_def int_defs)
  then show "world_typed ex_world" "world_typed (ex_world\<lparr>w_ooa := ex_rich\<rparr>)"
    by (simp_all add: world_typed_def ex_world_def accs_typed_def)
qed

lemma ex_world_facts [simp]: "w_market ex_world = ex_market" "w_book ex_world = ex_book"
    "w_ooa ex_world = ex_account" "w_remaining ex_world = []" "w_heap ex_world = ex_heap"
  by (simp_all add: ex_world_def)

lemma ex_vaults [simp]: "vaults_ok ex_market" "not_vault ex_market 40" "not_vault ex_market 41"
  by (simp_all add: vaults_ok_def not_vault_def ex_market_def)

lemma ex_traders_ready: "traders_ready 12 ex_book (world_accounts 12 ex_world)"
  using ex_book_sound ex_heap_ok
  by (auto simp: traders_ready_def world_accounts_def borrow_out_def shut_def ac_fine_def bookside_def heap_fine_def
      split: side.splits)

section \<open>More runs\<close>

definition ex_sweep_ctx :: sweep_fees_ctx where
  "ex_sweep_ctx = \<lparr>sw_collect_fee_admin = 2, sw_market = 31, sw_market_authority = 1,
     sw_market_quote_vault = token_acc 9 7 1, sw_token_receiver_account = token_acc 42 7 2\<rparr>"

lemma ex_sweep_runs: "\<exists>w'. ix_sweep_fees ex_runtime ex_sweep_ctx ex_world = Ok w'"
  by (simp add: ix_sweep_fees_def sweep_fees_def check_sweep_fees_def ex_sweep_ctx_def handler_run_defs
      world_run_defs Let_def ex_defs int_defs market_seeds_def)

text \<open>The maker of the order on the book, with the event of its cancellation in the heap.\<close>

definition ex_out :: any_event where "ex_out = OutEv (out_event_new Ask 0 100 0 11 5)"

definition ex_queued :: "event_heap \<Rightarrow> (pubkey \<Rightarrow> int) world" where
  "ex_queued h = ex_world\<lparr>w_heap := h, w_remaining := [(11, OpenOrdersAcc (ex_maker AskFixed))]\<rparr>"

lemma ex_push_runs: "\<exists>h s. push_back ex_out ex_heap = Ok h \<and> good_heap h \<and> heap_queue h = [(ex_out, s)]"
  using push_back_spec [OF ex_heap_ok(1,3,4)] ex_heap_ok(2) by fastforce

lemma ex_consume_runs:
  assumes "push_back ex_out ex_heap = Ok h"
  shows "\<exists>w'. consume_events 8 None (ex_queued h) = Ok w'"
  using assms
  by (auto simp add: consume_events_def ex_queued_def ex_out_def slots_to_consume_def MAX_EVENTS_CONSUME_def
      ev_is_free_def consume_slot_def apply_event_def heap_at_slot_def delete_slot_def load_mut_def
      world_run_defs Let_def ex_defs int_defs heap_run_defs order_run_defs match_run_defs
      account_run_defs out_event_new_def)

definition ex_keyed :: open_orders_account where
  \<comment> \<open>the maker, with the key of the order on the book in its first slot\<close>
  "ex_keyed = (ex_maker AskFixed)\<lparr>open_orders := \<lparr>oo_id = leaf_key ex_ask, oo_client_id = 1,
     oo_locked_price = 20, oo_is_free = False, oo_side_and_tree = AskFixed\<rparr> # replicate 23 open_order_default\<rparr>"

lemma ex_slot_runs: "\<exists>oo. cancel_slot 0 5 ex_market ex_keyed = Ok oo"
  by (simp add: ex_keyed_def Let_def ex_defs int_defs order_run_defs match_run_defs account_run_defs)

definition ex_create_ctx :: create_market_ctx where
  "ex_create_ctx = \<lparr>cr_market = 31, cr_market_authority = 1, cr_market_authority_bump = 0, cr_bids = 3,
     cr_asks = 4, cr_event_heap = 5, cr_market_base_vault = 8, cr_market_quote_vault = 9,
     cr_base_mint = 6, cr_base_decimals = 6, cr_quote_mint = 7, cr_quote_decimals = 6,
     cr_oracle_a = None, cr_oracle_b = None, cr_collect_fee_admin = 2, cr_open_orders_admin = None,
     cr_consume_events_admin = None, cr_close_market_admin = None\<rparr>"

definition zeroed_heap :: event_heap where
  "zeroed_heap = \<lparr>free_head = 0, used_head = 0, ev_count = 0, ev_seq_num = 0,
     ev_nodes = replicate 3 \<lparr>ev_next = 0, ev_prev = 0, ev_event = OutEv (out_event_new Bid 0 0 0 0 0)\<rparr>\<rparr>"

lemma ex_create_runs:
  "\<exists>m ob h. ix_create_market (\<lambda>_. 0) (\<lambda>_. Ok Stub) ex_clock ex_create_ctx []
     \<lparr>ocp_conf_filter = 0, ocp_max_staleness_slots = None\<rparr> 10 100 (-200) 400 0 (zeroed_book Bids 4) zeroed_heap =
     Ok (m, ob, h)"
  by (simp add: ix_create_market_def check_create_market_def create_market_def check_fees_def check_oracles_def
      fill_from_str_def ex_create_ctx_def handler_run_defs world_run_defs int_defs nz_is_some_def)

text \<open>Cancelling that order for its owner.\<close>

lemma ex_cancel_runs:
  "\<exists>ob oo. cancel_order ex_book ex_keyed (leaf_key ex_ask) AskFixed ex_market eo =
     (if eo = None \<or> eo = Some 11 then Ok (ex_ask, ob, oo) else Inl (AnchorErr RequireKeysEqViolated)) \<and>
     open_orders oo = (open_orders ex_keyed)[0 := open_order_default]"
proof -
  obtain oo where oo: "cancel_slot 0 5 ex_market ex_keyed = Ok oo" using ex_slot_runs by blast
  have f: "find_order (leaf_key ex_ask) (side_orders (asks ex_book) Fixed) = Some ex_ask"
    by (simp add: ex_book_asks find_order_def)
  show ?thesis
    using ex_book_sound
  proof (cases rule: cancel_order_cases [of ex_book "leaf_key ex_ask" AskFixed ex_keyed ex_market eo])
    case absent
    then show ?thesis using f by simp
  next
    case (present leaf b')
    then have "leaf = ex_ask" using f by simp
    then show ?thesis unfolding present(4) using oo cancel_slot_frees [OF oo] by (cases eo) auto
  qed
qed

lemma cancel_all_free:
  assumes "\<forall>j. i \<le> j \<and> j < MAX_OPEN_ORDERS \<longrightarrow> j < length (open_orders oo) \<and> oo_is_free (open_orders oo ! j)"
  shows "cancel_all_loop i m lim so co tot ob oo = Ok (tot, ob, oo)"
  using assms
proof (induction "MAX_OPEN_ORDERS - i" arbitrary: i)
  case (Suc n)
  have n: "\<not> i \<ge> MAX_OPEN_ORDERS" using Suc.hyps(2) by simp
  have a: "arr_get (open_orders oo) i = Ok (open_orders oo ! i)" "oo_is_free (open_orders oo ! i)"
    using Suc.prems n by (auto simp: arr_get_def)
  have "cancel_all_loop (Suc i) m lim so co tot ob oo = Ok (tot, ob, oo)"
    by (rule Suc.hyps(1)) (use Suc.hyps(2) Suc.prems in auto)
  then show ?case by (subst cancel_all_loop.simps) (use n a in simp)
qed (subst cancel_all_loop.simps, simp)

definition ex_owner_world :: "(pubkey \<Rightarrow> int) world" where
  "ex_owner_world = ex_world\<lparr>w_ooa := ex_keyed\<rparr>"

lemma ex_cancel_by_id_runs: "\<exists>w1. cancel_order_by_client_order_id 1 ex_owner_world = Ok (5, w1)"
proof -
  obtain ob oo where c: "cancel_order ex_book ex_keyed (leaf_key ex_ask) AskFixed ex_market None = Ok (ex_ask, ob, oo)"
      and o: "open_orders oo = (open_orders ex_keyed)[0 := open_order_default]"
    using ex_cancel_runs [of None] by auto
  have "open_orders oo = replicate 24 open_order_default"
    by (simp add: o ex_keyed_def eval_nat_numeral)
  then have r: "cancel_all_loop (Suc 0) ex_market lim None co 5 ob oo = Ok (5, ob, oo)" for lim co
    by (intro cancel_all_free) (simp add: MAX_OPEN_ORDERS_def)
  have "cancel_all_loop 0 ex_market U8_MAX None (Some 1) 0 ex_book ex_keyed = Ok (5, ob, oo)"
    by (subst cancel_all_loop.simps)
      (use c r in \<open>simp add: ex_keyed_def arr_get_def MAX_OPEN_ORDERS_def int_defs\<close>)
  then show ?thesis
    by (simp add: cancel_order_by_client_order_id_def cancel_all_orders_def ex_owner_world_def)
qed

end
