(* ===== verification/Ledger_Examples.thy ===== *)
theory Ledger_Examples
  imports Ledger World_Examples
begin

text \<open>
  The life of a concrete market: it is created, its first user opens an account and places an order
  that rests on the book.
\<close>

definition ex_open_ctx :: create_ooa_ctx where
  "ex_open_ctx = \<lparr>cc_owner = 30, cc_delegate_account = None, cc_open_orders_account = 12, cc_bump = 0,
     cc_market = 31\<rparr>"

definition ex_blank :: open_orders_account where
  \<comment> \<open>as allocated: zeroed\<close>
  "ex_blank = default_for_tests\<lparr>oo_version := 0, open_orders := []\<rparr>"

lemma ex_open_runs:
  "ix_create_open_orders_account ex_open_ctx [] \<lparr>ix_bump = 0, ix_created_counter = 0, ix_addresses = []\<rparr> ex_blank =
   Ok (ex_account\<lparr>oo_account_num := 1\<rparr>, \<lparr>ix_bump = 0, ix_created_counter = 1, ix_addresses = [12]\<rparr>)"
  by (simp add: ix_create_open_orders_account_def check_create_ooa_def create_open_orders_account_def
      fill_from_str_def ex_open_ctx_def ex_blank_def ex_defs int_defs non_zero_key_def nz_of_option_def nz_is_some_def)

definition ex_limit_args :: place_order_args where
  "ex_limit_args = ex_bid_args\<lparr>a_order_type := PlaceLimit\<rparr>"

definition ex_new_market :: market where
  "ex_new_market = ex_market\<lparr>registration_time := 100, base_deposit_total := 0, quote_deposit_total := 0\<rparr>"

lemma ex_new_market_runs:
  "ix_create_market (\<lambda>_. 0) (\<lambda>_. Ok Stub) ex_clock ex_create_ctx []
     \<lparr>ocp_conf_filter = 0, ocp_max_staleness_slots = Some 100\<rparr> 10 100 (-200) 400 0 (zeroed_book Bids 4) zeroed_heap =
   Ok (ex_new_market, orderbook_init (zeroed_book Bids 4), heap_init zeroed_heap)"
  by (simp add: ix_create_market_def check_create_market_def create_market_def check_fees_def check_oracles_def
      fill_from_str_def ex_create_ctx_def handler_run_defs world_run_defs int_defs nz_is_some_def
      to_oracle_config_def ex_new_market_def ex_market_def)

definition ex_born :: "(pubkey \<Rightarrow> int) ledger" where
  "ex_born = \<lparr>lg_market = ex_new_market, lg_book = orderbook_init (zeroed_book Bids 4),
     lg_heap = heap_init zeroed_heap, lg_accounts = [12 \<mapsto> ex_account\<lparr>oo_account_num := 1\<rparr>], lg_tokens = (\<lambda>_. 9000)(8 := 0, 9 := 0)\<rparr>"

definition ex_start :: "(pubkey \<Rightarrow> int) world" where
  "ex_start = \<lparr>w_market = ex_new_market, w_book = orderbook_init (zeroed_book Bids 4),
     w_heap = heap_init zeroed_heap, w_ooa = ex_account\<lparr>oo_account_num := 1\<rparr>, w_remaining = [], w_tokens = (\<lambda>_. 9000)(8 := 0, 9 := 0)\<rparr>"

lemma first_free_slot [simp]: "P x \<Longrightarrow> position_of P (replicate 24 x) = Some 0"
  by (simp add: eval_nat_numeral)

definition ex_resting :: leaf_node where
  "ex_resting = leaf_new 0 (new_node_key Bid 20 1) 12 3 100 0 (-1) 5"

lemma collect_one [simp]: "collect_orders 5 ((replicate 4 Uninitialized)[0 := LeafNode l]) 0 = [l]"
  by (simp add: eval_nat_numeral)

lemma ex_post_runs:
  "\<exists>oid w'. ix_place_order ex_runtime ex_clock (Ok None) ex_place_ctx ex_limit_args ex_start = Ok (oid, w') \<and>
     w_tokens w' 9 = 600 \<and> market_quote_vault (w_market w') = 9 \<and> side_orders (bookside (w_book w') Bid) Fixed = [ex_resting]"
  by (simp add: ix_place_order_def place_order_def handler_run_defs world_run_defs Let_def ex_defs int_defs
      heap_run_defs order_run_defs match_run_defs moved_def ex_limit_args_def ex_start_def ex_new_market_def
      orderbook_init_def zeroed_book_def zeroed_heap_def post_order_def make_room_def book_insert_leaf_def
      book_remove_one_expired_def remove_one_expired_def find_earliest_expiry_def set_book_root_def
      book_is_full_def is_full_def next_order_slot_def add_order_def insert_leaf_def insert_node_def put_node_def
      side_orders_def tree_orders_def ex_resting_def)

text \<open>The market before and after.\<close>

lemma ex_born_reached: "reachable ex_runtime ex_bal ex_born"
proof -
  have born: "reachable ex_runtime ex_bal \<lparr>lg_market = ex_new_market, lg_book = orderbook_init (zeroed_book Bids 4),
      lg_heap = heap_init zeroed_heap, lg_accounts = Map.empty, lg_tokens = (\<lambda>_. 9000)(8 := 0, 9 := 0)\<rparr>"
    by (rule reachable.created [OF ex_new_market_runs])
      (simp_all add: int_limits zeroed_heap_def NO_NODE_def is_i64_def ex_create_ctx_def ex_bal_def)
  show ?thesis
    using reachable.opened [OF born ex_open_runs]
    by (simp add: ex_born_def ex_open_ctx_def ex_blank_def default_for_tests_def)
qed

lemma ex_loaded: "loaded ex_born ex_start"
  by (simp add: loaded_def ex_born_def ex_start_def)

lemma ex_reached:
  obtains L where "reachable ex_runtime ex_bal L" "ex_bal (lg_tokens L) (vault_of Bid (lg_market L)) = 600"
    "side_orders (bookside (lg_book L) Bid) Fixed = [ex_resting]"
proof -
  note ex_born_reached
  moreover note ex_loaded
  moreover have "sent_well ex_clock (PlaceOrder ex_place_ctx ex_limit_args) (lg_market ex_born)"
    by (simp add: sent_well_def ex_limit_args_def ex_born_def ex_new_market_def not_vault_def world_run_defs
        ex_market_def int_limits is_i64_def)
  moreover obtain oid w' where w': "ix_place_order ex_runtime ex_clock (Ok None) ex_place_ctx ex_limit_args ex_start = Ok (oid, w')"
      "w_tokens w' 9 = 600" "market_quote_vault (w_market w') = 9"
      "side_orders (bookside (w_book w') Bid) Fixed = [ex_resting]"
    using ex_post_runs by blast
  moreover have "acts_on (PlaceOrder ex_place_ctx ex_limit_args) 12" by (simp add: acts_on_def ex_place_ctx_def)
  moreover have "lg_accounts ex_born 12 = Some (w_ooa ex_start)" by (simp add: ex_born_def ex_start_def)
  ultimately have r: "reachable ex_runtime ex_bal (stored ex_born (Some 12) w')"
    by (intro reachable.on_account [where opl = "Ok None"]) (auto simp: res_simps)
  show thesis
    by (rule that [OF r]) (use w' in \<open>simp_all add: stored_def ex_bal_def vault_of_def\<close>)
qed

end
