(* ===== verification/Client_Book.thy ===== *)
theory Client_Book
  imports Orderbook
begin

text \<open>
  What the Rust client computes from a book it has fetched (\<open>lib/client/src/book.rs\<close>,
  \<open>lib/client/src/jup.rs\<close>): which accounts a taker should pass along, what a market order would take,
  and the quote for a swap made from that. The price of the oracle is a value of the fixed-point
  crate, of which only \<open>native_price_to_lot\<close> is used; it is a parameter. An error of the client's own
  error type that is not one of the program's is \<open>CpiErr\<close>.
\<close>

section \<open>Accounts to pass along\<close>

definition MAXIMUM_TAKEN_ORDERS :: int where "MAXIMUM_TAKEN_ORDERS = 45"
definition MAXIMUM_REMAINING_ACCOUNTS :: nat where "MAXIMUM_REMAINING_ACCOUNTS = 3"

definition to_lots :: "(market \<Rightarrow> 'p \<Rightarrow> i64 res) \<Rightarrow> market \<Rightarrow> 'p option \<Rightarrow> i64 option res" where
  \<comment> \<open>the oracle price, where there is one, in lots\<close>
  "to_lots native_price_to_lot m oracle_price = (case oracle_price of
     Some p \<Rightarrow> bnd (native_price_to_lot m p) (\<lambda>l. Ok (Some l))
   | None \<Rightarrow> Ok None)"

text \<open>A hash set that is collected into a list of no particular order: a set.\<close>

fun crank_loop :: "nat \<Rightarrow> order_tree \<Rightarrow> book_iter \<Rightarrow> pubkey set \<Rightarrow> pubkey set res" where
  "crank_loop 0 t bi accs = Inl OutOfFuel"
| "crank_loop (Suc fuel) t bi accs =
     bnd (valid_iter_next (side_fuel t) t bi) (\<lambda>(x, bi'). case x of
       None \<Rightarrow> Ok accs
     | Some order \<Rightarrow>
         (let accs' = insert (leaf_owner (item_node order)) accs in
          if card accs' \<ge> MAXIMUM_REMAINING_ACCOUNTS then Ok accs' else crank_loop fuel t bi' accs'))"

definition remaining_accounts_to_crank ::
  "(market \<Rightarrow> 'p \<Rightarrow> i64 res) \<Rightarrow> orderbook \<Rightarrow> side \<Rightarrow> market \<Rightarrow> 'p option \<Rightarrow> u64 \<Rightarrow> pubkey set res" where
  "remaining_accounts_to_crank native_price_to_lot book side m oracle_price now_ts =
     bnd (to_lots native_price_to_lot m oracle_price) (\<lambda>oracle_price_lots.
     let b = bookside book (invert_side side) in
     bnd (book_iter_new b now_ts oracle_price_lots) (\<lambda>bi.
     crank_loop (side_fuel (side_nodes b)) (side_nodes b) bi {}))"

section \<open>What a market order would take\<close>

record sweep =
  sw_base :: i64
  sw_quote :: i64
  sw_rebates :: u64
  sw_limit :: int
  sw_fills :: nat
  sw_dropped :: nat
  sw_accounts :: "pubkey list"

definition sweep_fill :: "market \<Rightarrow> book_item \<Rightarrow> i64 \<Rightarrow> sweep \<Rightarrow> sweep res" where
  "sweep_fill m best match_base_lots st =
     (let owner = leaf_owner (item_node best) in
      bnd (chk_i64 (match_base_lots * item_price_lots best)) (\<lambda>match_quote_lots.
      bnd (chk_i64 (match_quote_lots * quote_lot_size m)) (\<lambda>native.
      bnd (maker_rebate_floor m (as_u64 native)) (\<lambda>rebate.
      bnd (chk_u64 (sw_rebates st + rebate)) (\<lambda>acc.
      bnd (chk_i64 (sw_base st - match_base_lots)) (\<lambda>rb.
      bnd (chk_i64 (sw_quote st - match_quote_lots)) (\<lambda>rq.
      bnd (chk_u8 (sw_limit st - 1)) (\<lambda>lim.
      let st1 = st\<lparr>sw_base := rb, sw_quote := rq, sw_rebates := acc, sw_limit := lim\<rparr> in
      Ok (if sw_fills st < FILL_EVENT_REMAINING_LIMIT
          then st1\<lparr>sw_accounts := sw_accounts st @ [owner], sw_fills := sw_fills st + 1\<rparr>
          else st1)))))))))"

text \<open>One round of the loop; \<open>None\<close> is its \<open>break\<close>.\<close>

definition sweep_step :: "market \<Rightarrow> book_item \<Rightarrow> sweep \<Rightarrow> sweep option res" where
  "sweep_step m best st =
     (if \<not> item_is_valid best then
        Ok (Some (if sw_dropped st < DROP_EXPIRED_ORDER_LIMIT
          then st\<lparr>sw_accounts := sw_accounts st @ [leaf_owner (item_node best)], sw_dropped := sw_dropped st + 1\<rparr>
          else st))
      else if sw_base st = 0 \<or> sw_quote st = 0 \<or> sw_limit st = 0 then Ok None
      else
        bnd (div_chk is_i64 (sw_quote st) (item_price_lots best)) (\<lambda>max_match_by_quote.
        if max_match_by_quote = 0 then Ok None
        else bnd (sweep_fill m best (min (min (sw_base st) (quantity (item_node best))) max_match_by_quote) st)
               (\<lambda>st'. Ok (Some st'))))"

fun sweep_loop :: "nat \<Rightarrow> market \<Rightarrow> order_tree \<Rightarrow> book_iter \<Rightarrow> sweep \<Rightarrow> sweep res" where
  "sweep_loop 0 m t bi st = Inl OutOfFuel"
| "sweep_loop (Suc fuel) m t bi st =
     bnd (book_iter_next t bi) (\<lambda>(x, bi'). case x of
       None \<Rightarrow> Ok st
     | Some best \<Rightarrow> bnd (sweep_step m best st) (\<lambda>r. case r of
         None \<Rightarrow> Ok st
       | Some st' \<Rightarrow> sweep_loop fuel m t bi' st'))"

record swept =
  swept_base_lots :: i64
  swept_quote_lots :: i64
  swept_rebates :: u64
  swept_not_enough :: bool
  swept_accounts :: "pubkey list"

definition iterate_book ::
  "orderbook \<Rightarrow> side \<Rightarrow> i64 \<Rightarrow> i64 \<Rightarrow> market \<Rightarrow> i64 option \<Rightarrow> u64 \<Rightarrow> pubkey list \<Rightarrow> swept res" where
  "iterate_book book side max_base max_quote m oracle_price_lots now_ts accs =
     bnd (case side of Bid \<Rightarrow> subtract_taker_fees m max_quote | Ask \<Rightarrow> Ok max_quote) (\<lambda>max_quote_lots.
     let b = bookside book (invert_side side) in
     bnd (book_iter_new b now_ts oracle_price_lots) (\<lambda>bi.
     bnd (sweep_loop (side_fuel (side_nodes b)) m (side_nodes b) bi
            \<lparr>sw_base = max_base, sw_quote = max_quote_lots, sw_rebates = 0, sw_limit = MAXIMUM_TAKEN_ORDERS,
             sw_fills = 0, sw_dropped = 0, sw_accounts = accs\<rparr>) (\<lambda>st.
     bnd (chk_i64 (max_base - sw_base st)) (\<lambda>bl.
     bnd (chk_i64 (max_quote_lots - sw_quote st)) (\<lambda>ql.
     Ok \<lparr>swept_base_lots = bl, swept_quote_lots = ql, swept_rebates = sw_rebates st,
         swept_not_enough = (case side of Ask \<Rightarrow> sw_base st \<noteq> 0 | Bid \<Rightarrow> sw_quote st \<noteq> 0),
         swept_accounts = sw_accounts st\<rparr>)))))"

record amounts =
  am_base_native :: u64
  am_quote_native :: u64
  am_fee :: u64
  am_not_enough :: bool

definition amounts_from_book ::
  "(market \<Rightarrow> 'p \<Rightarrow> i64 res) \<Rightarrow> orderbook \<Rightarrow> side \<Rightarrow> i64 \<Rightarrow> i64 \<Rightarrow> market \<Rightarrow> 'p option \<Rightarrow> u64 \<Rightarrow> amounts res" where
  "amounts_from_book native_price_to_lot book side max_base max_quote m oracle_price now_ts =
     bnd (to_lots native_price_to_lot m oracle_price) (\<lambda>oracle_price_lots.
     bnd (iterate_book book side max_base max_quote m oracle_price_lots now_ts []) (\<lambda>x.
     bnd (chk_i64 (swept_base_lots x * base_lot_size m)) (\<lambda>bn.
     bnd (chk_i64 (swept_quote_lots x * quote_lot_size m)) (\<lambda>qn.
     Ok \<lparr>am_base_native = as_u64 bn, am_quote_native = as_u64 qn, am_fee = swept_rebates x,
         am_not_enough = swept_not_enough x\<rparr>))))"

section \<open>The quote of a swap\<close>

record 'p open_book_market =
  jm_market :: market
  jm_event_heap :: event_heap
  jm_bids :: book_side
  jm_asks :: book_side
  jm_timestamp :: u64
  jm_key :: pubkey
  jm_label :: string
  jm_related_accounts :: "pubkey list"
  jm_reserve_mints :: "pubkey \<times> pubkey"
  jm_oracle_price :: "'p option"
  jm_is_permissioned :: bool

abbreviation jm_book :: "'p open_book_market \<Rightarrow> orderbook" where
  "jm_book jm \<equiv> \<lparr>bids = jm_bids jm, asks = jm_asks jm\<rparr>"

record jup_quote =
  sq_in_amount :: u64
  sq_out_amount :: u64
  sq_fee_mint :: pubkey
  sq_fee_amount :: u64
  sq_not_enough_liquidity :: bool

text \<open>The limits on lots, with the precedence of the operators in the code: the lot size less one
  is divided by the lot size, and the amount is added.\<close>

definition swap_limits :: "market \<Rightarrow> side \<Rightarrow> i64 \<Rightarrow> (i64 \<times> i64) res" where
  "swap_limits m side input_amount = (case side of
     Bid \<Rightarrow> bnd (max_base_lots m) (\<lambda>mb.
       bnd (chk_i64 (quote_lot_size m - 1)) (\<lambda>d.
       bnd (div_chk is_i64 d (quote_lot_size m)) (\<lambda>q.
       bnd (chk_i64 (input_amount + q)) (\<lambda>mq. Ok (mb, mq)))))
   | Ask \<Rightarrow> bnd (chk_i64 (base_lot_size m - 1)) (\<lambda>d.
       bnd (div_chk is_i64 d (base_lot_size m)) (\<lambda>q.
       bnd (chk_i64 (input_amount + q)) (\<lambda>mb.
       bnd (max_quote_lots m) (\<lambda>mq. Ok (mb, mq))))))"

definition quote_from_amounts :: "market \<Rightarrow> side \<Rightarrow> amounts \<Rightarrow> jup_quote res" where
  "quote_from_amounts m side am =
     bnd (case side of
        Bid \<Rightarrow> bnd (chk_u64 (am_quote_native am - am_fee am)) (\<lambda>i. Ok (i, am_base_native am))
      | Ask \<Rightarrow> bnd (chk_u64 (am_quote_native am + am_fee am)) (\<lambda>out. Ok (am_base_native am, out))) (\<lambda>(i, out).
     Ok \<lparr>sq_in_amount = i, sq_out_amount = out, sq_fee_mint = quote_mint m, sq_fee_amount = am_fee am,
         sq_not_enough_liquidity = am_not_enough am\<rparr>)"

definition swap_quote ::
  "(market \<Rightarrow> 'p \<Rightarrow> i64 res) \<Rightarrow> 'p open_book_market \<Rightarrow> pubkey \<Rightarrow> u64 \<Rightarrow> jup_quote res" where
  \<comment> \<open>\<open>OpenBookMarket::quote\<close>; the time it passes on is 0\<close>
  "swap_quote native_price_to_lot jm input_mint in_amount =
     (if jm_is_permissioned jm then
        Ok \<lparr>sq_in_amount = 0, sq_out_amount = 0, sq_fee_mint = 0, sq_fee_amount = 0, sq_not_enough_liquidity = True\<rparr>
      else
        let m = jm_market jm; side = (if input_mint = quote_mint m then Bid else Ask) in
        if \<not> is_i64 in_amount then Inl CpiErr
        else bnd (swap_limits m side in_amount) (\<lambda>(max_base, max_quote).
          bnd (amounts_from_book native_price_to_lot (jm_book jm) side max_base max_quote m (jm_oracle_price jm) 0)
            (quote_from_amounts m side)))"

end
