(* ===== verification/Client_Book_Correct.thy ===== *)
theory Client_Book_Correct
  imports Client_Book Book_Fresh Accounting_Order Termination
begin

text \<open>
  The client's walk through the book takes what the program's matching loop takes, for a market
  order of a taker without an open-orders account; and what the swap quote makes of it.
\<close>

section \<open>The iterator of a sound side never fails\<close>

definition iter_sound :: "order_tree \<Rightarrow> nat \<Rightarrow> book_iter \<Rightarrow> bool" where
  "iter_sound T n bi \<longleftrightarrow> (\<exists>fs ps. iter_rest T (fixed_iter bi) fs \<and> iter_rest T (pegged_iter bi) ps \<and>
     length fs + length ps \<le> n \<and> length ps < tree_fuel T \<and>
     (\<forall>x \<in> set fs. leaf_ok (snd x) \<and> fixed_priced (snd x)) \<and> (\<forall>x \<in> set ps. leaf_ok (snd x)))"

lemma in_tl: "x \<in> set (tl xs) \<Longrightarrow> x \<in> set xs"
  by (cases xs) auto

lemma iter_soundI:
  "iter_rest T (fixed_iter bi) fs' \<Longrightarrow> iter_rest T (pegged_iter bi) ps' \<Longrightarrow> length fs' + length ps' \<le> n \<Longrightarrow>
   length ps' < tree_fuel T \<Longrightarrow> set fs' \<subseteq> set fs \<Longrightarrow> set ps' \<subseteq> set ps \<Longrightarrow>
   \<forall>x \<in> set fs. leaf_ok (snd x) \<and> fixed_priced (snd x) \<Longrightarrow> \<forall>x \<in> set ps. leaf_ok (snd x) \<Longrightarrow> iter_sound T n bi"
  unfolding iter_sound_def by blast

definition priced :: "book_item \<Rightarrow> bool" where
  "priced best \<longleftrightarrow> 1 \<le> item_price_lots best \<and> item_price_lots best \<le> I64_MAX"

lemma priced_items [simp]:
  "fixed_priced (snd x) \<Longrightarrow> priced (fixed_item now_ts x)" "priced (pegged_item side opl now_ts x)"
  using pegged_price_range by (simp_all add: priced_def fixed_priced_def)

lemma rank_orders_total:
  assumes "\<And>x. f = Some x \<Longrightarrow> leaf_ok (snd x) \<and> fixed_priced (snd x)" and "\<And>x. p = Some x \<Longrightarrow> leaf_ok (snd x)"
  shows "\<exists>r. rank_orders side f p w now_ts opl = Ok r \<and> (\<forall>best. r = Some best \<longrightarrow> priced best \<and>
    (item_tree best = Fixed \<longrightarrow> f \<noteq> None) \<and> (item_tree best = OraclePegged \<longrightarrow> p \<noteq> None))"
proof (cases f)
  case None
  then show ?thesis
    using assms(2) rank_pegged_only by (cases p; cases opl) (auto simp: rank_orders_def)
next
  case (Some x)
  note x = assms(1) [OF Some]
  show ?thesis
  proof (cases "p = None \<or> opl = None")
    case True
    then have "rank_orders side f p w now_ts opl = Ok (Some (fixed_item now_ts x))"
      using rank_fixed_only [of x side w now_ts opl] x Some by (cases p; cases opl) (auto simp: rank_orders_def)
    then show ?thesis using x Some by simp
  next
    case False
    then show ?thesis
      using rank_both [of x] x Some assms(2) by auto
  qed
qed

lemma book_iter_next_total:
  assumes "iter_sound T n bi"
  shows "\<exists>x bi'. book_iter_next T bi = Ok (x, bi') \<and>
    (\<forall>best. x = Some best \<longrightarrow> 0 < n \<and> iter_sound T (n - 1) bi' \<and> priced best)"
proof -
  obtain fs ps where fs: "iter_rest T (fixed_iter bi) fs" and ps: "iter_rest T (pegged_iter bi) ps"
    and le: "length fs + length ps \<le> n" "length ps < tree_fuel T"
    and ok: "\<forall>x \<in> set fs. leaf_ok (snd x) \<and> fixed_priced (snd x)" "\<forall>x \<in> set ps. leaf_ok (snd x)"
    using assms unfolding iter_sound_def by blast
  let ?side = "iter_side (fixed_iter bi)"
  have pk: "iter_peek (pegged_iter bi) = (case ps of [] \<Rightarrow> None | x # _ \<Rightarrow> Some x)" by (rule iter_peek_ok [OF ps])
  have fk: "iter_peek (fixed_iter bi) = (case fs of [] \<Rightarrow> None | x # _ \<Rightarrow> Some x)" by (rule iter_peek_ok [OF fs])
  obtain x it' k where sk: "(case bi_oracle_price_lots bi of
        Some opl \<Rightarrow> skip_loop (side_fuel T) T opl ?side (iter_peek (pegged_iter bi)) (pegged_iter bi)
      | None \<Rightarrow> Ok (None, pegged_iter bi)) = Ok (x, it')"
    and k: "iter_rest T it' (drop k ps)" "x \<noteq> None \<Longrightarrow> length (drop (Suc k) ps) < length ps"
      "\<And>l. x = Some l \<Longrightarrow> l \<in> set ps" "x \<noteq> None \<Longrightarrow> 0 < length ps"
  proof (cases "bi_oracle_price_lots bi")
    case None
    then show thesis using that [of None "pegged_iter bi" 0] ps by simp
  next
    case (Some opl)
    have "length ps + 2 \<le> side_fuel T" using le(2) by (simp add: side_fuel_def)
    from skip_loop_ends [OF ps this, of opl ?side "iter_peek (pegged_iter bi)"]
    obtain x it' where s: "skip_loop (side_fuel T) T opl ?side (iter_peek (pegged_iter bi)) (pegged_iter bi) = Ok (x, it')"
      by blast
    from skip_loop_rest [OF s ps] obtain k where k: "iter_rest T it' (drop k ps)"
        "x = None \<or> x = iter_peek (pegged_iter bi) \<and> k = 0 \<or> 0 < k \<and> k \<le> length ps \<and> x = Some (ps ! (k - 1))"
      by blast
    have m: "l \<in> set ps" if "x = Some l" for l
    proof (cases "0 < k \<and> k \<le> length ps \<and> x = Some (ps ! (k - 1))")
      case True
      then have "k - 1 < length ps" by linarith
      then show ?thesis using nth_mem [of "k - 1" ps] True that by simp
    next
      case False
      then show ?thesis using k(2) that pk by (auto split: list.splits)
    qed
    show thesis
    proof (rule that [of x it' k])
      show "length (drop (Suc k) ps) < length ps" "0 < length ps" if "x \<noteq> None" using m that by (cases ps; auto)+
    qed (use s Some k(1) m in simp_all)
  qed
  obtain f1 where f1: "iter_next T (fixed_iter bi) = Ok (case fs of [] \<Rightarrow> None | x # _ \<Rightarrow> Some x, f1)"
      "iter_rest T f1 (tl fs)" using iter_next_ok [OF fs] by blast
  obtain p1 y where p1: "iter_next T it' = Ok (y, p1)" "iter_rest T p1 (tl (drop k ps))"
    using iter_next_ok [OF k(1)] by blast
  obtain r where r: "rank_orders ?side (iter_peek (fixed_iter bi)) x False (bi_now_ts bi) (bi_oracle_price_lots bi) = Ok r"
      "\<And>best. r = Some best \<Longrightarrow> priced best \<and> (item_tree best = Fixed \<longrightarrow> iter_peek (fixed_iter bi) \<noteq> None) \<and>
        (item_tree best = OraclePegged \<longrightarrow> x \<noteq> None)"
    using rank_orders_total [of "iter_peek (fixed_iter bi)" x ?side False "bi_now_ts bi" "bi_oracle_price_lots bi"]
      ok k(3) fk by (auto split: list.splits)
  show ?thesis
  proof (cases r)
    case None
    then show ?thesis using sk r(1) by (simp add: book_iter_next_def Let_def)
  next
    case (Some best)
    note b = r(2) [OF Some]
    show ?thesis
    proof (cases "item_tree best")
      case Fixed
      then have "0 < length fs" using b fk by (auto split: list.splits)
      then have "0 < n" "length (tl fs) + length (drop k ps) \<le> n - 1" using le(1) by (cases fs; auto)+
      moreover have "book_iter_next T bi = Ok (Some best, bi\<lparr>pegged_iter := it', fixed_iter := f1\<rparr>)"
        using sk r(1) Some f1 Fixed by (simp add: book_iter_next_def Let_def)
      moreover have "iter_sound T (n - 1) (bi\<lparr>pegged_iter := it', fixed_iter := f1\<rparr>)"
        by (rule iter_soundI [of _ _ "tl fs" "drop k ps" _ fs ps])
          (use f1(2) k(1) le ok calculation(1,2) in \<open>auto dest: in_set_dropD dest: in_tl\<close>)
      ultimately show ?thesis using b by simp
    next
      case OraclePegged
      then have x: "x \<noteq> None" using b by simp
      then have "0 < n" "length fs + length (tl (drop k ps)) \<le> n - 1" using le(1) k(4) by (cases ps; auto)+
      moreover have "book_iter_next T bi = Ok (Some best, bi\<lparr>pegged_iter := p1\<rparr>)"
        using sk r(1) Some p1 OraclePegged by (simp add: book_iter_next_def Let_def)
      moreover have "iter_sound T (n - 1) (bi\<lparr>pegged_iter := p1\<rparr>)"
        by (rule iter_soundI [of _ _ fs "tl (drop k ps)" _ fs ps])
          (use p1(2) fs le ok calculation(1,2) in \<open>auto dest: in_set_dropD in_tl\<close>)
      ultimately show ?thesis using b by simp
    qed
  qed
qed

lemma book_iter_new_sound:
  assumes "sound_side b"
  shows "\<exists>bi n. book_iter_new b now_ts opl = Ok bi \<and> iter_sound (side_nodes b) n bi \<and> n < side_fuel (side_nodes b)"
proof -
  have g: "good_side b" using assms by (rule sound_sideD)
  have "\<exists>it xs. iter_new (side_nodes b) (book_root b c) = Ok it \<and> iter_rest (side_nodes b) it xs \<and>
      length xs < tree_fuel (side_nodes b) \<and> (\<forall>x \<in> set xs. leaf_ok (snd x) \<and> snd x \<in> set (side_orders b c))" for c
  proof -
    obtain F where F: "good_tree (side_nodes b) (book_root b c) F" using good_side_tree [OF g] by blast
    from iter_spec [OF F] obtain it xs where i: "iter_new (side_nodes b) (book_root b c) = Ok it"
        "iter_rest (side_nodes b) it xs" "length xs < tree_fuel (side_nodes b)"
        "map snd xs = book_order (order_tree_type (side_nodes b)) (side_orders b c)"
      by (auto simp: side_orders_def)
    have "snd x \<in> set (side_orders b c)" if "x \<in> set xs" for x
      using i(4) that by (metis image_eqI set_book_order set_map)
    then show ?thesis using i good_tree_leaf_ok [OF F] by (auto simp: side_orders_def)
  qed
  from this [of Fixed] this [of OraclePegged] obtain f fs p ps where it:
      "iter_new (side_nodes b) (book_root b Fixed) = Ok f" "iter_rest (side_nodes b) f fs"
      "length fs < tree_fuel (side_nodes b)" "\<forall>x \<in> set fs. leaf_ok (snd x) \<and> snd x \<in> set (side_orders b Fixed)"
      "iter_new (side_nodes b) (book_root b OraclePegged) = Ok p" "iter_rest (side_nodes b) p ps"
      "length ps < tree_fuel (side_nodes b)" "\<forall>x \<in> set ps. leaf_ok (snd x)"
    by blast
  have "iter_sound (side_nodes b) (length fs + length ps)
      \<lparr>fixed_iter = f, pegged_iter = p, bi_now_ts = now_ts, bi_oracle_price_lots = opl\<rparr>"
    unfolding iter_sound_def using it sound_sideD(3) [OF assms] by (intro exI [of _ fs] exI [of _ ps]) simp
  moreover have "book_iter_new b now_ts opl =
      Ok \<lparr>fixed_iter = f, pegged_iter = p, bi_now_ts = now_ts, bi_oracle_price_lots = opl\<rparr>"
    using it by (simp add: book_iter_new_def)
  moreover have "length fs + length ps < side_fuel (side_nodes b)" using it by (simp add: side_fuel_def)
  ultimately show ?thesis by blast
qed

section \<open>The client follows the matching loop\<close>

definition follows :: "sweep \<Rightarrow> match_state \<Rightarrow> bool" where
  "follows c st \<longleftrightarrow> sw_base c = mt_base st \<and> sw_quote c = mt_quote st \<and> sw_rebates c = mt_rebates st"

text \<open>Once an amount is used up, the client passes over the orders that are not valid.\<close>

lemma sweep_idle:
  "iter_sound T n bi \<Longrightarrow> n < fuel \<Longrightarrow> sw_base c = 0 \<or> sw_quote c = 0 \<Longrightarrow> follows c st \<Longrightarrow>
   \<exists>c'. sweep_loop fuel m T bi c = Ok c' \<and> follows c' st"
proof (induction fuel arbitrary: n bi c)
  case (Suc fuel)
  obtain x bi' where nx: "book_iter_next T bi = Ok (x, bi')"
      "\<And>best. x = Some best \<Longrightarrow> 0 < n \<and> iter_sound T (n - 1) bi'"
    using book_iter_next_total [OF Suc.prems(1)] by blast
  show ?case
  proof (cases x)
    case (Some best)
    have "sweep_step m best c = Ok None \<or> (\<exists>c'. sweep_step m best c = Ok (Some c') \<and>
        (sw_base c' = 0 \<or> sw_quote c' = 0) \<and> follows c' st)"
      using Suc.prems(3,4) by (auto simp: sweep_step_def follows_def)
    then consider "sweep_step m best c = Ok None"
      | c' where "sweep_step m best c = Ok (Some c')" "sw_base c' = 0 \<or> sw_quote c' = 0" "follows c' st" by blast
    then show ?thesis
    proof cases
      case c': (2 c')
      have "iter_sound T (n - 1) bi'" "n - 1 < fuel" using nx(2) [OF Some] Suc.prems(2) by auto
      from Suc.IH [OF this c'(2,3)] show ?thesis using nx(1) Some c'(1) by simp
    qed (use nx(1) Some Suc.prems(4) in auto)
  qed (use nx(1) Suc.prems(4) in auto)
qed simp

lemma same_terms_rebate: "same_terms m m' \<Longrightarrow> maker_rebate_floor m' = maker_rebate_floor m"
  by (simp add: same_terms_def fun_eq_iff maker_rebate_floor_def unsigned_maker_fees_floor_def)

definition plain_take :: "order \<Rightarrow> i64 \<Rightarrow> market \<Rightarrow> match_state \<Rightarrow> bool" where
  \<comment> \<open>a market order of a taker without an account, in the course of matching\<close>
  "plain_take order price_lots m st \<longleftrightarrow> o_params order = MarketParams \<and>
     price_lots = market_order_limit_for_side (o_side order) \<and>
     ac_ooa (mt_acc st) = None \<and> same_terms m (ac_market (mt_acc st))"

lemma process_out_event_ooa: "process_out_event ev owner ac = Ok ac' \<Longrightarrow> ac_ooa ac = None \<Longrightarrow> ac_ooa ac' = None"
  by (auto simp: process_out_event_def queue_out_event_def res_simps split: option.splits if_splits)

lemma process_fill_event_ooa: "process_fill_event ev n ac = Ok (n', ac') \<Longrightarrow> ac_ooa ac' = ac_ooa ac"
  by (auto simp: process_fill_event_def res_simps split: option.splits if_splits)

lemma fill_follows:
  assumes pl: "plain_take order pl m st" and f: "follows c st" "sw_limit c = mt_limit st"
    and t: "self_trade_step order owner best (mb * item_price_lots best) st = Ok (Proceed st1)"
    and fl: "fill_order order owner now_ts best mb (mb * item_price_lots best) st1 = Ok st'"
    and mq: "is_i64 (mb * item_price_lots best)"
  shows "\<exists>c'. sweep_fill m best mb c = Ok c' \<and> follows c' st' \<and> sw_limit c' = mt_limit st' \<and> plain_take order pl m st'"
proof -
  have none: "ac_ooa (mt_acc st) = None" and tm: "same_terms m (ac_market (mt_acc st))"
    using pl by (simp_all add: plain_take_def)
  have ql: "quote_lot_size (ac_market (mt_acc st)) = quote_lot_size m" using tm by (simp add: same_terms_def)
  obtain r where r: "is_i64 (mb * item_price_lots best * quote_lot_size m)"
      "maker_rebate_floor m (as_u64 (mb * item_price_lots best * quote_lot_size m)) = Ok r"
      "is_u64 (mt_rebates st + r)" and st1: "st1 = st\<lparr>mt_rebates := mt_rebates st + r\<rparr>"
    using t none by (auto simp: self_trade_step_def rebate_step_def Let_def res_simps ql same_terms_rebate [OF tm])
  have st': "is_i64 (mt_base st - mb)" "is_i64 (mt_quote st - mb * item_price_lots best)" "is_u8 (mt_limit st - 1)"
      "mt_base st' = mt_base st - mb" "mt_quote st' = mt_quote st - mb * item_price_lots best"
      "mt_rebates st' = mt_rebates st + r" "mt_limit st' = mt_limit st - 1"
      "ac_ooa (mt_acc st') = None"
    using fl none by (auto simp: fill_order_def Let_def res_simps st1 dest!: process_fill_event_ooa split: if_splits)
  have "same_terms (ac_market (mt_acc st)) (ac_market (mt_acc st'))" using fill_order_inv [OF fl] by (simp add: st1)
  then have "plain_take order pl m st'"
    using pl st'(8) same_terms_trans [OF tm] by (simp add: plain_take_def)
  then show ?thesis
    using f r mq st' by (simp add: sweep_fill_def follows_def Let_def)
qed

lemma step_follows:
  assumes s: "match_step order owner now_ts price_lots best st = Ok r" and pr: "priced best"
    and pl: "plain_take order price_lots m st" and f: "follows c st" "sw_limit c = mt_limit st"
    and nz: "mt_base st \<noteq> 0" "mt_quote st \<noteq> 0"
  shows "case r of Break st' \<Rightarrow> sweep_step m best c = Ok None \<and> follows c st'
    | Continue st' \<Rightarrow> \<exists>c'. sweep_step m best c = Ok (Some c') \<and> follows c' st' \<and> sw_limit c' = mt_limit st' \<and>
        plain_take order price_lots m st'"
proof -
  have w: "is_price_within_limit (o_side order) (item_price_lots best) price_lots" "\<not> is_post_only order"
    using pr pl by (cases "o_side order"; simp add: priced_def plain_take_def is_post_only_def int_limits)+
  consider (drop) "\<not> item_is_valid best" | (stop) "item_is_valid best" "mt_limit st = 0"
    | (div) "item_is_valid best" "mt_limit st \<noteq> 0" by blast
  then show ?thesis
  proof cases
    case drop
    then obtain st' where d: "drop_invalid order owner now_ts best st = Ok st'" and r: "r = Continue st'"
      using s nz by (auto simp: match_step_def res_simps)
    have st': "mt_base st' = mt_base st" "mt_quote st' = mt_quote st" "mt_rebates st' = mt_rebates st"
        "mt_limit st' = mt_limit st" "ac_ooa (mt_acc st') = None"
      using d pl process_out_event_ooa by (auto simp: drop_invalid_def plain_take_def res_simps split: if_splits)
    have "ac_market (mt_acc st') = ac_market (mt_acc st)" by (rule drop_invalid_terms [OF d])
    then show ?thesis using drop r st' f pl by (auto simp: sweep_step_def follows_def plain_take_def)
  next
    case stop
    then have "r = Break (st\<lparr>mt_post_target := None\<rparr>)" using s nz w by (simp add: match_step_def stop_posting_def)
    then show ?thesis using stop f by (simp add: sweep_step_def follows_def)
  next
    case div
    obtain q where q: "div_chk is_i64 (mt_quote st) (item_price_lots best) = Ok q"
      using s nz w div by (auto simp: match_step_def res_simps)
    let ?mb = "min (min (mt_base st) (quantity (item_node best))) q"
    have cl: "sw_base c = mt_base st" "sw_quote c = mt_quote st" using f by (simp_all add: follows_def)
    show ?thesis
    proof (cases "q = 0")
      case True
      then have "r = Break (st\<lparr>mt_post_target := None\<rparr>)"
        using s nz w div q by (simp add: match_step_def stop_posting_def)
      then show ?thesis using True div f q nz by (simp add: sweep_step_def cl) (simp add: follows_def)
    next
      case False
      then obtain t where mq: "is_i64 (?mb * item_price_lots best)"
          and t: "self_trade_step order owner best (?mb * item_price_lots best) st = Ok t"
          and rest: "(case t of SkipMatch st' \<Rightarrow> Ok (Continue st')
           | Proceed st' \<Rightarrow> bnd (fill_order order owner now_ts best ?mb (?mb * item_price_lots best) st')
                 (\<lambda>st''. Ok (Continue st''))) = Ok r"
        using s nz w div q by (auto simp: match_step_def Let_def res_simps)
      have "ac_ooa (mt_acc st) = None" using pl by (simp add: plain_take_def)
      then obtain st1 where p: "t = Proceed st1"
        using t by (auto simp: self_trade_step_def rebate_step_def Let_def res_simps)
      then obtain st' where fl: "fill_order order owner now_ts best ?mb (?mb * item_price_lots best) st1 = Ok st'"
          and r: "r = Continue st'" using rest by (auto simp: res_simps)
      from fill_follows [OF pl f t [unfolded p] fl mq] show ?thesis
        using False div f(2) q nz r by (auto simp: sweep_step_def cl)
    qed
  qed
qed

lemma sweep_follows:
  "match_loop fuel order owner now_ts price_lots T bi st = Ok st' \<Longrightarrow> iter_sound T n bi \<Longrightarrow> n < fuel \<Longrightarrow>
   plain_take order price_lots m st \<Longrightarrow> follows c st \<Longrightarrow> sw_limit c = mt_limit st \<Longrightarrow>
   \<exists>c'. sweep_loop fuel m T bi c = Ok c' \<and> follows c' st'"
proof (induction fuel arbitrary: n bi st c)
  case (Suc fuel)
  obtain x bi' where nx: "book_iter_next T bi = Ok (x, bi')"
      "\<And>best. x = Some best \<Longrightarrow> 0 < n \<and> iter_sound T (n - 1) bi' \<and> priced best"
    using book_iter_next_total [OF Suc.prems(2)] by blast
  show ?case
  proof (cases x)
    case (Some best)
    have it: "iter_sound T (n - 1) bi'" "n - 1 < fuel" "priced best" using nx(2) [OF Some] Suc.prems(3) by auto
    obtain r where r: "match_step order owner now_ts price_lots best st = Ok r"
        "(case r of Break st1 \<Rightarrow> Ok st1 | Continue st1 \<Rightarrow> match_loop fuel order owner now_ts price_lots T bi' st1) = Ok st'"
      using Suc.prems(1) nx(1) Some by (auto simp: res_simps)
    show ?thesis
    proof (cases "mt_base st = 0 \<or> mt_quote st = 0")
      case True
      then have "st' = st" using r by (auto simp: match_step_def)
      moreover have "sw_base c = 0 \<or> sw_quote c = 0" using True Suc.prems(5) by (simp add: follows_def)
      ultimately show ?thesis using sweep_idle [OF Suc.prems(2,3) _ Suc.prems(5)] by simp
    next
      case False
      then have nz: "mt_base st \<noteq> 0" "mt_quote st \<noteq> 0" by simp_all
      note sf = step_follows [OF r(1) it(3) Suc.prems(4-6) nz]
      show ?thesis
      proof (cases r)
        case (Break st1)
        then show ?thesis using sf r(2) nx(1) Some by auto
      next
        case (Continue st1)
        obtain c1 where c1: "sweep_step m best c = Ok (Some c1)" "follows c1 st1" "sw_limit c1 = mt_limit st1"
            "plain_take order price_lots m st1" using sf Continue by auto
        have "match_loop fuel order owner now_ts price_lots T bi' st1 = Ok st'" using r(2) Continue by simp
        from Suc.IH [OF this it(1,2) c1(4,2,3)] show ?thesis using nx(1) Some c1(1) by simp
      qed
    qed
  qed (use nx(1) Suc.prems in auto)
qed simp

section \<open>The book as a whole\<close>

lemma take_step_amounts:
  assumes "take_step order mq st = Ok (tk, st1)"
  shows "tk_base_native tk = as_u64 ((o_max_base_lots order - mt_base st) * base_lot_size (ac_market (mt_acc st)))"
    and "tk_quote_native tk = as_u64 ((mq - mt_quote st) * quote_lot_size (ac_market (mt_acc st)))"
    and "is_i64 (mq - mt_quote st)" "is_i64 (o_max_base_lots order - mt_base st)"
    and "is_i64 ((mq - mt_quote st) * quote_lot_size (ac_market (mt_acc st)))"
    and "is_i64 ((o_max_base_lots order - mt_base st) * base_lot_size (ac_market (mt_acc st)))"
    and "mt_decremented st = 0 \<Longrightarrow> 0 < tk_quote_native tk \<Longrightarrow> tk_taker_fees tk = mt_rebates st + tk_referrer tk"
  using assms
  by (auto simp: take_step_def taker_fees_step_def Let_def res_simps split: if_splits option.splits side.splits)

definition no_own :: "i64 \<Rightarrow> market \<Rightarrow> match_state \<Rightarrow> bool" where
  "no_own d m st \<longleftrightarrow> mt_decremented st = d \<and> ac_ooa (mt_acc st) = None \<and> same_terms m (ac_market (mt_acc st))"

lemma match_step_no_own:
  assumes s: "match_step order owner now_ts price_lots best st = Ok r" and x: "no_own d m st"
  shows "no_own d m (flow_state r)"
  using s
proof (cases rule: match_step_cases)
  case stop
  then show ?thesis using x by (auto simp: no_own_def)
next
  case (drop st')
  have "mt_decremented st' = mt_decremented st" "ac_ooa (mt_acc st) = None \<Longrightarrow> ac_ooa (mt_acc st') = None"
    using drop(1) process_out_event_ooa by (auto simp: drop_invalid_def res_simps split: if_splits)
  then show ?thesis using x drop_invalid_terms [OF drop(1)] by (simp add: no_own_def drop(2))
next
  case (trade q mb t)
  obtain st1 where t: "t = Proceed st1" "mt_decremented st1 = d" "mt_acc st1 = mt_acc st"
    using trade(8) x by (auto simp: no_own_def self_trade_step_def rebate_step_def Let_def res_simps)
  have f: "fill_order order owner now_ts best mb (mb * item_price_lots best) st1 = Ok (flow_state r)"
    using trade(9) t(1) by simp
  have "ac_ooa (mt_acc (flow_state r)) = None"
    by (rule fill_order_steps [OF f]) (use x t(3) process_fill_event_ooa in \<open>auto simp: no_own_def\<close>)
  then show ?thesis
    using fill_order_inv [OF f] x t same_terms_trans by (auto simp: no_own_def)
qed

lemma iterate_follows:
  assumes n: "new_order ob order owner now_ts MAXIMUM_TAKEN_ORDERS opl ac = Ok (r, ob', ac')"
    and mk: "o_params order = MarketParams" and none: "ac_ooa ac = None" and sound: "sound_book ob"
  shows "\<exists>x. iterate_book ob (o_side order) (o_max_base_lots order) (o_max_quote_lots_including_fees order)
      (ac_market ac) opl now_ts accs = Ok x \<and>
    is_i64 (swept_base_lots x * base_lot_size (ac_market ac)) \<and>
    oa_total_base_taken_native r = as_u64 (swept_base_lots x * base_lot_size (ac_market ac)) \<and>
    is_i64 (swept_quote_lots x * quote_lot_size (ac_market ac)) \<and>
    oa_total_quote_taken_native r = as_u64 (swept_quote_lots x * quote_lot_size (ac_market ac)) \<and>
    (0 < oa_total_quote_taken_native r \<longrightarrow> oa_taker_fees r = swept_rebates x + oa_referrer_amount r)"
proof -
  let ?b = "bookside ob (invert_side (o_side order))" and ?m = "ac_market ac"
  have main: ?thesis
    if p: "order_price order now_ts opl ob = Ok (price_lots, p_data)"
      and g: "gen_order_id ?m (o_side order) p_data = Ok (order_id, m1)"
      and mq: "order_max_quote_lots order m1 = Ok max_quote"
      and mo: "match_order order owner now_ts opl price_lots ?b (start_match order max_quote MAXIMUM_TAKEN_ORDERS (ac\<lparr>ac_market := m1\<rparr>)) = Ok st"
      and tk: "take_step order max_quote st = Ok (tk, st1)"
      and r: "oa_total_base_taken_native r = tk_base_native tk" "oa_total_quote_taken_native r = tk_quote_native tk"
        "oa_taker_fees r = tk_taker_fees tk" "oa_referrer_amount r = tk_referrer tk"
    for price_lots p_data order_id m1 max_quote st tk st1
  proof -
    let ?st = "start_match order max_quote MAXIMUM_TAKEN_ORDERS (ac\<lparr>ac_market := m1\<rparr>)"
    let ?c = "\<lparr>sw_base = o_max_base_lots order, sw_quote = max_quote, sw_rebates = 0, sw_limit = MAXIMUM_TAKEN_ORDERS,
             sw_fills = 0, sw_dropped = 0, sw_accounts = accs\<rparr>"
    have tm: "same_terms ?m m1" by (rule gen_order_id_terms [OF g])
    have "subtract_taker_fees ?m = subtract_taker_fees m1"
      using tm by (simp add: fun_eq_iff same_terms_def subtract_taker_fees_def)
    then have q: "(case o_side order of Bid \<Rightarrow> subtract_taker_fees ?m (o_max_quote_lots_including_fees order)
        | Ask \<Rightarrow> Ok (o_max_quote_lots_including_fees order)) = Ok max_quote"
      using mq mk by (cases "o_side order") (simp_all add: order_max_quote_lots_def is_post_only_def)
    have "price_lots = market_order_limit_for_side (o_side order)"
      using p mk by (auto simp: order_price_def order_price_lots_def res_simps)
    then have pt: "plain_take order price_lots ?m ?st"
      using mk none tm by (simp add: plain_take_def start_match_def)
    have fo: "follows ?c ?st" "sw_limit ?c = mt_limit ?st" by (simp_all add: follows_def start_match_def)
    have "sound_side ?b" using sound by (simp add: sound_book_def)
    from book_iter_new_sound [OF this] obtain bi n where bi: "book_iter_new ?b now_ts opl = Ok bi"
        "iter_sound (side_nodes ?b) n bi" "n < side_fuel (side_nodes ?b)" by blast
    have "match_loop (side_fuel (side_nodes ?b)) order owner now_ts price_lots (side_nodes ?b) bi ?st = Ok st"
      using mo bi(1) by (simp add: match_order_def)
    from sweep_follows [OF this bi(2,3) pt fo] obtain c' where
      c': "sweep_loop (side_fuel (side_nodes ?b)) ?m (side_nodes ?b) bi ?c = Ok c'" "follows c' st" by blast
    have "no_own 0 ?m ?st" using none tm by (simp add: start_match_def no_own_def)
    then have "no_own 0 ?m st"
      by (rule match_order_invariant [OF mo]) (rule match_step_no_own)
    then have dec: "mt_decremented st = 0" and st: "same_terms ?m (ac_market (mt_acc st))" by (simp_all add: no_own_def)
    then have lots: "base_lot_size (ac_market (mt_acc st)) = base_lot_size ?m"
        "quote_lot_size (ac_market (mt_acc st)) = quote_lot_size ?m"
      using st by (simp_all add: same_terms_def)
    show ?thesis
      using take_step_amounts [OF tk] dec r q bi(1) c'
      by (auto simp: iterate_book_def Let_def follows_def lots)
  qed
  from n show ?thesis
  proof (cases rule: new_order_book)
    case (unposted price_lots p_data order_id m1 max_quote st tk st1 opposing)
    show ?thesis by (rule main [OF unposted(1,2,8,3,4)]) (simp_all add: unposted(10))
  next
    case (posted price_lots p_data order_id m1 max_quote st tk st1 opposing base_lots c mf pb pq b ac2)
    show ?thesis by (rule main [OF posted(1,2,10,3,4)]) (simp_all add: posted(12))
  qed
qed

lemma amounts_follow:
  assumes n: "new_order ob order owner now_ts MAXIMUM_TAKEN_ORDERS opl ac = Ok (r, ob', ac')"
    and mk: "o_params order = MarketParams" and none: "ac_ooa ac = None" and sound: "sound_book ob"
    and p: "to_lots native_price_to_lot (ac_market ac) p = Ok opl"
  shows "\<exists>am. amounts_from_book native_price_to_lot ob (o_side order) (o_max_base_lots order)
      (o_max_quote_lots_including_fees order) (ac_market ac) p now_ts = Ok am \<and>
    am_base_native am = oa_total_base_taken_native r \<and> am_quote_native am = oa_total_quote_taken_native r \<and>
    (0 < oa_total_quote_taken_native r \<longrightarrow> am_fee am = oa_taker_fees r - oa_referrer_amount r)"
  using iterate_follows [OF n mk none sound, of "[]"] p by (auto simp: amounts_from_book_def)

lemma lots_below_one: "0 < (l :: i64) \<Longrightarrow> div_chk P (l - 1) l = Ok q \<Longrightarrow> q = 0"
  by (auto simp: div_chk_def chk_def signed_divide_int_def sgn_if split: if_splits)

lemma swap_limits_native:
  assumes s: "swap_limits m side n = Ok (mb, mq)" and l: "0 < base_lot_size m" "0 < quote_lot_size m"
  shows "case side of Bid \<Rightarrow> mq = n | Ask \<Rightarrow> mb = n"
proof (cases side)
  case Bid
  then obtain q where "div_chk is_i64 (quote_lot_size m - 1) (quote_lot_size m) = Ok q" "mq = n + q"
    using s by (auto simp: swap_limits_def bnd_eq_Inr chk_eq_Inr)
  then show ?thesis using lots_below_one [OF l(2)] Bid by auto
next
  case Ask
  then obtain q where "div_chk is_i64 (base_lot_size m - 1) (base_lot_size m) = Ok q" "mb = n + q"
    using s by (auto simp: swap_limits_def bnd_eq_Inr chk_eq_Inr)
  then show ?thesis using lots_below_one [OF l(1)] Ask by auto
qed

lemma swap_quote_amounts:
  assumes "swap_quote native_price_to_lot jm mint n = Ok q" and "\<not> jm_is_permissioned jm"
    and "side = (if mint = quote_mint (jm_market jm) then Bid else Ask)"
    and "swap_limits (jm_market jm) side n = Ok (mb, mq)"
    and "amounts_from_book native_price_to_lot (jm_book jm) side mb mq (jm_market jm) (jm_oracle_price jm) 0 = Ok am"
  shows "quote_from_amounts (jm_market jm) side am = Ok q"
  using assms by (auto simp: swap_quote_def Let_def split: if_splits)

end
