(* ===== verification/Client_Examples.thy ===== *)
theory Client_Examples
  imports Client_Book_Correct World_Examples
begin

text \<open>A market order on the book of \<open>Examples\<close>, as the program runs it and as the client quotes it.\<close>

definition ex_taker :: accounts where "ex_taker = market_accounts ex_world"

definition ex_swap_order :: order where
  \<comment> \<open>60 quote tokens in, taken for 60 lots of 10 tokens\<close>
  "ex_swap_order = \<lparr>o_side = Bid, o_max_base_lots = 92233720368547758, o_max_quote_lots_including_fees = 60,
     o_client_order_id = 0, o_time_in_force = 0, o_self_trade_behavior = DecrementTake, o_params = MarketParams\<rparr>"

definition ex_jupiter :: "unit open_book_market" where
  "ex_jupiter = \<lparr>jm_market = ex_market, jm_event_heap = ex_heap, jm_bids = bids ex_book, jm_asks = asks ex_book,
     jm_timestamp = 100, jm_key = 31, jm_label = [], jm_related_accounts = [3, 4, 5], jm_reserve_mints = (6, 7),
     jm_oracle_price = None, jm_is_permissioned = False\<rparr>"

lemma ex_jupiter_book [simp]: "jm_book ex_jupiter = ex_book" "jm_market ex_jupiter = ex_market"
    "jm_oracle_price ex_jupiter = None" "\<not> jm_is_permissioned ex_jupiter"
  by (simp_all add: ex_jupiter_def)

lemma ex_taker_facts [simp]: "ac_market ex_taker = ex_market" "ac_ooa ex_taker = None"
  by (simp_all add: ex_taker_def market_accounts_def ex_world_def)

lemma ex_swap_order_facts [simp]: "o_params ex_swap_order = MarketParams" "o_side ex_swap_order = Bid"
    "o_max_base_lots ex_swap_order = 92233720368547758" "o_max_quote_lots_including_fees ex_swap_order = 60"
  by (simp_all add: ex_swap_order_def)

lemma ex_swap_order_runs:
  "\<exists>r ob ac. new_order ex_book ex_swap_order 30 0 MAXIMUM_TAKEN_ORDERS None ex_taker = Ok (r, ob, ac) \<and>
     oa_total_quote_taken_native r = 400 \<and> oa_taker_fees r = 1 \<and> oa_referrer_amount r = 1"
  by (simp add: ex_swap_order_def ex_taker_def market_accounts_def MAXIMUM_TAKEN_ORDERS_def handler_run_defs
      world_run_defs Let_def ex_defs int_defs heap_run_defs order_run_defs match_run_defs)

lemma ex_swap_quote_runs: "\<exists>q. swap_quote (\<lambda>_ _. Inl Panic) ex_jupiter 7 60 = Ok q"
  by (simp add: swap_quote_def swap_limits_def amounts_from_book_def iterate_book_def quote_from_amounts_def
      sweep_step_def sweep_fill_def to_lots_def
      ex_jupiter_def MAXIMUM_TAKEN_ORDERS_def handler_run_defs
      world_run_defs Let_def ex_defs int_defs heap_run_defs order_run_defs match_run_defs)

lemma ex_swap_limits: "swap_limits ex_market Bid 60 = Ok (92233720368547758, 60)"
  by (simp add: swap_limits_def max_base_lots_def ex_market_def int_defs)

end
