(* ===== verification/Float64.thy ===== *)
theory Float64
  imports Complex_Main Prelude
begin

text \<open>
  The \<open>f64\<close> of the oracle prices: an IEEE-754 double is its 64 bits, as the accounts store it. A
  finite double is an integer number of units of \<open>2^-1074\<close>, the least positive double; its magnitude
  bits (all but the sign) count the doubles below it, so comparing magnitudes compares values.
  Every operation computes the exact result as a ratio of natural numbers of units and rounds it
  to the nearest double, ties to even, as Rust's \<open>*\<close>, \<open>/\<close>, \<open>+\<close>, \<open>-\<close>, \<open>as f64\<close> and literals do.
  The lemmas give the two facts that the checks on oracles rest on: rounding never passes a double
  on the way, and it is off by at most half a unit in the last place.
\<close>

section \<open>Doubles\<close>

type_synonym f64 = "64 word"

definition HIDDEN :: nat where \<comment> \<open>the hidden bit of the mantissa\<close>
  "HIDDEN = 2 ^ 52"

definition F_INF :: nat where \<comment> \<open>the magnitude bits of infinity\<close>
  "F_INF = 2047 * HIDDEN"

definition unit_den :: nat where
  "unit_den = 2 ^ 1074"

definition f_neg :: "f64 \<Rightarrow> bool" where
  "f_neg x \<longleftrightarrow> 2 ^ 63 \<le> unat x"

definition f_mag :: "f64 \<Rightarrow> nat" where
  "f_mag x = unat x mod 2 ^ 63"

definition f_make :: "bool \<Rightarrow> nat \<Rightarrow> f64" where
  "f_make neg mag = of_nat (if neg then 2 ^ 63 + mag else mag)"

definition f_nan :: f64 where
  "f_nan = f_make False (F_INF + 2 ^ 51)"

definition f_is_nan :: "f64 \<Rightarrow> bool" where
  "f_is_nan x \<longleftrightarrow> F_INF < f_mag x"

definition f_is_finite :: "f64 \<Rightarrow> bool" where
  "f_is_finite x \<longleftrightarrow> f_mag x < F_INF"

text \<open>Mantissa and exponent of the magnitude bits: a normal double has the hidden bit, a subnormal
  one shares the least exponent.\<close>

definition mag_exp :: "nat \<Rightarrow> nat" where
  "mag_exp b = b div HIDDEN - 1"

definition mag_mant :: "nat \<Rightarrow> nat" where
  "mag_mant b = (if b div HIDDEN = 0 then 0 else HIDDEN) + b mod HIDDEN"

definition mag_units :: "nat \<Rightarrow> nat" where
  "mag_units b = mag_mant b * 2 ^ mag_exp b"

definition f_val :: "f64 \<Rightarrow> real" where
  "f_val x = (if f_neg x then -1 else 1) * real (mag_units (f_mag x)) / real unit_den"

section \<open>Rounding\<close>

fun bit_len :: "nat \<Rightarrow> nat" where
  "bit_len n = (if n = 0 then 0 else Suc (bit_len (n div 2)))"

declare bit_len.simps [simp del]

definition div_even :: "nat \<Rightarrow> nat \<Rightarrow> nat" where
  \<comment> \<open>the nearest integer to a ratio, the even one of two\<close>
  "div_even p d = (let q = p div d; r = p mod d in
     if 2 * r > d \<or> 2 * r = d \<and> odd q then q + 1 else q)"

definition round_exp :: "nat \<Rightarrow> nat \<Rightarrow> nat" where
  "round_exp p d = bit_len (p div d) - 53"

definition round_free :: "nat \<Rightarrow> nat \<Rightarrow> nat" where
  \<comment> \<open>without a greatest double\<close>
  "round_free p d = round_exp p d * HIDDEN + div_even p (d * 2 ^ round_exp p d)"

definition round_mag :: "nat \<Rightarrow> nat \<Rightarrow> nat" where
  "round_mag p d = min F_INF (round_free p d)"

section \<open>Operations\<close>

definition f_key :: "f64 \<Rightarrow> int" where
  "f_key x = (if f_neg x then - int (f_mag x) else int (f_mag x))"

definition f_lt :: "f64 \<Rightarrow> f64 \<Rightarrow> bool" where
  "f_lt x y \<longleftrightarrow> \<not> f_is_nan x \<and> \<not> f_is_nan y \<and> f_key x < f_key y"

definition f_mul :: "f64 \<Rightarrow> f64 \<Rightarrow> f64" where
  "f_mul x y = (let s = (f_neg x \<noteq> f_neg y) in
     if f_is_nan x \<or> f_is_nan y then f_nan
     else if \<not> f_is_finite x then (if f_mag y = 0 then f_nan else f_make s F_INF)
     else if \<not> f_is_finite y then (if f_mag x = 0 then f_nan else f_make s F_INF)
     else f_make s (round_mag (mag_units (f_mag x) * mag_units (f_mag y)) unit_den))"

definition f_div :: "f64 \<Rightarrow> f64 \<Rightarrow> f64" where
  "f_div x y = (let s = (f_neg x \<noteq> f_neg y) in
     if f_is_nan x \<or> f_is_nan y then f_nan
     else if \<not> f_is_finite x then (if f_is_finite y then f_make s F_INF else f_nan)
     else if \<not> f_is_finite y then f_make s 0
     else if f_mag y = 0 then (if f_mag x = 0 then f_nan else f_make s F_INF)
     else f_make s (round_mag (mag_units (f_mag x) * unit_den) (mag_units (f_mag y))))"

definition f_units :: "f64 \<Rightarrow> int" where
  "f_units x = (if f_neg x then - int (mag_units (f_mag x)) else int (mag_units (f_mag x)))"

definition f_add :: "f64 \<Rightarrow> f64 \<Rightarrow> f64" where
  "f_add x y =
     (if f_is_nan x \<or> f_is_nan y then f_nan
      else if \<not> f_is_finite x then
        (if f_is_finite y \<or> f_neg x = f_neg y then x else f_nan)
      else if \<not> f_is_finite y then y
      else let z = f_units x + f_units y in
        if z = 0 then f_make (f_neg x \<and> f_neg y) 0
        else f_make (z < 0) (round_mag (nat \<bar>z\<bar>) 1))"

definition f_minus :: "f64 \<Rightarrow> f64" where
  "f_minus x = f_make (\<not> f_neg x) (f_mag x)"

definition f_sub :: "f64 \<Rightarrow> f64 \<Rightarrow> f64" where
  "f_sub x y = f_add x (f_minus y)"

definition f_square :: "f64 \<Rightarrow> f64" where \<comment> \<open>\<open>powi(2)\<close>\<close>
  "f_square x = f_mul x x"

definition f_of_int :: "int \<Rightarrow> f64" where
  "f_of_int z = f_make (z < 0) (round_mag (nat \<bar>z\<bar> * unit_den) 1)"

definition f_lit :: "nat \<Rightarrow> nat \<Rightarrow> f64" where \<comment> \<open>a decimal literal, as the ratio it denotes\<close>
  "f_lit n d = f_make False (round_mag (n * unit_den) d)"

text \<open>The widening cast \<open>f32 as f64\<close> keeps the value; a NaN stays one.\<close>

definition f_of_f32 :: "32 word \<Rightarrow> f64" where
  "f_of_f32 w = (let neg = (2 ^ 31 \<le> unat w); mag = unat w mod 2 ^ 31; e = mag div 2 ^ 23;
       m = mag mod 2 ^ 23 in
     if e = 255 then (if m = 0 then f_make neg F_INF else f_nan)
     else f_make neg (round_mag
       (((if e = 0 then 0 else 2 ^ 23) + m) * 2 ^ (e - 1) * 2 ^ (1074 - 149)) 1))"

section \<open>Bits and values\<close>

lemma HIDDEN_pos [simp]: "0 < HIDDEN"
  by (simp add: HIDDEN_def)

lemma F_INF_lt: "F_INF < 2 ^ 63"
  by (simp add: F_INF_def HIDDEN_def)

lemma unit_den_pos [simp]: "0 < unit_den" "unit_den \<noteq> 0"
  by (simp_all add: unit_den_def)

lemma unat_f_make: "mag < 2 ^ 63 \<Longrightarrow> unat (f_make neg mag) = (if neg then 2 ^ 63 + mag else mag)"
  by (simp add: f_make_def unat_of_nat take_bit_eq_mod)

lemma f_neg_make [simp]: "mag < 2 ^ 63 \<Longrightarrow> f_neg (f_make neg mag) = neg"
  unfolding f_neg_def by (simp only: unat_f_make) simp

lemma f_mag_make [simp]: "mag < 2 ^ 63 \<Longrightarrow> f_mag (f_make neg mag) = mag"
  unfolding f_mag_def by (simp only: unat_f_make) simp

lemma f_mag_lt: "f_mag x < 2 ^ 63"
  by (simp add: f_mag_def)

lemma round_mag_lt: "round_mag p d < 2 ^ 63"
  using F_INF_lt by (simp add: round_mag_def)

lemma round_mag_0 [simp]: "round_mag 0 d = 0"
  by (simp add: round_mag_def round_free_def round_exp_def bit_len.simps [of 0] div_even_def Let_def)

lemma f_make_round [simp]:
  "f_neg (f_make neg (round_mag p d)) = neg" "f_mag (f_make neg (round_mag p d)) = round_mag p d"
  by (simp_all only: f_neg_make f_mag_make round_mag_lt)

lemma mag_split: "b = mag_exp b * HIDDEN + mag_mant b"
proof -
  have "b = b div HIDDEN * HIDDEN + b mod HIDDEN" by simp
  then show ?thesis
    by (cases "b div HIDDEN") (simp_all add: mag_exp_def mag_mant_def algebra_simps)
qed

lemma mag_mant_lt: "mag_mant b < 2 * HIDDEN"
  using mod_less_divisor [OF HIDDEN_pos, of b] by (auto simp: mag_mant_def mult_2 intro: trans_less_add2)

lemma mag_mant_ge: "mag_exp b = 0 \<or> HIDDEN \<le> mag_mant b"
  by (auto simp: mag_exp_def mag_mant_def)

lemma pow_split: "2 ^ 53 = 2 * HIDDEN"
  by (simp add: HIDDEN_def)

text \<open>Magnitude bits in terms of an exponent \<open>e\<close> and a mantissa \<open>m\<close> of their own.\<close>

lemma mag_units_parts:
  assumes "m < 2 * HIDDEN" "e = 0 \<or> HIDDEN \<le> m"
  shows "mag_exp (e * HIDDEN + m) = e" "mag_mant (e * HIDDEN + m) = m"
proof -
  have *: "mag_exp (e * HIDDEN + m) = e \<and> mag_mant (e * HIDDEN + m) = m"
  proof (cases "m < HIDDEN")
    case True
    then show ?thesis using assms by (simp add: mag_exp_def mag_mant_def)
  next
    case False
    then obtain f where f: "m = HIDDEN + f" by (metis le_Suc_ex not_less)
    then have "f < HIDDEN" using assms by simp
    moreover have "e * HIDDEN + m = f + Suc e * HIDDEN" using f by simp
    ultimately show ?thesis by (simp add: mag_exp_def mag_mant_def f)
  qed
  show "mag_exp (e * HIDDEN + m) = e" "mag_mant (e * HIDDEN + m) = m" using * by simp_all
qed

lemma mag_units_sum:
  assumes "m \<le> 2 * HIDDEN" "e = 0 \<or> HIDDEN \<le> m"
  shows "mag_units (e * HIDDEN + m) = m * 2 ^ e"
proof (cases "m = 2 * HIDDEN")
  case True
  then have s: "e * HIDDEN + m = Suc e * HIDDEN + HIDDEN" by simp
  have "mag_exp (Suc e * HIDDEN + HIDDEN) = Suc e" "mag_mant (Suc e * HIDDEN + HIDDEN) = HIDDEN"
    using mag_units_parts [of HIDDEN "Suc e"] by (simp_all only: HIDDEN_pos mult_2 less_add_same_cancel1 le_refl simp_thms)
  then show ?thesis unfolding mag_units_def s by (simp add: True)
next
  case False
  then show ?thesis using assms by (simp add: mag_units_def mag_units_parts)
qed

text \<open>More magnitude bits, more units.\<close>

lemma mag_units_less:
  assumes "b < c"
  shows "mag_units b < mag_units c"
proof (cases "mag_exp b" "mag_exp c" rule: linorder_cases)
  case less
  have "mag_mant b * 2 ^ mag_exp b < 2 * HIDDEN * 2 ^ mag_exp b" using mag_mant_lt by simp
  also have "\<dots> = HIDDEN * 2 ^ Suc (mag_exp b)" by simp
  also have "\<dots> \<le> HIDDEN * 2 ^ mag_exp c"
    using less by (intro mult_le_mono2 power_increasing) simp_all
  also have "\<dots> \<le> mag_mant c * 2 ^ mag_exp c" using mag_mant_ge [of c] less by (intro mult_le_mono1) simp
  finally show ?thesis by (simp add: mag_units_def)
next
  case equal
  then have "mag_mant b < mag_mant c" using assms mag_split [of b] mag_split [of c] by simp
  then show ?thesis using equal by (simp add: mag_units_def)
next
  case greater
  then have "mag_exp c * HIDDEN + HIDDEN \<le> mag_exp b * HIDDEN"
    by (metis Suc_leI add.commute mult_Suc mult_le_mono1)
  moreover have "HIDDEN \<le> mag_mant b" using mag_mant_ge [of b] greater by simp
  ultimately show ?thesis using assms mag_split [of b] mag_split [of c] mag_mant_lt [of c] by linarith
qed

lemma mag_units_less_iff: "mag_units b < mag_units c \<longleftrightarrow> b < c"
  by (metis linorder_neqE_nat mag_units_less not_less_iff_gr_or_eq)

lemma mag_units_0 [simp]: "mag_units 0 = 0"
  by (simp add: mag_units_def mag_mant_def)

lemma mag_units_eq_0: "mag_units b = 0 \<longleftrightarrow> b = 0"
  by (metis mag_units_0 mag_units_less_iff neq0_conv)

section \<open>Rounding is monotone and close\<close>

lemma bit_len_upper: "n < 2 ^ bit_len n"
proof (induction n rule: bit_len.induct)
  case (1 n)
  have "n < 2 * 2 ^ bit_len (n div 2)" if "n \<noteq> 0" using 1 [OF that] by linarith
  then show ?case by (simp add: bit_len.simps [of n])
qed

lemma bit_len_lower: "bit_len n = Suc k \<Longrightarrow> 2 ^ k \<le> n"
proof (induction k arbitrary: n)
  case 0
  then show ?case by (cases n) (simp_all add: bit_len.simps [of 0])
next
  case (Suc k)
  then have "bit_len (n div 2) = Suc k" by (metis bit_len.simps diff_Suc_1 nat.distinct(1))
  from Suc.IH [OF this] have "2 * 2 ^ k \<le> n" by linarith
  then show ?case by simp
qed

lemma div_even_lower: "m * d \<le> p \<Longrightarrow> 0 < d \<Longrightarrow> m \<le> div_even p d"
  using div_le_mono [of "m * d" p d] by (auto simp: div_even_def Let_def)

lemma div_even_upper:
  assumes "p \<le> m * d" "0 < d" shows "div_even p d \<le> m"
proof (cases "p div d = m")
  case True
  then have "p mod d = 0"
    by (metis assms add_0_iff div_mult_mod_eq le_antisym le_add1 nat_add_left_cancel_le)
  then show ?thesis using True assms(2) by (auto simp: div_even_def Let_def)
next
  case False
  moreover have "p div d \<le> m" using div_le_mono [OF assms(1), of d] assms(2) by simp
  ultimately show ?thesis by (auto simp: div_even_def Let_def)
qed

lemma div_even_close:
  assumes "0 < d"
  shows "2 * (div_even p d * d) \<le> 2 * p + d"
proof -
  have "2 * (p div d * d) + 2 * (p mod d) = 2 * p" by (simp flip: distrib_left)
  moreover have "p mod d < d" using assms by simp
  ultimately show ?thesis
    by (auto simp only: div_even_def Let_def add_mult_distrib mult_1 distrib_left if_split split: if_splits)
qed

lemma round_exp_bounds:
  assumes "0 < d"
  shows "p < 2 * HIDDEN * (d * 2 ^ round_exp p d)"
    and "0 < round_exp p d \<Longrightarrow> HIDDEN * (d * 2 ^ round_exp p d) \<le> p"
proof -
  let ?n = "p div d" and ?e = "round_exp p d"
  have "?n < 2 ^ (53 + ?e)"
    using bit_len_upper by (rule less_le_trans) (simp add: round_exp_def power_increasing)
  then have "p < d * 2 ^ (53 + ?e)"
    using assms by (simp add: div_less_iff_less_mult mult.commute)
  also have "\<dots> = 2 * HIDDEN * (d * 2 ^ ?e)" unfolding power_add pow_split by simp
  finally show "p < 2 * HIDDEN * (d * 2 ^ ?e)" .
  assume e: "0 < ?e"
  then have "2 ^ (52 + ?e) \<le> ?n" by (intro bit_len_lower) (simp add: round_exp_def)
  then have "d * 2 ^ (52 + ?e) \<le> d * ?n" by simp
  also have "\<dots> \<le> p" by simp
  finally show "HIDDEN * (d * 2 ^ ?e) \<le> p" by (simp add: power_add HIDDEN_def algebra_simps)
qed

lemma div_even_range:
  assumes "0 < d"
  shows "div_even p (d * 2 ^ round_exp p d) \<le> 2 * HIDDEN"
    and "round_exp p d = 0 \<or> HIDDEN \<le> div_even p (d * 2 ^ round_exp p d)"
  using round_exp_bounds [OF assms, of p] assms
  by (auto intro: div_even_upper div_even_lower)

lemma round_free_units:
  "0 < d \<Longrightarrow> mag_units (round_free p d) = div_even p (d * 2 ^ round_exp p d) * 2 ^ round_exp p d"
  unfolding round_free_def by (rule mag_units_sum [OF div_even_range])

text \<open>A double that is at most the exact result is at most the rounded one.\<close>

lemma round_free_mono:
  assumes "mag_units b * d \<le> p" "0 < d"
  shows "b \<le> round_free p d"
proof -
  let ?e = "round_exp p d"
  have u: "mag_mant b * (d * 2 ^ mag_exp b) \<le> p" using assms(1) by (simp add: mag_units_def algebra_simps)
  show ?thesis
  proof (cases "mag_exp b" ?e rule: linorder_cases)
    case less
    then have "mag_exp b * HIDDEN + HIDDEN \<le> ?e * HIDDEN"
      by (metis Suc_leI add.commute mult_Suc mult_le_mono1)
    moreover have "HIDDEN \<le> div_even p (d * 2 ^ ?e)" using div_even_range(2) [OF assms(2), of p] less by simp
    ultimately show ?thesis
      using mag_split [of b] mag_mant_lt [of b] unfolding round_free_def by linarith
  next
    case equal
    then have "mag_mant b \<le> div_even p (d * 2 ^ ?e)" using u assms(2) by (intro div_even_lower) simp_all
    then show ?thesis using mag_split [of b] equal by (simp add: round_free_def)
  next
    case greater
    then have "HIDDEN \<le> mag_mant b" using mag_mant_ge [of b] by simp
    then have "HIDDEN * (d * 2 ^ mag_exp b) \<le> p" using u le_trans mult_le_mono1 by blast
    moreover have "2 ^ Suc ?e \<le> (2::nat) ^ mag_exp b" using greater by (intro power_increasing) simp_all
    then have "HIDDEN * (d * 2 ^ Suc ?e) \<le> HIDDEN * (d * 2 ^ mag_exp b)" by (intro mult_le_mono2)
    moreover have "HIDDEN * (d * 2 ^ Suc ?e) = 2 * HIDDEN * (d * 2 ^ ?e)" by simp
    ultimately have "2 * HIDDEN * (d * 2 ^ ?e) \<le> p" by linarith
    then show ?thesis using round_exp_bounds(1) [OF assms(2), of p] by simp
  qed
qed

text \<open>One that is at least the exact result is at least the rounded one; so a double is rounded to
  itself.\<close>

lemma round_free_mono_upper:
  assumes "p \<le> mag_units b * d" "0 < d"
  shows "round_free p d \<le> b"
proof -
  let ?e = "round_exp p d"
  have u: "p \<le> mag_mant b * (d * 2 ^ mag_exp b)" using assms(1) by (simp add: mag_units_def algebra_simps)
  show ?thesis
  proof (cases "mag_exp b" ?e rule: linorder_cases)
    case less
    have "mag_mant b * (d * 2 ^ mag_exp b) < 2 * HIDDEN * (d * 2 ^ mag_exp b)"
      using mag_mant_lt assms(2) by (intro mult_strict_right_mono) simp_all
    moreover have "2 ^ Suc (mag_exp b) \<le> (2::nat) ^ ?e" using less by (intro power_increasing) simp_all
    then have "HIDDEN * (d * 2 ^ Suc (mag_exp b)) \<le> HIDDEN * (d * 2 ^ ?e)" by (intro mult_le_mono2)
    moreover have "HIDDEN * (d * 2 ^ Suc (mag_exp b)) = 2 * HIDDEN * (d * 2 ^ mag_exp b)" by simp
    ultimately show ?thesis using round_exp_bounds(2) [OF assms(2), of p] less u by linarith
  next
    case equal
    then have "div_even p (d * 2 ^ ?e) \<le> mag_mant b" using u assms(2) by (intro div_even_upper) simp_all
    then show ?thesis using mag_split [of b] equal by (simp add: round_free_def)
  next
    case greater
    then have "?e * HIDDEN + HIDDEN \<le> mag_exp b * HIDDEN"
      by (metis Suc_leI add.commute mult_Suc mult_le_mono1)
    moreover have "HIDDEN \<le> mag_mant b" using mag_mant_ge [of b] greater by simp
    ultimately show ?thesis
      using mag_split [of b] div_even_range(1) [OF assms(2), of p] unfolding round_free_def by linarith
  qed
qed

lemma round_mag_units: "0 < d \<Longrightarrow> round_mag (mag_units b * d) d = min F_INF b"
  using round_free_mono [OF le_refl, of d b] round_free_mono_upper [OF le_refl, of d b]
  by (simp add: round_mag_def)

lemma round_free_close:
  assumes "0 < d"
  shows "real (mag_units (round_free p d)) * real d \<le> real p * (1 + 1 / 2 ^ 53) + real d / 2"
proof -
  let ?e = "round_exp p d"
  define D where "D = d * 2 ^ ?e"
  define r where "r = div_even p D"
  have c: "2 * (r * D) \<le> 2 * p + D" using assms by (simp add: r_def D_def div_even_close)
  have u: "mag_units (round_free p d) * d = r * D" using assms by (simp add: round_free_units r_def D_def)
  have "real D \<le> real p / 2 ^ 52 + real d"
  proof (cases "?e = 0")
    case False
    then have "HIDDEN * D \<le> p" using round_exp_bounds(2) [OF assms, of p] by (simp add: D_def)
    then have "real (HIDDEN * D) \<le> real p" by (rule of_nat_mono)
    then show ?thesis by (simp add: HIDDEN_def field_simps)
  qed (simp add: D_def)
  moreover have "2 * real (r * D) \<le> 2 * real p + real D" using of_nat_mono [OF c, where ?'a = real] by simp
  ultimately have "real (r * D) \<le> real p * (1 + 1 / 2 ^ 53) + real d / 2" by (simp add: field_simps)
  then show ?thesis by (simp flip: u)
qed

section \<open>Comparing and multiplying\<close>

lemma f_key_less_iff: "f_key x < f_key y \<longleftrightarrow> f_val x < f_val y"
proof -
  have r: "real (mag_units b) / real unit_den < real (mag_units c) / real unit_den \<longleftrightarrow> b < c" for b c
    by (simp add: divide_less_cancel mag_units_less_iff)
  have n: "- (real (mag_units b) / real unit_den) < real (mag_units c) / real unit_den \<longleftrightarrow> b \<noteq> 0 \<or> c \<noteq> 0" for b c
    using mag_units_eq_0 [of b] mag_units_eq_0 [of c]
    by (simp add: divide_simps flip: of_nat_add) auto
  have m: "\<not> real (mag_units b) / real unit_den < - (real (mag_units c) / real unit_den)" for b c
    by (simp add: not_less order_trans [of _ 0])
  show ?thesis
    unfolding f_key_def f_val_def using r n m by (auto simp: not_less)
qed

lemma f_lt_val: "f_is_finite x \<Longrightarrow> f_is_finite y \<Longrightarrow> f_lt x y \<longleftrightarrow> f_val x < f_val y"
  by (simp add: f_lt_def f_is_nan_def f_is_finite_def f_key_less_iff)

lemma f_lt_nan [simp]: "f_is_nan x \<or> f_is_nan y \<Longrightarrow> \<not> f_lt x y"
  by (auto simp: f_lt_def)

text \<open>The product of two numbers that are not negative, against a third one.\<close>

lemma f_mul_nonneg:
  assumes "f_is_finite x" "f_is_finite y" "0 \<le> f_val x" "0 \<le> f_val y"
  shows "\<not> f_is_nan (f_mul x y)"
    and "f_key (f_mul x y) = int (round_mag (mag_units (f_mag x) * mag_units (f_mag y)) unit_den)"
proof -
  let ?r = "round_mag (mag_units (f_mag x) * mag_units (f_mag y)) unit_den"
  have eq: "f_mul x y = f_make (f_neg x \<noteq> f_neg y) ?r"
    using assms(1,2) by (simp add: f_mul_def Let_def f_is_nan_def f_is_finite_def)
  show "\<not> f_is_nan (f_mul x y)" unfolding eq by (simp add: f_is_nan_def) (simp add: round_mag_def)
  have z: "mag_units (f_mag z) = 0" if "f_neg z" "0 \<le> f_val z" for z
    using that by (simp add: f_val_def divide_le_0_iff)
  have "?r = 0" if "f_neg x \<or> f_neg y"
  proof -
    have "mag_units (f_mag x) * mag_units (f_mag y) = 0" using that z assms(3,4) by auto
    then show ?thesis by (simp only: round_mag_0)
  qed
  then show "f_key (f_mul x y) = int ?r" unfolding eq by (auto simp: f_key_def)
qed

lemma f_val_prod:
  "0 \<le> f_val x \<Longrightarrow> 0 \<le> f_val y \<Longrightarrow>
   f_val x * f_val y = real (mag_units (f_mag x) * mag_units (f_mag y)) / (real unit_den * real unit_den)"
  by (auto simp: f_val_def divide_le_0_iff)

text \<open>No double passes the threshold by rounding, and none is refused by it.\<close>

lemma f_mul_refuses:
  assumes "f_is_finite x" "f_is_finite y" "f_is_finite z" "0 \<le> f_val x" "0 \<le> f_val y"
    and "f_val z \<le> f_val x * f_val y"
  shows "\<not> f_lt (f_mul x y) z"
proof (cases "f_neg z")
  case True
  then show ?thesis using f_mul_nonneg [OF assms(1,2,4,5)] by (simp add: f_lt_def f_key_def)
next
  case False
  let ?p = "mag_units (f_mag x) * mag_units (f_mag y)"
  have "real (mag_units (f_mag z)) / real unit_den \<le> real ?p / (real unit_den * real unit_den)"
    using assms(6) False unfolding f_val_prod [OF assms(4,5)] by (simp add: f_val_def)
  then have "real (mag_units (f_mag z) * unit_den) \<le> real ?p" by (simp add: field_simps)
  then have "mag_units (f_mag z) * unit_den \<le> ?p" by (simp only: of_nat_le_iff)
  then have "f_mag z \<le> round_mag ?p unit_den"
    using round_free_mono [of "f_mag z" unit_den ?p] assms(3) by (simp add: round_mag_def f_is_finite_def)
  then show ?thesis using f_mul_nonneg [OF assms(1,2,4,5)] False by (simp add: f_lt_def f_key_def)
qed

lemma f_mul_accepts:
  assumes "f_is_finite x" "f_is_finite y" "f_is_finite z" "0 \<le> f_val x" "0 \<le> f_val y"
    and "\<not> f_lt (f_mul x y) z"
  shows "f_val z \<le> f_val x * f_val y * (1 + 1 / 2 ^ 53) + 1 / 2 ^ 1075"
proof (cases "f_neg z")
  case True
  have "f_val z \<le> 0" using True by (simp add: f_val_def)
  also have "0 \<le> f_val x * f_val y * (1 + 1 / 2 ^ 53) + 1 / 2 ^ 1075"
    using assms(4,5) by (intro add_nonneg_nonneg mult_nonneg_nonneg) simp_all
  finally show ?thesis .
next
  case False
  let ?p = "mag_units (f_mag x) * mag_units (f_mag y)"
  have "f_mag z \<le> round_mag ?p unit_den"
    using f_mul_nonneg [OF assms(1,2,4,5)] assms(3,6) False
    by (simp add: f_lt_def f_key_def f_is_nan_def f_is_finite_def)
  then have "mag_units (f_mag z) \<le> mag_units (round_free ?p unit_den)"
    by (simp add: round_mag_def) (meson linorder_not_less mag_units_less_iff)
  then have "real (mag_units (f_mag z)) * real unit_den \<le> real (mag_units (round_free ?p unit_den)) * real unit_den"
    by (intro mult_right_mono) simp_all
  also have "\<dots> \<le> real ?p * (1 + 1 / 2 ^ 53) + real unit_den / 2"
    by (rule round_free_close) simp
  finally have "real (mag_units (f_mag z)) / real unit_den
      \<le> (real ?p / (real unit_den * real unit_den)) * (1 + 1 / 2 ^ 53) + 1 / (2 * real unit_den)"
    by (simp add: field_simps)
  then have "f_val z \<le> f_val x * f_val y * (1 + 1 / 2 ^ 53) + 1 / (2 * real unit_den)"
    unfolding f_val_prod [OF assms(4,5)] using False by (simp add: f_val_def)
  moreover have "2 * real unit_den = 2 ^ 1075" unfolding unit_den_def of_nat_power of_nat_numeral
    using power_Suc [of "2::real" 1074] by (simp only: eval_nat_numeral(2,3)) 
  ultimately show ?thesis by simp
qed

end
