(* ===== verification/Zero_Copy.thy ===== *)
theory Zero_Copy
  imports Market
begin

text \<open>
  \<open>accounts_zerocopy.rs\<close>: reading an account's bytes as a value of a type, after checking that the
  account belongs to the program of the type and begins with the type's discriminator. The
  discriminator and the cast of the bytes are made by Anchor and by the crate \<open>bytemuck\<close>: they are
  the fields of a \<open>zero_copy\<close>, the description of a type. The mutable variants check the same and
  hand out the same bytes.
\<close>

section \<open>Accounts\<close>

text \<open>An account as the runtime passes it; its data is borrowed before it is read, which fails while
  somebody else holds it for writing (\<open>None\<close>).\<close>

record account_info =
  ai_key :: pubkey
  ai_owner :: pubkey
  ai_data :: "8 word list option"

record account_ref =
  ar_key :: pubkey
  ar_owner :: pubkey
  ar_data :: "8 word list"

definition ref_borrow :: "account_info \<Rightarrow> account_ref res" where
  "ref_borrow ai = (case ai_data ai of
     None \<Rightarrow> Inl (AnchorErr AccountBorrowFailed)
   | Some d \<Rightarrow> Ok \<lparr>ar_key = ai_key ai, ar_owner = ai_owner ai, ar_data = d\<rparr>)"

definition ref_borrow_some :: "account_info option \<Rightarrow> account_ref option res" where
  "ref_borrow_some acc = (case acc of
     Some ai \<Rightarrow> bnd (ref_borrow ai) (\<lambda>r. Ok (Some r))
   | None \<Rightarrow> Ok None)"

fun ref_borrow_slice :: "account_info list \<Rightarrow> account_ref list res" where
  "ref_borrow_slice [] = Ok []"
| "ref_borrow_slice (ai # ais) = bnd (ref_borrow ai) (\<lambda>r. bnd (ref_borrow_slice ais) (\<lambda>rs. Ok (r # rs)))"

section \<open>Reading\<close>

definition byte_range :: "nat \<Rightarrow> nat \<Rightarrow> 'b list \<Rightarrow> 'b list res" where
  \<comment> \<open>\<open>&xs[a..b]\<close>\<close>
  "byte_range a b xs = (if a \<le> b \<and> b \<le> length xs then Ok (take (b - a) (drop a xs)) else Inl Panic)"

record 'a zero_copy =
  zc_owner :: pubkey
  zc_discriminator :: "8 word list"
  zc_size :: nat
  zc_cast :: "8 word list \<Rightarrow> 'a res"

definition load_fully_unchecked :: "'a zero_copy \<Rightarrow> account_ref \<Rightarrow> 'a res" where
  "load_fully_unchecked z acc = bnd (byte_range 8 (zc_size z + 8) (ar_data acc)) (zc_cast z)"

definition load_zero_copy :: "'a zero_copy \<Rightarrow> account_ref \<Rightarrow> 'a res" where
  "load_zero_copy z acc =
     (if ar_owner acc \<noteq> zc_owner z then Inl (AnchorErr AccountOwnedByWrongProgram)
      else let data = ar_data acc in
        if length data < 8 then Inl (AnchorErr AccountDiscriminatorNotFound)
        else bnd (byte_range 0 8 data) (\<lambda>disc_bytes.
          if disc_bytes \<noteq> zc_discriminator z then Inl (AnchorErr AccountDiscriminatorMismatch)
          else bnd (byte_range 8 (zc_size z + 8) data) (zc_cast z)))"

text \<open>On an account that is not borrowed yet; the owner is checked before the data is borrowed.\<close>

definition load_info :: "'a zero_copy \<Rightarrow> account_info \<Rightarrow> 'a res" where
  "load_info z ai =
     (if ai_owner ai \<noteq> zc_owner z then Inl (AnchorErr AccountOwnedByWrongProgram)
      else bnd (ref_borrow ai) (\<lambda>r. let data = ar_data r in
        if length data < 8 then Inl (AnchorErr AccountDiscriminatorNotFound)
        else bnd (byte_range 0 8 data) (\<lambda>disc_bytes.
          if disc_bytes \<noteq> zc_discriminator z then Inl (AnchorErr AccountDiscriminatorMismatch)
          else bnd (byte_range 8 (zc_size z + 8) data) (zc_cast z))))"

definition load_info_fully_unchecked :: "'a zero_copy \<Rightarrow> account_info \<Rightarrow> 'a res" where
  "load_info_fully_unchecked z ai =
     bnd (ref_borrow ai) (\<lambda>r. bnd (byte_range 8 (zc_size z + 8) (ar_data r)) (zc_cast z))"

section \<open>What a successful read shows\<close>

lemma byte_range_eq_Inr [res_simps]:
  "byte_range a b xs = Inr ys \<longleftrightarrow> a \<le> b \<and> b \<le> length xs \<and> ys = take (b - a) (drop a xs)"
  by (auto simp: byte_range_def)

lemma load_zero_copy_ok:
  assumes "load_zero_copy z acc = Ok v"
  shows "ar_owner acc = zc_owner z" and "take 8 (ar_data acc) = zc_discriminator z"
    and "zc_size z + 8 \<le> length (ar_data acc)" and "load_fully_unchecked z acc = Ok v"
  using assms by (auto simp: load_zero_copy_def load_fully_unchecked_def Let_def res_simps split: if_splits)

text \<open>Borrowing first and reading then is reading the account: the traits agree, up to which of two
  errors comes first.\<close>

lemma load_info_eq:
  "ref_borrow ai = Ok r \<Longrightarrow> load_info z ai = load_zero_copy z r"
  by (auto simp: load_info_def load_zero_copy_def ref_borrow_def split: option.splits)

lemma load_info_ok: "load_info z ai = Ok v \<longleftrightarrow> bnd (ref_borrow ai) (load_zero_copy z) = Ok v"
  by (auto simp: load_info_def load_zero_copy_def ref_borrow_def split: option.splits)

lemma load_info_unchecked_eq:
  "load_info_fully_unchecked z ai = bnd (ref_borrow ai) (load_fully_unchecked z)"
  by (simp add: load_info_fully_unchecked_def load_fully_unchecked_def [abs_def])

end
