(* ===== verification/Oracles.thy ===== *)
theory Oracles
  imports Admin Float64 Zero_Copy
begin

text \<open>
  \<open>state/oracle.rs\<close>, the account layout of \<open>raydium_internal.rs\<close> and the oracle price of
  \<open>state/market.rs\<close>: finding out what kind of oracle an account is, reading its price, deviation and
  slot, refusing a stale or uncertain one, and turning the price into lots. The accounts of Pyth and
  Switchboard are decoded by their crates, and prices are handed on in the fixed-point numbers of
  the crate \<open>fixed\<close>: these functions are the fields of an \<open>oracle_env\<close>.
\<close>

section \<open>Powers of ten\<close>

definition DECIMAL_CONSTANT_ZERO_INDEX :: int where "DECIMAL_CONSTANT_ZERO_INDEX = 12"

definition DECIMAL_CONSTANTS_F64 :: "f64 list" where
  "DECIMAL_CONSTANTS_F64 =
     [f_lit 1 1000000000000, f_lit 1 100000000000, f_lit 1 10000000000, f_lit 1 1000000000,
      f_lit 1 100000000, f_lit 1 10000000, f_lit 1 1000000, f_lit 1 100000, f_lit 1 10000,
      f_lit 1 1000, f_lit 1 100, f_lit 1 10, f_lit 1 1, f_lit 10 1, f_lit 100 1, f_lit 1000 1,
      f_lit 10000 1, f_lit 100000 1, f_lit 1000000 1, f_lit 10000000 1, f_lit 100000000 1,
      f_lit 1000000000 1, f_lit 10000000000 1, f_lit 100000000000 1, f_lit 1000000000000 1]"

definition power_of_ten_float :: "int \<Rightarrow> f64 res" where
  \<comment> \<open>a negative index is a huge \<open>usize\<close>\<close>
  "power_of_ten_float decimals =
     bnd (chk_i8 (decimals + DECIMAL_CONSTANT_ZERO_INDEX)) (\<lambda>i.
     if 0 \<le> i then arr_get DECIMAL_CONSTANTS_F64 (nat i) else Inl Panic)"

section \<open>The state of an oracle\<close>

record oracle_state =
  os_price :: f64
  os_deviation :: f64
  os_last_update_slot :: u64
  os_type :: oracle_type

definition is_stale :: "oracle_state \<Rightarrow> oracle_config \<Rightarrow> u64 \<Rightarrow> bool" where
  "is_stale st cfg now_slot \<longleftrightarrow> max_staleness_slots cfg \<ge> 0 \<and>
     sat_u64 (os_last_update_slot st + as_u64 (max_staleness_slots cfg)) < now_slot"

definition has_valid_confidence :: "oracle_state \<Rightarrow> oracle_config \<Rightarrow> bool" where
  "has_valid_confidence st cfg \<longleftrightarrow>
     \<not> f_lt (f_mul (conf_filter cfg) (os_price st)) (os_deviation st)"

definition has_valid_combined_confidence ::
  "oracle_state \<Rightarrow> oracle_state \<Rightarrow> oracle_config \<Rightarrow> bool" where
  "has_valid_combined_confidence st other cfg =
     (let relative_var = f_add (f_square (f_div (os_deviation st) (os_price st)))
            (f_square (f_div (os_deviation other) (os_price other)));
          relative_target_var = f_square (conf_filter cfg)
      in \<not> f_lt relative_target_var relative_var)"

section \<open>Accounts of oracles\<close>

definition switchboard_v1_devnet_oracle :: pubkey where
  "switchboard_v1_devnet_oracle = 0x61db8386edb98230e3b3008b9e1ceed1419df92c501e639e37986ef14d4766c7"

definition switchboard_v2_mainnet_oracle :: pubkey where
  "switchboard_v2_mainnet_oracle = 0xbf8edf1c946b56bb43d25f98b87b6be51117300a61261af9f9f94eed7a5a8088"

definition raydium_program :: pubkey where \<comment> \<open>without the feature \<open>devnet\<close>\<close>
  "raydium_program = 0xa5d5ca9e04cf5db590b714ba2fe32cb159133fc1c192b72257fd07d39cb0401e"

definition AGGREGATOR_DISCRIMINATOR :: "8 word list" where
  "AGGREGATOR_DISCRIMINATOR = [217, 230, 65, 101, 201, 162, 27, 125]"

record reward_info =
  rw_reward_state :: int
  rw_open_time :: u64
  rw_end_time :: u64
  rw_last_update_time :: u64
  rw_emissions_per_second_x64 :: u128
  rw_reward_total_emissioned :: u64
  rw_reward_claimed :: u64
  rw_token_mint :: pubkey
  rw_token_vault :: pubkey
  rw_authority :: pubkey
  rw_reward_growth_global_x64 :: u128

record pool_state =
  pl_bump :: int
  pl_amm_config :: pubkey
  pl_owner :: pubkey
  pl_token_mint_0 :: pubkey
  pl_token_mint_1 :: pubkey
  pl_token_vault_0 :: pubkey
  pl_token_vault_1 :: pubkey
  pl_observation_key :: pubkey
  pl_mint_decimals_0 :: int
  pl_mint_decimals_1 :: int
  pl_tick_spacing :: int
  pl_liquidity :: u128
  pl_sqrt_price_x64 :: u128
  pl_tick_current :: int
  pl_observation_index :: int
  pl_observation_update_duration :: int
  pl_fee_growth_global_0_x64 :: u128
  pl_fee_growth_global_1_x64 :: u128
  pl_protocol_fees_token_0 :: u64
  pl_protocol_fees_token_1 :: u64
  pl_swap_in_amount_token_0 :: u128
  pl_swap_out_amount_token_1 :: u128
  pl_swap_in_amount_token_1 :: u128
  pl_swap_out_amount_token_0 :: u128
  pl_status :: int
  pl_reward_infos :: "reward_info list"
  pl_tick_array_bitmap :: "u64 list"
  pl_total_fees_token_0 :: u64
  pl_total_fees_claimed_token_0 :: u64
  pl_total_fees_token_1 :: u64
  pl_total_fees_claimed_token_1 :: u64
  pl_fund_fees_token_0 :: u64
  pl_fund_fees_token_1 :: u64
  pl_open_time :: u64

text \<open>The fields the source reads of what the oracles' crates decode.\<close>

record pyth_price_account =
  py_agg_is_trading :: bool
  py_agg_price :: i64
  py_agg_conf :: u64
  py_agg_pub_slot :: u64
  py_expo :: int
  py_timestamp :: i64
  py_prev_price :: i64
  py_prev_conf :: u64
  py_prev_slot :: u64
  py_prev_timestamp :: i64

record pyth_price =
  pp_conf :: u64
  pp_expo :: int
  pp_price :: i64
  pp_publish_time :: i64

record 'd aggregator =
  ag_result :: "'d option" \<comment> \<open>\<open>get_result\<close>; \<open>None\<close> is its error\<close>
  ag_std_deviation :: 'd
  ag_round_open_slot :: u64

record fast_round =
  fr_result :: f64
  fr_max_response :: f64
  fr_min_response :: f64
  fr_round_open_slot :: u64

record ('fx, 'd) oracle_env =
  oe_pyth_magic :: nat
  oe_stub :: "stub_oracle zero_copy"
  oe_load_price_account :: "8 word list \<Rightarrow> pyth_price_account option"
  oe_aggregator_cast :: "8 word list \<Rightarrow> 'd aggregator res"
  oe_decimal_to_f64 :: "'d \<Rightarrow> f64 option"
  oe_fast_round :: "8 word list \<Rightarrow> fast_round option"
  oe_pool_cast :: "8 word list \<Rightarrow> pool_state res"
  oe_u64f64_square :: "u128 \<Rightarrow> f64 res" \<comment> \<open>the square of a \<open>U64F64\<close> of these bits, as \<open>f64\<close>\<close>
  fx_from_num :: "i64 \<Rightarrow> 'fx"
  fx_mul :: "'fx \<Rightarrow> 'fx \<Rightarrow> 'fx res"
  fx_div :: "'fx \<Rightarrow> 'fx \<Rightarrow> 'fx res"
  fx_checked_mul :: "'fx \<Rightarrow> 'fx \<Rightarrow> 'fx option"
  fx_checked_div :: "'fx \<Rightarrow> 'fx \<Rightarrow> 'fx option"
  fx_checked_to_num :: "'fx \<Rightarrow> i64 option"
  fx_checked_from_num :: "f64 \<Rightarrow> 'fx option"

section \<open>Reading an oracle\<close>

fun le_nat :: "8 word list \<Rightarrow> nat" where
  "le_nat [] = 0"
| "le_nat (b # bs) = unat b + 256 * le_nat bs"

definition determine_oracle_type :: "('fx, 'd) oracle_env \<Rightarrow> account_ref \<Rightarrow> oracle_type res" where
  "determine_oracle_type env acc =
     (let data = ar_data acc; owner = ar_owner acc in
      bnd (byte_range 0 4 data) (\<lambda>magic.
      if le_nat magic = oe_pyth_magic env then Ok Pyth
      else bnd (byte_range 0 8 data) (\<lambda>disc.
        if disc = zc_discriminator (oe_stub env) then Ok Stub
        else if disc = AGGREGATOR_DISCRIMINATOR then Ok SwitchboardV2
        else if owner = switchboard_v1_devnet_oracle \<or> owner = switchboard_v2_mainnet_oracle then Ok SwitchboardV1
        else if owner = raydium_program then Ok RaydiumCLMM
        else Inl (Err UnknownOracleType))))"

definition pyth_get_price :: "pyth_price_account \<Rightarrow> pyth_price \<times> u64" where
  "pyth_get_price acc =
     (if py_agg_is_trading acc then
        (\<lparr>pp_conf = py_agg_conf acc, pp_expo = py_expo acc, pp_price = py_agg_price acc,
          pp_publish_time = py_timestamp acc\<rparr>, py_agg_pub_slot acc)
      else
        (\<lparr>pp_conf = py_prev_conf acc, pp_expo = py_expo acc, pp_price = py_prev_price acc,
          pp_publish_time = py_prev_timestamp acc\<rparr>, py_prev_slot acc))"

definition require_not_negative :: "f64 \<Rightarrow> unit res" where
  \<comment> \<open>\<open>require_gte!(price, 0f64)\<close> fails if \<open>price < 0\<close>\<close>
  "require_not_negative price = require_anchor (\<not> f_lt price 0) RequireGteViolated"

definition oracle_state_unchecked :: "('fx, 'd) oracle_env \<Rightarrow> account_ref \<Rightarrow> oracle_state res" where
  "oracle_state_unchecked env acc =
     bnd (determine_oracle_type env acc) (\<lambda>oracle_type. case oracle_type of
       Stub \<Rightarrow>
         bnd (load_zero_copy (oe_stub env) acc) (\<lambda>stub.
         let last_update_slot = (if so_last_update_slot stub = 0 then U64_MAX
               else so_last_update_slot stub) in
         Ok \<lparr>os_price = so_price stub, os_deviation = so_deviation stub,
           os_last_update_slot = last_update_slot, os_type = Stub\<rparr>)
     | Pyth \<Rightarrow>
         bnd (unwrap (oe_load_price_account env (ar_data acc))) (\<lambda>price_account.
         let (price_data, last_update_slot) = pyth_get_price price_account in
         bnd (power_of_ten_float (as_i8 (py_expo price_account))) (\<lambda>decimal_adj.
         let price = f_mul (f_of_int (pp_price price_data)) decimal_adj;
             deviation = f_mul (f_of_int (pp_conf price_data)) decimal_adj in
         bnd (require_not_negative price) (\<lambda>_.
         Ok \<lparr>os_price = price, os_deviation = deviation,
           os_last_update_slot = last_update_slot, os_type = Pyth\<rparr>)))
     | SwitchboardV2 \<Rightarrow>
         bnd (byte_range 8 (length (ar_data acc)) (ar_data acc)) (\<lambda>bytes.
         bnd (oe_aggregator_cast env bytes) (\<lambda>feed.
         bnd (ok_or (ag_result feed) SomeError) (\<lambda>feed_result.
         bnd (ok_or (oe_decimal_to_f64 env feed_result) SomeError) (\<lambda>price.
         bnd (ok_or (oe_decimal_to_f64 env (ag_std_deviation feed)) SomeError) (\<lambda>deviation.
         bnd (require_not_negative price) (\<lambda>_.
         Ok \<lparr>os_price = price, os_deviation = deviation,
           os_last_update_slot = ag_round_open_slot feed, os_type = SwitchboardV2\<rparr>))))))
     | SwitchboardV1 \<Rightarrow>
         bnd (unwrap (oe_fast_round env (ar_data acc))) (\<lambda>result.
         let price = fr_result result;
             deviation = f_sub (fr_max_response result) (fr_min_response result) in
         bnd (require_not_negative price) (\<lambda>_.
         Ok \<lparr>os_price = price, os_deviation = deviation,
           os_last_update_slot = fr_round_open_slot result, os_type = SwitchboardV1\<rparr>))
     | RaydiumCLMM \<Rightarrow>
         bnd (byte_range 8 (length (ar_data acc)) (ar_data acc)) (\<lambda>bytes.
         bnd (oe_pool_cast env bytes) (\<lambda>pool.
         bnd (chk_i8 (as_i8 (pl_mint_decimals_0 pool) - as_i8 (pl_mint_decimals_1 pool))) (\<lambda>decimals.
         bnd (oe_u64f64_square env (pl_sqrt_price_x64 pool)) (\<lambda>sq.
         bnd (power_of_ten_float decimals) (\<lambda>decimal_adj.
         let price = f_mul sq decimal_adj in
         bnd (require_not_negative price) (\<lambda>_.
         Ok \<lparr>os_price = price, os_deviation = 0,
           os_last_update_slot = U64_MAX, os_type = RaydiumCLMM\<rparr>)))))))"

section \<open>The oracle price of a market\<close>

definition lot_to_native_price :: "('fx, 'd) oracle_env \<Rightarrow> market \<Rightarrow> i64 \<Rightarrow> 'fx res" where
  "lot_to_native_price env m price =
     bnd (fx_mul env (fx_from_num env price) (fx_from_num env (quote_lot_size m))) (\<lambda>x.
     fx_div env x (fx_from_num env (base_lot_size m)))"

definition native_price_to_lot :: "('fx, 'd) oracle_env \<Rightarrow> market \<Rightarrow> 'fx \<Rightarrow> i64 res" where
  "native_price_to_lot env m price =
     ok_or (Option.bind (fx_checked_mul env price (fx_from_num env (base_lot_size m))) (\<lambda>x.
            Option.bind (fx_checked_div env x (fx_from_num env (quote_lot_size m))) (\<lambda>y.
            fx_checked_to_num env y))) InvalidOraclePrice"

definition native_decimals :: "market \<Rightarrow> int res" where
  "native_decimals m = chk_i8 (as_i8 (int (quote_decimals m)) - as_i8 (int (base_decimals m)))"

definition oracle_price_from_a ::
  "('fx, 'd) oracle_env \<Rightarrow> market \<Rightarrow> account_ref \<Rightarrow> u64 \<Rightarrow> 'fx option res" where
  "oracle_price_from_a env m acc now_slot =
     bnd (assert_that (nz_eq (oracle_a m) (ar_key acc))) (\<lambda>_.
     bnd (oracle_state_unchecked env acc) (\<lambda>oracle.
     if is_stale oracle (m_oracle_config m) now_slot
        \<or> \<not> has_valid_confidence oracle (m_oracle_config m) then Ok None
     else bnd (native_decimals m) (\<lambda>decimals.
       bnd (power_of_ten_float decimals) (\<lambda>decimal_adj.
       Ok (fx_checked_from_num env (f_mul (os_price oracle) decimal_adj))))))"

definition oracle_price_from_a_and_b ::
  "('fx, 'd) oracle_env \<Rightarrow> market \<Rightarrow> account_ref \<Rightarrow> account_ref \<Rightarrow> u64 \<Rightarrow> 'fx option res" where
  "oracle_price_from_a_and_b env m acc_a acc_b now_slot =
     bnd (assert_that (nz_eq (oracle_a m) (ar_key acc_a))) (\<lambda>_.
     bnd (assert_that (nz_eq (oracle_b m) (ar_key acc_b))) (\<lambda>_.
     bnd (oracle_state_unchecked env acc_a) (\<lambda>st_a.
     bnd (oracle_state_unchecked env acc_b) (\<lambda>st_b.
     if is_stale st_a (m_oracle_config m) now_slot \<or> is_stale st_b (m_oracle_config m) now_slot
        \<or> \<not> has_valid_combined_confidence st_a st_b (m_oracle_config m) then Ok None
     else let price = f_div (os_price st_a) (os_price st_b) in
       bnd (native_decimals m) (\<lambda>decimals.
       bnd (power_of_ten_float decimals) (\<lambda>decimal_adj.
       Ok (fx_checked_from_num env (f_mul price decimal_adj))))))))"

definition oracle_price ::
  "('fx, 'd) oracle_env \<Rightarrow> market \<Rightarrow> account_ref option \<Rightarrow> account_ref option \<Rightarrow> u64 \<Rightarrow> 'fx option res" where
  "oracle_price env m acc_a acc_b slot =
     (if nz_is_some (oracle_a m) \<and> nz_is_some (oracle_b m) then
        bnd (unwrap acc_a) (\<lambda>a. bnd (unwrap acc_b) (\<lambda>b. oracle_price_from_a_and_b env m a b slot))
      else if nz_is_some (oracle_a m) then
        bnd (unwrap acc_a) (\<lambda>a. oracle_price_from_a env m a slot)
      else Ok None)"

definition oracle_price_lots ::
  "('fx, 'd) oracle_env \<Rightarrow> market \<Rightarrow> account_ref option \<Rightarrow> account_ref option \<Rightarrow> u64 \<Rightarrow> i64 option res" where
  "oracle_price_lots env m acc_a acc_b slot =
     bnd (oracle_price env m acc_a acc_b slot) (\<lambda>oracle_price. case oracle_price of
       Some p \<Rightarrow> bnd (native_price_to_lot env m p) (\<lambda>l. Ok (Some l))
     | None \<Rightarrow> Ok None)"

text \<open>What the instructions that place orders do with the oracle accounts they are given.\<close>

definition instruction_oracle_price ::
  "('fx, 'd) oracle_env \<Rightarrow> market \<Rightarrow> account_info option \<Rightarrow> account_info option \<Rightarrow> u64 \<Rightarrow> i64 option res" where
  "instruction_oracle_price env m info_a info_b slot =
     bnd (ref_borrow_some info_a) (\<lambda>a. bnd (ref_borrow_some info_b) (\<lambda>b.
     oracle_price_lots env m a b slot))"

end
