(* ===== verification/Oracles_Correct.thy ===== *)
theory Oracles_Correct
  imports Oracles Trading
begin

text \<open>
  What the checks on an oracle mean in exact arithmetic, which prices get past them, and what a
  market does without one: an order pegged to the oracle is refused. The staleness of the source is
  a saturating sum of machine integers, its confidence a product of doubles.
\<close>

section \<open>Staleness and confidence\<close>

definition fresh :: "oracle_config \<Rightarrow> u64 \<Rightarrow> oracle_state \<Rightarrow> bool" where
  \<comment> \<open>over the unbounded integers\<close>
  "fresh cfg now st \<longleftrightarrow>
     0 \<le> max_staleness_slots cfg \<longrightarrow> now \<le> os_last_update_slot st + max_staleness_slots cfg"

lemma is_stale_iff:
  assumes "is_i64 (max_staleness_slots cfg)" "is_u64 now" "is_u64 (os_last_update_slot st)"
  shows "is_stale st cfg now \<longleftrightarrow> \<not> fresh cfg now st"
  using assms by (auto simp: is_stale_def fresh_def sat_u64_def int_ranges int_limits as_u64_def)

lemma not_stale_fresh:
  "\<not> is_stale st cfg now \<Longrightarrow> is_i64 (max_staleness_slots cfg) \<Longrightarrow> 0 < now \<Longrightarrow> fresh cfg now st"
  by (auto simp: is_stale_def fresh_def sat_u64_def int_ranges int_limits as_u64_def)

lemma max_slot_never_stale:
  "os_last_update_slot st = U64_MAX \<Longrightarrow> is_i64 (max_staleness_slots cfg) \<Longrightarrow> is_u64 now \<Longrightarrow>
   \<not> is_stale st cfg now"
  by (simp add: is_stale_iff is_u64_def) (simp add: fresh_def int_ranges int_limits)

text \<open>A filter that is not a number lets every deviation pass.\<close>

lemma nan_filter_accepts: "f_is_nan (conf_filter cfg) \<Longrightarrow> has_valid_confidence st cfg"
proof -
  have "f_is_nan f_nan" by (simp add: f_is_nan_def f_nan_def F_INF_def HIDDEN_def)
  then show "f_is_nan (conf_filter cfg) \<Longrightarrow> has_valid_confidence st cfg"
    by (simp add: has_valid_confidence_def f_mul_def)
qed

definition plain_confidence :: "oracle_config \<Rightarrow> oracle_state \<Rightarrow> bool" where
  \<comment> \<open>filter, price and deviation are numbers, filter and price not negative\<close>
  "plain_confidence cfg st \<longleftrightarrow> f_is_finite (conf_filter cfg) \<and> f_is_finite (os_price st) \<and>
     f_is_finite (os_deviation st) \<and> 0 \<le> f_val (conf_filter cfg) \<and> 0 \<le> f_val (os_price st)"

lemma confidence_within:
  "plain_confidence cfg st \<Longrightarrow> f_val (os_deviation st) \<le> f_val (conf_filter cfg) * f_val (os_price st) \<Longrightarrow>
   has_valid_confidence st cfg"
  by (auto simp: has_valid_confidence_def plain_confidence_def dest: f_mul_refuses)

lemma confidence_bound:
  "plain_confidence cfg st \<Longrightarrow> has_valid_confidence st cfg \<Longrightarrow>
   f_val (os_deviation st) \<le> f_val (conf_filter cfg) * f_val (os_price st) * (1 + 1 / 2 ^ 53) + 1 / 2 ^ 1075"
  unfolding has_valid_confidence_def plain_confidence_def by (rule f_mul_accepts) auto

section \<open>Powers of ten\<close>

lemma power_of_ten_float_outside:
  "\<not> (-12 \<le> d \<and> d \<le> 12) \<Longrightarrow> power_of_ten_float d = Inl Panic"
  by (cases "is_i8 (d + 12)")
    (auto simp: power_of_ten_float_def DECIMAL_CONSTANT_ZERO_INDEX_def DECIMAL_CONSTANTS_F64_def arr_get_def)

lemma power_of_ten_float_inside:
  "-12 \<le> d \<Longrightarrow> d \<le> 12 \<Longrightarrow> power_of_ten_float d = Ok (DECIMAL_CONSTANTS_F64 ! nat (d + 12))"
  by (auto simp: power_of_ten_float_def DECIMAL_CONSTANT_ZERO_INDEX_def DECIMAL_CONSTANTS_F64_def is_i8_def)

text \<open>Mints whose decimals are further apart have no power of ten: where a price would be given,
  reading it is a panic.\<close>

lemma far_decimals_panic:
  assumes "native_decimals m = Ok d" "\<not> (-12 \<le> d \<and> d \<le> 12)"
    and "oracle_state_unchecked env acc = Ok st" "nz_eq (oracle_a m) (ar_key acc)"
    and "\<not> is_stale st (m_oracle_config m) now" "has_valid_confidence st (m_oracle_config m)"
  shows "oracle_price_from_a env m acc now = Inl Panic"
  using assms by (simp add: oracle_price_from_a_def power_of_ten_float_outside)

section \<open>Prices that get past the checks\<close>

lemma ref_borrow_someE:
  assumes "ref_borrow_some info = Ok (Some acc)"
  shows "\<exists>ai. info = Some ai \<and> ref_borrow ai = Ok acc \<and> ai_key ai = ar_key acc \<and> ai_owner ai = ar_owner acc"
  using assms by (auto simp: ref_borrow_some_def ref_borrow_def res_simps split: option.splits)

lemma oracle_price_from_a_ok:
  assumes "oracle_price_from_a env m acc now = Ok (Some p)"
  obtains st where "ar_key acc = oracle_a m" "oracle_state_unchecked env acc = Ok st"
    "\<not> is_stale st (m_oracle_config m) now" "has_valid_confidence st (m_oracle_config m)"
  using assms by (auto simp: oracle_price_from_a_def nz_eq_def res_simps split: if_splits)

lemma oracle_price_from_a_and_b_ok:
  assumes "oracle_price_from_a_and_b env m acc_a acc_b now = Ok (Some p)"
  obtains st st' where "ar_key acc_a = oracle_a m" "oracle_state_unchecked env acc_a = Ok st"
    "\<not> is_stale st (m_oracle_config m) now" "ar_key acc_b = oracle_b m"
    "oracle_state_unchecked env acc_b = Ok st'" "\<not> is_stale st' (m_oracle_config m) now"
    "has_valid_combined_confidence st st' (m_oracle_config m)"
  using assms by (auto simp: oracle_price_from_a_and_b_def nz_eq_def res_simps split: if_splits)

lemma oracle_price_lots_ok:
  assumes "oracle_price_lots env m a b now = Ok (Some l)"
  obtains p where "oracle_price env m a b now = Ok (Some p)"
  using assms by (auto simp: oracle_price_lots_def res_simps split: option.splits)

text \<open>An oracle is what it claims to be: the stub oracle is an account of this program, and no price
  of another kind is below zero.\<close>

lemma oracle_state_type:
  assumes "oracle_state_unchecked env acc = Ok st"
  shows "determine_oracle_type env acc = Ok (os_type st)"
proof -
  obtain ty where ty: "determine_oracle_type env acc = Ok ty"
    using assms by (auto simp: oracle_state_unchecked_def res_simps)
  then show ?thesis
    using assms by (cases ty) (auto simp: oracle_state_unchecked_def Let_def res_simps case_prod_beta)
qed

lemma stub_state_owned:
  "oracle_state_unchecked env acc = Ok st \<Longrightarrow> os_type st = Stub \<Longrightarrow>
   ar_owner acc = zc_owner (oe_stub env) \<and> take 8 (ar_data acc) = zc_discriminator (oe_stub env)"
  using oracle_state_type [of env acc st]
  by (auto simp: oracle_state_unchecked_def res_simps dest: load_zero_copy_ok)

lemma state_not_negative:
  "oracle_state_unchecked env acc = Ok st \<Longrightarrow> os_type st \<noteq> Stub \<Longrightarrow> \<not> f_lt (os_price st) 0"
  using oracle_state_type [of env acc st]
  by (cases "os_type st")
    (auto simp: oracle_state_unchecked_def require_not_negative_def Let_def res_simps case_prod_beta)

section \<open>Orders pegged to the oracle\<close>

lemma oracle_price_refused:
  assumes "nz_is_some (oracle_a m)" "oracle_b m = 0" "ar_key acc = oracle_a m"
    and "oracle_state_unchecked env acc = Ok st"
    and "is_stale st (m_oracle_config m) now \<or> \<not> has_valid_confidence st (m_oracle_config m)"
  shows "oracle_price_lots env m (Some acc) b now = Ok None"
  using assms
  by (auto simp: oracle_price_lots_def oracle_price_def oracle_price_from_a_def nz_is_some_def nz_eq_def)

lemma pegged_order_refused:
  "o_params order = OraclePeggedParams off ty l \<Longrightarrow>
   new_order ob order owner now lmt None ac = Inl (Err OraclePegInvalidOracleState)"
  by (simp add: new_order_def order_price_def order_price_lots_def Let_def)

lemma place_order_pegged_refused:
  assumes "check_order_lots order = Ok ()"
    and "get_vault_by_side (w_market w) (o_side order) = ta_key (po_market_vault cx)"
    and "\<not> market_is_expired (w_market w) (ck_unix_timestamp ck)" "is_u64 (ck_unix_timestamp ck)"
    and "o_params order = OraclePeggedParams off ty l"
  shows "place_order rt ck (Ok None) cx order lmt w = Inl (Err OraclePegInvalidOracleState)"
  using assms by (simp add: place_order_def clock_u64_def pegged_order_refused)

end
