(* ===== verification/Oracle_Examples.thy ===== *)
theory Oracle_Examples
  imports Oracles_Correct World_Examples
begin

text \<open>
  A concrete market with a stub oracle: the price 2 read at slot 150. The fixed-point numbers of the
  crate are integers of \<open>2^-48\<close>; the accounts of other programs do not load here.
\<close>

section \<open>Fixed-point numbers\<close>

definition fx_in_range :: "int \<Rightarrow> int option" where
  "fx_in_range x = (if is_i128 x then Some x else None)"

definition ex_env :: "stub_oracle \<Rightarrow> (int, unit) oracle_env" where
  "ex_env so = \<lparr>oe_pyth_magic = 0xa1b2c3d4,
     oe_stub = \<lparr>zc_owner = 77, zc_discriminator = [1, 2, 3, 4, 5, 6, 7, 8], zc_size = 4, zc_cast = (\<lambda>_. Ok so)\<rparr>,
     oe_load_price_account = (\<lambda>_. None), oe_aggregator_cast = (\<lambda>_. Inl Panic),
     oe_decimal_to_f64 = (\<lambda>_. None), oe_fast_round = (\<lambda>_. None), oe_pool_cast = (\<lambda>_. Inl Panic),
     oe_u64f64_square = (\<lambda>_. Inl Panic), fx_from_num = (\<lambda>n. n * 2 ^ 48),
     fx_mul = (\<lambda>a b. unwrap (fx_in_range (a * b div 2 ^ 48))),
     fx_div = (\<lambda>a b. if b = 0 then Inl Panic else unwrap (fx_in_range (a * 2 ^ 48 div b))),
     fx_checked_mul = (\<lambda>a b. fx_in_range (a * b div 2 ^ 48)),
     fx_checked_div = (\<lambda>a b. if b = 0 then None else fx_in_range (a * 2 ^ 48 div b)),
     fx_checked_to_num = (\<lambda>a. if is_i64 (a div 2 ^ 48) then Some (a div 2 ^ 48) else None),
     fx_checked_from_num = (\<lambda>x. if f_is_finite x then fx_in_range (f_units x * 2 ^ 48 div int unit_den)
        else None)\<rparr>"

section \<open>A stub oracle\<close>

definition ex_stub :: stub_oracle where
  "ex_stub = \<lparr>so_owner = 30, so_mint = 6, so_price = 0x4000000000000000, so_last_update_ts = 90,
     so_last_update_slot = 150, so_deviation = 0x3FC0000000000000\<rparr>"

definition ex_oracle_info :: account_info where
  "ex_oracle_info = \<lparr>ai_key = 50, ai_owner = 77,
     ai_data = Some [1, 2, 3, 4, 5, 6, 7, 8, 0, 0, 0, 0]\<rparr>"

definition ex_oracle_acc :: account_ref where
  "ex_oracle_acc = \<lparr>ar_key = 50, ar_owner = 77, ar_data = [1, 2, 3, 4, 5, 6, 7, 8, 0, 0, 0, 0]\<rparr>"

definition ex_oracle_market :: market where
  \<comment> \<open>filter 1/8\<close>
  "ex_oracle_market = ex_market\<lparr>oracle_a := 50,
     m_oracle_config := \<lparr>conf_filter = 0x3FC0000000000000, max_staleness_slots = 100\<rparr>\<rparr>"

definition ex_stub_state :: oracle_state where
  "ex_stub_state = \<lparr>os_price = 0x4000000000000000, os_deviation = 0x3FC0000000000000,
     os_last_update_slot = 150, os_type = Stub\<rparr>"

lemmas oracle_run_defs = ex_env_def ex_stub_def ex_oracle_acc_def ex_oracle_market_def ex_stub_state_def
  determine_oracle_type_def byte_range_def load_zero_copy_def

lemma ex_borrow: "ref_borrow ex_oracle_info = Ok ex_oracle_acc"
  by (simp add: ref_borrow_def ex_oracle_info_def ex_oracle_acc_def)

lemma ex_state: "oracle_state_unchecked (ex_env ex_stub) ex_oracle_acc = Ok ex_stub_state"
  by (simp add: oracle_state_unchecked_def oracle_run_defs)

lemma ex_not_stale: "\<not> is_stale ex_stub_state (m_oracle_config ex_oracle_market) 200"
  by (simp add: is_stale_def oracle_run_defs sat_u64_def int_limits)

lemma ex_stale: "is_stale ex_stub_state (m_oracle_config ex_oracle_market) 300"
  by (simp add: is_stale_def oracle_run_defs sat_u64_def int_limits)

section \<open>Its numbers\<close>

lemmas float_run_defs = f_mul_def f_neg_def f_mag_def f_is_nan_def f_is_finite_def F_INF_def HIDDEN_def

lemma ex_two [simp]: "f_neg 0x4000000000000000 = False" "f_mag 0x4000000000000000 = 0x4000000000000000"
  by (simp_all add: f_neg_def f_mag_def)

lemma ex_eighth [simp]: "f_neg 0x3FC0000000000000 = False" "f_mag 0x3FC0000000000000 = 0x3FC0000000000000"
  by (simp_all add: f_neg_def f_mag_def)

lemma ex_two_units: "mag_units 0x4000000000000000 = 2 ^ 1075"
  by (simp add: mag_units_def mag_mant_def mag_exp_def HIDDEN_def)

lemma ex_eighth_units: "mag_units 0x3FC0000000000000 = 2 ^ 1071"
  by (simp add: mag_units_def mag_mant_def mag_exp_def HIDDEN_def)

lemma ex_quarter_units: "mag_units 0x3FD0000000000000 = 2 ^ 1072"
  by (simp add: mag_units_def mag_mant_def mag_exp_def HIDDEN_def)

lemma ex_one_units: "mag_units 0x3FF0000000000000 = 2 ^ 1074"
  by (simp add: mag_units_def mag_mant_def mag_exp_def HIDDEN_def)

lemma pow_prod: "a + b = c + d \<Longrightarrow> (2::nat) ^ a * 2 ^ b = 2 ^ c * 2 ^ d"
  by (simp flip: power_add)

lemma ex_finite: "f_is_finite 0x4000000000000000" "f_is_finite 0x3FC0000000000000"
    "\<not> f_is_nan 0x4000000000000000" "\<not> f_is_nan 0x3FC0000000000000"
  by (simp_all add: f_is_finite_def f_is_nan_def F_INF_def HIDDEN_def)

text \<open>An eighth of two is a quarter: the deviation of an eighth is good enough.\<close>

lemma ex_threshold: "f_mul 0x3FC0000000000000 0x4000000000000000 = 0x3FD0000000000000"
proof -
  have "mag_units (f_mag 0x3FC0000000000000) * mag_units (f_mag 0x4000000000000000) =
      mag_units 0x3FD0000000000000 * unit_den"
    unfolding ex_two ex_eighth ex_two_units ex_eighth_units ex_quarter_units unit_den_def
    by (rule pow_prod) simp
  then have "f_mul 0x3FC0000000000000 0x4000000000000000 = f_make False (min F_INF 0x3FD0000000000000)"
    by (simp only: f_mul_def Let_def ex_two ex_eighth ex_finite round_mag_units [OF unit_den_pos(1)] if_False
        not_True_eq_False not_False_eq_True simp_thms)
  then show ?thesis by (simp add: F_INF_def HIDDEN_def f_make_def)
qed

lemma ex_confident: "has_valid_confidence ex_stub_state (m_oracle_config ex_oracle_market)"
proof -
  have "\<not> f_lt 0x3FD0000000000000 0x3FC0000000000000" by (simp add: f_lt_def f_key_def f_neg_def f_mag_def)
  then show ?thesis
    by (simp add: has_valid_confidence_def ex_stub_state_def ex_oracle_market_def ex_threshold)
qed

lemma ex_power_of_ten: "power_of_ten_float 0 = Ok 0x3FF0000000000000"
proof -
  have "round_mag (1 * unit_den) 1 = round_mag (mag_units 0x3FF0000000000000 * 1) 1"
    by (simp only: ex_one_units unit_den_def mult_1 mult_1_right)
  also have "\<dots> = 0x3FF0000000000000"
    unfolding round_mag_units [OF zero_less_one] by (simp add: F_INF_def HIDDEN_def)
  finally have "f_lit 1 1 = 0x3FF0000000000000" by (simp only: f_lit_def) (simp add: f_make_def)
  moreover have "power_of_ten_float 0 = Ok (f_lit 1 1)"
    by (simp add: power_of_ten_float_inside DECIMAL_CONSTANTS_F64_def)
  ultimately show ?thesis by simp
qed

lemma ex_times_one: "f_mul 0x4000000000000000 0x3FF0000000000000 = 0x4000000000000000"
proof -
  have one: "f_neg 0x3FF0000000000000 = False" "f_mag 0x3FF0000000000000 = 0x3FF0000000000000"
      "f_is_finite 0x3FF0000000000000" "\<not> f_is_nan 0x3FF0000000000000"
    by (simp_all add: f_neg_def f_mag_def f_is_finite_def f_is_nan_def F_INF_def HIDDEN_def)
  have "mag_units (f_mag 0x4000000000000000) * mag_units (f_mag 0x3FF0000000000000) =
      mag_units 0x4000000000000000 * unit_den"
    unfolding ex_two one ex_two_units ex_one_units unit_den_def by (rule refl)
  then have "f_mul 0x4000000000000000 0x3FF0000000000000 = f_make False (min F_INF 0x4000000000000000)"
    by (simp only: f_mul_def Let_def ex_two one ex_finite round_mag_units [OF unit_den_pos(1)] if_False
        not_True_eq_False not_False_eq_True simp_thms)
  then show ?thesis by (simp add: F_INF_def HIDDEN_def f_make_def)
qed

lemma ex_from_num: "fx_checked_from_num (ex_env ex_stub) 0x4000000000000000 = Some (2 ^ 49)"
proof -
  have "f_units 0x4000000000000000 = int unit_den * 2"
    unfolding f_units_def ex_two if_False ex_two_units unit_den_def of_nat_power of_nat_numeral
    by (simp flip: power_Suc2)
  then have "f_units 0x4000000000000000 * 2 ^ 48 div int unit_den = 2 ^ 49"
    by (simp only: mult.assoc) simp
  then show ?thesis by (simp add: ex_env_def ex_finite fx_in_range_def is_i128_def int_limits)
qed

text \<open>At slot 200 the price is 2 a token, 20 quote lots a base lot; at slot 300 there is none.\<close>

lemma ex_price: "oracle_price (ex_env ex_stub) ex_oracle_market (Some ex_oracle_acc) None 200 = Ok (Some (2 ^ 49))"
proof -
  have "native_decimals ex_oracle_market = Ok 0"
    by (simp add: native_decimals_def ex_oracle_market_def ex_market_def as_i8_def is_i8_def)
  moreover have "nz_eq (oracle_a ex_oracle_market) (ar_key ex_oracle_acc)" "nz_is_some (oracle_a ex_oracle_market)"
      "\<not> nz_is_some (oracle_b ex_oracle_market)" "os_price ex_stub_state = 0x4000000000000000"
    by (simp_all add: nz_eq_def nz_is_some_def ex_oracle_market_def ex_market_def ex_oracle_acc_def ex_stub_state_def)
  ultimately show ?thesis
    by (simp add: oracle_price_def oracle_price_from_a_def ex_state ex_not_stale ex_confident ex_power_of_ten
        ex_times_one ex_from_num)
qed

lemma ex_price_lots: "oracle_price_lots (ex_env ex_stub) ex_oracle_market (Some ex_oracle_acc) None 200 = Ok (Some 20)"
  by (simp add: oracle_price_lots_def ex_price native_price_to_lot_def)
    (simp add: ex_env_def ex_oracle_market_def ex_market_def fx_in_range_def int_ranges int_limits)

lemma ex_instruction_price:
  "instruction_oracle_price (ex_env ex_stub) ex_oracle_market (Some ex_oracle_info) None 200 = Ok (Some 20)"
  by (simp add: instruction_oracle_price_def ref_borrow_some_def ex_borrow ex_price_lots)

section \<open>An order pegged to it\<close>

definition ex_pegged_order :: order where
  "ex_pegged_order = \<lparr>o_side = Bid, o_max_base_lots = 3, o_max_quote_lots_including_fees = 200,
     o_client_order_id = 5, o_time_in_force = 0, o_self_trade_behavior = DecrementTake,
     o_params = OraclePeggedParams 0 PostLimit 30\<rparr>"

definition ex_oracle_world :: "(pubkey \<Rightarrow> int) world" where
  "ex_oracle_world = ex_world\<lparr>w_market := ex_oracle_market\<rparr>"

lemma ex_oracle_world_market: "w_market ex_oracle_world = ex_oracle_market"
  by (simp add: ex_oracle_world_def)

lemma ex_plain: "plain_confidence (m_oracle_config ex_oracle_market) ex_stub_state"
  by (simp add: plain_confidence_def ex_oracle_market_def ex_stub_state_def ex_finite f_val_def)

lemma ex_pegged_guards:
  "check_order_lots ex_pegged_order = Ok ()"
  "get_vault_by_side (w_market ex_oracle_world) (o_side ex_pegged_order) = ta_key (po_market_vault ex_place_ctx)"
  "\<not> market_is_expired (w_market ex_oracle_world) (ck_unix_timestamp (ex_clock\<lparr>ck_slot := 300\<rparr>))"
  "is_u64 (ck_unix_timestamp (ex_clock\<lparr>ck_slot := 300\<rparr>))" "is_u64 (ck_slot (ex_clock\<lparr>ck_slot := 300\<rparr>))"
  "o_params ex_pegged_order = OraclePeggedParams 0 PostLimit 30"
  by (simp_all add: check_order_lots_def ex_pegged_order_def get_vault_by_side_def ex_oracle_world_def
      ex_oracle_market_def ex_market_def ex_place_ctx_def token_acc_def market_is_expired_def ex_clock_def
      int_ranges int_limits)

lemma ex_oracle_facts:
  "oracle_a (w_market ex_oracle_world) = ai_key ex_oracle_info" "ai_key ex_oracle_info \<noteq> 0"
  "oracle_b (w_market ex_oracle_world) = 0"
  by (simp_all add: ex_oracle_world_def ex_oracle_market_def ex_market_def ex_oracle_info_def)

lemma ex_stale_facts:
  "is_u64 (os_last_update_slot ex_stub_state)"
  "is_i64 (max_staleness_slots (m_oracle_config (w_market ex_oracle_world)))"
  "\<not> fresh (m_oracle_config (w_market ex_oracle_world)) (ck_slot (ex_clock\<lparr>ck_slot := 300\<rparr>)) ex_stub_state \<or>
      plain_confidence (m_oracle_config (w_market ex_oracle_world)) ex_stub_state \<and>
      f_val (conf_filter (m_oracle_config (w_market ex_oracle_world))) * f_val (os_price ex_stub_state) * (1 + 1 / 2 ^ 53)
        + 1 / 2 ^ 1075 < f_val (os_deviation ex_stub_state)"
  by (simp_all add: ex_stub_state_def ex_oracle_world_def ex_oracle_market_def fresh_def int_ranges int_limits)

end
