(* ===== verification/Spec2Isabelle.thy ===== *)
theory Spec2Isabelle
  imports Ledger_Examples Client_Examples Oracle_Examples
begin

text \<open>
  OpenBook v2, an order-book exchange on Solana (\<open>programs/openbook-v2\<close>). A market has a book of
  two sides, bids and asks, an event heap for what has happened to orders whose accounts are not at
  hand, two token vaults, and open-orders accounts of its users. This development models the
  program's own logic - the data structures, the matching engine, the instructions - and proves what
  each part promises and what holds for all of them together.

  The parts, each a theory with the definitions in the order of the code, and the theories that
  hold their lemmas:

  \<^item> \<open>Prelude\<close>: results (\<open>Inl\<close> of a program error, a framework error, a panic or lack of fuel;
    \<open>Inr\<close> of a value), checked machine arithmetic (the crate is built with overflow checks, so an
    overflow is a panic), array access. Keys and price data are words of 128 and 64 bits;
    amounts are integers with the range of their type checked where the code computes them.
  \<^item> \<open>Order_Types\<close> (\<open>order_type.rs\<close>), \<open>Nodes\<close> (\<open>nodes.rs\<close>) on \<open>Bits\<close>: sides, order kinds, keys.
  \<^item> \<open>Order_Tree\<close> (\<open>ordertree.rs\<close>), \<open>Order_Tree_Iter\<close> (\<open>ordertree_iterator.rs\<close>): the crit-bit tree
    in an array of nodes. \<open>Crit_Tree\<close> is the abstract tree with its contexts, \<open>Order_Tree_Arena\<close> its
    representation in the array, \<open>Order_Tree_Correct\<close> and \<open>Order_Tree_Insert\<close> the refinement of the
    sorted list of orders, \<open>Order_Tree_Api\<close> what clients use of it (the locale \<open>order_store\<close>,
    interpreted by the tree).
  \<^item> \<open>Book_Side\<close> (\<open>bookside.rs\<close>, \<open>bookside_iterator.rs\<close>): two trees in one array, fixed and
    oracle-pegged orders, and the iterator that merges them. \<open>Book_Side_Correct\<close>, \<open>Book_Side_Iter\<close>,
    \<open>Book_Side_Worst\<close>.
  \<^item> \<open>Event_Heap\<close> (\<open>heap.rs\<close>) and \<open>Event_Heap_Correct\<close>: a queue with removal from the middle; its
    contract is the locale \<open>event_queue\<close>, interpreted by the heap.
  \<^item> \<open>Market\<close> (\<open>market.rs\<close>, \<open>pubkey_option.rs\<close>), \<open>Open_Orders\<close> (\<open>open_orders_account.rs\<close>): fees and
    lots; positions and order slots.
  \<^item> \<open>Orderbook\<close> (\<open>order.rs\<close>, \<open>book.rs\<close>): \<open>new_order\<close> as its phases - price, matching loop, changes and
    deletions, final accounting, making room, posting - and cancelling. \<open>Orderbook_Correct\<close> and
    \<open>Orderbook_Limits\<close> (what an order may take), \<open>Orderbook_Invariant\<close> (the book stays sound),
    \<open>Accounting\<close>, \<open>Accounting_Match\<close>, \<open>Accounting_Order\<close> (claims are conserved), \<open>Termination\<close>,
    \<open>Cancelling\<close>, \<open>Crowded\<close>.
  \<^item> \<open>Runtime\<close> (\<open>accounts_ix\<close>, \<open>token_utils.rs\<close>): the world an instruction loads, the constraints of
    each accounts struct in their order, calls of other programs. \<open>Trading\<close>, \<open>Funds\<close>, \<open>Admin\<close>
    (\<open>instructions\<close>): the handlers. \<open>Entry_Points\<close> (\<open>lib.rs\<close>): argument checks and the orders built
    from arguments. \<open>Dispatch\<close>: all instructions of a created market as one function \<open>run\<close>.
  \<^item> \<open>Solvency\<close>, \<open>Readiness\<close>, \<open>Vaults\<close>, \<open>Backing\<close>: the deposits booked cover the claims, and the
    vaults what is booked, over every instruction. \<open>Typed\<close>: machine types. \<open>Guards\<close>: access and
    expiry. \<open>Consuming\<close>, \<open>Handlers\<close>: what single handlers do.
  \<^item> \<open>Slot_Machine\<close>: an abstract machine of order slots, their holders (orders on the book, events of
    leaving orders) and the counter of ids, with its invariant. \<open>Slots\<close>, \<open>Slots_Book\<close> (on
    \<open>Book_Fresh\<close>: the matching loop meets an order once): the program refines it. \<open>Held_Orders\<close>,
    \<open>Held_Steps\<close>, \<open>Held_Run\<close>, \<open>Held_All\<close>: the invariant of a market with all its accounts, loaded by
    an instruction or not, and that every instruction keeps it.
  \<^item> \<open>Ledger\<close>: a market over its whole life, as the reachable states of a transition system.
  \<^item> \<open>Client_Book\<close> (\<open>lib/client/src/book.rs\<close>, the quote of \<open>jup.rs\<close>): what the client computes from a
    book, and \<open>Client_Book_Correct\<close>: that it agrees with the program.
  \<^item> \<open>Zero_Copy\<close> (\<open>accounts_zerocopy.rs\<close>): borrowing an account and reading it as a typed value.
    \<open>Float64\<close>: the doubles of the oracle prices as 64-bit words, their operations rounded to nearest
    even, with the lemmas that rounding is monotone and close. \<open>Oracles\<close> (\<open>oracle.rs\<close>,
    \<open>raydium_internal.rs\<close>, the prices of \<open>market.rs\<close>): kinds, states and checks of oracles, the price
    of a market in lots; \<open>Oracles_Correct\<close>: which prices get past the checks.
  \<^item> \<open>Examples\<close>, \<open>World_Examples\<close>, \<open>Ledger_Examples\<close>, \<open>Client_Examples\<close>, \<open>Oracle_Examples\<close>: the concrete states on which every property below is run.

  State and errors. A handler is one definition from the accounts it loads to their new contents or
  an error; an error leaves nothing behind, as a failed transaction does. The records of the model
  have the fields of the structs but for padding and reserved bytes. A mutable array is a list
  with the panic of an index out of range written out.

  Fuel. The loops that follow links - paths of a tree, iterators, skipped orders - recurse on fuel:
  \<open>tree_fuel\<close> is one more than the number of nodes, \<open>side_fuel\<close> enough for both trees of a side. A
  path visits a node once and an iterator yields a leaf once, so on a sound book the fuel
  suffices: \<open>Termination\<close> proves it for every use, and the properties that say an operation returns
  rest on that. The cancelling loop counts its 24 slots up by a measure; all other recursions are
  structural.

  Parameters. The token and the system program are two functions of a \<open>runtime\<close>, relied on only
  for \<open>token_laws\<close>: a successful transfer moves its amount between its two accounts. The oracle price
  in lots (or the error of reading it) is an argument of the instructions that use it, so that what is
  proved of them holds for any price; \<open>instruction_oracle_price\<close> is the argument the program passes. The
  kind of an oracle account at the creation of a market (\<open>determine_oracle_type\<close>) and the widening
  of the confidence filter (\<open>f_of_f32\<close>) are arguments in the same way. What the crates of Pyth and
  Switchboard decode from their accounts, the layout casts of \<open>bytemuck\<close>, Anchor's discriminators and
  the fixed-point numbers of \<open>fixed\<close> are the fields of an \<open>oracle_env\<close>; nothing is assumed of them.

  Claims. For a token, named by the side that pays with it, \<open>claims\<close> is what the market owes: free
  and locked funds and locked fees of the open-orders accounts in sight, rebates and fees set
  aside, and what the queued events will change of accounts not in sight. Orders hold their makers'
  slots; \<open>ready\<close> asks that the orders in sight sit in slots of their side.

  The life of a market. A \<open>ledger\<close> is a market with its book, its heap, all its open-orders accounts
  and the balances of the token program. It is \<open>reachable\<close> from a creation on zeroed accounts and
  vaults of any balance by opening accounts, closing accounts whose slots are free, transfers of other programs
  that do not draw on the vaults (only the market's authority signs for them), and the
  instructions of \<open>Dispatch\<close>, each with any list of remaining accounts. Asked of a step are what the
  runtime gives: arguments and clock within their types, a user that pays from token accounts of its own,
  a taker whose key is not that of an open-orders account. Closing a market ends its life. What
  \<open>ready\<close> and \<open>world_typed\<close> ask of a single instruction holds in every reachable state.

  Not modelled: logs (\<open>logs.rs\<close>: output only), the mutable variants of the account loaders, which
  check the same, and the serialisation wrappers (\<open>i80f48.rs\<close>, \<open>types.rs\<close>), what Anchor
  does with accounts (allocation, seeds, owner, signer and discriminator checks, closing), the
  clients but for the computations above, the fuzzing harness and the tests.
\<close>

section \<open>The life of a market\<close>









section \<open>Single instructions\<close>

text \<open>C5: no instruction lowers the backing of the market. For every instruction that succeeds,
  what the base vault and the quote vault hold above all claims on them - the free funds, locked
  lots and fees of the accounts involved, the claims of queued events, and the fees and rebates of
  the market - is afterwards at least what it was. \<open>ready\<close> says what state the instruction finds,
  \<open>token_laws\<close> that a token transfer moves the amount it is asked to move.\<close>

theorem no_instruction_lowers_backing:
  assumes "token_laws rt bal" and "run rt ck opl i w = Ok w'"
    and "ready i w" and "world_typed w" and "args_typed i" and "ck_unix_timestamp ck \<le> I64_MAX"
    and "vaults_ok (w_market w)" and "\<forall>k \<in> set (pays_from i). not_vault (w_market w) k"
  shows "backs bal t i w \<le> backs bal t i w'"
  by (rule run_backs [OF assms])

theorem no_instruction_lowers_backing_witness:
  "\<exists>w'. run ex_runtime ex_clock (Ok None) (PlaceOrder ex_place_ctx ex_bid_args) ex_world = Ok w' \<and>
     backs ex_bal Bid (PlaceOrder ex_place_ctx ex_bid_args) ex_world \<le>
     backs ex_bal Bid (PlaceOrder ex_place_ctx ex_bid_args) w'"
proof -
  let ?i = "PlaceOrder ex_place_ctx ex_bid_args"
  obtain w' where r: "run ex_runtime ex_clock (Ok None) ?i ex_world = Ok w'"
    using ex_place_runs by (auto simp: res_simps)
  have rd: "ready ?i ex_world"
    using ex_traders_ready by (simp add: ready_def ex_place_ctx_def)
  have a: "args_typed ?i" "ck_unix_timestamp ex_clock \<le> I64_MAX"
    "\<forall>k \<in> set (pays_from ?i). not_vault ex_market k"
    by (simp_all add: ex_bid_args_def ex_clock_def int_defs ex_place_ctx_def token_acc_def)
  show ?thesis
    using no_instruction_lowers_backing [OF ex_token_laws r rd ex_world_typed(1) a(1,2)] a(3) r by simp
qed

text \<open>C6: trading creates and destroys nothing. A new order changes the sum of all claims of a
  token - of the taker, of the makers whose accounts are passed, of the events queued for the others,
  and of the market - exactly by what the order itself brings in or takes out according to the amounts
  it reports, whatever the mix of fills, self-trades, evictions and expired orders.\<close>

theorem new_order_conserves:
  assumes "new_order ob order owner now_ts lmt opl ac = Ok (r, ob', ac')"
    and "trade_ready ob order owner ac"
  shows "claims t ac' = claims t ac + order_adds t (o_side order) (ac_ooa ac = None) r"
  using new_order_claims [OF assms] by blast

theorem new_order_conserves_witness:
  "\<exists>r ob' ac'. new_order ex_book (ex_order Bid (FillOrKillParams 20)) 12 100 10 None ex_accounts =
     Ok (r, ob', ac') \<and> claims Bid ac' = claims Bid ex_accounts + order_adds Bid Bid False r"
proof -
  obtain r ob' ac' where n: "new_order ex_book (ex_order Bid (FillOrKillParams 20)) 12 100 10 None
      ex_accounts = Ok (r, ob', ac')" using ex_fill_or_kill by blast
  have a: "ex_accounts = world_accounts 12 ex_world"
    by (simp add: ex_accounts_def world_accounts_def borrow_out_def)
  have "order_typed (ex_order Bid (FillOrKillParams 20))"
    by (simp add: order_typed_def ex_order_def price_param_ok_def order_peg_limit_def int_defs)
  then have "trade_ready ex_book (ex_order Bid (FillOrKillParams 20)) 12 ex_accounts"
    unfolding a by (rule traders_ready_trade [OF ex_traders_ready ex_order_ok])
  then show ?thesis using n new_order_conserves [OF n, of Bid] by (auto simp: ex_accounts_def)
qed

text \<open>C7: a new order is a run of the slot machine. Whatever it does - dropping expired orders,
  matching, self-trades, evicting, posting - is to the slots of all accounts, loaded or not, a
  sequence of the machine's five steps: an order leaves into an event, a holder frees its slot,
  holders are forgotten, the counter moves on, or a free slot is claimed with a new id.\<close>

theorem new_order_refines_slots:
  assumes "new_order ob order owner now_ts lmt opl ac = Ok (r, ob', ac')"
    and "own_ok k owner ac" and "sound_book ob" and "times_ok order now_ts"
  shows "slot_steps (conf (seq_num (ac_market ac)) base k ac (book_holders ob))
    (conf (seq_num (ac_market ac) + 1) base k ac' (book_holders ob'))"
  using new_order_slots [OF assms] by blast

theorem new_order_refines_slots_witness:
  "\<exists>r ob' ac'. new_order ex_book (ex_order Bid (FillOrKillParams 20)) 12 100 10 None ex_accounts =
     Ok (r, ob', ac') \<and>
     slot_steps (conf 0 [11 \<mapsto> ex_keyed] 12 ex_accounts (book_holders ex_book))
       (conf 1 [11 \<mapsto> ex_keyed] 12 ac' (book_holders ob'))"
proof -
  obtain r ob' ac' where n: "new_order ex_book (ex_order Bid (FillOrKillParams 20)) 12 100 10 None
      ex_accounts = Ok (r, ob', ac')" using ex_fill_or_kill by blast
  have "own_ok 12 12 ex_accounts" "seq_num (ac_market ex_accounts) = 0"
    using ex_heap_ok by (simp_all add: own_ok_def ex_accounts_def shut_def ex_market_def)
  moreover have "times_ok (ex_order Bid (FillOrKillParams 20)) 100" by (simp add: times_ok_def ex_order_def int_limits)
  ultimately show ?thesis using new_order_refines_slots [OF n _ ex_book_sound, of 12 "[11 \<mapsto> ex_keyed]"] n by auto
qed

section \<open>Types and access\<close>





text \<open>C10: the instructions of an admin are the admin's: fees are swept by the market's collect-fee
  admin; orders are pruned, expired accounts settled and a market expired by its close-market
  admin.\<close>

theorem only_admin_acts:
  assumes "run rt ck opl i w = Ok w'" and "admin_of (w_market w) i = Some (k, admin)"
  shows "k = admin"
  by (rule run_admin [OF assms])

theorem only_admin_acts_witness:
  "\<exists>w'. run ex_runtime ex_clock (Ok None) (SweepFees ex_sweep_ctx) ex_world = Ok w' \<and>
     sw_collect_fee_admin ex_sweep_ctx = collect_fee_admin ex_market"
proof -
  obtain w' where r: "run ex_runtime ex_clock (Ok None) (SweepFees ex_sweep_ctx) ex_world = Ok w'"
    using ex_sweep_runs by auto
  show ?thesis
    using r only_admin_acts [OF r, of "sw_collect_fee_admin ex_sweep_ctx" "collect_fee_admin ex_market"] by simp
qed

section \<open>Placing an order\<close>

text \<open>C11: a new order keeps the book sound - both sides well-formed trees with consistent links,
  counts and expiry summaries, every order of positive quantity, fixed prices representable - and
  posts exactly one order, with the key it reports, the owner and the price it was given, or
  leaves its own side untouched when it reports none.\<close>

theorem new_order_keeps_book:
  assumes "new_order ob order owner now_ts lmt opl ac = Ok (r, ob', ac')"
    and "sound_book ob" and "times_ok order now_ts" and "price_param_ok order"
  shows "sound_book ob' \<and> (case oa_order_id r of
      None \<Rightarrow> bookside ob' (o_side order) = bookside ob (o_side order)
    | Some k \<Rightarrow> \<exists>c leaf price_lots p_data. order_price order now_ts opl ob = Ok (price_lots, p_data) \<and>
        leaf_key leaf = k \<and> leaf_owner leaf = owner \<and> price_data leaf = p_data \<and>
        posts (o_side order) price_lots now_ts opl c leaf (bookside ob (o_side order))
          (bookside ob' (o_side order)))"
  by (rule new_order_sound [OF assms])

theorem new_order_keeps_book_witness:
  "\<exists>r ob' ac'. new_order ex_book (ex_order Bid (FillOrKillParams 20)) 12 100 10 None ex_accounts =
     Ok (r, ob', ac') \<and> sound_book ob'"
proof -
  obtain r ob' ac' where n: "new_order ex_book (ex_order Bid (FillOrKillParams 20)) 12 100 10 None
      ex_accounts = Ok (r, ob', ac')" using ex_fill_or_kill by blast
  have "times_ok (ex_order Bid (FillOrKillParams 20)) 100" "price_param_ok (ex_order Bid (FillOrKillParams 20))"
    by (simp_all add: times_ok_def price_param_ok_def ex_order_def int_limits)
  then show ?thesis using n new_order_keeps_book [OF n ex_book_sound] by blast
qed

text \<open>C12: what a new order takes stays within the limits the order sets. When \<open>new_order\<close>
  succeeds, the base and quote amounts it reports are whole lots; the base lots are at most
  \<open>max_base_lots\<close>, the quote lots at most \<open>max_quote_lots_including_fees\<close>, for a bid the quote
  amount with the taker fees too, and the average price is no worse than the order's price. The
  opposing side is well formed and holds no negative quantities; the market's fees are those
  \<open>create_market\<close> admits.\<close>

theorem new_order_limits:
  assumes "new_order ob order owner now_ts lmt opl ac = Ok (r, ob', ac')"
    and "order_ok order" and "market_ok (ac_market ac)"
    and "good_side (bookside ob (invert_side (o_side order)))"
    and "quantities_ok (bookside ob (invert_side (o_side order)))"
  shows "\<exists>price_lots p_data base quote. order_price order now_ts opl ob = Ok (price_lots, p_data) \<and>
    0 \<le> base \<and> base \<le> o_max_base_lots order \<and>
    0 \<le> quote \<and> quote \<le> o_max_quote_lots_including_fees order \<and>
    oa_total_base_taken_native r = base * base_lot_size (ac_market ac) \<and>
    oa_total_quote_taken_native r = quote * quote_lot_size (ac_market ac) \<and>
    (case o_side order of Bid \<Rightarrow> quote \<le> base * price_lots | Ask \<Rightarrow> base * price_lots \<le> quote) \<and>
    (o_side order = Bid \<longrightarrow> oa_total_quote_taken_native r + oa_taker_fees r \<le>
      o_max_quote_lots_including_fees order * quote_lot_size (ac_market ac))"
  by (rule new_order_taken [OF assms]) (fastforce simp: within_price_def)

theorem new_order_limits_witness:
  "\<exists>r ob' ac'. new_order ex_book (ex_order Bid (FillOrKillParams 20)) 12 100 10 None ex_accounts =
     Ok (r, ob', ac') \<and> oa_total_quote_taken_native r + oa_taker_fees r \<le> 200 * 10"
proof -
  obtain r ob' ac' where n: "new_order ex_book (ex_order Bid (FillOrKillParams 20)) 12 100 10 None
      ex_accounts = Ok (r, ob', ac')" using ex_fill_or_kill by blast
  show ?thesis
    using n new_order_limits [OF n] ex_book_asks_ok by auto
qed

text \<open>C13: a new order always comes to an end: on a sound book the fuel of the model is never used
  up, so every loop of the code - over the orders to match, over the paths of the tree, over skipped
  pegged orders, over expired orders - ends.\<close>

theorem new_order_returns:
  assumes "sound_book ob" and "times_ok order now_ts"
  shows "new_order ob order owner now_ts lmt opl ac \<noteq> Inl OutOfFuel"
  using new_order_ends [OF assms] by (simp add: ends_def)

theorem new_order_returns_witness:
  "new_order ex_book (ex_order Bid (FillOrKillParams 20)) 12 100 10 None ex_accounts \<noteq> Inl OutOfFuel"
  by (rule new_order_returns [OF ex_book_sound]) (simp add: times_ok_def ex_order_def int_limits)

text \<open>C14: a fill-or-kill order that succeeds takes all of its base quantity.\<close>

theorem fill_or_kill_fills:
  assumes "new_order ob order owner now_ts lmt opl ac = Ok (r, ob', ac')"
    and "is_fill_or_kill order"
    and "order_ok order" and "market_ok (ac_market ac)"
    and "good_side (bookside ob (invert_side (o_side order)))"
    and "quantities_ok (bookside ob (invert_side (o_side order)))"
  shows "oa_total_base_taken_native r = o_max_base_lots order * base_lot_size (ac_market ac)"
  by (rule new_order_taken [OF assms(1,3-6)]) (use assms(2) in simp)

theorem fill_or_kill_fills_witness:
  "\<exists>r ob' ac'. new_order ex_book (ex_order Bid (FillOrKillParams 20)) 12 100 10 None ex_accounts =
     Ok (r, ob', ac') \<and> oa_total_base_taken_native r = 300"
proof -
  obtain r ob' ac' where n: "new_order ex_book (ex_order Bid (FillOrKillParams 20)) 12 100 10 None
      ex_accounts = Ok (r, ob', ac')" using ex_fill_or_kill by blast
  have f: "is_fill_or_kill (ex_order Bid (FillOrKillParams 20))"
    by (simp add: is_fill_or_kill_def)
  show ?thesis
    using n fill_or_kill_fills [OF n f] ex_book_asks_ok by auto
qed

text \<open>C15: a post-only order (post-only or post-only-slide, fixed or pegged) never takes: a
  successful \<open>new_order\<close> reports no base or quote taken, no taker fees and no referrer amount,
  whatever the book holds.\<close>

theorem post_only_takes_nothing:
  assumes "new_order ob order owner now_ts lmt opl ac = Ok (r, ob', ac')" and "is_post_only order"
  shows "oa_total_base_taken_native r = 0 \<and> oa_total_quote_taken_native r = 0 \<and>
    oa_taker_fees r = 0 \<and> oa_referrer_amount r = 0"
  by (rule new_order_post_only [OF assms])

theorem post_only_takes_nothing_witness:
  "\<exists>r ob' ac'. new_order ex_book (ex_order Bid (FixedParams 25 PostOnly)) 12 100 10 None ex_accounts =
     Ok (r, ob', ac') \<and> oa_total_base_taken_native r = 0"
proof -
  obtain r ob' ac' where n: "new_order ex_book (ex_order Bid (FixedParams 25 PostOnly)) 12 100 10 None
      ex_accounts = Ok (r, ob', ac')" using ex_post_only by blast
  have "is_post_only (ex_order Bid (FixedParams 25 PostOnly))"
    by (simp add: is_post_only_def)
  then show ?thesis using n post_only_takes_nothing [OF n] by blast
qed



section \<open>The book\<close>

text \<open>C17: inserting into an order tree is inserting into the sorted list of its orders: on a
  well-formed tree that is not full \<open>insert_leaf\<close> succeeds, and whenever it succeeds it returns the order that had the key before
  (if any), keeps the tree well formed and the slots of other trees untouched, and puts the
  order at the place of its key.\<close>

theorem insert_leaf_refines:
  assumes "good_tree T rt F" and "leaf_ok new"
    and "\<not> is_full T \<or> insert_leaf T rt new = Ok res"
  shows "\<exists>h rt' T'. insert_leaf T rt new =
      Ok (h, find_order (leaf_key new) (tree_orders T rt), rt', T') \<and>
    good_tree T' rt' F \<and> frame_ok T T' F \<and> nodes T' ! h = LeafNode new \<and>
    tree_orders T' rt' = insert_order new (tree_orders T rt)"
  by (rule insert_leaf_spec [OF assms]) blast

theorem insert_leaf_refines_witness:
  "\<exists>h rt' T'. insert_leaf (side_nodes (one_order_side Asks ex_ask))
      (fst (roots (one_order_side Asks ex_ask))) (ex_leaf Ask 30 5) = Ok (h, None, rt', T') \<and>
    map price_data (tree_orders T' rt') = [20, 30]"
proof -
  have g: "good_tree (side_nodes (one_order_side Asks ex_ask)) (fst (roots (one_order_side Asks ex_ask))) {}"
    using one_order_inv [of ex_ask Asks Fixed] by (auto simp: good_tree_def book_root_def)
  have o: "tree_orders (side_nodes (one_order_side Asks ex_ask)) (fst (roots (one_order_side Asks ex_ask))) =
      [ex_ask]"
    using one_order_orders(1) [of Asks ex_ask] by (simp add: side_orders_def book_root_def)
  have k: "leaf_key ex_ask < leaf_key (ex_leaf Ask 30 5)"
    by (simp add: ex_ask_def ex_leaf_def leaf_new_def new_node_key_less)
  have "leaf_ok (ex_leaf Ask 30 5)" "\<not> is_full (side_nodes (one_order_side Asks ex_ask))"
    by (simp_all add: ex_leaf_def leaf_new_def leaf_ok_def int_limits is_full_def one_order_side_def)
  from insert_leaf_refines [OF g this(1) disjI1 [OF this(2)]] o k show ?thesis
    by (auto simp: find_order_def insert_order_def) (auto simp: ex_ask_def ex_leaf_def leaf_new_def price_data_key)
qed

text \<open>C18: removing by key is deleting from the sorted list: \<open>remove_by_key\<close> always returns on a
  well-formed tree, gives the order with that key or nothing, and every other order stays.\<close>

theorem remove_by_key_refines:
  assumes "good_tree T rt F"
  shows "\<exists>rt' T'. remove_by_key T rt k = Ok (find_order k (tree_orders T rt), rt', T') \<and>
    good_tree T' rt' F \<and> frame_ok T T' F \<and>
    tree_orders T' rt' = delete_order k (tree_orders T rt)"
  by (rule remove_by_key_spec [OF assms]) blast

theorem remove_by_key_refines_witness:
  "\<exists>rt' T'. remove_by_key (side_nodes (one_order_side Asks ex_ask))
      (fst (roots (one_order_side Asks ex_ask))) (leaf_key ex_ask) = Ok (Some ex_ask, rt', T') \<and>
    tree_orders T' rt' = []"
proof -
  have g: "good_tree (side_nodes (one_order_side Asks ex_ask)) (fst (roots (one_order_side Asks ex_ask))) {}"
    using one_order_inv [of ex_ask Asks Fixed] by (auto simp: good_tree_def book_root_def)
  have o: "tree_orders (side_nodes (one_order_side Asks ex_ask)) (fst (roots (one_order_side Asks ex_ask))) =
      [ex_ask]"
    using one_order_orders(1) [of Asks ex_ask] by (simp add: side_orders_def book_root_def)
  show ?thesis
    using remove_by_key_refines [OF g, of "leaf_key ex_ask"] o
    by (auto simp: find_order_def delete_order_def)
qed

text \<open>C19: as long as no pegged order of a side is unrepresentable at the oracle price, running
  the merging iterator to its end yields every matchable order of the side exactly once (the
  pegged ones only with an oracle price), no later item at a better price, and \<open>best_price\<close> is
  the price of the first valid item.\<close>

theorem book_iteration:
  assumes "good_side b" and "\<forall>l \<in> set (side_orders b Fixed). fixed_priced l" and "none_skipped b orc"
  shows "\<exists>xs. iter_all b now_ts orc = Ok xs \<and> mset (map item_node xs) = matchable_orders b orc \<and>
    sorted_wrt (no_better (book_side_of b)) xs \<and>
    best_price b now_ts orc = Ok (map_option item_price_lots (find item_is_valid xs))"
  by (rule iter_all_spec [OF assms])

theorem book_iteration_witness:
  "\<exists>xs. iter_all (one_order_side Asks ex_ask) 100 (Some 50) = Ok xs \<and> map item_node xs = [ex_ask]"
proof -
  let ?b = "one_order_side Asks ex_ask"
  have f: "\<forall>l \<in> set (side_orders ?b Fixed). fixed_priced l"
    by (simp add: fixed_priced_def price_data_key ex_ask_def ex_leaf_def leaf_new_def int_limits)
  have n: "none_skipped ?b (Some 50)" by (simp add: none_skipped_def)
  obtain xs where "iter_all ?b 100 (Some 50) = Ok xs" "mset (map item_node xs) = {#ex_ask#}"
    using book_iteration [OF one_order_good f n] by (fastforce simp: matchable_orders_def)
  then show ?thesis by (metis mset_single_iff)
qed


text \<open>C21: removing the worst order of a side, as the code does to make room in a full book,
  removes one order of the book, and no order of the book has a worse price.\<close>

theorem remove_worst_takes_worst:
  assumes "good_side b" and "\<forall>l \<in> set (side_orders b Fixed). fixed_priced l"
  shows "\<exists>r b'. book_remove_worst b now_ts orc = Ok (r, b') \<and>
    (case r of
       None \<Rightarrow> b' = b \<and> matchable_orders b orc = {#}
     | Some (l, price) \<Rightarrow> \<exists>c. in_book b orc c l \<and> price = leaf_price (book_side_of b) orc c l \<and>
         side_step b c (delete_order (leaf_key l) (side_orders b c)) b' \<and>
         (\<forall>c' l'. in_book b orc c' l' \<longrightarrow>
           \<not> is_price_better (book_side_of b) price (leaf_price (book_side_of b) orc c' l')))"
  by (rule book_remove_worst_spec [OF assms])

theorem remove_worst_takes_worst_witness:
  "\<exists>r b'. book_remove_worst (one_order_side Asks ex_ask) 100 None = Ok (r, b') \<and>
    map_option snd r = Some 20"
proof -
  let ?b = "one_order_side Asks ex_ask"
  have f: "\<forall>l \<in> set (side_orders ?b Fixed). fixed_priced l"
    by (simp add: fixed_priced_def price_data_key ex_ask_def ex_leaf_def leaf_new_def int_limits)
  have p: "leaf_price s None Fixed ex_ask = 20" for s
    by (simp add: leaf_price_def price_data_key ex_ask_def ex_leaf_def leaf_new_def)
  have m: "matchable_orders ?b None \<noteq> {#}" by (simp add: matchable_orders_def)
  have c: "in_book ?b None c l \<longleftrightarrow> c = Fixed \<and> l = ex_ask" for c l
    by (cases c) (simp_all add: in_book_def)
  show ?thesis
    using remove_worst_takes_worst [OF one_order_good f, of 100 None] m c p
    by (auto split: option.splits prod.splits)
qed


text \<open>C23: \<open>remove_one_expired\<close> on a side takes the order of least expiry of the wanted component
  when that has lapsed, otherwise looks at the other component; it never takes an order that has
  not lapsed, and says nothing only when no order of either component has.\<close>

theorem remove_expired_takes_earliest:
  assumes "good_side b"
  shows "\<exists>r b'. book_remove_one_expired b c now_ts = Ok (r, b') \<and>
    (if \<forall>l \<in> set (side_orders b c). now_ts \<le> exp_of l
     then expired_choice now_ts (side_orders b (other_component c)) r \<and>
       side_step b (other_component c) (drop_choice r (side_orders b (other_component c))) b'
     else r \<noteq> None \<and> expired_choice now_ts (side_orders b c) r \<and>
       side_step b c (drop_choice r (side_orders b c)) b')"
  by (rule book_remove_one_expired_spec [OF assms])

theorem remove_expired_takes_earliest_witness:
  "\<exists>b'. book_remove_one_expired (one_order_side Asks (ex_ask\<lparr>time_in_force := 5\<rparr>)) Fixed 100 =
     Ok (Some (ex_ask\<lparr>time_in_force := 5\<rparr>), b') \<and> side_orders b' Fixed = []"
proof -
  let ?l = "ex_ask\<lparr>time_in_force := 5\<rparr>"
  have t: "timestamp ex_ask = 10" by (simp add: ex_ask_def ex_leaf_def leaf_new_def)
  have l: "leaf_ok ?l" "exp_of ?l = 15" by (simp_all add: leaf_ok_def exp_of_def t int_limits)
  show ?thesis
    using remove_expired_takes_earliest [OF one_order_good [OF l(1)], of Asks Fixed 100] l
    by (auto simp: expired_choice_def drop_choice_def side_step_def delete_order_def
        split: option.splits)
qed

section \<open>Cancelling and editing\<close>

text \<open>C24: cancelling an order by its key removes that order and no other: it succeeds only when
  the component the caller names holds an order with the key, and that of the expected owner; every
  other order of both sides stays, the book stays sound, and the slot the order names is free again.\<close>

theorem cancel_order_removes:
  assumes "sound_book ob" and "cancel_order ob oo k sat m eo = Ok (leaf, ob', oo')"
  shows "find_order k (side_orders (bookside ob (sat_side sat)) (sat_order_tree sat)) = Some leaf \<and>
    (\<forall>s t. side_orders (bookside ob' s) t =
      (if s = sat_side sat \<and> t = sat_order_tree sat then delete_order k (side_orders (bookside ob s) t)
       else side_orders (bookside ob s) t)) \<and>
    sound_book ob' \<and> (\<forall>w. eo = Some w \<longrightarrow> leaf_owner leaf = w) \<and>
    open_orders oo' = (open_orders oo)[owner_slot leaf := open_order_default]"
  by (rule cancel_order_exact [OF assms])

theorem cancel_order_removes_witness:
  "\<exists>ob oo. cancel_order ex_book ex_keyed (leaf_key ex_ask) AskFixed ex_market (Some 11) = Ok (ex_ask, ob, oo) \<and>
     side_orders (bookside ob Ask) Fixed = []"
proof -
  obtain ob oo where c: "cancel_order ex_book ex_keyed (leaf_key ex_ask) AskFixed ex_market (Some 11) =
      Ok (ex_ask, ob, oo)" using ex_cancel_runs [of "Some 11"] by auto
  show ?thesis
    using c cancel_order_removes [OF ex_book_sound c] by (simp add: ex_book_asks delete_order_def)
qed

text \<open>C25: editing an order that nobody has filled cancels it and places nothing. When as much is
  cancelled as the caller expected, \<open>edit_order\<close> returns no order id and the world as the
  cancellation left it, although the order of the edit is a valid one.\<close>

theorem edit_of_unfilled_order_cancels:
  assumes "0 \<le> expected" and "cancel_order_by_client_order_id cid w = Ok (expected, w1)"
  shows "edit_order rt ck opl cx cid expected order lmt w = Ok (None, w1)"
  by (rule edit_unfilled [OF assms])

theorem edit_of_unfilled_order_cancels_witness:
  "\<exists>w1. cancel_order_by_client_order_id 1 ex_owner_world = Ok (5, w1) \<and>
     edit_order ex_runtime ex_clock (Ok None) ex_place_ctx 1 5 (ex_order Ask (FixedParams 30 PostOnly)) 10
       ex_owner_world = Ok (None, w1)"
proof -
  obtain w1 where c: "cancel_order_by_client_order_id 1 ex_owner_world = Ok (5, w1)"
    using ex_cancel_by_id_runs by blast
  show ?thesis using c edit_of_unfilled_order_cancels [OF _ c] by simp
qed

section \<open>The event heap\<close>

text \<open>C26: consuming events makes progress: of the oldest events, at most eight and at most the
  limit, exactly those whose owner's account is passed leave the queue; all the others stay in
  order.\<close>

theorem consuming_takes_oldest:
  assumes "good_heap (w_heap w)" and "consume_events lmt None w = Ok w'"
  shows "heap_queue (w_heap w') =
    filter (\<lambda>x. event_owner (fst x) \<notin> fst ` set (w_remaining w)) (take (min lmt 8) (heap_queue (w_heap w))) @
    drop (min lmt 8) (heap_queue (w_heap w))"
  by (rule consume_oldest [OF assms])

theorem consuming_takes_oldest_witness:
  "\<exists>h w'. push_back ex_out ex_heap = Ok h \<and> length (heap_queue h) = 1 \<and>
     consume_events 8 None (ex_queued h) = Ok w' \<and> heap_queue (w_heap w') = []"
proof -
  obtain h s where h: "push_back ex_out ex_heap = Ok h" "good_heap h" "heap_queue h = [(ex_out, s)]"
    using ex_push_runs by blast
  obtain w' where c: "consume_events 8 None (ex_queued h) = Ok w'" using ex_consume_runs [OF h(1)] by blast
  have "good_heap (w_heap (ex_queued h))" using h(2) by (simp add: ex_queued_def)
  then show ?thesis
    using h c consuming_takes_oldest [OF _ c]
    by (auto simp: ex_queued_def ex_out_def event_owner_def out_event_new_def)
qed

text \<open>C27: deleting a slot: when the slot holds an event, that event is returned and exactly that
  entry leaves the queue, the others keeping their order; any other slot number, in range or not,
  is an error.\<close>

theorem delete_slot_removes:
  assumes "good_heap h"
  shows "if s \<in> snd ` set (heap_queue h)
    then \<exists>e h'. delete_slot s h = Ok (e, h') \<and> (e, s) \<in> set (heap_queue h) \<and> good_heap h' \<and>
      heap_queue h' = filter (\<lambda>x. snd x \<noteq> s) (heap_queue h) \<and>
      ev_seq_num h' = ev_seq_num h \<and> length (ev_nodes h') = length (ev_nodes h)
    else delete_slot s h = Inl (Err SomeError)"
  by (rule delete_slot_spec [OF assms])

theorem delete_slot_removes_witness:
  "\<exists>h s. push_back ex_event ex_heap = Ok h \<and> (\<exists>h'. delete_slot s h = Ok (ex_event, h') \<and> heap_queue h' = [])"
proof -
  obtain h s where h: "push_back ex_event ex_heap = Ok h" "good_heap h" "heap_queue h = [(ex_event, s)]"
    using push_back_spec [OF ex_heap_ok(1,3,4)] ex_heap_ok(2) by fastforce
  then show ?thesis using delete_slot_removes [OF h(2), of s] by auto
qed

section \<open>Open-orders accounts\<close>

text \<open>C28: a fill settles exactly what it says. It takes the maker's bid or ask out of the maker's
  holdings (free, locked in orders, locked for fees) and puts the other token in, less the fee
  and plus the rebate of a fill that is not a self-trade; the market accrues the fee, and nothing
  else is created or lost, whether the order was fixed or pegged with a lock at its peg limit.\<close>

theorem maker_fill_conserves:
  assumes "execute_maker fill m oo = Ok (oo', m')"
    and "0 \<le> fe_quantity fill" "0 \<le> fe_price fill"
    and "0 < base_lot_size m" "0 < quote_lot_size m"
    and "fe_peg_limit fill = -1 \<or> 0 \<le> fe_peg_limit fill"
    and "fe_maker_out fill \<Longrightarrow>
      sat_side (oo_side_and_tree (open_orders oo ! fe_maker_slot fill)) = invert_side (fe_taker_side fill)"
  shows "\<exists>fees rebate. maker_fee_and_rebate m fill
      (fe_quantity fill * fe_price fill * quote_lot_size m) = Ok (fees, rebate) \<and>
    quote_holdings m oo' = quote_holdings m oo +
      by_side (fe_taker_side fill) (fe_quantity fill * fe_price fill * quote_lot_size m) - fees + rebate \<and>
    base_holdings m oo' = base_holdings m oo - by_side (fe_taker_side fill) (fe_quantity fill * base_lot_size m) \<and>
    fees_accrued m' = fees_accrued m + fees"
proof (cases "fe_taker_side fill")
  case Bid
  then show ?thesis using execute_maker_ask [OF assms(1)] assms by (simp add: by_side_def)
next
  case Ask
  then show ?thesis
    using execute_maker_bid [OF assms(1)] assms
    by (auto simp: by_side_def maker_fee_and_rebate_def res_simps split: if_splits)
qed

theorem maker_fill_conserves_witness:
  "\<exists>oo' m'. execute_maker (ex_fill Ask) ex_market (ex_maker BidFixed) = Ok (oo', m') \<and>
     base_holdings ex_market oo' = base_holdings ex_market (ex_maker BidFixed) + 300"
proof -
  obtain oo' m' where e: "execute_maker (ex_fill Ask) ex_market (ex_maker BidFixed) = Ok (oo', m')"
    using ex_execute_maker by blast
  show ?thesis using maker_fill_conserves [OF e] e by (auto simp: by_side_def)
qed

text \<open>C29: putting an order in a slot and taking it out again, for the same quantity and locked
  price, gives back the account, with the slot reset.\<close>

theorem add_remove_order:
  assumes "add_order side tree order cid lp oo = Ok oo1"
    and "is_i64 (bids_base_lots (oo_position oo))" "is_i64 (bids_quote_lots (oo_position oo))"
    and "is_i64 (asks_base_lots (oo_position oo))"
  shows "remove_order (owner_slot order) (quantity order) lp oo1 =
    Ok (oo\<lparr>open_orders := (open_orders oo)[owner_slot order := open_order_default]\<rparr>)"
  by (rule add_then_remove [OF assms])

theorem add_remove_order_witness:
  "\<exists>oo1. add_order Bid Fixed ex_ask 5 20 ex_account = Ok oo1 \<and>
     bids_quote_lots (oo_position oo1) = 100 \<and> remove_order 0 5 20 oo1 = Ok ex_account"
proof -
  obtain oo1 where a: "add_order Bid Fixed ex_ask 5 20 ex_account = Ok oo1"
      "bids_quote_lots (oo_position oo1) = 100" using ex_add_order by blast
  have p: "oo_position ex_account = position_default" by (simp add: ex_account_def default_for_tests_def)
  have e: "ex_account\<lparr>open_orders := (open_orders ex_account)[0 := open_order_default]\<rparr> = ex_account"
    by (simp add: ex_account_def default_for_tests_def MAX_OPEN_ORDERS_def numeral_eq_Suc)
  have "owner_slot ex_ask = 0" by (simp add: ex_ask_def ex_leaf_def leaf_new_def)
  then show ?thesis
    using a add_remove_order [OF a(1)] p e by (simp add: position_default_def is_i64_def int_limits)
qed

section \<open>Settling, creation and expiry\<close>

text \<open>C30: settling pays out exactly what is free: the user's base and quote accounts receive the
  free base and the free quote of the open-orders account, which has neither, no referrer rebate and
  no penalty left.\<close>

theorem settling_pays_free_funds:
  assumes "token_laws rt bal" and "ix_settle_funds rt cx w = Ok w'" and "world_typed w"
    and "payees_ok cx (w_market w)"
  shows "bal (w_tokens w') (ta_key (sf_user_base_account cx)) =
      bal (w_tokens w) (ta_key (sf_user_base_account cx)) + base_free_native (oo_position (w_ooa w)) \<and>
    bal (w_tokens w') (ta_key (sf_user_quote_account cx)) =
      bal (w_tokens w) (ta_key (sf_user_quote_account cx)) + quote_free_native (oo_position (w_ooa w)) \<and>
    base_free_native (oo_position (w_ooa w')) = 0 \<and> quote_free_native (oo_position (w_ooa w')) = 0 \<and>
    referrer_rebates_available (oo_position (w_ooa w')) = 0 \<and> penalty_heap_count (oo_position (w_ooa w')) = 0"
  by (rule settle_funds_pays [OF assms])

theorem settling_pays_free_funds_witness:
  "\<exists>w'. ix_settle_funds ex_runtime ex_settle_ctx (ex_world\<lparr>w_ooa := ex_rich\<rparr>) = Ok w' \<and>
     ex_bal (w_tokens w') 41 = 9200 \<and> ex_bal (w_tokens w') 40 = 9300"
proof -
  let ?w = "ex_world\<lparr>w_ooa := ex_rich\<rparr>"
  obtain w' where s: "ix_settle_funds ex_runtime ex_settle_ctx ?w = Ok w'" using ex_settle_runs by blast
  have p: "payees_ok ex_settle_ctx (w_market ?w)"
    by (simp add: payees_ok_def ex_settle_ctx_def token_acc_def ex_market_def)
  show ?thesis
    using s settling_pays_free_funds [OF ex_token_laws s ex_world_typed(2) p]
    by (simp add: ex_settle_ctx_def token_acc_def ex_bal_def ex_world_def ex_rich_def)
qed

text \<open>C31: a delegate cannot divert funds: unless the owner signs, both token accounts that
  settled funds go to belong to the owner.\<close>

theorem delegate_settles_to_owner:
  assumes "ix_settle_funds rt cx w = Ok w'"
  shows "sf_owner cx = oo_owner (w_ooa w) \<or>
    ta_owner (sf_user_base_account cx) = oo_owner (w_ooa w) \<and>
    ta_owner (sf_user_quote_account cx) = oo_owner (w_ooa w)"
  by (rule settle_destination [OF assms])

theorem delegate_settles_to_owner_witness:
  "\<exists>w'. ix_settle_funds ex_runtime ex_settle_ctx (ex_world\<lparr>w_ooa := ex_rich\<rparr>) = Ok w' \<and>
     (sf_owner ex_settle_ctx = 30 \<or> ta_owner (sf_user_base_account ex_settle_ctx) = 30)"
proof -
  obtain w' where s: "ix_settle_funds ex_runtime ex_settle_ctx (ex_world\<lparr>w_ooa := ex_rich\<rparr>) = Ok w'"
    using ex_settle_runs by blast
  show ?thesis
    using s delegate_settles_to_owner [OF s] by (auto simp: ex_rich_def ex_account_def)
qed

text \<open>C32: a market starts sound. A market that \<open>create_market\<close> admits has fees that never pay more
  in rebates than the taker pays, positive lot sizes, distinct mints, a trading period that has not
  ended, nothing deposited, an empty sound book and an empty well-formed event heap.\<close>

theorem created_market_is_sound:
  assumes "ix_create_market widen kind ck cx name cfg ql bl mk tk expiry ob h = Ok (m, ob', h')"
    and "ob = zeroed_book ty n" and "int n < U32_MAX"
    and "0 < length (ev_nodes h)" and "length (ev_nodes h) < NO_NODE"
  shows "market_ok m \<and> vaults_ok m = (cr_market_base_vault cx \<noteq> cr_market_quote_vault cx) \<and>
    base_mint m \<noteq> quote_mint m \<and> \<not> market_is_expired m (ck_unix_timestamp ck) \<and> market_is_empty m \<and>
    sound_book ob' \<and> (\<forall>s c. side_orders (bookside ob' s) c = []) \<and> good_heap h' \<and> heap_queue h' = []"
  by (rule create_market_sound [OF assms])

theorem created_market_is_sound_witness:
  "\<exists>m ob h. ix_create_market (\<lambda>_. 0) (\<lambda>_. Ok Stub) ex_clock ex_create_ctx []
     \<lparr>ocp_conf_filter = 0, ocp_max_staleness_slots = None\<rparr> 10 100 (-200) 400 0 (zeroed_book Bids 4) zeroed_heap =
     Ok (m, ob, h) \<and> market_ok m \<and> sound_book ob \<and> good_heap h"
proof -
  obtain m ob h where c: "ix_create_market (\<lambda>_. 0) (\<lambda>_. Ok Stub) ex_clock ex_create_ctx []
     \<lparr>ocp_conf_filter = 0, ocp_max_staleness_slots = None\<rparr> 10 100 (-200) 400 0 (zeroed_book Bids 4) zeroed_heap =
     Ok (m, ob, h)" using ex_create_runs by blast
  show ?thesis
    using c created_market_is_sound [OF c refl] by (auto simp: zeroed_heap_def NO_NODE_def int_limits)
qed



section \<open>Oracle prices\<close>

text \<open>C34: no price without a good oracle. If an instruction reads a price in lots for a market, the market has
  an oracle, the account given is that oracle, it can be read, and it was updated within the
  configured number of slots. If the market has no second oracle, the confidence filter accepts the
  first; if it has one, that account too is the market's, readable and fresh, and the filter
  accepts the two together. A stub oracle among them is an account of this program with the stub
  oracle's discriminator, and an oracle of any other kind does not report a price below zero.\<close>

theorem oracle_price_is_checked:
  assumes "instruction_oracle_price env m info_a info_b now = Ok (Some l)"
    and "0 < now" and "is_i64 (max_staleness_slots (m_oracle_config m))"
  defines "good \<equiv> \<lambda>info key st. \<exists>ai acc. info = Some ai \<and> ai_key ai = key \<and> ref_borrow ai = Ok acc \<and>
    oracle_state_unchecked env acc = Ok st \<and> fresh (m_oracle_config m) now st \<and>
    (os_type st = Stub \<longrightarrow> ai_owner ai = zc_owner (oe_stub env) \<and>
       take 8 (ar_data acc) = zc_discriminator (oe_stub env)) \<and>
    (os_type st \<noteq> Stub \<longrightarrow> \<not> f_lt (os_price st) 0)"
  shows "oracle_a m \<noteq> 0 \<and> (\<exists>st. good info_a (oracle_a m) st \<and>
    (if oracle_b m = 0 then has_valid_confidence st (m_oracle_config m)
     else \<exists>st'. good info_b (oracle_b m) st' \<and> has_valid_combined_confidence st st' (m_oracle_config m)))"
proof -
  obtain a b p where ab: "ref_borrow_some info_a = Ok a" "ref_borrow_some info_b = Ok b"
      and p: "oracle_price env m a b now = Ok (Some p)"
    using assms(1) by (auto simp: instruction_oracle_price_def res_simps elim: oracle_price_lots_ok)
  have good: "good info key st"
    if "ref_borrow_some info = Ok (Some acc)" "ar_key acc = key" "oracle_state_unchecked env acc = Ok st"
      "\<not> is_stale st (m_oracle_config m) now" for info key acc st
    using ref_borrow_someE [OF that(1)] not_stale_fresh [OF that(4) assms(3,2)] stub_state_owned [OF that(3)]
      state_not_negative [OF that(3)] that(2,3) unfolding good_def by metis
  consider (two) x y where "oracle_a m \<noteq> 0" "oracle_b m \<noteq> 0" "a = Some x" "b = Some y"
      "oracle_price_from_a_and_b env m x y now = Ok (Some p)"
    | (one) x where "oracle_a m \<noteq> 0" "oracle_b m = 0" "a = Some x" "oracle_price_from_a env m x now = Ok (Some p)"
    using p by (auto simp: oracle_price_def nz_is_some_def res_simps split: if_splits)
  then show ?thesis
  proof cases
    case two
    then show ?thesis using ab by (auto elim!: oracle_price_from_a_and_b_ok intro!: good)
  next
    case one
    then show ?thesis using ab by (auto elim!: oracle_price_from_a_ok intro!: good)
  qed
qed

theorem oracle_price_is_checked_witness:
  "\<exists>st. oracle_state_unchecked (ex_env ex_stub) ex_oracle_acc = Ok st \<and>
     fresh (m_oracle_config ex_oracle_market) 200 st \<and>
     has_valid_confidence st (m_oracle_config ex_oracle_market)"
  using oracle_price_is_checked [OF ex_instruction_price] ex_borrow
  by (auto simp: ex_oracle_market_def ex_market_def int_ranges int_limits)



text \<open>C36: the confidence check is exact up to rounding. For finite numbers, filter and price not
  negative, an oracle whose deviation is at most filter times price over the reals is always
  accepted, however the product is rounded; and the deviation of an accepted one exceeds filter times
  price by at most a relative 2^-53 and half of the least double.\<close>

theorem confidence_check_is_exact:
  assumes "plain_confidence cfg st"
  shows "(f_val (os_deviation st) \<le> f_val (conf_filter cfg) * f_val (os_price st) \<longrightarrow>
      has_valid_confidence st cfg) \<and>
    (has_valid_confidence st cfg \<longrightarrow> f_val (os_deviation st)
      \<le> f_val (conf_filter cfg) * f_val (os_price st) * (1 + 1 / 2 ^ 53) + 1 / 2 ^ 1075)"
  using confidence_within [OF assms] confidence_bound [OF assms] by blast

theorem confidence_check_is_exact_witness:
  "f_val (os_deviation ex_stub_state)
     \<le> f_val (conf_filter (m_oracle_config ex_oracle_market)) * f_val (os_price ex_stub_state) * (1 + 1 / 2 ^ 53)
       + 1 / 2 ^ 1075"
  using confidence_check_is_exact [OF ex_plain] ex_confident by blast


section \<open>The client\<close>

text \<open>C37: the client's view of the book is the program's. For a market order of a taker without an
  open-orders account, on any sound book, \<open>amounts_from_book\<close> returns, with the book, time and oracle
  price the program has, exactly the base and quote amounts that \<open>new_order\<close> takes; its \<open>fee\<close> is the
  part of the taker's fees that goes to the makers as rebates. Expired and out-of-range orders
  are passed over alike, and the limit of 45 orders and the rounding of fees agree.\<close>

theorem client_amounts_agree:
  assumes "new_order ob order owner now_ts MAXIMUM_TAKEN_ORDERS opl ac = Ok (r, ob', ac')"
    and "o_params order = MarketParams" and "ac_ooa ac = None" and "sound_book ob"
    and "to_lots price_to_lot (ac_market ac) p = Ok opl"
  shows "\<exists>am. amounts_from_book price_to_lot ob (o_side order) (o_max_base_lots order)
      (o_max_quote_lots_including_fees order) (ac_market ac) p now_ts = Ok am \<and>
    am_base_native am = oa_total_base_taken_native r \<and> am_quote_native am = oa_total_quote_taken_native r \<and>
    (0 < oa_total_quote_taken_native r \<longrightarrow> am_fee am = oa_taker_fees r - oa_referrer_amount r)"
  by (rule amounts_follow [OF assms])

theorem client_amounts_agree_witness:
  "\<exists>am. amounts_from_book (\<lambda>_ (_ :: unit). Inl Panic) ex_book Bid 92233720368547758 60 ex_market None 0 = Ok am \<and>
     am_quote_native am = 400"
proof -
  obtain r ob ac where n: "new_order ex_book ex_swap_order 30 0 MAXIMUM_TAKEN_ORDERS None ex_taker = Ok (r, ob, ac)"
      and r: "oa_total_quote_taken_native r = 400"
    using ex_swap_order_runs by blast
  show ?thesis
    using client_amounts_agree [OF n _ _ ex_book_sound, of "\<lambda>_ (_ :: unit). Inl Panic" None] r
    by (auto simp: to_lots_def)
qed



section \<open>Fees and keys\<close>

text \<open>C39: \<open>subtract_taker_fees\<close> gives the largest quote amount that can be taken out of a budget
  fees included: with its fee, rounded up, it fits in the budget, and one more lot does not.\<close>

theorem subtract_taker_fees_maximal:
  assumes "fee_ok m" and "0 \<le> quote" "quote \<le> I64_MAX"
  shows "\<exists>r. subtract_taker_fees m quote = Ok r \<and> 0 \<le> r \<and> r \<le> quote \<and>
    r + ceil_div (r * taker_fee m) FEES_SCALE_FACTOR \<le> quote \<and>
    quote < r + 1 + ceil_div ((r + 1) * taker_fee m) FEES_SCALE_FACTOR"
  by (rule subtract_taker_fees_spec [OF assms])

theorem subtract_taker_fees_maximal_witness:
  "\<exists>r. subtract_taker_fees ex_market 200 = Ok r \<and> r \<le> 200 \<and>
     r + ceil_div (r * 400) 1000000 \<le> 200"
proof -
  have "taker_fee ex_market = 400" by (simp add: ex_market_def)
  then show ?thesis
    using subtract_taker_fees_maximal [OF ex_market_fees(1), of 200]
    by (auto simp: int_limits FEES_SCALE_FACTOR_def)
qed

text \<open>C40: price-time priority is the order of the keys: a larger price makes a larger key, and
  at one price an earlier bid has the larger key, an earlier ask the smaller; orders with
  different price data or sequence number have different keys.\<close>

theorem key_priority:
  "(new_node_key s p m < new_node_key s q n \<longleftrightarrow>
      p < q \<or> p = q \<and> (if s = Bid then n < m else m < n)) \<and>
   (new_node_key s p m = new_node_key s q n \<longleftrightarrow> p = q \<and> m = n)"
  using new_node_key_less new_node_key_inj by blast

end
